(* ===== verification/Js_String.thy ===== *)
theory Js_String
  imports Prelude "HOL-Library.List_Lexorder"
begin

text \<open>
  JavaScript strings and the text functions of the standard library that the sources
  use. A string is the list of its UTF-16 code units, so \<open>length\<close> is \<open>value.length\<close> and
  \<open>!\<close> is \<open>value.charCodeAt\<close>. The comparison \<open>left < right\<close> of the language is the
  lexicographic order of the lists (HOL-Library.List\_Lexorder). Bytes are natural
  numbers below 256.
\<close>

type_synonym jsstring = "nat list"
type_synonym bytes = "nat list"

text \<open>A literal of the source; every literal the sources compare with is ASCII.\<close>

definition js :: "string \<Rightarrow> jsstring" where
  "js s = map of_char s"

lemma js_eq_iff [simp]: "js s = js t \<longleftrightarrow> s = t"
  unfolding js_def by (rule inj_map_eq_map) (simp add: inj_def)

lemma length_js [simp]: "length (js s) = length s"
  by (simp add: js_def)

lemma js_Nil [simp]: "js [] = []"
  by (simp add: js_def)

lemma js_eq_Nil [simp]: "js s = [] \<longleftrightarrow> s = []"
  by (simp add: js_def)

lemma js_append: "js (s @ t) = js s @ js t"
  by (simp add: js_def)

section \<open>Character classes of the regular expressions\<close>

definition is_digit :: "nat \<Rightarrow> bool" where
  "is_digit u = (48 \<le> u \<and> u \<le> 57)"

definition is_lower :: "nat \<Rightarrow> bool" where
  "is_lower u = (97 \<le> u \<and> u \<le> 122)"

definition is_upper :: "nat \<Rightarrow> bool" where
  "is_upper u = (65 \<le> u \<and> u \<le> 90)"

definition is_alnum :: "nat \<Rightarrow> bool" where
  "is_alnum u = (is_digit u \<or> is_lower u \<or> is_upper u)"

text \<open>\<open>[0-9a-f]\<close> and \<open>[0-9a-fA-F]\<close>.\<close>

definition is_lower_hex :: "nat \<Rightarrow> bool" where
  "is_lower_hex u = (is_digit u \<or> (97 \<le> u \<and> u \<le> 102))"

definition is_hex :: "nat \<Rightarrow> bool" where
  "is_hex u = (is_lower_hex u \<or> (65 \<le> u \<and> u \<le> 70))"

text \<open>\<open>[\u0000-\u001f\u007f]\<close>.\<close>

definition is_control :: "nat \<Rightarrow> bool" where
  "is_control u = (u < 32 \<or> u = 127)"

text \<open>\<open>[A-Za-z0-9_-]\<close>, the base64url alphabet, and \<open>[A-Za-z0-9+/]\<close>, the base64 one.\<close>

definition is_base64url :: "nat \<Rightarrow> bool" where
  "is_base64url u = (is_alnum u \<or> u = 95 \<or> u = 45)"

definition is_base64 :: "nat \<Rightarrow> bool" where
  "is_base64 u = (is_alnum u \<or> u = 43 \<or> u = 47)"

text \<open>\<open>/^[...]{n}$/\<close>.\<close>

definition exactly :: "(nat \<Rightarrow> bool) \<Rightarrow> nat \<Rightarrow> jsstring \<Rightarrow> bool" where
  "exactly p n s = (length s = n \<and> list_all p s)"

text \<open>\<open>/^prefix[0-9a-f]{32}$/\<close>, the shape of every generated identifier.\<close>

definition tagged_hex32 :: "string \<Rightarrow> jsstring \<Rightarrow> bool" where
  "tagged_hex32 tag s = (take (length tag) s = js tag \<and> exactly is_lower_hex 32 (drop (length tag) s))"

section \<open>String methods\<close>

definition starts_with :: "jsstring \<Rightarrow> jsstring \<Rightarrow> bool" where
  "starts_with s p = (take (length p) s = p)"

definition ends_with :: "jsstring \<Rightarrow> jsstring \<Rightarrow> bool" where
  "ends_with s p = (length p \<le> length s \<and> drop (length s - length p) s = p)"

fun includes_str :: "jsstring \<Rightarrow> jsstring \<Rightarrow> bool" where
  "includes_str [] p = (p = [])"
| "includes_str (u # s) p = (starts_with (u # s) p \<or> includes_str s p)"

text \<open>\<open>value.indexOf(c, from)\<close> for a one-unit needle, \<open>None\<close> for -1.\<close>

definition index_of :: "nat \<Rightarrow> nat \<Rightarrow> jsstring \<Rightarrow> nat option" where
  "index_of c from_index s = map_option (\<lambda>i. from_index + i) (find_index (\<lambda>u. u = c) (drop from_index s))"

text \<open>\<open>value.split(c)\<close> for a one-unit separator.\<close>

fun split_on :: "nat \<Rightarrow> jsstring \<Rightarrow> jsstring list" where
  "split_on c [] = [[]]"
| "split_on c (u # s) =
     (if u = c then [] # split_on c s
      else (case split_on c s of [] \<Rightarrow> [[u]] | w # ws \<Rightarrow> (u # w) # ws))"

text \<open>\<open>parts.join(c)\<close> for a one-unit separator.\<close>

fun join_with :: "nat \<Rightarrow> jsstring list \<Rightarrow> jsstring" where
  "join_with c [] = []"
| "join_with c [w] = w"
| "join_with c (w # v # ws) = w @ c # join_with c (v # ws)"

text \<open>White space and line terminators, as \<open>trim\<close> removes them.\<close>

definition is_space :: "nat \<Rightarrow> bool" where
  "is_space u = (9 \<le> u \<and> u \<le> 13 \<or> u = 32 \<or> u = 160 \<or> u = 5760 \<or> 8192 \<le> u \<and> u \<le> 8202
     \<or> u = 8232 \<or> u = 8233 \<or> u = 8239 \<or> u = 8287 \<or> u = 12288 \<or> u = 65279)"

definition trim :: "jsstring \<Rightarrow> jsstring" where
  "trim s = rev (dropWhile is_space (rev (dropWhile is_space s)))"

text \<open>\<open>toLowerCase\<close> on the units \<open>A-Z\<close>; it is used on strings already matched against ASCII classes.\<close>

definition lower_unit :: "nat \<Rightarrow> nat" where
  "lower_unit u = (if is_upper u then u + 32 else u)"

definition to_lower :: "jsstring \<Rightarrow> jsstring" where
  "to_lower s = map lower_unit s"

lemma split_on_not_Nil [simp]: "split_on c s \<noteq> []"
  by (induction c s rule: split_on.induct) (auto split: list.splits)

lemma join_split: "join_with c (split_on c s) = s"
proof (induction c s rule: split_on.induct)
  case (1 c)
  show ?case by simp
next
  case (2 c u s)
  then show ?case by (cases "split_on c s"; cases "tl (split_on c s)") auto
qed

lemma split_on_no_sep: "c \<notin> set w \<Longrightarrow> split_on c w = [w]"
  by (induction w) auto

lemma split_on_append: "c \<notin> set w \<Longrightarrow> split_on c (w @ c # s) = w # split_on c s"
  by (induction w) auto

lemma split_join: "ws \<noteq> [] \<Longrightarrow> \<forall>w \<in> set ws. c \<notin> set w \<Longrightarrow> split_on c (join_with c ws) = ws"
  by (induction c ws rule: join_with.induct) (auto simp: split_on_no_sep split_on_append)

lemma split_on_parts: "w \<in> set (split_on c s) \<Longrightarrow> c \<notin> set w"
  by (induction c s arbitrary: w rule: split_on.induct) (auto split: list.splits if_splits)

text \<open>
  A path that stays below the directory it starts from, whatever that is: names joined by slashes,
  none of which is empty, the directory itself, its parent, or contains a NUL.
\<close>

definition safe_path :: "jsstring \<Rightarrow> bool" where
  "safe_path p = (\<exists>segments. p = join_with 47 segments \<and> segments \<noteq> [] \<and>
     (\<forall>w \<in> set segments. w \<noteq> [] \<and> w \<noteq> [46] \<and> w \<noteq> [46, 46] \<and> 47 \<notin> set w \<and> 0 \<notin> set w))"

lemma split_parts_subset: "w \<in> set (split_on c s) \<Longrightarrow> set w \<subseteq> set s"
  by (induction s arbitrary: w) (force split: list.splits if_splits)+

lemma split_safe:
  assumes "0 \<notin> set p" and "\<And>w. w \<in> set (split_on 47 p) \<Longrightarrow> w \<noteq> [] \<and> w \<noteq> [46] \<and> w \<noteq> [46, 46]"
  shows "safe_path p"
  unfolding safe_path_def
  by (intro exI [of _ "split_on 47 p"])
    (use assms split_on_parts [of _ 47 p] split_parts_subset [of _ 47 p] in \<open>auto simp: join_split\<close>)

lemma starts_with_append [simp]: "starts_with (p @ s) p"
  by (simp add: starts_with_def)

lemma starts_with_iff: "starts_with s p \<longleftrightarrow> (\<exists>t. s = p @ t)"
  unfolding starts_with_def by (metis append_eq_conv_conj append_take_drop_id)

lemma ends_with_iff: "ends_with s p \<longleftrightarrow> (\<exists>t. s = t @ p)"
proof
  assume "ends_with s p"
  then have "s = take (length s - length p) s @ p"
    unfolding ends_with_def by (metis append_take_drop_id)
  then show "\<exists>t. s = t @ p" by blast
qed (auto simp: ends_with_def)

lemma length_to_lower [simp]: "length (to_lower s) = length s"
  by (simp add: to_lower_def)

lemma lower_hex_of_hex: "is_hex u \<Longrightarrow> is_lower_hex (lower_unit u)"
  by (auto simp: is_hex_def is_lower_hex_def lower_unit_def is_upper_def is_digit_def)

lemma lower_hex_fixed: "is_lower_hex u \<Longrightarrow> lower_unit u = u"
  by (auto simp: is_lower_hex_def lower_unit_def is_upper_def is_digit_def)

lemma is_hex_of_lower_hex: "is_lower_hex u \<Longrightarrow> is_hex u"
  by (simp add: is_hex_def)

lemma to_lower_hex: "list_all is_hex s \<Longrightarrow> list_all is_lower_hex (to_lower s)"
  by (simp add: to_lower_def list_all_iff lower_hex_of_hex)

lemma to_lower_idem_hex: "list_all is_lower_hex s \<Longrightarrow> to_lower s = s"
  by (simp add: to_lower_def list_all_iff lower_hex_fixed map_idI)

end
