(* ===== verification/Utf8.thy ===== *)
theory Utf8
  imports Js_String
begin

text \<open>
  The text codecs of the JavaScript runtime: iteration of a string by code point
  (\<open>for (const c of value)\<close>, \<open>Array.from(value)\<close>), \<open>TextEncoder\<close> and
  \<open>Buffer.byteLength(value, "utf8")\<close>, which replace a lone surrogate by U+FFFD, and the
  fatal \<open>TextDecoder\<close>, which skips a leading byte order mark and rejects ill-formed
  input. The lemmas show that decoding inverts encoding on well-formed strings and how
  byte lengths add up over code points.
\<close>

definition is_high :: "nat \<Rightarrow> bool" where
  "is_high u = (0xD800 \<le> u \<and> u \<le> 0xDBFF)"

definition is_low :: "nat \<Rightarrow> bool" where
  "is_low u = (0xDC00 \<le> u \<and> u \<le> 0xDFFF)"

text \<open>The code points of a string, each as its one or two code units.\<close>

fun code_points :: "jsstring \<Rightarrow> jsstring list" where
  "code_points [] = []"
| "code_points [u] = [[u]]"
| "code_points (u # v # s) =
     (if is_high u \<and> is_low v then [u, v] # code_points s else [u] # code_points (v # s))"

definition point_value :: "jsstring \<Rightarrow> nat" where
  "point_value p = (case p of
     [u, v] \<Rightarrow> 0x10000 + (u - 0xD800) * 1024 + (v - 0xDC00)
   | u # _ \<Rightarrow> (if is_high u \<or> is_low u then 0xFFFD else u)
   | [] \<Rightarrow> 0xFFFD)"

definition utf8_point :: "nat \<Rightarrow> bytes" where
  "utf8_point n =
     (if n < 0x80 then [n]
      else if n < 0x800 then [192 + n div 64, 128 + n mod 64]
      else if n < 0x10000 then [224 + n div 4096, 128 + n div 64 mod 64, 128 + n mod 64]
      else [240 + n div 262144, 128 + n div 4096 mod 64, 128 + n div 64 mod 64, 128 + n mod 64])"

definition utf8_encode :: "jsstring \<Rightarrow> bytes" where
  "utf8_encode s = concat (map (\<lambda>p. utf8_point (point_value p)) (code_points s))"

definition byte_length :: "jsstring \<Rightarrow> nat" where
  "byte_length s = length (utf8_encode s)"

definition is_cont :: "nat \<Rightarrow> bool" where
  "is_cont b = (128 \<le> b \<and> b \<le> 191)"

fun utf8_points :: "bytes \<Rightarrow> nat list option" where
  "utf8_points [] = Some []"
| "utf8_points (b # bs) =
     (if b < 128 then map_option ((#) b) (utf8_points bs)
      else if 194 \<le> b \<and> b \<le> 223 then
        (case bs of c # r \<Rightarrow>
           if is_cont c then map_option ((#) ((b - 192) * 64 + (c - 128))) (utf8_points r) else None
         | [] \<Rightarrow> None)
      else if 224 \<le> b \<and> b \<le> 239 then
        (case bs of c # d # r \<Rightarrow>
           if is_cont c \<and> is_cont d \<and> (b = 224 \<longrightarrow> 160 \<le> c) \<and> (b = 237 \<longrightarrow> c \<le> 159)
           then map_option ((#) ((b - 224) * 4096 + (c - 128) * 64 + (d - 128))) (utf8_points r)
           else None
         | _ \<Rightarrow> None)
      else if 240 \<le> b \<and> b \<le> 244 then
        (case bs of c # d # e # r \<Rightarrow>
           if is_cont c \<and> is_cont d \<and> is_cont e \<and> (b = 240 \<longrightarrow> 144 \<le> c) \<and> (b = 244 \<longrightarrow> c \<le> 143)
           then map_option
             ((#) ((b - 240) * 262144 + (c - 128) * 4096 + (d - 128) * 64 + (e - 128))) (utf8_points r)
           else None
         | _ \<Rightarrow> None)
      else None)"

definition utf16_point :: "nat \<Rightarrow> jsstring" where
  "utf16_point n =
     (if n < 0x10000 then [n]
      else [0xD800 + (n - 0x10000) div 1024, 0xDC00 + (n - 0x10000) mod 1024])"

definition strip_bom :: "bytes \<Rightarrow> bytes" where
  "strip_bom bs = (if take 3 bs = [239, 187, 191] then drop 3 bs else bs)"

text \<open>\<open>new TextDecoder("utf-8", { fatal: true }).decode(bytes)\<close>; \<open>None\<close> is the thrown error.\<close>

definition utf8_decode :: "bytes \<Rightarrow> jsstring option" where
  "utf8_decode bs = map_option (\<lambda>ns. concat (map utf16_point ns)) (utf8_points (strip_bom bs))"

section \<open>Well-formed strings\<close>

definition scalar :: "nat \<Rightarrow> bool" where
  "scalar n = (n < 0xD800 \<or> 0xE000 \<le> n \<and> n \<le> 0x10FFFF)"

definition good_point :: "jsstring \<Rightarrow> bool" where
  "good_point p = (case p of
     [u, v] \<Rightarrow> is_high u \<and> is_low v
   | [u] \<Rightarrow> u < 0x10000 \<and> \<not> is_high u \<and> \<not> is_low u
   | _ \<Rightarrow> False)"

text \<open>No lone surrogate, and every unit a 16-bit value.\<close>

definition well_formed :: "jsstring \<Rightarrow> bool" where
  "well_formed s = list_all good_point (code_points s)"

lemma concat_code_points: "concat (code_points s) = s"
  by (induction s rule: code_points.induct) auto

lemma code_points_not_Nil: "p \<in> set (code_points s) \<Longrightarrow> p \<noteq> []"
  by (induction s rule: code_points.induct) (auto split: if_splits)

lemma code_points_length: "p \<in> set (code_points s) \<Longrightarrow> length p \<le> 2"
  by (induction s rule: code_points.induct) (auto split: if_splits)

lemma utf16_point_value: "good_point p \<Longrightarrow> utf16_point (point_value p) = p"
  by (auto simp: good_point_def point_value_def utf16_point_def is_high_def is_low_def
      split: list.splits)

lemma scalar_point_value: "good_point p \<Longrightarrow> scalar (point_value p)"
  by (auto simp: good_point_def point_value_def scalar_def is_high_def is_low_def
      split: list.splits)

lemma utf16_of_code_points:
  "list_all good_point ps \<Longrightarrow> concat (map (\<lambda>p. utf16_point (point_value p)) ps) = concat ps"
  by (induction ps) (auto simp: utf16_point_value)

lemma well_formed_last: "well_formed s \<Longrightarrow> s \<noteq> [] \<Longrightarrow> \<not> is_high (last s)"
  by (induction s rule: code_points.induct)
    (auto simp: well_formed_def good_point_def is_high_def is_low_def split: if_splits)

lemma well_formed_Nil [simp]: "well_formed []"
  by (simp add: well_formed_def)

section \<open>Decoding inverts encoding\<close>

lemma split_64:
  fixes n :: nat
  shows "n div 64 * 64 + n mod 64 = n" and "n div 4096 = n div 64 div 64"
    and "n div 262144 = n div 64 div 64 div 64"
  by (simp_all add: div_mult2_eq [symmetric])

lemma utf8_points_one:
  assumes "scalar n"
  shows "utf8_points (utf8_point n @ bs) = map_option ((#) n) (utf8_points bs)"
proof -
  consider "n < 0x80" | "0x80 \<le> n" "n < 0x800" | "0x800 \<le> n" "n < 0x10000"
    | "0x10000 \<le> n" "n \<le> 0x10FFFF"
    using assms unfolding scalar_def by linarith
  then show ?thesis
  proof cases
    case 1
    then show ?thesis by (simp add: utf8_point_def)
  next
    case 2
    define q where "q = n div 64"
    define t where "t = n mod 64"
    have n: "n = q * 64 + t" and "t < 64"
      unfolding q_def t_def by (auto simp: split_64(1))
    moreover have "2 \<le> q" "q \<le> 31" using 2 n \<open>t < 64\<close> by auto
    ultimately show ?thesis using 2
      by (simp add: utf8_point_def is_cont_def flip: q_def t_def)
  next
    case 3
    define q where "q = n div 4096"
    define r where "r = n div 64 mod 64"
    define t where "t = n mod 64"
    have n: "n = q * 4096 + r * 64 + t"
      unfolding q_def r_def t_def split_64(2)
      using split_64(1) [of n] split_64(1) [of "n div 64"] by linarith
    have "r < 64" "t < 64" by (simp_all add: r_def t_def)
    note bounds = this
    have "q \<le> 15" "q = 0 \<longrightarrow> 32 \<le> r" "q = 13 \<longrightarrow> r \<le> 31"
      using 3 assms n bounds unfolding scalar_def by auto
    note bounds = this bounds
    have "utf8_point n = [224 + q, 128 + r, 128 + t]"
      using 3 by (simp add: utf8_point_def q_def r_def t_def)
    then show ?thesis using bounds by (simp add: is_cont_def n [symmetric])
  next
    case 4
    define q where "q = n div 262144"
    define w where "w = n div 4096 mod 64"
    define r where "r = n div 64 mod 64"
    define t where "t = n mod 64"
    have n: "n = q * 262144 + w * 4096 + r * 64 + t"
      unfolding q_def w_def r_def t_def split_64(2,3)
      using split_64(1) [of n] split_64(1) [of "n div 64"] split_64(1) [of "n div 64 div 64"]
      by linarith
    have "w < 64" "r < 64" "t < 64" by (simp_all add: w_def r_def t_def)
    note bounds = this
    have "q \<le> 4" "q = 0 \<longrightarrow> 16 \<le> w" "q = 4 \<longrightarrow> w \<le> 15"
      using 4 n bounds by auto
    note bounds = this bounds
    have "utf8_point n = [240 + q, 128 + w, 128 + r, 128 + t]"
      using 4 by (simp add: utf8_point_def q_def w_def r_def t_def)
    then show ?thesis using bounds by (simp add: is_cont_def n [symmetric])
  qed
qed

lemma utf8_points_concat:
  "list_all scalar ns \<Longrightarrow> utf8_points (concat (map utf8_point ns)) = Some ns"
  by (induction ns) (auto simp: utf8_points_one)

lemma utf8_points_encode:
  "well_formed s \<Longrightarrow> utf8_points (utf8_encode s) = Some (map point_value (code_points s))"
  using utf8_points_concat [of "map point_value (code_points s)"]
  by (auto simp: well_formed_def utf8_encode_def list_all_iff scalar_point_value comp_def)

lemma utf8_decode_encode:
  assumes wf: "well_formed s" and bom: "take 3 (utf8_encode s) \<noteq> [239, 187, 191]"
  shows "utf8_decode (utf8_encode s) = Some s"
  using wf bom
  by (auto simp: utf8_decode_def strip_bom_def utf8_points_encode comp_def well_formed_def
      utf16_of_code_points concat_code_points)

section \<open>Byte lengths\<close>

lemma byte_length_points:
  "byte_length s = (\<Sum>p \<leftarrow> code_points s. length (utf8_point (point_value p)))"
  by (simp add: byte_length_def utf8_encode_def length_concat comp_def)

lemma utf8_point_length: "1 \<le> length (utf8_point n) \<and> length (utf8_point n) \<le> 4"
  by (simp add: utf8_point_def)

lemma byte_length_Nil [simp]: "byte_length [] = 0"
  by (simp add: byte_length_def utf8_encode_def)

lemma code_points_ascii: "list_all (\<lambda>u. u < 128) s \<Longrightarrow> code_points s = map (\<lambda>u. [u]) s"
  by (induction s rule: code_points.induct) (auto simp: is_high_def)

lemma utf8_encode_ascii: "list_all (\<lambda>u. u < 128) s \<Longrightarrow> utf8_encode s = s"
proof (induction s)
  case Nil
  show ?case by (simp add: utf8_encode_def)
next
  case (Cons u s)
  then show ?case
    by (auto simp: utf8_encode_def code_points_ascii point_value_def utf8_point_def is_high_def
        is_low_def comp_def)
qed

lemma byte_length_ascii: "list_all (\<lambda>u. u < 128) s \<Longrightarrow> byte_length s = length s"
  by (simp add: byte_length_def utf8_encode_ascii)

text \<open>Joining whole code points again does not merge them, so a prefix by code points keeps its points.\<close>

lemma code_points_append:
  assumes "s = [] \<or> t = [] \<or> \<not> (is_high (last s) \<and> is_low (hd t))"
  shows "code_points (s @ t) = code_points s @ code_points t"
  using assms
proof (induction s rule: code_points.induct)
  case 1
  show ?case by simp
next
  case (2 u)
  then show ?case by (cases t) auto
next
  case (3 u v s)
  then show ?case by (cases s) (auto split: if_splits simp: is_high_def is_low_def)
qed

lemma well_formed_append [intro]: "well_formed s \<Longrightarrow> well_formed t \<Longrightarrow> well_formed (s @ t)"
  using well_formed_last [of s]
  by (cases "s = []") (auto simp: well_formed_def code_points_append)

lemma well_formed_concat: "list_all well_formed ss \<Longrightarrow> well_formed (concat ss)"
  by (induction ss) auto

lemma well_formed_ascii: "list_all (\<lambda>u. u < 128) s \<Longrightarrow> well_formed s"
  by (induction s)
    (auto simp: well_formed_def code_points_ascii good_point_def list_all_iff is_high_def is_low_def)

lemma code_points_units: "p \<in> set (code_points s) \<Longrightarrow> set p \<subseteq> set s"
  by (induction s rule: code_points.induct) (auto split: if_splits)

lemma code_points_pair: "[u, v] \<in> set (code_points s) \<Longrightarrow> is_high u \<and> is_low v"
  by (induction s rule: code_points.induct) (auto split: if_splits)

lemma code_points_prefix:
  "code_points (concat (take n (code_points s))) = take n (code_points s)"
proof (induction s arbitrary: n rule: code_points.induct)
  case 1
  show ?case by simp
next
  case (2 u)
  show ?case by (cases n) auto
next
  case (3 u v s)
  show ?case
  proof (cases n)
    case 0
    then show ?thesis by simp
  next
    case (Suc m)
    show ?thesis
    proof (cases "is_high u \<and> is_low v")
      case True
      have "code_points ([u, v] @ concat (take m (code_points s)))
        = code_points [u, v] @ code_points (concat (take m (code_points s)))"
        by (rule code_points_append) (use True in \<open>auto simp: is_high_def is_low_def\<close>)
      with True Suc "3.IH"(1) [of m] show ?thesis by simp
    next
      case False
      have hd: "hd (concat (take m (code_points (v # s)))) = v" if "0 < m"
        using that by (cases m; cases s) auto
      have "code_points ([u] @ concat (take m (code_points (v # s))))
        = code_points [u] @ code_points (concat (take m (code_points (v # s))))"
        by (rule code_points_append) (use False hd in \<open>cases m, auto\<close>)
      moreover have "code_points (u # v # s) = [u] # code_points (v # s)"
        using False by auto
      ultimately show ?thesis using False Suc "3.IH"(2) [of m] by (simp del: code_points.simps(3))
    qed
  qed
qed

lemma byte_length_prefix:
  "byte_length (concat (take n (code_points s)))
     = (\<Sum>p \<leftarrow> take n (code_points s). length (utf8_point (point_value p)))"
  by (simp add: byte_length_points code_points_prefix)

lemma byte_length_prefix_mono:
  assumes "m \<le> n"
  shows "byte_length (concat (take m (code_points s))) \<le> byte_length (concat (take n (code_points s)))"
proof -
  obtain k where "n = m + k" using assms le_Suc_ex by blast
  then show ?thesis
    unfolding byte_length_prefix by (simp add: take_add)
qed

end
