(* ===== verification/Json.thy ===== *)
theory Json
  imports Utf8
begin

text \<open>
  JSON values, which is what every \<open>unknown\<close> of the sources holds at run time: the result
  of \<open>JSON.parse\<close>, a kernel reply, or the content of a state file. \<open>undefined\<close> is \<open>None\<close> of \<open>json option\<close>. Numbers are \<open>JNum\<close> when their value is an integer and
  \<open>JFrac\<close>, with their decimal text, otherwise. An object is its list of fields in
  insertion order; \<open>JSON.parse\<close> and object literals give distinct keys.
\<close>

datatype json =
    JNull
  | JBool bool
  | JNum int
  | JFrac jsstring
  | JStr jsstring
  | JArr "json list"
  | JObj "(jsstring \<times> json) list"

type_synonym fields = "(jsstring \<times> json) list"

abbreviation max_safe :: int where
  "max_safe \<equiv> 9007199254740991"

section \<open>Inspection of unknown values\<close>

text \<open>\<open>typeof value === "object" && value !== null && !Array.isArray(value)\<close>, giving the fields.\<close>

definition as_record :: "json option \<Rightarrow> fields option" where
  "as_record v = (case v of Some (JObj fs) \<Rightarrow> Some fs | _ \<Rightarrow> None)"

definition is_record :: "json option \<Rightarrow> bool" where
  "is_record v = (as_record v \<noteq> None)"

definition as_str :: "json option \<Rightarrow> jsstring option" where
  "as_str v = (case v of Some (JStr s) \<Rightarrow> Some s | _ \<Rightarrow> None)"

definition as_bool :: "json option \<Rightarrow> bool option" where
  "as_bool v = (case v of Some (JBool b) \<Rightarrow> Some b | _ \<Rightarrow> None)"

definition as_arr :: "json option \<Rightarrow> json list option" where
  "as_arr v = (case v of Some (JArr xs) \<Rightarrow> Some xs | _ \<Rightarrow> None)"

text \<open>\<open>Number.isSafeInteger(value)\<close>, giving the integer.\<close>

definition as_safe :: "json option \<Rightarrow> int option" where
  "as_safe v = (case v of Some (JNum n) \<Rightarrow> (if \<bar>n\<bar> \<le> max_safe then Some n else None) | _ \<Rightarrow> None)"

text \<open>The recurring test \<open>Number.isSafeInteger(x) && x >= lo\<close>.\<close>

definition as_safe_from :: "int \<Rightarrow> json option \<Rightarrow> int option" where
  "as_safe_from lo v = (case as_safe v of Some n \<Rightarrow> (if lo \<le> n then Some n else None) | None \<Rightarrow> None)"

definition get :: "fields \<Rightarrow> string \<Rightarrow> json option" where
  "get fs k = map_of fs (js k)"

text \<open>\<open>value.schemaVersion === 1\<close>.\<close>

definition schema_one :: "fields \<Rightarrow> bool" where
  "schema_one fs = (get fs ''schemaVersion'' = Some (JNum 1))"

text \<open>\<open>"key" in value\<close>.\<close>

definition has_key :: "fields \<Rightarrow> string \<Rightarrow> bool" where
  "has_key fs k = (js k \<in> fst ` set fs)"

text \<open>\<open>Object.keys(value).every((key) => allowed.has(key))\<close>.\<close>

definition only_keys :: "fields \<Rightarrow> string list \<Rightarrow> bool" where
  "only_keys fs ks = list_all (\<lambda>kv. fst kv \<in> js ` set ks) fs"

text \<open>The same together with \<open>Object.keys(value).length === keys.length\<close>.\<close>

definition same_keys :: "fields \<Rightarrow> string list \<Rightarrow> bool" where
  "same_keys fs ks = (length (remdups (map fst fs)) = length ks \<and> only_keys fs ks)"

text \<open>\<open>...(v === undefined ? {} : { key: v })\<close> in an object literal.\<close>

definition opt_field :: "string \<Rightarrow> ('a \<Rightarrow> json) \<Rightarrow> 'a option \<Rightarrow> fields" where
  "opt_field k f v = (case v of None \<Rightarrow> [] | Some x \<Rightarrow> [(js k, f x)])"

abbreviation fld :: "string \<Rightarrow> json \<Rightarrow> jsstring \<times> json" where
  "fld k v \<equiv> (js k, v)"

lemma as_record_simps [simp]:
  "as_record (Some (JObj fs)) = Some fs" "as_record None = None"
  "as_record (Some (JStr s)) = None" "as_record (Some (JNum n)) = None"
  "as_record (Some (JArr xs)) = None" "as_record (Some (JBool b)) = None"
  "as_record (Some JNull) = None" "as_record (Some (JFrac t)) = None"
  by (simp_all add: as_record_def)

lemma as_str_simps [simp]:
  "as_str (Some (JStr s)) = Some s" "as_str None = None"
  "as_str (Some (JNum n)) = None" "as_str (Some (JObj fs)) = None"
  "as_str (Some (JArr xs)) = None" "as_str (Some (JBool b)) = None"
  "as_str (Some JNull) = None" "as_str (Some (JFrac t)) = None"
  by (simp_all add: as_str_def)

lemma as_bool_simps [simp]: "as_bool (Some (JBool b)) = Some b" "as_bool None = None"
  "as_bool (Some (JStr s)) = None" "as_bool (Some (JNum n)) = None"
  by (simp_all add: as_bool_def)

lemma as_arr_simps [simp]: "as_arr (Some (JArr xs)) = Some xs" "as_arr None = None"
  "as_arr (Some (JStr s)) = None" "as_arr (Some (JObj fs)) = None"
  by (simp_all add: as_arr_def)

lemma as_safe_simps [simp]:
  "as_safe (Some (JNum n)) = (if \<bar>n\<bar> \<le> max_safe then Some n else None)"
  "as_safe None = None" "as_safe (Some (JStr s)) = None" "as_safe (Some (JFrac t)) = None"
  by (simp_all add: as_safe_def)

lemma as_record_eq_Some: "as_record v = Some fs \<longleftrightarrow> v = Some (JObj fs)"
  by (auto simp: as_record_def split: option.splits json.splits)

lemma as_str_eq_Some: "as_str v = Some s \<longleftrightarrow> v = Some (JStr s)"
  by (auto simp: as_str_def split: option.splits json.splits)

lemma as_bool_eq_Some: "as_bool v = Some b \<longleftrightarrow> v = Some (JBool b)"
  by (auto simp: as_bool_def split: option.splits json.splits)

lemma as_arr_eq_Some: "as_arr v = Some xs \<longleftrightarrow> v = Some (JArr xs)"
  by (auto simp: as_arr_def split: option.splits json.splits)

lemma as_safe_eq_Some: "as_safe v = Some n \<longleftrightarrow> v = Some (JNum n) \<and> \<bar>n\<bar> \<le> max_safe"
  by (auto simp: as_safe_def split: option.splits json.splits if_splits)

lemma as_safe_from_eq_Some:
  "as_safe_from lo v = Some n \<longleftrightarrow> v = Some (JNum n) \<and> \<bar>n\<bar> \<le> max_safe \<and> lo \<le> n"
  by (auto simp: as_safe_from_def as_safe_eq_Some split: option.splits if_splits)

lemmas as_eq_Some = as_record_eq_Some as_str_eq_Some as_bool_eq_Some as_arr_eq_Some
  as_safe_eq_Some as_safe_from_eq_Some

lemma get_Nil [simp]: "get [] k = None"
  by (simp add: get_def)

lemma get_Cons [simp]: "get ((js k', v) # fs) k = (if k' = k then Some v else get fs k)"
  by (simp add: get_def)

lemma get_append: "get (fs @ gs) k = (case get fs k of None \<Rightarrow> get gs k | Some v \<Rightarrow> Some v)"
  by (auto simp: get_def map_add_def split: option.splits)

lemma get_opt_field [simp]:
  "get (opt_field k' f v @ fs) k =
     (if k' = k then (case v of None \<Rightarrow> get fs k | Some x \<Rightarrow> Some (f x)) else get fs k)"
  by (simp add: opt_field_def split: option.splits)

lemma get_opt_field_last [simp]:
  "get (opt_field k' f v) k = (if k' = k then map_option f v else None)"
  by (simp add: opt_field_def split: option.splits)

lemma only_keys_Nil [simp]: "only_keys [] ks"
  by (simp add: only_keys_def)

lemma only_keys_Cons [simp]: "only_keys ((js k, v) # fs) ks \<longleftrightarrow> k \<in> set ks \<and> only_keys fs ks"
  by (auto simp: only_keys_def)

lemma only_keys_opt_field [simp]:
  "only_keys (opt_field k f v @ fs) ks \<longleftrightarrow> (v = None \<or> k \<in> set ks) \<and> only_keys fs ks"
  by (cases v) (auto simp: only_keys_def opt_field_def)

lemma only_keys_opt_field_last [simp]:
  "only_keys (opt_field k f v) ks \<longleftrightarrow> v = None \<or> k \<in> set ks"
  by (cases v) (auto simp: only_keys_def opt_field_def)

lemma has_key_Nil [simp]: "\<not> has_key [] k"
  by (simp add: has_key_def)

lemma has_key_Cons [simp]: "has_key ((js k', v) # fs) k \<longleftrightarrow> k = k' \<or> has_key fs k"
  by (auto simp: has_key_def)

section \<open>Serialisation\<close>

fun digits_acc :: "nat \<Rightarrow> jsstring \<Rightarrow> jsstring" where
  "digits_acc n acc = (if n < 10 then (48 + n) # acc else digits_acc (n div 10) ((48 + n mod 10) # acc))"

declare digits_acc.simps [simp del]

definition decimal :: "nat \<Rightarrow> jsstring" where
  "decimal n = digits_acc n []"

definition int_text :: "int \<Rightarrow> jsstring" where
  "int_text n = (if n < 0 then 45 # decimal (nat (- n)) else decimal (nat n))"

definition hex_digit :: "nat \<Rightarrow> nat" where
  "hex_digit d = (if d < 10 then 48 + d else 87 + d)"

definition escape_u :: "nat \<Rightarrow> jsstring" where
  "escape_u u = [92, 117, hex_digit (u div 4096 mod 16), hex_digit (u div 256 mod 16),
     hex_digit (u div 16 mod 16), hex_digit (u mod 16)]"

definition escape_point :: "jsstring \<Rightarrow> jsstring" where
  "escape_point p = (case p of
     [u] \<Rightarrow> (if u = 34 then [92, 34] else if u = 92 then [92, 92]
        else if u = 8 then [92, 98] else if u = 12 then [92, 102]
        else if u = 10 then [92, 110] else if u = 13 then [92, 114]
        else if u = 9 then [92, 116]
        else if u < 32 \<or> is_high u \<or> is_low u then escape_u u else [u])
   | _ \<Rightarrow> p)"

definition quote :: "jsstring \<Rightarrow> jsstring" where
  "quote s = 34 # concat (map escape_point (code_points s)) @ [34]"

text \<open>Printable ASCII without the quotation mark and the backslash is quoted as it is.\<close>

definition plain :: "jsstring \<Rightarrow> bool" where
  "plain s = list_all (\<lambda>u. 32 \<le> u \<and> u < 127 \<and> u \<noteq> 34 \<and> u \<noteq> 92) s"

lemma plain_js: "plain (js s) = list_all (\<lambda>c. let u = of_char c in (32::nat) \<le> u \<and> u < 127 \<and> u \<noteq> 34 \<and> u \<noteq> 92) s"
  by (simp add: plain_def js_def list_all_iff Let_def)

lemma plain_replicate [simp]: "plain (replicate n u) = (n = 0 \<or> 32 \<le> u \<and> u < 127 \<and> u \<noteq> 34 \<and> u \<noteq> 92)"
  by (auto simp: plain_def list_all_iff)

lemma plain_ascii: "plain s \<Longrightarrow> list_all (\<lambda>u. u < 128) s"
  by (auto simp: plain_def list_all_iff)

lemma quote_plain:
  assumes "plain s"
  shows "quote s = 34 # s @ [34]"
proof -
  have "\<forall>u \<in> set s. escape_point [u] = [u]"
    using assms by (auto simp: plain_def list_all_iff escape_point_def is_high_def is_low_def)
  then have "map escape_point (code_points s) = map (\<lambda>u. [u]) s"
    using assms by (simp add: code_points_ascii plain_ascii)
  then show ?thesis by (simp only: quote_def) (simp add: concat_map_singleton)
qed

function stringify :: "json \<Rightarrow> jsstring" where
  "stringify JNull = js ''null''"
| "stringify (JBool b) = (if b then js ''true'' else js ''false'')"
| "stringify (JNum n) = int_text n"
| "stringify (JFrac t) = t"
| "stringify (JStr s) = quote s"
| "stringify (JArr xs) = 91 # join_with 44 (map stringify xs) @ [93]"
| "stringify (JObj fs) =
     123 # join_with 44 (map (\<lambda>kv. quote (fst kv) @ 58 # stringify (snd kv)) fs) @ [125]"
  by pat_completeness auto
termination
proof (relation "measure size", simp_all)
  fix xs :: "json list" and x
  assume "x \<in> set xs"
  then show "size x < Suc (size_list size xs)"
    by (simp add: less_Suc_eq_le size_list_estimation')
next
  fix fs :: fields and kv
  assume "kv \<in> set fs"
  moreover have "size (snd kv) \<le> size_prod (\<lambda>x. 0) size kv"
    by (cases kv) simp
  ultimately show "size (snd kv) < Suc (size_list (size_prod (\<lambda>x. 0) size) fs)"
    by (simp add: less_Suc_eq_le size_list_estimation')
qed

text \<open>\<open>Buffer.byteLength(JSON.stringify(value), "utf8")\<close>.\<close>

definition serialized_bytes :: "json \<Rightarrow> nat" where
  "serialized_bytes v = byte_length (stringify v)"

lemma decimal_digits: "list_all is_digit (decimal n)"
proof -
  have "list_all is_digit acc \<Longrightarrow> list_all is_digit (digits_acc n acc)" for acc
  proof (induction n arbitrary: acc rule: less_induct)
    case (less n)
    have "is_digit (48 + n mod 10)" and "n < 10 \<Longrightarrow> is_digit (48 + n)"
      by (simp_all add: is_digit_def)
    with less show ?case by (subst digits_acc.simps) simp
  qed
  then show ?thesis by (simp add: decimal_def)
qed

text \<open>Reading a run of digits back: \<open>Number(text)\<close> for text matched by \<open>[0-9]+\<close>.\<close>

definition digits_value :: "jsstring \<Rightarrow> nat" where
  "digits_value s = foldl (\<lambda>n u. n * 10 + (u - 48)) 0 s"

lemma foldl_digits_acc:
  "foldl (\<lambda>n u. n * 10 + (u - 48)) 0 (digits_acc n acc)
     = foldl (\<lambda>n u. n * 10 + (u - 48)) n acc"
proof (induction n arbitrary: acc rule: less_induct)
  case (less n)
  show ?case
  proof (cases "n < 10")
    case True
    then show ?thesis by (subst digits_acc.simps) simp
  next
    case False
    then show ?thesis using less [of "n div 10"] by (subst digits_acc.simps) simp
  qed
qed

lemma digits_value_decimal [simp]: "digits_value (decimal n) = n"
  by (simp add: digits_value_def decimal_def foldl_digits_acc)

lemma decimal_shape: "decimal n \<noteq> [] \<and> (hd (decimal n) = 48 \<longrightarrow> n = 0)"
proof -
  have "digits_acc n acc \<noteq> [] \<and> (hd (digits_acc n acc) = 48 \<longrightarrow> n = 0)" for acc
  proof (induction n arbitrary: acc rule: less_induct)
    case (less n)
    show ?case
    proof (cases "n < 10")
      case True
      then show ?thesis by (subst (1 2) digits_acc.simps) simp
    next
      case False
      then have "n div 10 < n" and "n div 10 \<noteq> 0" by auto
      with less [of "n div 10"] False show ?thesis
        by (subst (1 2) digits_acc.simps) auto
    qed
  qed
  then show ?thesis by (simp add: decimal_def)
qed

subsection \<open>Serialised text is well-formed\<close>

text \<open>Strings of 16-bit units, and numerals in ASCII.\<close>

fun units_ok :: "json \<Rightarrow> bool" where
  "units_ok (JFrac t) = (t \<noteq> [] \<and> list_all (\<lambda>u. u < 128) t)"
| "units_ok (JStr s) = list_all (\<lambda>u. u < 65536) s"
| "units_ok (JArr xs) = list_all units_ok xs"
| "units_ok (JObj fs) = list_all (\<lambda>kv. list_all (\<lambda>u. u < 65536) (fst kv) \<and> units_ok (snd kv)) fs"
| "units_ok _ = True"

lemma js_ascii:
  "list_all (\<lambda>c. of_char c < (128::nat)) s \<Longrightarrow> list_all (\<lambda>u. u < 128) (js s)"
  by (simp add: js_def list_all_iff)

lemma escape_point_cases:
  assumes "p \<in> set (code_points s)" and "list_all (\<lambda>u. u < 65536) s"
  shows "well_formed (escape_point p)"
proof -
  have units: "\<forall>u \<in> set p. u < 65536"
    using assms code_points_units [OF assms(1)] by (auto simp: list_all_iff)
  have hd: "hex_digit (d mod 16) < 128" for d
    using mod_less_divisor [of 16 d] by (auto simp: hex_digit_def)
  from code_points_not_Nil [OF assms(1)] code_points_length [OF assms(1)]
  consider u where "p = [u]" | u v where "p = [u, v]"
    by (cases p rule: remdups_adj.cases) auto
  then show ?thesis
  proof cases
    case 1
    then have u: "u < 65536" using units by simp
    have "list_all (\<lambda>u. u < 128) (escape_u u)"
      using hd by (simp add: escape_u_def)
    then have "list_all (\<lambda>u. u < 128) (escape_point [u]) \<or>
        escape_point [u] = [u] \<and> \<not> is_high u \<and> \<not> is_low u"
      by (simp add: escape_point_def)
    then show ?thesis
    proof
      assume "list_all (\<lambda>u. u < 128) (escape_point [u])"
      then show ?thesis using 1 by (simp add: well_formed_ascii)
    next
      assume "escape_point [u] = [u] \<and> \<not> is_high u \<and> \<not> is_low u"
      then show ?thesis using 1 u by (simp add: well_formed_def good_point_def)
    qed
  next
    case 2
    with assms(1) code_points_pair [of u v s] show ?thesis
      by (auto simp: escape_point_def well_formed_def good_point_def)
  qed
qed

lemma well_formed_quote:
  assumes "list_all (\<lambda>u. u < 65536) s"
  shows "well_formed (quote s)"
proof -
  have "well_formed (concat (map escape_point (code_points s)))"
    by (rule well_formed_concat) (use assms escape_point_cases in \<open>auto simp: list_all_iff\<close>)
  moreover have "well_formed [34]" by (rule well_formed_ascii) simp
  ultimately have "well_formed ([34] @ concat (map escape_point (code_points s)) @ [34])"
    by (intro well_formed_append)
  then show ?thesis by (simp add: quote_def)
qed

lemma well_formed_join: "c < 128 \<Longrightarrow> list_all well_formed ws \<Longrightarrow> well_formed (join_with c ws)"
proof (induction c ws rule: join_with.induct)
  case (3 c w v ws)
  have "well_formed [c]" using 3 by (intro well_formed_ascii) simp
  with 3 have "well_formed (w @ [c] @ join_with c (v # ws))" by (intro well_formed_append) auto
  then show ?case by simp
qed auto

lemma int_text_ascii: "list_all (\<lambda>u. u < 128) (int_text n)"
proof -
  have "list_all (\<lambda>u. u < 128) (decimal m)" for m
    using decimal_digits [of m] by (auto simp: list_all_iff is_digit_def)
  then show ?thesis by (simp add: int_text_def)
qed

lemma well_formed_stringify: "units_ok v \<Longrightarrow> well_formed (stringify v)"
proof (induction v rule: stringify.induct)
  case 1
  show ?case by (simp add: js_def well_formed_ascii)
next
  case (2 b)
  show ?case by (simp add: js_def well_formed_ascii)
next
  case (3 n)
  show ?case by (simp add: well_formed_ascii int_text_ascii)
next
  case (4 t)
  then show ?case by (simp add: well_formed_ascii)
next
  case (5 s)
  then show ?case by (simp add: well_formed_quote)
next
  case (6 xs)
  then have "well_formed ([91] @ join_with 44 (map stringify xs) @ [93])"
    by (intro well_formed_append well_formed_join well_formed_ascii) (auto simp: list_all_iff)
  then show ?case by simp
next
  case (7 fs)
  have "well_formed (quote (fst kv) @ [58] @ stringify (snd kv))" if "kv \<in> set fs" for kv
  proof -
    have "well_formed (quote (fst kv))" "well_formed (stringify (snd kv))"
      using 7 that by (auto simp: list_all_iff intro!: well_formed_quote)
    moreover have "well_formed [58]" by (rule well_formed_ascii) simp
    ultimately show ?thesis by (intro well_formed_append)
  qed
  then have "well_formed ([123] @
      join_with 44 (map (\<lambda>kv. quote (fst kv) @ [58] @ stringify (snd kv)) fs) @ [125])"
    by (intro well_formed_append well_formed_join well_formed_ascii) (auto simp: list_all_iff)
  then show ?case by simp
qed

text \<open>JSON text starts with an ASCII character, so the decoder never takes it for a byte order mark.\<close>

lemma stringify_ascii_head: "units_ok v \<Longrightarrow> stringify v \<noteq> [] \<and> hd (stringify v) < 128"
proof (cases v)
  case (JNum n)
  then show ?thesis
    using int_text_ascii [of n] decimal_shape by (auto simp: list_all_iff int_text_def)
next
  case (JFrac t)
  then show ?thesis if "units_ok v"
    using that by (cases t) auto
qed (auto simp: js_def quote_def)

end
