(* ===== verification/Frame_Codec.thy ===== *)
theory Frame_Codec
  imports Json
begin

text \<open>
  The framing of the kernel protocol, \<open>packages/protocol/src/frame.ts\<close>: a frame is the
  ASCII header \<open>Content-Length: n\<close>, an empty line and \<open>n\<close> bytes of JSON. The encoder
  is a function of the value. The decoder is a state machine that accepts the byte stream in
  chunks of any size, reading the header byte by byte and copying the body in blocks.
  \<open>JSON.parse\<close> is the parameter \<open>parse\<close> (\<open>None\<close> for a syntax error).
\<close>

definition HEADER_PREFIX :: jsstring where
  "HEADER_PREFIX = js ''Content-Length: ''"

definition HEADER_END :: bytes where
  "HEADER_END = [13, 10, 13, 10]"

definition MAX_HEADER_BYTES :: nat where
  "MAX_HEADER_BYTES = 64"

definition MAX_FRAME_BYTES :: nat where
  "MAX_FRAME_BYTES = 8 * 1024 * 1024"

datatype frame_error =
    FRAME_JSON_UNSERIALIZABLE
  | FRAME_TOO_LARGE
  | FRAME_DECODER_FINISHED
  | FRAME_DECODER_STATE_INVALID
  | TRUNCATED_FRAME
  | INVALID_CONTENT_LENGTH_HEADER
  | CONTENT_LENGTH_HEADER_TOO_LARGE
  | INVALID_FRAME_UTF8
  | INVALID_FRAME_JSON

section \<open>Encoder\<close>

text \<open>\<open>JSON.stringify(undefined)\<close> is \<open>undefined\<close>, the only value here without a text.\<close>

definition encode_frame :: "json option \<Rightarrow> frame_error + bytes" where
  "encode_frame v = (case v of
     None \<Rightarrow> Inl FRAME_JSON_UNSERIALIZABLE
   | Some j \<Rightarrow>
       (let body = utf8_encode (stringify j) in
        if MAX_FRAME_BYTES < length body then Inl FRAME_TOO_LARGE
        else Inr (HEADER_PREFIX @ decimal (length body) @ HEADER_END @ body)))"

section \<open>Decoder\<close>

record decoder =
  header_bytes :: bytes
  expected_body :: "nat option"
  body_buffer :: "bytes option"
  body_offset :: nat
  finished :: bool

definition new_decoder :: decoder where
  "new_decoder = \<lparr>header_bytes = [], expected_body = None, body_buffer = None,
     body_offset = 0, finished = False\<rparr>"

definition push_header_byte :: "nat \<Rightarrow> decoder \<Rightarrow> (frame_error + unit) \<times> decoder" where
  "push_header_byte b d =
     (if 127 < b then (Inl INVALID_CONTENT_LENGTH_HEADER, d)
      else
        let h = header_bytes d @ [b]; d' = d\<lparr>header_bytes := h\<rparr>; i = length h - 1 in
        if MAX_HEADER_BYTES < length h then (Inl CONTENT_LENGTH_HEADER_TOO_LARGE, d')
        else if i < length HEADER_PREFIX \<and> b \<noteq> HEADER_PREFIX ! i
          then (Inl INVALID_CONTENT_LENGTH_HEADER, d')
        else if b = 10 \<and> (i = 0 \<or> h ! (i - 1) \<noteq> 13)
          then (Inl INVALID_CONTENT_LENGTH_HEADER, d')
        else (Inr (), d'))"

definition has_complete_header :: "decoder \<Rightarrow> bool" where
  "has_complete_header d = (let h = header_bytes d in
     length HEADER_END \<le> length h \<and> last_n (length HEADER_END) h = HEADER_END)"

text \<open>\<open>0|[1-9][0-9]*\<close>.\<close>

definition canonical_digits :: "jsstring \<Rightarrow> bool" where
  "canonical_digits ds = (ds \<noteq> [] \<and> list_all is_digit ds \<and> (hd ds = 48 \<longrightarrow> ds = [48]))"

text \<open>The captured group of \<open>/^Content-Length: (0|[1-9][0-9]*)\r\n\r\n$/\<close>.\<close>

definition match_header :: "bytes \<Rightarrow> jsstring option" where
  "match_header h =
     (let p = length HEADER_PREFIX; ds = slice p (length h - length HEADER_END) h in
      if h = HEADER_PREFIX @ ds @ HEADER_END \<and> canonical_digits ds then Some ds else None)"

definition begin_body :: "decoder \<Rightarrow> (frame_error + unit) \<times> decoder" where
  "begin_body d =
     (let d' = d\<lparr>header_bytes := []\<rparr> in
      case match_header (header_bytes d) of
        None \<Rightarrow> (Inl INVALID_CONTENT_LENGTH_HEADER, d')
      | Some ds \<Rightarrow>
          (let n = digits_value ds in
           if max_safe < int n \<or> MAX_FRAME_BYTES < n then (Inl FRAME_TOO_LARGE, d')
           else (Inr (), d'\<lparr>expected_body := Some n, body_buffer := Some (replicate n 0),
             body_offset := 0\<rparr>)))"

definition reset_body :: "decoder \<Rightarrow> decoder" where
  "reset_body d = d\<lparr>expected_body := None, body_buffer := None, body_offset := 0\<rparr>"

definition decode_body :: "(jsstring \<Rightarrow> json option) \<Rightarrow> bytes \<Rightarrow> frame_error + json" where
  "decode_body parse body = (case utf8_decode body of
     None \<Rightarrow> Inl INVALID_FRAME_UTF8
   | Some text \<Rightarrow> (case parse text of None \<Rightarrow> Inl INVALID_FRAME_JSON | Some v \<Rightarrow> Inr v))"

definition finish_body :: "(jsstring \<Rightarrow> json option) \<Rightarrow> decoder \<Rightarrow> (frame_error + json) \<times> decoder" where
  "finish_body parse d = (case body_buffer d of
     None \<Rightarrow> (Inl FRAME_DECODER_STATE_INVALID, d)
   | Some body \<Rightarrow> (decode_body parse body, reset_body d))"

text \<open>\<open>body.set(part, offset)\<close>.\<close>

definition buffer_set :: "bytes \<Rightarrow> nat \<Rightarrow> bytes \<Rightarrow> bytes" where
  "buffer_set buf off part = take off buf @ part @ drop (off + length part) buf"

text \<open>
  The loop of \<open>push\<close> over the unread part of the chunk, with the values decoded so far. Its
  block step takes \<open>min(remaining, available)\<close> bytes; that the loop returns is lemma
  \<open>push_terminates\<close>, so it is a partial function here.
\<close>

partial_function (option) push_loop ::
    "(jsstring \<Rightarrow> json option) \<Rightarrow> bytes \<Rightarrow> json list \<Rightarrow> decoder
      \<Rightarrow> ((frame_error + json list) \<times> decoder) option" where
  "push_loop parse chunk vs d =
     (case chunk of
        [] \<Rightarrow> Some (Inr vs, d)
      | b # rest \<Rightarrow>
          (case expected_body d of
             None \<Rightarrow>
               (case push_header_byte b d of
                  (Inl e, d1) \<Rightarrow> Some (Inl e, d1)
                | (Inr _, d1) \<Rightarrow>
                    if has_complete_header d1 then
                      (case begin_body d1 of
                         (Inl e, d2) \<Rightarrow> Some (Inl e, d2)
                       | (Inr _, d2) \<Rightarrow>
                           if expected_body d2 = Some 0 then
                             (case finish_body parse d2 of
                                (Inl e, d3) \<Rightarrow> Some (Inl e, d3)
                              | (Inr v, d3) \<Rightarrow> push_loop parse rest (vs @ [v]) d3)
                           else push_loop parse rest vs d2)
                    else push_loop parse rest vs d1)
           | Some n \<Rightarrow>
               (case body_buffer d of
                  None \<Rightarrow> Some (Inl FRAME_DECODER_STATE_INVALID, d)
                | Some buf \<Rightarrow>
                    (let k = min (n - body_offset d) (length chunk);
                         d1 = d\<lparr>body_buffer := Some (buffer_set buf (body_offset d) (take k chunk)),
                                 body_offset := body_offset d + k\<rparr>
                     in if body_offset d1 = n then
                          (case finish_body parse d1 of
                             (Inl e, d2) \<Rightarrow> Some (Inl e, d2)
                           | (Inr v, d2) \<Rightarrow> push_loop parse (drop k chunk) (vs @ [v]) d2)
                        else push_loop parse (drop k chunk) vs d1))))"

definition push :: "(jsstring \<Rightarrow> json option) \<Rightarrow> bytes \<Rightarrow> decoder
    \<Rightarrow> ((frame_error + json list) \<times> decoder) option" where
  "push parse chunk d =
     (if finished d then Some (Inl FRAME_DECODER_FINISHED, d) else push_loop parse chunk [] d)"

definition finish :: "decoder \<Rightarrow> (frame_error + unit) \<times> decoder" where
  "finish d =
     (if expected_body d \<noteq> None \<or> header_bytes d \<noteq> [] then (Inl TRUNCATED_FRAME, d)
      else (Inr (), d\<lparr>finished := True\<rparr>))"

text \<open>A client feeding one decoder chunk after chunk, collecting the values until an error.\<close>

fun push_chunks :: "(jsstring \<Rightarrow> json option) \<Rightarrow> bytes list \<Rightarrow> decoder
    \<Rightarrow> ((frame_error + json list) \<times> decoder) option" where
  "push_chunks parse [] d = Some (Inr [], d)"
| "push_chunks parse (c # cs) d =
     (case push parse c d of
        None \<Rightarrow> None
      | Some (Inl e, d') \<Rightarrow> Some (Inl e, d')
      | Some (Inr vs, d') \<Rightarrow>
          (case push_chunks parse cs d' of
             None \<Rightarrow> None
           | Some (Inl e, d'') \<Rightarrow> Some (Inl e, d'')
           | Some (Inr ws, d'') \<Rightarrow> Some (Inr (vs @ ws), d'')))"

section \<open>The byte machine\<close>

text \<open>
  The reference semantics: the same machine fed one byte at a time. It is structurally
  recursive in the input, so running it over a concatenation is running it over the parts.
\<close>

definition step_byte :: "(jsstring \<Rightarrow> json option) \<Rightarrow> nat \<Rightarrow> decoder
    \<Rightarrow> (frame_error + json list) \<times> decoder" where
  "step_byte parse b d = (case expected_body d of
     None \<Rightarrow>
       (case push_header_byte b d of
          (Inl e, d1) \<Rightarrow> (Inl e, d1)
        | (Inr _, d1) \<Rightarrow>
            if has_complete_header d1 then
              (case begin_body d1 of
                 (Inl e, d2) \<Rightarrow> (Inl e, d2)
               | (Inr _, d2) \<Rightarrow>
                   if expected_body d2 = Some 0 then
                     (case finish_body parse d2 of
                        (Inl e, d3) \<Rightarrow> (Inl e, d3)
                      | (Inr v, d3) \<Rightarrow> (Inr [v], d3))
                   else (Inr [], d2))
            else (Inr [], d1))
   | Some n \<Rightarrow>
       (case body_buffer d of
          None \<Rightarrow> (Inl FRAME_DECODER_STATE_INVALID, d)
        | Some buf \<Rightarrow>
            (let d1 = d\<lparr>body_buffer := Some (buffer_set buf (body_offset d) [b]),
                         body_offset := body_offset d + 1\<rparr>
             in if body_offset d1 = n then
                  (case finish_body parse d1 of
                     (Inl e, d2) \<Rightarrow> (Inl e, d2)
                   | (Inr v, d2) \<Rightarrow> (Inr [v], d2))
                else (Inr [], d1))))"

fun run_bytes :: "(jsstring \<Rightarrow> json option) \<Rightarrow> bytes \<Rightarrow> decoder
    \<Rightarrow> (frame_error + json list) \<times> decoder" where
  "run_bytes parse [] d = (Inr [], d)"
| "run_bytes parse (b # bs) d =
     (case step_byte parse b d of
        (Inl e, d') \<Rightarrow> (Inl e, d')
      | (Inr vs, d') \<Rightarrow>
          (case run_bytes parse bs d' of
             (Inl e, d'') \<Rightarrow> (Inl e, d'')
           | (Inr ws, d'') \<Rightarrow> (Inr (vs @ ws), d'')))"

lemma run_bytes_append:
  "run_bytes parse (xs @ ys) d =
     (case run_bytes parse xs d of
        (Inl e, d') \<Rightarrow> (Inl e, d')
      | (Inr vs, d') \<Rightarrow>
          (case run_bytes parse ys d' of
             (Inl e, d'') \<Rightarrow> (Inl e, d'')
           | (Inr ws, d'') \<Rightarrow> (Inr (vs @ ws), d'')))"
  by (induction xs arbitrary: d) (auto split: prod.splits sum.splits)

section \<open>Invariant of the decoder\<close>

text \<open>
  Between steps the decoder is either inside a header of at most 64 bytes, or inside a body
  whose buffer has the declared, bounded size and still lacks at least one byte.
\<close>

definition decoder_ok :: "decoder \<Rightarrow> bool" where
  "decoder_ok d = (case expected_body d of
     None \<Rightarrow> body_buffer d = None \<and> body_offset d = 0 \<and> length (header_bytes d) \<le> MAX_HEADER_BYTES
   | Some n \<Rightarrow> header_bytes d = [] \<and> n \<le> MAX_FRAME_BYTES \<and> body_offset d < n \<and>
       (\<exists>buf. body_buffer d = Some buf \<and> length buf = n))"

text \<open>After an error the header may hold one byte more; nothing else changes.\<close>

definition decoder_bounded :: "decoder \<Rightarrow> bool" where
  "decoder_bounded d = (length (header_bytes d) \<le> MAX_HEADER_BYTES + 1 \<and>
     (\<forall>buf. body_buffer d = Some buf \<longrightarrow> length buf \<le> MAX_FRAME_BYTES))"

lemma new_decoder_ok [inv_intros, simp]: "decoder_ok new_decoder"
  by (simp add: decoder_ok_def new_decoder_def)

lemma decoder_ok_bounded: "decoder_ok d \<Longrightarrow> decoder_bounded d"
  by (auto simp: decoder_ok_def decoder_bounded_def split: option.splits)

lemma length_buffer_set [simp]:
  "off + length part \<le> length buf \<Longrightarrow> length (buffer_set buf off part) = length buf"
  by (simp add: buffer_set_def)

lemma buffer_set_Cons:
  assumes "off < length buf"
  shows "buffer_set buf off (b # part) = buffer_set (buffer_set buf off [b]) (Suc off) part"
  using assms by (simp add: buffer_set_def min_def add.commute)

lemma push_header_byte_ok:
  assumes "push_header_byte b d = (r, d')" and "decoder_ok d" and "expected_body d = None"
  shows "expected_body d' = None \<and> body_buffer d' = None \<and> body_offset d' = 0 \<and>
    finished d' = finished d \<and>
    length (header_bytes d') \<le> MAX_HEADER_BYTES + 1 \<and>
    (is_ok r \<longrightarrow> decoder_ok d' \<and> header_bytes d' = header_bytes d @ [b])"
  using assms
  by (auto simp: push_header_byte_def decoder_ok_def Let_def split: if_splits)

lemma begin_body_ok:
  assumes "begin_body d = (r, d')" and "decoder_ok d" and "expected_body d = None"
  shows "finished d' = finished d \<and> decoder_bounded d' \<and>
    (is_ok r \<longrightarrow> (\<exists>n. expected_body d' = Some n \<and> n \<le> MAX_FRAME_BYTES \<and> header_bytes d' = [] \<and>
       body_offset d' = 0 \<and> body_buffer d' = Some (replicate n 0)))"
  using assms
  by (auto simp: begin_body_def decoder_ok_def decoder_bounded_def Let_def
      split: if_splits option.splits)

lemma step_byte_ok:
  assumes "step_byte parse b d = (r, d')" and "decoder_ok d"
  shows "finished d' = finished d \<and> decoder_bounded d' \<and> (is_ok r \<longrightarrow> decoder_ok d')"
proof (cases "expected_body d")
  case None
  obtain r1 d1 where h: "push_header_byte b d = (r1, d1)" by (meson prod.exhaust)
  note h_ok = push_header_byte_ok [OF h assms(2) None]
  obtain r2 d2 where bb: "begin_body d1 = (r2, d2)" by (meson prod.exhaust)
  show ?thesis
    using assms None h h_ok bb begin_body_ok [OF bb]
    by (auto simp: step_byte_def decoder_bounded_def finish_body_def reset_body_def decoder_ok_def
        split: sum.splits prod.splits if_splits)
next
  case (Some n)
  with assms show ?thesis
    by (auto simp: step_byte_def decoder_ok_def decoder_bounded_def finish_body_def reset_body_def
        Let_def split: sum.splits prod.splits if_splits option.splits)
qed

lemma run_bytes_ok:
  assumes "run_bytes parse bs d = (r, d')" and "decoder_ok d"
  shows "finished d' = finished d \<and> decoder_bounded d' \<and> (is_ok r \<longrightarrow> decoder_ok d')"
  using assms
proof (induction bs arbitrary: d r d')
  case Nil
  then show ?case by (auto simp: decoder_ok_bounded)
next
  case (Cons b bs)
  obtain r1 d1 where s: "step_byte parse b d = (r1, d1)" by (meson prod.exhaust)
  note s_ok = step_byte_ok [OF s Cons.prems(2)]
  obtain r2 d2 where r: "run_bytes parse bs d1 = (r2, d2)" by (meson prod.exhaust)
  show ?case
    using Cons.prems(1) s s_ok r Cons.IH [OF r]
    by (cases r1; cases r2) auto
qed

section \<open>The block loop implements the byte machine\<close>

definition body_block :: "(jsstring \<Rightarrow> json option) \<Rightarrow> bytes \<Rightarrow> nat \<Rightarrow> bytes \<Rightarrow> decoder
    \<Rightarrow> (frame_error + json list) \<times> decoder" where
  "body_block parse buf n part d =
     (let d1 = d\<lparr>body_buffer := Some (buffer_set buf (body_offset d) part),
                 body_offset := body_offset d + length part\<rparr>
      in if body_offset d1 = n then
           (case finish_body parse d1 of
              (Inl e, d2) \<Rightarrow> (Inl e, d2)
            | (Inr v, d2) \<Rightarrow> (Inr [v], d2))
         else (Inr [], d1))"

lemma run_bytes_block:
  assumes "expected_body d = Some n" and "body_buffer d = Some buf" and "length buf = n"
    and "part \<noteq> []" and "body_offset d + length part \<le> n"
  shows "run_bytes parse part d = body_block parse buf n part d"
  using assms
proof (induction part arbitrary: d buf)
  case Nil
  then show ?case by simp
next
  case (Cons b part)
  show ?case
  proof (cases "part = []")
    case True
    with Cons.prems show ?thesis
      by (auto simp: step_byte_def body_block_def Let_def split: prod.splits sum.splits)
  next
    case False
    let ?d1 = "d\<lparr>body_buffer := Some (buffer_set buf (body_offset d) [b]),
      body_offset := body_offset d + 1\<rparr>"
    have more: "body_offset d + 1 \<noteq> n"
      using Cons.prems(5) False by (cases part) auto
    then have "step_byte parse b d = (Inr [], ?d1)"
      using Cons.prems by (simp add: step_byte_def)
    moreover have "run_bytes parse part ?d1
        = body_block parse (buffer_set buf (body_offset d) [b]) n part ?d1"
      using Cons.prems False by (intro Cons.IH) auto
    moreover have "buffer_set (buffer_set buf (body_offset d) [b]) (Suc (body_offset d)) part
        = buffer_set buf (body_offset d) (b # part)"
      using Cons.prems by (intro buffer_set_Cons [symmetric]) simp
    ultimately show ?thesis
      using Cons.prems by (auto simp: body_block_def Let_def split: prod.splits sum.splits)
  qed
qed

definition prepend :: "json list \<Rightarrow> (frame_error + json list) \<times> decoder
    \<Rightarrow> (frame_error + json list) \<times> decoder" where
  "prepend vs r = (case r of (Inl e, d) \<Rightarrow> (Inl e, d) | (Inr ws, d) \<Rightarrow> (Inr (vs @ ws), d))"

lemma prepend_simps [simp]:
  "prepend vs (Inl e, d) = (Inl e, d)" "prepend vs (Inr ws, d) = (Inr (vs @ ws), d)"
  by (simp_all add: prepend_def)

lemma prepend_prepend: "prepend vs (prepend ws r) = prepend (vs @ ws) r"
  by (simp add: prepend_def split: prod.splits sum.splits)

lemma run_bytes_Cons_prepend:
  "run_bytes parse (b # bs) d =
     (case step_byte parse b d of
        (Inl e, d') \<Rightarrow> (Inl e, d')
      | (Inr vs, d') \<Rightarrow> prepend vs (run_bytes parse bs d'))"
  by (auto split: prod.splits sum.splits)

lemma run_bytes_append_prepend:
  "run_bytes parse (xs @ ys) d =
     (case run_bytes parse xs d of
        (Inl e, d') \<Rightarrow> (Inl e, d')
      | (Inr vs, d') \<Rightarrow> prepend vs (run_bytes parse ys d'))"
  unfolding run_bytes_append prepend_def by (rule refl)

lemma push_loop_header:
  assumes "expected_body d = None" and "decoder_ok d"
    and IH: "\<And>vs d'. decoder_ok d' \<Longrightarrow>
      push_loop parse rest vs d' = Some (prepend vs (run_bytes parse rest d'))"
  shows "push_loop parse (b # rest) vs d = Some (prepend vs (run_bytes parse (b # rest) d))"
proof -
  obtain r1 d1 where s: "step_byte parse b d = (r1, d1)" by (meson prod.exhaust)
  note ok = step_byte_ok [OF s assms(2)]
  show ?thesis
    using s ok assms(1)
    by (subst push_loop.simps)
      (auto simp: step_byte_def run_bytes_Cons_prepend IH prepend_prepend
        simp del: run_bytes.simps split: prod.splits sum.splits if_splits)
qed

lemma push_loop_body:
  assumes "expected_body d = Some n" and "body_buffer d = Some buf"
    and k: "min (n - body_offset d) (length (b # rest)) = k" and "k \<le> length (b # rest)"
  shows "push_loop parse (b # rest) vs d = (case body_block parse buf n (take k (b # rest)) d of
      (Inl e, d') \<Rightarrow> Some (Inl e, d')
    | (Inr ws, d') \<Rightarrow> push_loop parse (drop k (b # rest)) (vs @ ws) d')"
proof -
  have len: "length (take k (b # rest)) = k" using assms(4) by simp
  show ?thesis
    unfolding push_loop.simps [of parse "b # rest"] list.case assms(1,2) option.case k Let_def
      body_block_def len
    by (simp add: len del: take_Cons' drop_Cons' split: prod.splits sum.splits)
qed

lemma push_loop_run:
  "decoder_ok d \<Longrightarrow> push_loop parse chunk vs d = Some (prepend vs (run_bytes parse chunk d))"
proof (induction chunk arbitrary: vs d rule: length_induct)
  case (1 chunk)
  show ?case
  proof (cases chunk)
    case Nil
    then show ?thesis by (subst push_loop.simps) simp
  next
    case (Cons b rest)
    show ?thesis
    proof (cases "expected_body d")
      case None
      then show ?thesis unfolding Cons
        by (rule push_loop_header) (use 1 Cons in auto)
    next
      case (Some n)
      with "1.prems" obtain buf where buf: "body_buffer d = Some buf" "length buf = n"
        "body_offset d < n" by (auto simp: decoder_ok_def)
      define k where "k = min (n - body_offset d) (length chunk)"
      have k: "0 < k" "k \<le> length chunk" "body_offset d + k \<le> n"
        using buf(3) Cons by (auto simp: k_def)
      have block: "run_bytes parse (take k chunk) d = body_block parse buf n (take k chunk) d"
        by (rule run_bytes_block) (use Some buf k Cons in auto)
      obtain r1 d1 where bb: "body_block parse buf n (take k chunk) d = (r1, d1)"
        by (meson prod.exhaust)
      have ok: "is_ok r1 \<Longrightarrow> decoder_ok d1"
        using run_bytes_ok [of parse "take k chunk" d r1 d1] block bb "1.prems" by simp
      have IH: "decoder_ok d' \<Longrightarrow> push_loop parse (drop k chunk) ws d'
          = Some (prepend ws (run_bytes parse (drop k chunk) d'))" for ws d'
        using "1.IH" k Cons by auto
      have "run_bytes parse chunk d = (case run_bytes parse (take k chunk) d of
          (Inl e, d') \<Rightarrow> (Inl e, d') | (Inr ws, d') \<Rightarrow> prepend ws (run_bytes parse (drop k chunk) d'))"
        using run_bytes_append_prepend [of parse "take k chunk" "drop k chunk" d] by simp
      moreover have "push_loop parse chunk vs d = (case body_block parse buf n (take k chunk) d of
          (Inl e, d') \<Rightarrow> Some (Inl e, d')
        | (Inr ws, d') \<Rightarrow> push_loop parse (drop k chunk) (vs @ ws) d')"
        unfolding Cons
        by (rule push_loop_body) (use Some buf k Cons in \<open>auto simp: k_def\<close>)
      ultimately show ?thesis
        using bb block ok IH by (cases r1) (auto simp: prepend_prepend)
    qed
  qed
qed

text \<open>
  A decoder that has thrown may be pushed to again. In what every call leaves behind, an unfinished
  body has room for a byte, so that the loop goes on consuming input and returns.
\<close>

definition decoder_live :: "decoder \<Rightarrow> bool" where
  "decoder_live d = (case expected_body d of
     None \<Rightarrow> True | Some n \<Rightarrow> body_buffer d = None \<or> body_offset d < n)"

lemma new_decoder_live [simp]: "decoder_live new_decoder"
  by (simp add: decoder_live_def new_decoder_def)

lemma push_header_byte_live:
  "push_header_byte b d = (r, d') \<Longrightarrow> expected_body d' = expected_body d \<and> finished d' = finished d"
  by (auto simp: push_header_byte_def Let_def split: if_splits)

lemma begin_body_live:
  "begin_body d = (r, d') \<Longrightarrow> expected_body d = None \<Longrightarrow>
     finished d' = finished d \<and> (expected_body d' = Some 0 \<or> decoder_live d') \<and> (\<not> is_ok r \<longrightarrow> decoder_live d')"
  by (auto simp: begin_body_def decoder_live_def Let_def split: if_splits option.splits)

lemma finish_body_live:
  "finish_body parse d = (r, d') \<Longrightarrow> finished d' = finished d \<and> (body_buffer d = None \<or> expected_body d' = None)
     \<and> (body_buffer d = None \<longrightarrow> d' = d)"
  by (auto simp: finish_body_def reset_body_def split: option.splits)

definition returns_live :: "(jsstring \<Rightarrow> json option) \<Rightarrow> bytes \<Rightarrow> json list \<Rightarrow> decoder \<Rightarrow> bool" where
  "returns_live parse bs ws d = (\<exists>r d'. push_loop parse bs ws d = Some (r, d') \<and> decoder_live d' \<and> finished d' = finished d)"

lemma returns_live_header:
  assumes IH: "\<And>bs ws d1. length bs < length chunk \<Longrightarrow> decoder_live d1 \<Longrightarrow> returns_live parse bs ws d1"
    and Cons: "chunk = b # rest" and None: "expected_body d = None"
  shows "returns_live parse chunk vs d"
proof -
  obtain r1 d1 where h: "push_header_byte b d = (r1, d1)" by (rule prod.exhaust)
  obtain r2 d2 where g: "begin_body d1 = (r2, d2)" by (rule prod.exhaust)
  obtain r3 d3 where f: "finish_body parse d2 = (r3, d3)" by (rule prod.exhaust)
  have d1: "expected_body d1 = None" "finished d1 = finished d" "decoder_live d1"
    using push_header_byte_live [OF h] None by (simp_all add: decoder_live_def)
  note d2 = begin_body_live [OF g d1(1)]
  have "decoder_live d3" if "expected_body d2 = Some 0"
    using finish_body_live [OF f] that by (auto simp: decoder_live_def)
  then have d3: "decoder_live d3" "finished d3 = finished d" if "expected_body d2 = Some 0"
    using that finish_body_live [OF f] d1 d2 by simp_all
  have "push_loop parse chunk vs d = (case r1 of Inl e \<Rightarrow> Some (Inl e, d1) | Inr _ \<Rightarrow>
      if has_complete_header d1 then (case r2 of Inl e \<Rightarrow> Some (Inl e, d2) | Inr _ \<Rightarrow>
        if expected_body d2 = Some 0 then (case r3 of Inl e \<Rightarrow> Some (Inl e, d3)
          | Inr v \<Rightarrow> push_loop parse rest (vs @ [v]) d3)
        else push_loop parse rest vs d2)
      else push_loop parse rest vs d1)"
    using None h g f Cons by (subst push_loop.simps) (simp split: sum.splits)
  moreover have "length rest < length chunk" using Cons by simp
  ultimately show ?thesis
    unfolding returns_live_def
    using IH [unfolded returns_live_def, OF _ d1(3)] IH [unfolded returns_live_def, OF _ d3(1)]
      IH [unfolded returns_live_def, of rest d2] d1 d2 d3
    by (cases r1; cases r2; cases r3; cases "has_complete_header d1"; cases "expected_body d2 = Some 0"; simp)
qed

lemma returns_live_body:
  assumes IH: "\<And>bs ws d1. length bs < length chunk \<Longrightarrow> decoder_live d1 \<Longrightarrow> returns_live parse bs ws d1"
    and Cons: "chunk = b # rest" and live: "decoder_live d"
    and Some: "expected_body d = Some n" and buf: "body_buffer d = Some buf"
  shows "returns_live parse chunk vs d"
proof -
  define k where "k = min (n - body_offset d) (length chunk)"
  define d1 where "d1 = d\<lparr>body_buffer := Some (buffer_set buf (body_offset d) (take k chunk)),
    body_offset := body_offset d + k\<rparr>"
  obtain r2 d2 where f: "finish_body parse d1 = (r2, d2)" by (rule prod.exhaust)
  have k: "0 < k" "length (drop k chunk) < length chunk"
    using live Some buf Cons by (auto simp: k_def decoder_live_def)
  have d2: "decoder_live d2" "finished d2 = finished d"
    using finish_body_live [OF f] by (auto simp: d1_def decoder_live_def)
  have d1: "decoder_live d1" if "body_offset d1 \<noteq> n"
    using that live Some buf by (auto simp: d1_def decoder_live_def k_def)
  have "push_loop parse chunk vs d = (if body_offset d1 = n then
      (case finish_body parse d1 of (Inl e, d2) \<Rightarrow> Some (Inl e, d2)
       | (Inr v, d2) \<Rightarrow> push_loop parse (drop k chunk) (vs @ [v]) d2)
      else push_loop parse (drop k chunk) vs d1)"
    using Some buf unfolding k_def d1_def Cons
    by (subst push_loop.simps) (simp add: Let_def split: sum.splits prod.splits)
  moreover have "finished d1 = finished d" by (simp add: d1_def)
  ultimately show ?thesis
    unfolding returns_live_def
    using IH [unfolded returns_live_def, OF k(2) d1] IH [unfolded returns_live_def, OF k(2) d2(1)] f d2
    by (cases r2; cases "body_offset d1 = n"; simp)
qed

lemma push_loop_live: "decoder_live d \<Longrightarrow> returns_live parse chunk vs d"
proof (induction chunk arbitrary: vs d rule: length_induct)
  case (1 chunk)
  have IH: "length bs < length chunk \<Longrightarrow> decoder_live d1 \<Longrightarrow> returns_live parse bs ws d1" for bs ws d1
    using "1.IH" by blast
  show ?case
  proof (cases chunk)
    case Nil
    then show ?thesis using "1.prems" by (simp add: returns_live_def) (subst push_loop.simps, simp)
  next
    case (Cons b rest)
    consider "expected_body d = None" | n where "expected_body d = Some n" "body_buffer d = None"
      | n buf where "expected_body d = Some n" "body_buffer d = Some buf" by blast
    then show ?thesis
    proof cases
      case 1
      with IH Cons show ?thesis by (rule returns_live_header)
    next
      case 2
      then show ?thesis using Cons "1.prems" by (simp add: returns_live_def) (subst push_loop.simps, simp)
    next
      case 3
      with IH Cons "1.prems" show ?thesis by (rule returns_live_body)
    qed
  qed
qed

lemma push_terminates:
  "decoder_live d \<Longrightarrow> \<exists>r d'. push parse chunk d = Some (r, d') \<and> decoder_live d' \<and> finished d' = finished d"
  unfolding push_def using push_loop_live [of d parse chunk "[]"] by (auto simp: returns_live_def)

lemma step_byte_finished: "step_byte parse b d = (r, d') \<Longrightarrow> finished d' = finished d"
  by (auto simp: step_byte_def push_header_byte_def begin_body_def finish_body_def reset_body_def
      Let_def split: option.splits sum.splits prod.splits if_splits)

text \<open>
  However the stream is cut into chunks, the decoder does what the byte machine does on the
  whole stream; in particular every call of \<open>push\<close> returns.
\<close>

lemma push_chunks_run:
  "decoder_ok d \<Longrightarrow> \<not> finished d \<Longrightarrow> push_chunks parse cs d = Some (run_bytes parse (concat cs) d)"
proof (induction cs arbitrary: d)
  case Nil
  then show ?case by simp
next
  case (Cons c cs)
  obtain r d1 where r: "run_bytes parse c d = (r, d1)" by (meson prod.exhaust)
  have ok: "finished d1 = finished d" "is_ok r \<Longrightarrow> decoder_ok d1"
    using run_bytes_ok [OF r Cons.prems(1)] by auto
  have "push parse c d = Some (prepend [] (r, d1))"
    using Cons.prems r by (simp add: push_def push_loop_run)
  then show ?case
    using ok Cons.IH [of d1] Cons.prems r
    by (cases r) (auto simp: run_bytes_append_prepend prepend_def split: prod.splits sum.splits)
qed

section \<open>Decoding what the encoder wrote\<close>

lemma length_digits_acc: "n < 10 ^ Suc m \<Longrightarrow> length (digits_acc n acc) \<le> Suc m + length acc"
proof (induction m arbitrary: n acc)
  case 0
  then show ?case by (subst digits_acc.simps) simp
next
  case (Suc m)
  show ?case
  proof (cases "n < 10")
    case True
    then show ?thesis by (subst digits_acc.simps) simp
  next
    case False
    have "n div 10 < 10 ^ Suc m" using Suc.prems by (simp add: div_less_iff_less_mult)
    from Suc.IH [OF this, of "(48 + n mod 10) # acc"] False show ?thesis
      by (subst digits_acc.simps) simp
  qed
qed

lemma canonical_decimal: "canonical_digits (decimal n)"
proof (cases "n = 0")
  case True
  then show ?thesis by (simp add: decimal_def digits_acc.simps canonical_digits_def is_digit_def)
next
  case False
  then show ?thesis using decimal_shape [of n] decimal_digits [of n]
    by (simp add: canonical_digits_def)
qed

definition header_text :: "jsstring \<Rightarrow> bytes" where
  "header_text ds = HEADER_PREFIX @ ds @ HEADER_END"

lemma length_HEADER [simp]: "length HEADER_PREFIX = 16" "length HEADER_END = 4"
  by (simp_all add: HEADER_PREFIX_def HEADER_END_def)

lemma length_header_text: "length (header_text ds) = length ds + 20"
  by (simp add: header_text_def)

lemma header_text_front:
  assumes "list_all is_digit ds" and "i < length ds + 16"
  shows "header_text ds ! i \<le> 127 \<and> header_text ds ! i \<noteq> 10 \<and> header_text ds ! i \<noteq> 13"
proof -
  have "list_all (\<lambda>u. u \<le> 127 \<and> u \<noteq> 10 \<and> u \<noteq> 13) (HEADER_PREFIX @ ds)"
    using assms(1) by (auto simp: HEADER_PREFIX_def js_def list_all_iff is_digit_def)
  moreover have "((HEADER_PREFIX @ ds) @ HEADER_END) ! i = (HEADER_PREFIX @ ds) ! i"
    using assms(2) by (subst nth_append) simp
  then have "header_text ds ! i = (HEADER_PREFIX @ ds) ! i"
    by (simp add: header_text_def)
  moreover have "i < length (HEADER_PREFIX @ ds)"
    using assms(2) by simp
  ultimately show ?thesis unfolding list_all_length by auto
qed

lemma header_text_end: "header_text ds ! (length ds + 16 + m) = HEADER_END ! m"
proof -
  have "((HEADER_PREFIX @ ds) @ HEADER_END) ! (length (HEADER_PREFIX @ ds) + m) = HEADER_END ! m"
    by (rule nth_append_length_plus)
  then show ?thesis by (simp add: header_text_def add.commute add.left_commute del: nth_append_length_plus)
qed

lemma header_text_back:
  assumes "length ds + 16 \<le> i" and "i < length ds + 20"
  shows "header_text ds ! i = (if even (i - length ds) then 13 else 10)"
proof -
  obtain m where i: "i = length ds + 16 + m" using assms(1) le_Suc_ex by blast
  with assms(2) have "m = 0 \<or> m = 1 \<or> m = 2 \<or> m = 3" by auto
  then show ?thesis unfolding i header_text_end by (auto simp: HEADER_END_def)
qed

lemma header_text_step:
  assumes ds: "list_all is_digit ds" and len: "length ds \<le> 44" and i: "i < length ds + 20"
    and idle: "expected_body d = None" "header_bytes d = take i (header_text ds)"
  shows "push_header_byte (header_text ds ! i) d
    = (Inr (), d\<lparr>header_bytes := take (Suc i) (header_text ds)\<rparr>)"
proof -
  let ?h = "header_text ds"
  have app: "take i ?h @ [?h ! i] = take (Suc i) ?h"
    using i by (simp add: take_Suc_conv_app_nth length_header_text)
  have b: "?h ! i \<le> 127 \<and> (?h ! i = 10 \<longrightarrow> 0 < i \<and> ?h ! (i - 1) = 13)"
  proof (cases "i < length ds + 16")
    case True
    then show ?thesis using header_text_front [OF ds] by blast
  next
    case False
    then have bk: "?h ! i = (if even (i - length ds) then 13 else 10)"
      using i by (intro header_text_back) auto
    show ?thesis
    proof (cases "odd (i - length ds)")
      case True
      with False have "length ds + 16 \<le> i - 1" "even (i - 1 - length ds)" "0 < i"
        by presburger+
      with bk True i header_text_back [of ds "i - 1"] show ?thesis by simp
    qed (use bk in simp)
  qed
  have pre: "i < length HEADER_PREFIX \<Longrightarrow> ?h ! i = HEADER_PREFIX ! i"
    by (simp add: header_text_def nth_append)
  have li: "length (take (Suc i) ?h) = Suc i" using i by (simp add: length_header_text)
  have "0 < i \<Longrightarrow> take (Suc i) ?h ! (i - 1) = ?h ! (i - 1)" by simp
  with b pre i len show ?thesis
    unfolding push_header_byte_def Let_def idle(2) app li MAX_HEADER_BYTES_def by auto
qed

lemma header_text_complete:
  assumes ds: "list_all is_digit ds" and i: "i < length ds + 20"
    and h: "header_bytes d = take (Suc i) (header_text ds)"
  shows "has_complete_header d \<longleftrightarrow> Suc i = length ds + 20"
proof
  let ?h = "header_text ds"
  assume c: "has_complete_header d"
  have li: "length (take (Suc i) ?h) = Suc i" using i by (simp add: length_header_text)
  have four: "4 \<le> Suc i" and last: "last_n 4 (take (Suc i) ?h) = [13, 10, 13, 10]"
    using c h li unfolding has_complete_header_def Let_def length_HEADER HEADER_END_def [symmetric]
    by (simp_all add: HEADER_END_def)
  have nth: "?h ! (i - 3 + m) = [13, 10, 13, 10] ! m" if "m < 4" for m
  proof -
    have "last_n 4 (take (Suc i) ?h) ! m = ?h ! (i - 3 + m)"
      using that four li i by (simp add: last_n_def length_header_text)
    then show ?thesis by (simp add: last)
  qed
  have ten: "?h ! i = 10" "?h ! (i - 2) = 10"
  proof -
    have "i - 3 + 3 = i" "i - 3 + 1 = i - 2" using four by arith+
    then show "?h ! i = 10" "?h ! (i - 2) = 10" using nth [of 3] nth [of 1] by simp_all
  qed
  then have ge: "length ds + 16 \<le> i - 2"
    using header_text_front [OF ds, of "i - 2"] by (meson not_less)
  have odd10: "odd (j - length ds)"
    if "?h ! j = 10" "length ds + 16 \<le> j" "j < length ds + 20" for j
  proof
    assume "even (j - length ds)"
    with header_text_back [OF that(2,3)] have "?h ! j = 13" by (simp only: if_True)
    with that(1) show False by simp
  qed
  have "odd (i - length ds)" by (rule odd10 [OF ten(1)]) (use ge i in linarith)+
  moreover have "i - length ds = 18 \<or> i - length ds = 19" using ge i by linarith
  ultimately have "i - length ds = 19" by (auto simp del: even_diff_nat)
  then show "Suc i = length ds + 20" by linarith
next
  assume "Suc i = length ds + 20"
  with h show "has_complete_header d"
    by (simp add: has_complete_header_def header_text_def last_n_def)
qed

lemma match_header_text: "canonical_digits ds \<Longrightarrow> match_header (header_text ds) = Some ds"
  by (simp add: match_header_def header_text_def slice_def Let_def)

lemma run_bytes_header_prefix:
  assumes ds: "list_all is_digit ds" and len: "length ds \<le> 44"
  shows "i < length ds + 20 \<Longrightarrow> run_bytes parse (take i (header_text ds)) new_decoder
    = (Inr [], new_decoder\<lparr>header_bytes := take i (header_text ds)\<rparr>)"
proof (induction i)
  case 0
  show ?case by (simp add: new_decoder_def)
next
  case (Suc i)
  let ?h = "header_text ds" and ?d = "new_decoder\<lparr>header_bytes := take i (header_text ds)\<rparr>"
  have i: "i < length ds + 20" using Suc.prems by simp
  have "step_byte parse (?h ! i) ?d = (Inr [], ?d\<lparr>header_bytes := take (Suc i) ?h\<rparr>)"
    using header_text_step [OF ds len i, of ?d]
      header_text_complete [OF ds i, of "?d\<lparr>header_bytes := take (Suc i) ?h\<rparr>"] Suc.prems
    by (simp add: step_byte_def new_decoder_def)
  then have "run_bytes parse (take i ?h @ [?h ! i]) new_decoder
      = (Inr [], new_decoder\<lparr>header_bytes := take (Suc i) ?h\<rparr>)"
    using Suc.IH [OF i] by (simp add: run_bytes_append)
  then show ?case
    using i by (simp add: take_Suc_conv_app_nth length_header_text)
qed

lemma run_bytes_header:
  assumes "n \<le> MAX_FRAME_BYTES" and "0 < n"
  shows "run_bytes parse (header_text (decimal n)) new_decoder = (Inr [],
    new_decoder\<lparr>expected_body := Some n, body_buffer := Some (replicate n 0)\<rparr>)"
proof -
  let ?ds = "decimal n" and ?h = "header_text (decimal n)"
  let ?i = "length ?ds + 19"
  have "n < 10 ^ Suc 6" using assms(1) by (simp add: MAX_FRAME_BYTES_def)
  then have len: "length ?ds \<le> 44"
    using length_digits_acc [of n 6 "[]"] by (simp add: decimal_def)
  have ds: "list_all is_digit ?ds" by (rule decimal_digits)
  let ?d = "new_decoder\<lparr>header_bytes := take ?i ?h\<rparr>"
  have all: "take (Suc ?i) ?h = ?h" by (simp add: length_header_text)
  have push: "push_header_byte (?h ! ?i) ?d = (Inr (), ?d\<lparr>header_bytes := ?h\<rparr>)"
    using header_text_step [OF ds len, of ?i ?d] unfolding all by (simp add: new_decoder_def)
  have complete: "has_complete_header (?d\<lparr>header_bytes := ?h\<rparr>)"
    using header_text_complete [OF ds, of ?i "?d\<lparr>header_bytes := ?h\<rparr>"] unfolding all by simp
  have begun: "begin_body (?d\<lparr>header_bytes := ?h\<rparr>) = (Inr (),
      new_decoder\<lparr>expected_body := Some n, body_buffer := Some (replicate n 0)\<rparr>)"
    using assms
    by (simp add: begin_body_def match_header_text canonical_decimal new_decoder_def
        MAX_FRAME_BYTES_def)
  have "step_byte parse (?h ! ?i) ?d = (Inr [],
      new_decoder\<lparr>expected_body := Some n, body_buffer := Some (replicate n 0)\<rparr>)"
    using push complete begun assms(2) by (simp add: step_byte_def new_decoder_def)
  then have "run_bytes parse (take ?i ?h @ [?h ! ?i]) new_decoder = (Inr [],
      new_decoder\<lparr>expected_body := Some n, body_buffer := Some (replicate n 0)\<rparr>)"
    using run_bytes_header_prefix [OF ds len, of ?i parse] by (simp add: run_bytes_append)
  moreover have "take ?i ?h @ [?h ! ?i] = take (Suc ?i) ?h"
    by (rule take_Suc_conv_app_nth [symmetric]) (simp add: length_header_text)
  ultimately show ?thesis unfolding all by simp
qed

definition encoded :: "json \<Rightarrow> bytes" where
  "encoded v = utf8_encode (stringify v)"

lemma encode_frame_Inr:
  "encode_frame (Some v) = Inr f \<longleftrightarrow>
     length (encoded v) \<le> MAX_FRAME_BYTES \<and> f = header_text (decimal (length (encoded v))) @ encoded v"
  by (auto simp: encode_frame_def encoded_def header_text_def Let_def)

lemma utf8_encode_head: "s \<noteq> [] \<Longrightarrow> hd s < 128 \<Longrightarrow> \<exists>bs. utf8_encode s = hd s # bs"
proof (induction s rule: code_points.induct)
  case (3 u v s)
  then have "\<not> is_high u" by (simp add: is_high_def)
  with 3 show ?case by (simp add: utf8_encode_def point_value_def utf8_point_def is_low_def)
qed (auto simp: utf8_encode_def point_value_def utf8_point_def is_low_def is_high_def)

lemma decode_encoded:
  assumes "units_ok v"
  shows "utf8_decode (encoded v) = Some (stringify v)" and "encoded v \<noteq> []"
proof -
  obtain bs where bs: "encoded v = hd (stringify v) # bs"
    using utf8_encode_head stringify_ascii_head [OF assms] unfolding encoded_def by blast
  then show "encoded v \<noteq> []" by simp
  have "take 3 (utf8_encode (stringify v)) \<noteq> [239, 187, 191]"
    using bs stringify_ascii_head [OF assms] by (auto simp: encoded_def)
  then show "utf8_decode (encoded v) = Some (stringify v)"
    unfolding encoded_def by (intro utf8_decode_encode well_formed_stringify assms)
qed

lemma buffer_set_all: "length part = length buf \<Longrightarrow> buffer_set buf 0 part = part"
  by (simp add: buffer_set_def)

lemma run_bytes_frame:
  assumes ok: "units_ok v" and parse: "parse (stringify v) = Some v"
    and enc: "encode_frame (Some v) = Inr f"
  shows "run_bytes parse f new_decoder = (Inr [v], new_decoder)"
proof -
  let ?n = "length (encoded v)"
  let ?d = "new_decoder\<lparr>expected_body := Some ?n, body_buffer := Some (replicate ?n 0)\<rparr>"
  have n: "0 < ?n" "?n \<le> MAX_FRAME_BYTES" and f: "f = header_text (decimal ?n) @ encoded v"
    using enc decode_encoded(2) [OF ok] by (auto simp: encode_frame_Inr)
  have "run_bytes parse (encoded v) ?d = body_block parse (replicate ?n 0) ?n (encoded v) ?d"
    by (rule run_bytes_block) (use n in \<open>auto simp: new_decoder_def\<close>)
  also have "\<dots> = (Inr [v], new_decoder)"
    by (simp add: body_block_def new_decoder_def buffer_set_all finish_body_def decode_body_def
        decode_encoded(1) [OF ok] parse reset_body_def)
  finally show ?thesis
    unfolding f run_bytes_append using run_bytes_header [OF n(2,1), of parse] by simp
qed

lemma run_bytes_frames:
  assumes "\<forall>v \<in> set vs. units_ok v \<and> parse (stringify v) = Some v"
    and "map_res (\<lambda>v. encode_frame (Some v)) vs = Inr fs"
  shows "run_bytes parse (concat fs) new_decoder = (Inr vs, new_decoder)"
  using assms
proof (induction vs arbitrary: fs)
  case Nil
  then show ?case by simp
next
  case (Cons v vs)
  then obtain f gs where "encode_frame (Some v) = Inr f" "fs = f # gs"
    "map_res (\<lambda>v. encode_frame (Some v)) vs = Inr gs"
    by (auto simp: bind_res_eq_Inr)
  moreover from this have "run_bytes parse f new_decoder = (Inr [v], new_decoder)"
    using Cons.prems(1) by (intro run_bytes_frame) auto
  ultimately show ?case using Cons by (simp add: run_bytes_append)
qed

section \<open>Properties\<close>

text \<open>
  C6. The codec is a round trip under any fragmentation: encode any sequence of JSON values,
  concatenate the frames and cut the byte stream into chunks at arbitrary places; pushing the
  chunks yields exactly the values, and leaves the decoder idle, so that \<open>finish\<close> accepts.
  The premise on \<open>parse\<close> is that \<open>JSON.parse\<close> inverts \<open>JSON.stringify\<close> on these values.
\<close>

theorem frames_roundtrip:
  assumes "\<forall>v \<in> set vs. units_ok v \<and> parse (stringify v) = Some v"
    and "map_res (\<lambda>v. encode_frame (Some v)) vs = Inr fs"
    and "concat chunks = concat fs"
  shows "push_chunks parse chunks new_decoder = Some (Inr vs, new_decoder)
    \<and> fst (finish new_decoder) = Inr ()"
proof -
  have "push_chunks parse chunks new_decoder = Some (run_bytes parse (concat fs) new_decoder)"
    unfolding assms(3) [symmetric] by (rule push_chunks_run) (simp_all add: new_decoder_def decoder_ok_def)
  also have "\<dots> = Some (Inr vs, new_decoder)"
    using run_bytes_frames [OF assms(1,2)] by simp
  finally show ?thesis by (simp add: finish_def new_decoder_def)
qed

theorem frames_roundtrip_witness:
  "push_chunks (\<lambda>t. if t = js ''null'' then Some JNull else None)
     [HEADER_PREFIX, [52, 13], [10, 13, 10, 110, 117], js ''ll'' @ HEADER_PREFIX @ [52],
      HEADER_END @ js ''null''] new_decoder = Some (Inr [JNull, JNull], new_decoder)
   \<and> fst (finish new_decoder) = Inr ()"
proof -
  let ?parse = "\<lambda>t. if t = js ''null'' then Some JNull else None"
  let ?f = "HEADER_PREFIX @ [52] @ HEADER_END @ js ''null''"
  have enc: "utf8_encode (js ''null'') = js ''null''"
    by (rule utf8_encode_ascii) (simp add: js_def)
  have "decimal (length (js ''null'')) = [52]" and "\<not> MAX_FRAME_BYTES < length (js ''null'')"
    by (simp_all add: decimal_def digits_acc.simps MAX_FRAME_BYTES_def)
  then have f: "encode_frame (Some JNull) = Inr ?f"
    by (simp add: encode_frame_def enc Let_def del: length_js)
  show ?thesis
    by (rule frames_roundtrip [of "[JNull, JNull]" ?parse "[?f, ?f]"])
      (simp_all add: f, simp add: HEADER_END_def js_def)
qed

text \<open>
  C31. The decoder is insensitive to how the stream is cut: feeding the chunks one after the
  other gives the result and the final state of the byte-at-a-time machine on the whole
  stream, errors included. In particular every call of \<open>push\<close> returns.
\<close>

theorem push_chunks_eq_run_bytes:
  assumes "decoder_ok d" and "\<not> finished d"
  shows "push_chunks parse chunks d = Some (run_bytes parse (concat chunks) d)"
  by (rule push_chunks_run [OF assms])

theorem push_chunks_eq_run_bytes_witness:
  "push_chunks (\<lambda>_. None) [[67, 111], [72]] new_decoder
     = Some (run_bytes (\<lambda>_. None) [67, 111, 72] new_decoder)"
  using push_chunks_eq_run_bytes [of new_decoder "\<lambda>_. None" "[[67, 111], [72]]"]
  by (simp add: new_decoder_def decoder_ok_def)

text \<open>
  C39. Memory is bounded whatever the peer sends: after any chunks, accepted or refused, the
  decoder holds at most 65 header bytes and a body buffer of at most 8 MiB, and if they were
  accepted it is again in a state that satisfies the invariant.
\<close>

theorem push_chunks_bounded:
  assumes "push_chunks parse chunks new_decoder = Some (r, d)"
  shows "length (header_bytes d) \<le> 65
    \<and> (\<forall>buf. body_buffer d = Some buf \<longrightarrow> length buf \<le> 8388608)
    \<and> (is_ok r \<longrightarrow> decoder_ok d)"
proof -
  have "push_chunks parse chunks new_decoder = Some (run_bytes parse (concat chunks) new_decoder)"
    by (rule push_chunks_run) (simp_all add: new_decoder_def decoder_ok_def)
  with assms have "run_bytes parse (concat chunks) new_decoder = (r, d)" by simp
  from run_bytes_ok [OF this new_decoder_ok] show ?thesis
    by (simp add: decoder_bounded_def MAX_HEADER_BYTES_def MAX_FRAME_BYTES_def)
qed

theorem push_chunks_bounded_witness:
  "length (header_bytes new_decoder) \<le> 65 \<and> decoder_ok new_decoder"
proof -
  have "push_chunks (\<lambda>_. None) [[]] new_decoder = Some (Inr [], new_decoder)"
    by (simp add: push_def push_loop.simps new_decoder_def)
  from push_chunks_bounded [OF this] show ?thesis by simp
qed

end
