(* ===== verification/Profiles.thy ===== *)
theory Profiles
  imports Json
begin

text \<open>
  The authority profiles of \<open>packages/profiles\<close>: the three presets, the runtime schema of a
  policy (\<open>runtimePolicySchema\<close> of \<open>packages/protocol/src/runtime-types.ts\<close>) and
  \<open>resolveProfile\<close>, by which a project may narrow, and never widen, the policy of its
  workspace. The rank tables of the source are the \<open>linorder\<close> instances of the two
  enumerations.
\<close>

datatype profile_name = Observe | Develop | Trusted

datatype network_mode = Deny | Localhost | Allowlist | Unrestricted

text \<open>\<open>PROFILE_RANK\<close> and \<open>NETWORK_RANK\<close>.\<close>

fun profile_rank :: "profile_name \<Rightarrow> nat" where
  "profile_rank Observe = 0"
| "profile_rank Develop = 1"
| "profile_rank Trusted = 2"

fun network_rank :: "network_mode \<Rightarrow> nat" where
  "network_rank Deny = 0"
| "network_rank Localhost = 1"
| "network_rank Allowlist = 2"
| "network_rank Unrestricted = 3"

lemma profile_rank_inj: "profile_rank a = profile_rank b \<Longrightarrow> a = b"
  by (cases a; cases b) simp_all

lemma network_rank_inj: "network_rank a = network_rank b \<Longrightarrow> a = b"
  by (cases a; cases b) simp_all

instantiation profile_name :: linorder
begin

definition less_eq_profile_name :: "profile_name \<Rightarrow> profile_name \<Rightarrow> bool" where
  "less_eq_profile_name a b = (profile_rank a \<le> profile_rank b)"

definition less_profile_name :: "profile_name \<Rightarrow> profile_name \<Rightarrow> bool" where
  "less_profile_name a b = (profile_rank a < profile_rank b)"

instance
  by standard
    (auto simp: less_eq_profile_name_def less_profile_name_def intro: profile_rank_inj)

end

instantiation network_mode :: linorder
begin

definition less_eq_network_mode :: "network_mode \<Rightarrow> network_mode \<Rightarrow> bool" where
  "less_eq_network_mode a b = (network_rank a \<le> network_rank b)"

definition less_network_mode :: "network_mode \<Rightarrow> network_mode \<Rightarrow> bool" where
  "less_network_mode a b = (network_rank a < network_rank b)"

instance
  by standard
    (auto simp: less_eq_network_mode_def less_network_mode_def intro: network_rank_inj)

end

record policy =
  policy_name :: profile_name
  allow_write :: bool
  allow_process :: bool
  allow_dynamic_executables :: bool
  network :: network_mode
  allowed_executable_names :: "jsstring list"
  inherit_env :: bool
  env_allowlist :: "jsstring list"

fun get_profile_preset :: "profile_name \<Rightarrow> policy" where
  "get_profile_preset Observe =
     \<lparr>policy_name = Observe, allow_write = False, allow_process = False,
      allow_dynamic_executables = False, network = Deny, allowed_executable_names = [],
      inherit_env = False, env_allowlist = []\<rparr>"
| "get_profile_preset Develop =
     \<lparr>policy_name = Develop, allow_write = True, allow_process = True,
      allow_dynamic_executables = False, network = Deny,
      allowed_executable_names = map js [''cargo'', ''node'', ''python3'', ''rustc''],
      inherit_env = False, env_allowlist = map js [''CI'', ''LANG'', ''LC_ALL'', ''TERM'']\<rparr>"
| "get_profile_preset Trusted =
     \<lparr>policy_name = Trusted, allow_write = True, allow_process = True,
      allow_dynamic_executables = True, network = Unrestricted,
      allowed_executable_names = map js [''bash'', ''cargo'', ''node'', ''npm'', ''npx'',
        ''pnpm'', ''python3'', ''rustc'', ''sh''],
      inherit_env = False, env_allowlist = map js [''CI'', ''LANG'', ''LC_ALL'', ''TERM'']\<rparr>"

section \<open>The schema\<close>

definition profile_names :: "(jsstring \<times> profile_name) list" where
  "profile_names = [(js ''observe'', Observe), (js ''develop'', Develop), (js ''trusted'', Trusted)]"

definition network_modes :: "(jsstring \<times> network_mode) list" where
  "network_modes = [(js ''deny'', Deny), (js ''localhost'', Localhost),
     (js ''allowlist'', Allowlist), (js ''unrestricted'', Unrestricted)]"

definition parse_enum :: "(jsstring \<times> 'a) list \<Rightarrow> json option \<Rightarrow> 'a option" where
  "parse_enum names v = (case as_str v of None \<Rightarrow> None | Some s \<Rightarrow> map_of names s)"

definition parse_strings :: "(jsstring \<Rightarrow> bool) \<Rightarrow> json option \<Rightarrow> jsstring list option" where
  "parse_strings ok v = (case as_arr v of
     None \<Rightarrow> None
   | Some xs \<Rightarrow> those (map (\<lambda>x. case as_str (Some x) of
       Some s \<Rightarrow> (if ok s then Some s else None) | None \<Rightarrow> None) xs))"

fun profile_text :: "profile_name \<Rightarrow> string" where
  "profile_text Observe = ''observe''"
| "profile_text Develop = ''develop''"
| "profile_text Trusted = ''trusted''"

fun network_text :: "network_mode \<Rightarrow> string" where
  "network_text Deny = ''deny''"
| "network_text Localhost = ''localhost''"
| "network_text Allowlist = ''allowlist''"
| "network_text Unrestricted = ''unrestricted''"

text \<open>\<open>runtimePolicySchema.safeParse(value)\<close>: a strict object, \<open>None\<close> on failure.\<close>

definition parse_policy :: "json option \<Rightarrow> policy option" where
  "parse_policy v = (case as_record v of
     None \<Rightarrow> None
   | Some fs \<Rightarrow>
       if \<not> only_keys fs [''name'', ''allowWrite'', ''allowProcess'', ''allowDynamicExecutables'',
           ''network'', ''allowedExecutableNames'', ''inheritEnv'', ''envAllowlist'']
       then None
       else
         (case (parse_enum profile_names (get fs ''name''), as_bool (get fs ''allowWrite''),
                as_bool (get fs ''allowProcess''), as_bool (get fs ''allowDynamicExecutables''),
                parse_enum network_modes (get fs ''network''),
                parse_strings (\<lambda>s. s \<noteq> []) (get fs ''allowedExecutableNames''),
                as_bool (get fs ''inheritEnv''),
                parse_strings (\<lambda>_. True) (get fs ''envAllowlist'')) of
            (Some n, Some w, Some p, Some d, Some net, Some ex, Some False, Some env) \<Rightarrow>
              Some \<lparr>policy_name = n, allow_write = w, allow_process = p,
                allow_dynamic_executables = d, network = net, allowed_executable_names = ex,
                inherit_env = False, env_allowlist = env\<rparr>
          | _ \<Rightarrow> None))"

definition policy_json :: "policy \<Rightarrow> json" where
  "policy_json p = JObj
     [fld ''name'' (JStr (js (profile_text (policy_name p)))),
      fld ''allowWrite'' (JBool (allow_write p)),
      fld ''allowProcess'' (JBool (allow_process p)),
      fld ''allowDynamicExecutables'' (JBool (allow_dynamic_executables p)),
      fld ''network'' (JStr (js (network_text (network p)))),
      fld ''allowedExecutableNames'' (JArr (map JStr (allowed_executable_names p))),
      fld ''inheritEnv'' (JBool (inherit_env p)),
      fld ''envAllowlist'' (JArr (map JStr (env_allowlist p)))]"

text \<open>What the schema demands of a value that already has the static type.\<close>

definition policy_valid :: "policy \<Rightarrow> bool" where
  "policy_valid p = (\<not> inherit_env p \<and> list_all (\<lambda>s. s \<noteq> []) (allowed_executable_names p))"

lemma parse_strings_map: "list_all ok xs \<Longrightarrow> parse_strings ok (Some (JArr (map JStr xs))) = Some xs"
  by (induction xs) (auto simp: parse_strings_def)

lemma those_Some_all: "those (map f xs) = Some ys \<Longrightarrow> (\<And>x y. f x = Some y \<Longrightarrow> P y) \<Longrightarrow> list_all P ys"
  by (induction xs arbitrary: ys) (auto split: option.splits)

lemma parse_strings_all: "parse_strings ok v = Some ys \<Longrightarrow> list_all ok ys"
  unfolding parse_strings_def
  by (auto split: option.splits intro!: those_Some_all split: if_splits)

lemma parse_policy_json: "policy_valid p \<Longrightarrow> parse_policy (Some (policy_json p)) = Some p"
  by (cases "policy_name p"; cases "network p")
    (auto simp: parse_policy_def policy_json_def policy_valid_def parse_enum_def profile_names_def
      network_modes_def parse_strings_map list_all_iff)

lemma parse_policy_valid: "parse_policy v = Some p \<Longrightarrow> policy_valid p"
  by (auto simp: parse_policy_def policy_valid_def dest: parse_strings_all
      split: option.splits if_splits bool.splits)

lemma preset_valid [simp]: "policy_valid (get_profile_preset n)"
  by (cases n) (simp_all add: policy_valid_def)

section \<open>Narrowing\<close>

datatype profile_error =
    SchemaInvalid
  | ProfileEscalation string

text \<open>\<open>profilePolicySchema.parse\<close> on a typed value and \<open>assertSubset\<close>.\<close>

definition check_policy :: "policy \<Rightarrow> profile_error + policy" where
  "check_policy p = (if policy_valid p then Inr p else Inl SchemaInvalid)"

definition assert_subset :: "jsstring list \<Rightarrow> jsstring list \<Rightarrow> string \<Rightarrow> profile_error + unit" where
  "assert_subset candidate ceiling msg =
     ensure (\<not> list_ex (\<lambda>v. v \<notin> set ceiling) candidate) (ProfileEscalation msg)"

text \<open>\<open>[...new Set(xs)].sort()\<close>.\<close>

definition sorted_unique :: "jsstring list \<Rightarrow> jsstring list" where
  "sorted_unique xs = sort (remdups xs)"

definition resolve_profile :: "policy \<Rightarrow> policy \<Rightarrow> profile_error + policy" where
  "resolve_profile current restriction =
     bind_res (check_policy current) (\<lambda>c.
     bind_res (check_policy restriction) (\<lambda>r.
     if policy_name c < policy_name r
       then Inl (ProfileEscalation ''Project profile name exceeds the current ceiling'')
     else if \<not> allow_write c \<and> allow_write r
       then Inl (ProfileEscalation ''Project profile cannot enable writes'')
     else if \<not> allow_process c \<and> allow_process r
       then Inl (ProfileEscalation ''Project profile cannot enable processes'')
     else if \<not> allow_dynamic_executables c \<and> allow_dynamic_executables r
       then Inl (ProfileEscalation ''Project profile cannot enable dynamic executables'')
     else if network c < network r
       then Inl (ProfileEscalation ''Project profile cannot broaden network access'')
     else
       bind_res (assert_subset (allowed_executable_names r) (allowed_executable_names c)
         ''Project profile cannot add executable names'') (\<lambda>_.
       bind_res (assert_subset (env_allowlist r) (env_allowlist c)
         ''Project profile cannot add environment variables'') (\<lambda>_.
       Inr (r\<lparr>allowed_executable_names := sorted_unique (allowed_executable_names r),
              env_allowlist := sorted_unique (env_allowlist r)\<rparr>)))))"

text \<open>The specification: the authority order on policies.\<close>

definition narrower :: "policy \<Rightarrow> policy \<Rightarrow> bool" where
  "narrower r c = (policy_name r \<le> policy_name c
     \<and> (allow_write r \<longrightarrow> allow_write c) \<and> (allow_process r \<longrightarrow> allow_process c)
     \<and> (allow_dynamic_executables r \<longrightarrow> allow_dynamic_executables c)
     \<and> network r \<le> network c
     \<and> set (allowed_executable_names r) \<subseteq> set (allowed_executable_names c)
     \<and> set (env_allowlist r) \<subseteq> set (env_allowlist c))"

definition canonical_policy :: "policy \<Rightarrow> policy" where
  "canonical_policy p = p\<lparr>allowed_executable_names := sorted_unique (allowed_executable_names p),
     env_allowlist := sorted_unique (env_allowlist p)\<rparr>"

lemma set_sorted_unique [simp]: "set (sorted_unique xs) = set xs"
  by (simp add: sorted_unique_def)

lemma sorted_unique_idem [simp]: "sorted_unique (sorted_unique xs) = sorted_unique xs"
  by (simp add: sorted_unique_def distinct_remdups_id sorted_sort_id)

lemma narrower_refl [simp]: "narrower p p"
  by (simp add: narrower_def)

lemma narrower_trans: "narrower p q \<Longrightarrow> narrower q r \<Longrightarrow> narrower p r"
  by (auto simp: narrower_def)

lemma narrower_canonical [simp]: "narrower (canonical_policy p) q = narrower p q"
  by (simp add: narrower_def canonical_policy_def)

lemma valid_canonical [simp]: "policy_valid (canonical_policy p) = policy_valid p"
  by (simp add: policy_valid_def canonical_policy_def list_all_iff)

lemma canonical_idem [simp]: "canonical_policy (canonical_policy p) = canonical_policy p"
  by (simp add: canonical_policy_def)

lemma resolve_profile_eq:
  "resolve_profile c r = Inr p \<longleftrightarrow>
     policy_valid c \<and> policy_valid r \<and> narrower r c \<and> p = canonical_policy r"
  by (auto simp: resolve_profile_def check_policy_def assert_subset_def narrower_def
      canonical_policy_def bind_res_eq_Inr list_ex_iff not_less split: if_splits)

text \<open>
  The contract the workspace manager relies on: whatever a chain of restrictions does, the
  authority never exceeds the first ceiling.
\<close>

locale authority =
  fixes below :: "'p \<Rightarrow> 'p \<Rightarrow> bool"
    and restrict_to :: "'p \<Rightarrow> 'p \<Rightarrow> 'e + 'p"
  assumes below_refl: "below p p"
    and below_trans: "below p q \<Longrightarrow> below q r \<Longrightarrow> below p r"
    and restrict_below: "restrict_to c r = Inr p \<Longrightarrow> below p c \<and> below p r"
begin

lemma chain_below:
  "foldl (\<lambda>m r. bind_res m (\<lambda>c. restrict_to c r)) (Inr c) rs = Inr p \<Longrightarrow>
     below p c \<and> (\<forall>r \<in> set rs. below p r)"
proof (induction rs arbitrary: p rule: rev_induct)
  case Nil
  then show ?case by (simp add: below_refl)
next
  case (snoc r rs)
  then obtain q where q: "foldl (\<lambda>m r. bind_res m (\<lambda>c. restrict_to c r)) (Inr c) rs = Inr q"
    and p: "restrict_to q r = Inr p"
    by (auto simp: bind_res_eq_Inr)
  from snoc.IH [OF q] restrict_below [OF p] show ?case
    by (auto intro: below_trans)
qed

end

interpretation profile_authority: authority narrower resolve_profile
proof
  show "narrower p p" for p by simp
  show "narrower p q \<Longrightarrow> narrower q r \<Longrightarrow> narrower p r" for p q r by (rule narrower_trans)
  show "resolve_profile c r = Inr p \<Longrightarrow> narrower p c \<and> narrower p r" for c r p
    by (simp add: resolve_profile_eq)
qed

section \<open>Properties\<close>

text \<open>
  C23. \<open>resolveProfile\<close> decides exactly the authority order: it succeeds iff both policies pass
  the schema and the restriction is below the ceiling in every dimension, and then returns the
  restriction with its two lists sorted and without duplicates.
\<close>

theorem resolve_profile_correct:
  "resolve_profile c r = Inr p \<longleftrightarrow>
     policy_valid c \<and> policy_valid r \<and> narrower r c \<and>
     p = r\<lparr>allowed_executable_names := sort (remdups (allowed_executable_names r)),
           env_allowlist := sort (remdups (env_allowlist r))\<rparr>"
  by (simp add: resolve_profile_eq canonical_policy_def sorted_unique_def)

text \<open>
  C7. No sequence of project restrictions escalates: after any number of successful
  \<open>resolveProfile\<close> steps from a preset, the resulting policy grants nothing the preset does not
  grant, and nothing any of the restrictions denies.
\<close>

theorem restrictions_never_escalate:
  assumes "foldl (\<lambda>m r. bind_res m (\<lambda>c. resolve_profile c r)) (Inr (get_profile_preset n)) rs = Inr p"
  shows "narrower p (get_profile_preset n) \<and> (\<forall>r \<in> set rs. narrower p r)"
  using assms by (rule profile_authority.chain_below)

theorem restrictions_never_escalate_witness:
  "narrower (get_profile_preset Observe) (get_profile_preset Trusted)
    \<and> narrower (get_profile_preset Observe) (get_profile_preset Develop)"
proof -
  have "narrower (get_profile_preset Develop) (get_profile_preset Trusted)"
    and "narrower (get_profile_preset Observe) (canonical_policy (get_profile_preset Develop))"
    and "canonical_policy (get_profile_preset Observe) = get_profile_preset Observe"
    by (auto simp: narrower_def canonical_policy_def sorted_unique_def
        less_eq_profile_name_def less_eq_network_mode_def)
  then have "resolve_profile (get_profile_preset Trusted) (get_profile_preset Develop)
      = Inr (canonical_policy (get_profile_preset Develop))"
    and "resolve_profile (canonical_policy (get_profile_preset Develop)) (get_profile_preset Observe)
      = Inr (get_profile_preset Observe)"
    unfolding resolve_profile_eq by (metis preset_valid valid_canonical)+
  then have "foldl (\<lambda>m r. bind_res m (\<lambda>c. resolve_profile c r)) (Inr (get_profile_preset Trusted))
      [get_profile_preset Develop, get_profile_preset Observe] = Inr (get_profile_preset Observe)"
    by (simp del: get_profile_preset.simps)
  from restrictions_never_escalate [OF this] show ?thesis
    by (simp del: get_profile_preset.simps)
qed

end
