(* ===== verification/Document_Store.thy ===== *)
theory Document_Store
  imports Json
begin

text \<open>
  The state files of the host (trust store, checkpoint store, developer environments) are
  all kept the same way: the whole JSON document is read, changed in memory, written to a
  temporary file in the same directory and renamed over the old one. This theory holds the
  file as those stores see it, the two primitives, and the contract of a document codec
  under which a store never loses or corrupts what it wrote.
\<close>

text \<open>
  What \<open>readFile\<close> finds: no file (\<open>ENOENT\<close>), another error, or a content. A store whose
  reader only parses the text has \<open>json option\<close> as content, \<open>None\<close> for text \<open>JSON.parse\<close>
  rejects; one that also measures the text carries its byte length beside it.
\<close>

datatype 'c state_file = Absent | Unreadable | Content 'c

text \<open>
  Where a write fails: not at all, before the \<open>rename\<close> (the temporary file is removed and
  the error rethrown), or after it (\<open>chmod\<close> or the directory \<open>sync\<close> throws).
\<close>

datatype write_fault = No_Fault | Before_Rename | After_Rename

definition read_file :: "'e \<Rightarrow> 'd \<Rightarrow> ('c \<Rightarrow> 'e + 'd) \<Rightarrow> 'c state_file \<Rightarrow> 'e + 'd" where
  "read_file io_error empty_doc parse f = (case f of
     Absent \<Rightarrow> Inr empty_doc
   | Unreadable \<Rightarrow> Inl io_error
   | Content c \<Rightarrow> parse c)"

definition write_file :: "'e \<Rightarrow> write_fault \<Rightarrow> 'c \<Rightarrow> 'c state_file \<Rightarrow>
    ('e + unit) \<times> 'c state_file" where
  "write_file io_error fault c f = (case fault of
     No_Fault \<Rightarrow> (Inr (), Content c)
   | Before_Rename \<Rightarrow> (Inl io_error, f)
   | After_Rename \<Rightarrow> (Inl io_error, Content c))"

lemma write_file_cases:
  "write_file e fault c f = (r, f') \<Longrightarrow>
     (r = Inr () \<and> f' = Content c) \<or> (r = Inl e \<and> f' = f) \<or> (r = Inl e \<and> f' = Content c)"
  by (auto simp: write_file_def split: write_fault.splits)

text \<open>
  The contract between a store and its parser, in two steps: what is valid reads back as it was
  written, and nothing invalid is ever returned by a read.
\<close>

locale document_printer =
  fixes to_content :: "'d \<Rightarrow> 'c"
    and parse :: "'c \<Rightarrow> 'e + 'd"
    and valid :: "'d \<Rightarrow> bool"
  assumes parse_to_content: "valid d \<Longrightarrow> parse (to_content d) = Inr d"
begin

text \<open>Two valid documents with the same content are the same document.\<close>

lemma to_content_inj: "valid d \<Longrightarrow> valid d' \<Longrightarrow> to_content d = to_content d' \<Longrightarrow> d = d'"
  using parse_to_content by (metis sum.inject(2))

lemma printed_then_read:
  assumes "valid d" and "write_file e fault (to_content d) f = (r, f')"
  shows "read_file io_error empty_doc parse f' \<in> {read_file io_error empty_doc parse f, Inr d}"
    and "r = Inr () \<Longrightarrow> read_file io_error empty_doc parse f' = Inr d"
  using write_file_cases [OF assms(2)] assms(1) by (auto simp: read_file_def parse_to_content)

end

locale document_codec = document_printer to_content parse valid
  for to_content :: "'d \<Rightarrow> 'c" and parse :: "'c \<Rightarrow> 'e + 'd" and valid :: "'d \<Rightarrow> bool" +
  assumes parse_valid: "parse j = Inr d \<Longrightarrow> valid d"
begin

text \<open>Rewriting a file that was read changes nothing that a reader can see.\<close>

lemma parse_stable: "parse j = Inr d \<Longrightarrow> parse (to_content d) = parse j"
  by (simp add: parse_valid parse_to_content)

end

text \<open>A store whose missing file stands for an empty document.\<close>

locale document_store = document_codec to_content parse valid
  for to_content :: "'d \<Rightarrow> 'c" and parse :: "'c \<Rightarrow> 'e + 'd" and valid :: "'d \<Rightarrow> bool" +
  fixes empty_doc :: 'd
    and io_error :: 'e
  assumes valid_empty: "valid empty_doc"
begin

lemma read_valid: "read_file io_error empty_doc parse f = Inr d \<Longrightarrow> valid d"
  using valid_empty parse_valid by (auto simp: read_file_def split: state_file.splits)

lemma read_content:
  "valid d \<Longrightarrow> read_file io_error empty_doc parse (Content (to_content d)) = Inr d"
  by (simp add: read_file_def parse_to_content)

lemmas write_then_read = printed_then_read [where io_error = io_error and empty_doc = empty_doc]

end

end
