(* ===== verification/Trust_Store.thy ===== *)
theory Trust_Store
  imports Document_Store Profiles
begin

text \<open>
  \<open>packages/trust/src/workspace-trust-store.ts\<close>: the persistent list of workspaces the user
  has trusted, each bound to the filesystem identity of its root. \<open>localeCompare\<close>, the
  generated identifier and the clock are arguments; the file is a \<^typ>\<open>json option state_file\<close>. The
  theorems say what an answer of \<open>requireTrusted\<close> means after any history of the store.
\<close>

record filesystem_identity =
  device_major :: int
  device_minor :: int
  inode :: jsstring

record trusted_entry =
  entry_id :: jsstring
  canonical_root :: jsstring
  entry_identity :: filesystem_identity
  profile_ceiling :: profile_name
  trusted_at :: jsstring

datatype trust_error =
    Trust_Store_Invalid
  | Trust_Store_Version_Unsupported
  | Workspace_Not_Trusted
  | Workspace_Identity_Changed
  | Trust_Store_Io

definition validate_canonical_root :: "jsstring \<Rightarrow> trust_error + unit" where
  "validate_canonical_root s = ensure (starts_with s (js ''/'')) Trust_Store_Invalid"

text \<open>
  \<open>validateIdentity\<close> on a typed identity; on parsed input, where the fields may be anything,
  the same tests give the identity.
\<close>

definition validate_identity :: "filesystem_identity \<Rightarrow> trust_error + unit" where
  "validate_identity i =
     ensure (\<bar>device_major i\<bar> \<le> max_safe \<and> 0 \<le> device_major i
       \<and> \<bar>device_minor i\<bar> \<le> max_safe \<and> 0 \<le> device_minor i
       \<and> inode i \<noteq> [] \<and> list_all is_digit (inode i)) Trust_Store_Invalid"

definition parse_identity :: "fields \<Rightarrow> trust_error + filesystem_identity" where
  "parse_identity fs =
     (case (as_safe_from 0 (get fs ''deviceMajor''), as_safe_from 0 (get fs ''deviceMinor''),
            as_str (get fs ''inode'')) of
        (Some ma, Some mi, Some ino) \<Rightarrow>
          if ino \<noteq> [] \<and> list_all is_digit ino
          then Inr \<lparr>device_major = ma, device_minor = mi, inode = ino\<rparr>
          else Inl Trust_Store_Invalid
      | _ \<Rightarrow> Inl Trust_Store_Invalid)"

definition parse_ceiling :: "jsstring \<Rightarrow> trust_error + profile_name" where
  "parse_ceiling s = (case map_of profile_names s of
     None \<Rightarrow> Inl Trust_Store_Invalid | Some n \<Rightarrow> Inr n)"

definition same_identity :: "filesystem_identity \<Rightarrow> filesystem_identity \<Rightarrow> bool" where
  "same_identity l r = (device_major l = device_major r \<and> device_minor l = device_minor r
     \<and> inode l = inode r)"

definition parse_entry :: "json \<Rightarrow> trust_error + trusted_entry" where
  "parse_entry v = (case as_record (Some v) of
     None \<Rightarrow> Inl Trust_Store_Invalid
   | Some fs \<Rightarrow>
       (case (as_str (get fs ''id''), as_str (get fs ''canonicalRoot''),
              as_record (get fs ''identity''), as_str (get fs ''profileCeiling''),
              as_str (get fs ''trustedAt'')) of
          (Some i, Some root, Some ident, Some ceil, Some at) \<Rightarrow>
            bind_res (validate_canonical_root root) (\<lambda>_.
            bind_res (parse_identity ident) (\<lambda>idn.
            bind_res (parse_ceiling ceil) (\<lambda>c.
              Inr \<lparr>entry_id = i, canonical_root = root, entry_identity = idn,
                profile_ceiling = c, trusted_at = at\<rparr>)))
        | _ \<Rightarrow> Inl Trust_Store_Invalid))"

text \<open>The body of \<open>#read\<close> after \<open>JSON.parse\<close>, and the text \<open>#write\<close> serialises.\<close>

definition parse_store :: "json \<Rightarrow> trust_error + trusted_entry list" where
  "parse_store v = (case as_record (Some v) of
     None \<Rightarrow> Inl Trust_Store_Invalid
   | Some fs \<Rightarrow>
       if get fs ''schemaVersion'' \<noteq> Some (JNum 1) then Inl Trust_Store_Version_Unsupported
       else (case as_arr (get fs ''entries'') of
          None \<Rightarrow> Inl Trust_Store_Invalid
        | Some xs \<Rightarrow> map_res parse_entry xs))"

definition identity_json :: "filesystem_identity \<Rightarrow> json" where
  "identity_json i = JObj [fld ''deviceMajor'' (JNum (device_major i)),
     fld ''deviceMinor'' (JNum (device_minor i)), fld ''inode'' (JStr (inode i))]"

definition entry_json :: "trusted_entry \<Rightarrow> json" where
  "entry_json e = JObj [fld ''id'' (JStr (entry_id e)),
     fld ''canonicalRoot'' (JStr (canonical_root e)),
     fld ''identity'' (identity_json (entry_identity e)),
     fld ''profileCeiling'' (JStr (js (profile_text (profile_ceiling e)))),
     fld ''trustedAt'' (JStr (trusted_at e))]"

definition store_json :: "trusted_entry list \<Rightarrow> json" where
  "store_json es = JObj [fld ''schemaVersion'' (JNum 1), fld ''entries'' (JArr (map entry_json es))]"

definition parse_text :: "json option \<Rightarrow> trust_error + trusted_entry list" where
  "parse_text t = (case t of None \<Rightarrow> Inl Trust_Store_Invalid | Some v \<Rightarrow> parse_store v)"

type_synonym trust_file = "json option state_file"

definition read_trust :: "trust_file \<Rightarrow> trust_error + trusted_entry list" where
  "read_trust f = read_file Trust_Store_Io [] parse_text f"

definition write_trust ::
    "write_fault \<Rightarrow> trusted_entry list \<Rightarrow> trust_file \<Rightarrow> (trust_error + unit) \<times> trust_file" where
  "write_trust fault es f = write_file Trust_Store_Io fault (Some (store_json es)) f"

section \<open>Operations\<close>

definition list_entries :: "trust_file \<Rightarrow> trust_error + trusted_entry list" where
  "list_entries f = read_trust f"

definition put_entry :: "nat option \<Rightarrow> trusted_entry \<Rightarrow> trusted_entry list \<Rightarrow> trusted_entry list" where
  "put_entry i e es = (case i of Some k \<Rightarrow> es[k := e] | None \<Rightarrow> es @ [e])"

text \<open>The entry \<open>trust\<close> builds from the parsed document, and the document it then writes.\<close>

definition next_entry :: "jsstring \<Rightarrow> jsstring \<Rightarrow> jsstring \<Rightarrow> filesystem_identity \<Rightarrow> profile_name \<Rightarrow>
    trusted_entry list \<Rightarrow> trusted_entry" where
  "next_entry fresh now root ident ceil es =
     \<lparr>entry_id = (case find_index (\<lambda>e. canonical_root e = root) es of
         Some k \<Rightarrow> entry_id (es ! k) | None \<Rightarrow> fresh),
      canonical_root = root, entry_identity = ident, profile_ceiling = ceil, trusted_at = now\<rparr>"

definition next_entries :: "(jsstring \<Rightarrow> jsstring \<Rightarrow> bool) \<Rightarrow> trusted_entry \<Rightarrow> trusted_entry list \<Rightarrow>
    trusted_entry list" where
  "next_entries locale_le e es =
     sort_by (\<lambda>a b. locale_le (canonical_root a) (canonical_root b))
       (put_entry (find_index (\<lambda>x. canonical_root x = canonical_root e) es) e es)"

definition trust :: "(jsstring \<Rightarrow> jsstring \<Rightarrow> bool) \<Rightarrow> jsstring \<Rightarrow> jsstring \<Rightarrow> write_fault \<Rightarrow>
    jsstring \<Rightarrow> filesystem_identity \<Rightarrow> profile_name \<Rightarrow> trust_file \<Rightarrow>
    (trust_error + trusted_entry) \<times> trust_file" where
  "trust locale_le fresh now fault root ident ceil f =
     (case bind_res (validate_canonical_root root) (\<lambda>_.
           bind_res (validate_identity ident) (\<lambda>_. read_trust f)) of
        Inl e \<Rightarrow> (Inl e, f)
      | Inr es \<Rightarrow>
          let e = next_entry fresh now root ident ceil es
          in (case write_trust fault (next_entries locale_le e es) f of
                (Inl err, f') \<Rightarrow> (Inl err, f')
              | (Inr _, f') \<Rightarrow> (Inr e, f')))"

definition untrust :: "write_fault \<Rightarrow> jsstring \<Rightarrow> trust_file \<Rightarrow> (trust_error + bool) \<times> trust_file" where
  "untrust fault i f = (case read_trust f of
     Inl e \<Rightarrow> (Inl e, f)
   | Inr es \<Rightarrow>
       let next_entries = filter (\<lambda>e. entry_id e \<noteq> i) es
       in if length next_entries = length es then (Inr False, f)
          else (case write_trust fault next_entries f of
                  (Inl err, f') \<Rightarrow> (Inl err, f')
                | (Inr _, f') \<Rightarrow> (Inr True, f')))"

definition require_trusted ::
    "jsstring \<Rightarrow> filesystem_identity \<Rightarrow> trust_file \<Rightarrow> trust_error + trusted_entry" where
  "require_trusted root actual f =
     bind_res (validate_identity actual) (\<lambda>_.
     bind_res (read_trust f) (\<lambda>es.
     (case find (\<lambda>e. canonical_root e = root) es of
        None \<Rightarrow> Inl Workspace_Not_Trusted
      | Some e \<Rightarrow> if same_identity (entry_identity e) actual then Inr e
                  else Inl Workspace_Identity_Changed)))"

section \<open>The codec of the file\<close>

definition identity_ok :: "filesystem_identity \<Rightarrow> bool" where
  "identity_ok i = is_ok (validate_identity i)"

definition entry_ok :: "trusted_entry \<Rightarrow> bool" where
  "entry_ok e = (starts_with (canonical_root e) (js ''/'') \<and> identity_ok (entry_identity e))"

lemma parse_ceiling_text [simp]: "parse_ceiling (js (profile_text n)) = Inr n"
  by (cases n) (simp_all add: parse_ceiling_def profile_names_def)

lemma parse_identity_json: "identity_ok i \<Longrightarrow> as_record (Some (identity_json i)) = Some fs \<Longrightarrow>
    parse_identity fs = Inr i"
  by (auto simp: identity_json_def parse_identity_def identity_ok_def validate_identity_def
      ensure_def as_safe_from_def split: if_splits)

lemma parse_identity_ok: "parse_identity fs = Inr i \<Longrightarrow> identity_ok i"
  by (auto simp: parse_identity_def identity_ok_def validate_identity_def as_eq_Some
      split: option.splits if_splits)

lemma parse_entry_json: "entry_ok e \<Longrightarrow> parse_entry (entry_json e) = Inr e"
  using parse_identity_json [of "entry_identity e"]
  by (auto simp: parse_entry_def entry_json_def entry_ok_def validate_canonical_root_def
      identity_json_def)

lemma parse_entry_ok: "parse_entry v = Inr e \<Longrightarrow> entry_ok e"
  by (auto simp: parse_entry_def entry_ok_def validate_canonical_root_def bind_res_eq_Inr
      dest: parse_identity_ok split: option.splits)

interpretation trust_doc: document_store "\<lambda>es. Some (store_json es)" parse_text
    "list_all entry_ok" "[]" Trust_Store_Io
proof
  show "list_all entry_ok es \<Longrightarrow> parse_text (Some (store_json es)) = Inr es" for es
    by (simp add: parse_text_def parse_store_def store_json_def list_all_iff map_res_inverse parse_entry_json)
  show "parse_text t = Inr es \<Longrightarrow> list_all entry_ok es" for t es
    by (auto simp: parse_text_def parse_store_def intro: map_res_all parse_entry_ok split: option.splits if_splits)
qed simp

lemmas read_trust_folds = trust_doc.read_content [folded read_trust_def]
  trust_doc.read_valid [folded read_trust_def]

lemma write_trust_read:
  assumes "list_all entry_ok es" and "write_trust fault es f = (r, f')"
  shows "read_trust f' \<in> {read_trust f, Inr es}" and "r = Inr u \<Longrightarrow> read_trust f' = Inr es"
  using trust_doc.write_then_read [OF assms(1) assms(2) [unfolded write_trust_def]]
  by (simp_all add: read_trust_def)

section \<open>The store invariant\<close>

definition store_inv :: "trusted_entry list \<Rightarrow> bool" where
  "store_inv es = (list_all entry_ok es \<and> distinct (map canonical_root es)
     \<and> distinct (map entry_id es))"

definition lookup_root :: "jsstring \<Rightarrow> trusted_entry list \<Rightarrow> trusted_entry option" where
  "lookup_root root es = find (\<lambda>e. canonical_root e = root) es"

lemma lookup_root_iff:
  "distinct (map canonical_root es) \<Longrightarrow>
     lookup_root root es = Some e \<longleftrightarrow> e \<in> set es \<and> canonical_root e = root"
  by (induction es) (auto simp: lookup_root_def)

lemma lookup_root_cong:
  assumes "distinct (map canonical_root es)" and "distinct (map canonical_root es')"
    and "\<And>e. canonical_root e = root \<Longrightarrow> e \<in> set es \<longleftrightarrow> e \<in> set es'"
  shows "lookup_root root es = lookup_root root es'"
proof (rule option.exhaust [of "lookup_root root es"])
  assume "lookup_root root es = None"
  then show ?thesis
    using lookup_root_iff [OF assms(1)] lookup_root_iff [OF assms(2)] assms(3)
    by (metis not_Some_eq)
next
  fix e assume "lookup_root root es = Some e"
  then show ?thesis
    using lookup_root_iff [OF assms(1)] lookup_root_iff [OF assms(2)] assms(3) by metis
qed

lemma require_trusted_eq:
  assumes "identity_ok actual" and "read_trust f = Inr es"
  shows "require_trusted root actual f = (case lookup_root root es of
     None \<Rightarrow> Inl Workspace_Not_Trusted
   | Some e \<Rightarrow> if same_identity (entry_identity e) actual then Inr e
              else Inl Workspace_Identity_Changed)"
  using assms by (auto simp: require_trusted_def identity_ok_def is_ok_iff lookup_root_def)

text \<open>What \<open>put_entry\<close> does to the list, whether it replaces or appends.\<close>

lemma put_entry_roots:
  assumes "store_inv es" and "canonical_root e = root"
    and "idx = find_index (\<lambda>e. canonical_root e = root) es"
    and "entry_id e = (case idx of Some k \<Rightarrow> entry_id (es ! k) | None \<Rightarrow> fresh)"
    and "fresh \<notin> entry_id ` set es" and "entry_ok e"
  shows "store_inv (put_entry idx e es)"
    and "set (put_entry idx e es) = insert e {x \<in> set es. canonical_root x \<noteq> root}"
proof -
  have dist: "distinct (map canonical_root es)" "distinct (map entry_id es)" "list_all entry_ok es"
    using assms(1) by (auto simp: store_inv_def)
  show "store_inv (put_entry idx e es)"
  proof (cases idx)
    case None
    then have "root \<notin> canonical_root ` set es" using assms(3) by (auto simp: find_index_None)
    then show ?thesis using None dist assms by (auto simp: put_entry_def store_inv_def)
  next
    case (Some k)
    then have k: "k < length es" "canonical_root (es ! k) = root"
      using assms(3) find_index_Some [of _ es k] by auto
    then have "map canonical_root (es[k := e]) = map canonical_root es"
      and "map entry_id (es[k := e]) = map entry_id es"
      using assms(2,4) Some by (simp_all add: map_update list_update_same_conv)
    moreover have "list_all entry_ok (es[k := e])"
      using dist(3) assms(6) set_update_subset_insert [of es k e] by (auto simp: list_all_iff)
    ultimately show ?thesis using dist Some by (simp add: put_entry_def store_inv_def)
  qed
  show "set (put_entry idx e es) = insert e {x \<in> set es. canonical_root x \<noteq> root}"
  proof (cases idx)
    case None
    then have "\<forall>x \<in> set es. canonical_root x \<noteq> root"
      using assms(3) by (simp add: find_index_None)
    then show ?thesis using None by (auto simp: put_entry_def)
  next
    case (Some k)
    then have k: "k < length es" "canonical_root (es ! k) = root"
      using assms(3) find_index_Some [of _ es k] by auto
    have "distinct es" using dist(1) by (simp add: distinct_map)
    then have "set (es[k := e]) = insert e (set es - {es ! k})"
      using k(1) by (rule set_update_distinct)
    moreover have "x = es ! k" if "x \<in> set es" "canonical_root x = root" for x
      using that k dist(1) by (metis in_set_conv_nth length_map nth_eq_iff_index_eq nth_map)
    ultimately show ?thesis using k Some by (auto simp: put_entry_def)
  qed
qed

lemma store_inv_sort [simp]: "store_inv (sort_by le es) = store_inv es"
  by (simp add: store_inv_def distinct_map_sort_by list_all_iff)

lemma next_entry_fields [simp]:
  "canonical_root (next_entry fresh now root i c es) = root"
  "entry_identity (next_entry fresh now root i c es) = i"
  "profile_ceiling (next_entry fresh now root i c es) = c"
  by (simp_all add: next_entry_def)

lemma next_entries_inv:
  assumes "store_inv es" and "fresh \<notin> entry_id ` set es"
    and "starts_with root (js ''/'')" and "identity_ok i"
    and "e = next_entry fresh now root i c es"
  shows "store_inv (next_entries le e es)"
    and "set (next_entries le e es) = insert e {x \<in> set es. canonical_root x \<noteq> root}"
proof -
  have ok: "entry_ok e" and root: "canonical_root e = root"
    using assms(3-5) by (simp_all add: entry_ok_def)
  have id: "entry_id e = (case find_index (\<lambda>x. canonical_root x = root) es of
      Some k \<Rightarrow> entry_id (es ! k) | None \<Rightarrow> fresh)"
    using assms(5) by (simp add: next_entry_def)
  note put_entry_roots [OF assms(1) root refl id assms(2) ok]
  then show "store_inv (next_entries le e es)"
    and "set (next_entries le e es) = insert e {x \<in> set es. canonical_root x \<noteq> root}"
    using assms(5) by (simp_all add: next_entries_def)
qed

text \<open>\<open>trust\<close> on a readable file.\<close>

lemma trust_eq:
  assumes "read_trust f = Inr es"
  shows "trust le fresh now fault root i c f =
    (if starts_with root (js ''/'') \<and> identity_ok i
     then (let e = next_entry fresh now root i c es
           in (map_sum id (\<lambda>_. e) (fst (write_trust fault (next_entries le e es) f)),
               snd (write_trust fault (next_entries le e es) f)))
     else (Inl Trust_Store_Invalid, f))"
proof -
  have "identity_ok i \<longleftrightarrow> validate_identity i = Inr ()"
    by (simp add: identity_ok_def is_ok_iff)
  moreover have "validate_identity i = Inr () \<or> validate_identity i = Inl Trust_Store_Invalid"
    by (simp add: validate_identity_def ensure_def)
  ultimately show ?thesis
    using assms by (auto simp: trust_def validate_canonical_root_def ensure_def Let_def
        split: prod.splits sum.splits)
qed

lemma trust_written:
  assumes "read_trust f = Inr es" and "store_inv es" and "fresh \<notin> entry_id ` set es"
    and "trust le fresh now fault root i c f = (Inr e, f')"
  obtains es' where "read_trust f' = Inr es'" and "store_inv es'"
    and "set es' = insert e {x \<in> set es. canonical_root x \<noteq> root}"
    and "canonical_root e = root" and "entry_identity e = i" and "profile_ceiling e = c"
proof -
  have ok: "starts_with root (js ''/'')" "identity_ok i"
    using assms(4) trust_eq [OF assms(1)] by (auto split: if_splits)
  let ?e = "next_entry fresh now root i c es"
  obtain r f1 where "write_trust fault (next_entries le ?e es) f = (r, f1)" by (rule prod.exhaust)
  moreover from this have "map_sum id (\<lambda>_. ?e) r = Inr e" "f1 = f'"
    using assms(4) ok by (simp_all add: trust_eq [OF assms(1)] Let_def)
  ultimately have e: "e = next_entry fresh now root i c es"
    and w: "write_trust fault (next_entries le e es) f = (Inr (), f')"
    by (cases r; simp)+
  note inv = next_entries_inv [OF assms(2,3) ok e]
  then have "list_all entry_ok (next_entries le e es)" by (simp add: store_inv_def)
  from write_trust_read(2) [OF this w]
  have "read_trust f' = Inr (next_entries le e es)" by simp
  then show thesis using that inv e by simp
qed

lemma untrust_eq:
  assumes "read_trust f = Inr es"
  shows "untrust fault i f =
    (if i \<in> entry_id ` set es
     then (map_sum id (\<lambda>_. True) (fst (write_trust fault (filter (\<lambda>e. entry_id e \<noteq> i) es) f)),
           snd (write_trust fault (filter (\<lambda>e. entry_id e \<noteq> i) es) f))
     else (Inr False, f))"
  using assms
  by (auto simp: untrust_def Let_def length_filter_all split: prod.splits sum.splits)

lemma filter_ids_ok: "store_inv es \<Longrightarrow> list_all entry_ok (filter P es)"
  by (simp add: store_inv_def list_all_iff)

lemma untrust_written:
  assumes "read_trust f = Inr es" and "store_inv es"
    and "untrust fault i f = (Inr b, f')"
  shows "read_trust f' = Inr (filter (\<lambda>e. entry_id e \<noteq> i) es)"
proof (cases "i \<in> entry_id ` set es")
  case True
  obtain r f1 where w: "write_trust fault (filter (\<lambda>e. entry_id e \<noteq> i) es) f = (r, f1)"
    by (rule prod.exhaust)
  with True assms(3) have "map_sum id (\<lambda>_. True) r = Inr b" "f1 = f'"
    by (simp_all add: untrust_eq [OF assms(1)])
  then show ?thesis
    using write_trust_read(2) [OF filter_ids_ok [OF assms(2)] w] by (cases r) simp_all
next
  case False
  then have "filter (\<lambda>e. entry_id e \<noteq> i) es = es" by (auto intro: filter_True)
  then show ?thesis using False assms(1,3) by (simp add: untrust_eq [OF assms(1)])
qed

lemma store_inv_filter: "store_inv es \<Longrightarrow> store_inv (filter P es)"
  by (simp add: store_inv_def list_all_iff distinct_map_filter)

text \<open>The two operations under an arbitrary fault.\<close>

inductive trust_history :: "(jsstring \<Rightarrow> jsstring \<Rightarrow> bool) \<Rightarrow> trust_file \<Rightarrow> bool" for le where
  history_absent: "trust_history le Absent"
| history_trust: "trust_history le f \<Longrightarrow> read_trust f = Inr es \<Longrightarrow> fresh \<notin> entry_id ` set es \<Longrightarrow>
    trust_history le (snd (trust le fresh now fault root i c f))"
| history_untrust: "trust_history le f \<Longrightarrow> trust_history le (snd (untrust fault i f))"

lemma trust_outcome:
  assumes "read_trust f = Inr es" and "store_inv es" and "fresh \<notin> entry_id ` set es"
  shows "\<exists>es'. read_trust (snd (trust le fresh now fault root i c f)) = Inr es' \<and> store_inv es'"
proof (cases "starts_with root (js ''/'') \<and> identity_ok i")
  case True
  define e where "e = next_entry fresh now root i c es"
  have inv: "store_inv (next_entries le e es)"
    using next_entries_inv [OF assms(2,3)] True e_def by blast
  then have "list_all entry_ok (next_entries le e es)" by (simp add: store_inv_def)
  moreover obtain r f' where w: "write_trust fault (next_entries le e es) f = (r, f')"
    by (rule prod.exhaust)
  ultimately have "read_trust f' \<in> {read_trust f, Inr (next_entries le e es)}"
    by (rule write_trust_read)
  moreover have "snd (trust le fresh now fault root i c f) = f'"
    using True w by (simp add: trust_eq [OF assms(1)] e_def Let_def)
  ultimately show ?thesis using inv assms by auto
next
  case False
  then show ?thesis using assms by (auto simp: trust_eq [OF assms(1)])
qed

lemma untrust_outcome:
  assumes "read_trust f = Inr es" and "store_inv es"
  shows "\<exists>es'. read_trust (snd (untrust fault i f)) = Inr es' \<and> store_inv es'"
proof (cases "i \<in> entry_id ` set es")
  case True
  let ?es = "filter (\<lambda>e. entry_id e \<noteq> i) es"
  obtain r f' where w: "write_trust fault ?es f = (r, f')" by (rule prod.exhaust)
  with True have "snd (untrust fault i f) = f'" by (simp add: untrust_eq [OF assms(1)])
  then show ?thesis
    using write_trust_read(1) [OF filter_ids_ok [OF assms(2)] w] store_inv_filter [OF assms(2)] assms
    by auto
next
  case False
  then show ?thesis using assms by (simp add: untrust_eq [OF assms(1)])
qed

subsection \<open>A sample store\<close>

definition sample_identity :: filesystem_identity where
  "sample_identity = \<lparr>device_major = 8, device_minor = 1, inode = js ''4242''\<rparr>"

definition sample_entry :: trusted_entry where
  "sample_entry = \<lparr>entry_id = js ''trust_a'', canonical_root = js ''/w'',
     entry_identity = sample_identity, profile_ceiling = Develop, trusted_at = js ''2026''\<rparr>"

lemma sample_entry_id: "entry_id sample_entry = js ''trust_a''"
  by (simp add: sample_entry_def)

lemma sample_identity_ok: "identity_ok sample_identity"
  by (simp add: identity_ok_def validate_identity_def sample_identity_def js_def is_digit_def)

lemma read_trust_Absent: "read_trust Absent = Inr []"
  by (simp add: read_trust_def read_file_def)

lemma store_inv_Nil: "store_inv []"
  by (simp add: store_inv_def)

lemma sample_trust:
  "trust (\<le>) (js ''trust_a'') (js ''2026'') No_Fault (js ''/w'') sample_identity Develop Absent
     = (Inr sample_entry, Content (Some (store_json [sample_entry])))"
  by (simp add: trust_eq [OF read_trust_Absent] sample_identity_ok starts_with_def js_def Let_def
      next_entry_def next_entries_def put_entry_def sort_by_def write_trust_def write_file_def
      sample_entry_def)

lemma sample_read: "read_trust (Content (Some (store_json [sample_entry]))) = Inr [sample_entry]"
  and sample_inv: "store_inv [sample_entry]"
  using sample_identity_ok
  by (simp_all add: read_trust_folds(1) store_inv_def entry_ok_def sample_entry_def
      starts_with_def js_def)

section \<open>Properties\<close>

text \<open>
  C17. A trust decision is what later checks see, and nothing else changes: after \<open>trust\<close>
  returned an entry for a root, \<open>requireTrusted\<close> returns that entry for the same root and the
  same device and inode, rejects the root under any other identity, and answers for every
  other root as it did before.
\<close>

theorem trust_then_require:
  assumes "read_trust f = Inr es" and "store_inv es" and "fresh \<notin> entry_id ` set es"
    and "trust le fresh now fault root i c f = (Inr e, f')" and "identity_ok j"
  shows "profile_ceiling e = c \<and>
    require_trusted root' j f' =
      (if root' = root
       then (if same_identity i j then Inr e else Inl Workspace_Identity_Changed)
       else require_trusted root' j f)"
proof -
  obtain es' where r: "read_trust f' = Inr es'" "store_inv es'"
      "set es' = insert e {x \<in> set es. canonical_root x \<noteq> root}"
    and e: "canonical_root e = root" "entry_identity e = i" "profile_ceiling e = c"
    using trust_written [OF assms(1-4)] .
  have d: "distinct (map canonical_root es')" "distinct (map canonical_root es)"
    using r(2) assms(2) by (simp_all add: store_inv_def)
  have "lookup_root root es' = Some e" using lookup_root_iff [OF d(1)] r(3) e by simp
  moreover have "root' \<noteq> root \<Longrightarrow> lookup_root root' es' = lookup_root root' es"
    by (rule lookup_root_cong [OF d]) (use r(3) e in auto)
  ultimately show ?thesis
    using e by (simp add: require_trusted_eq [OF assms(5)] r(1) assms(1))
qed

theorem trust_then_require_witness:
  "profile_ceiling sample_entry = Develop \<and>
   require_trusted (js ''/w'') sample_identity (Content (Some (store_json [sample_entry]))) = Inr sample_entry"
  using trust_then_require [OF read_trust_Absent store_inv_Nil _ sample_trust sample_identity_ok,
      of "js ''/w''"]
  by (simp add: same_identity_def)

text \<open>
  C18. Revocation is complete and precise: after \<open>untrust\<close> returned, no root whose entry had
  that identifier is trusted under any identity, and every other root is answered as before.
\<close>

theorem untrust_revokes:
  assumes "read_trust f = Inr es" and "store_inv es"
    and "untrust fault i f = (Inr b, f')" and "identity_ok j"
  shows "require_trusted root j f' =
    (case lookup_root root es of
       None \<Rightarrow> Inl Workspace_Not_Trusted
     | Some e \<Rightarrow> if entry_id e = i then Inl Workspace_Not_Trusted else require_trusted root j f)"
proof -
  let ?es = "filter (\<lambda>e. entry_id e \<noteq> i) es"
  have r: "read_trust f' = Inr ?es" by (rule untrust_written [OF assms(1-3)])
  have d: "distinct (map canonical_root es)" "distinct (map canonical_root ?es)"
    using assms(2) store_inv_filter by (auto simp: store_inv_def distinct_map_filter)
  have "lookup_root root ?es = (case lookup_root root es of None \<Rightarrow> None
      | Some e \<Rightarrow> if entry_id e = i then None else Some e)"
  proof (cases "lookup_root root ?es")
    case None
    then have "entry_id e = i" if "lookup_root root es = Some e" for e
      using that lookup_root_iff [OF d(1)] lookup_root_iff [OF d(2), of root e] by auto
    then show ?thesis using None by (auto split: option.splits)
  next
    case (Some e)
    then have "lookup_root root es = Some e" "entry_id e \<noteq> i"
      using lookup_root_iff [OF d(1)] lookup_root_iff [OF d(2)] by auto
    then show ?thesis using Some by simp
  qed
  then show ?thesis
    by (simp add: require_trusted_eq [OF assms(4)] r assms(1) split: option.splits)
qed

theorem untrust_revokes_witness:
  "require_trusted (js ''/w'') sample_identity (Content (Some (store_json []))) = Inl Workspace_Not_Trusted"
proof -
  have "untrust No_Fault (js ''trust_a'') (Content (Some (store_json [sample_entry])))
      = (Inr True, Content (Some (store_json [])))"
    by (simp add: untrust_eq [OF sample_read] write_trust_def write_file_def sample_entry_id)
  from untrust_revokes [OF sample_read sample_inv this sample_identity_ok, of "js ''/w''"]
  show ?thesis by (simp add: lookup_root_def sample_entry_def split: if_splits)
qed

text \<open>
  C38. Whatever sequence of \<open>trust\<close> and \<open>untrust\<close> calls made the file, each of them cut short
  by any write failure or none, the file reads back: every entry is well-formed, and no root
  and no identifier occurs twice. So no crash of the host locks the user out.
\<close>

theorem trust_history_readable:
  assumes "trust_history le f"
  shows "\<exists>es. read_trust f = Inr es \<and> store_inv es"
  using assms
proof induction
  case history_absent
  then show ?case by (simp add: read_trust_def read_file_def store_inv_def)
next
  case (history_trust f es fresh now fault root i c)
  then show ?case using trust_outcome by simp
next
  case (history_untrust f fault i)
  then show ?case using untrust_outcome by blast
qed

theorem trust_history_readable_witness:
  "\<exists>es. read_trust (snd (untrust After_Rename (js ''trust_a'')
       (snd (trust (\<le>) (js ''trust_a'') (js ''2026'') No_Fault (js ''/w'') sample_identity Develop Absent))))
     = Inr es \<and> store_inv es"
proof (rule trust_history_readable)
  show "trust_history (\<le>) (snd (untrust After_Rename (js ''trust_a'')
       (snd (trust (\<le>) (js ''trust_a'') (js ''2026'') No_Fault (js ''/w'') sample_identity Develop Absent))))"
    by (intro history_untrust history_trust [OF history_absent read_trust_Absent]) simp
qed

end
