(* ===== verification/Timestamps.thy ===== *)
theory Timestamps
  imports Json
begin

text \<open>
  The texts \<open>Date.prototype.toISOString\<close> can return, which is what the sources test with
  \<open>new Date(value).toISOString() === value\<close>: the proleptic Gregorian calendar in four-digit
  years, or signed six-digit years outside 0 to 9999, within the range of a time value.
\<close>

definition is_leap :: "int \<Rightarrow> bool" where
  "is_leap y = (y mod 4 = 0 \<and> (y mod 100 \<noteq> 0 \<or> y mod 400 = 0))"

definition days_in_month :: "int \<Rightarrow> nat \<Rightarrow> nat" where
  "days_in_month y m =
     (if m = 2 then (if is_leap y then 29 else 28)
      else if m \<in> {4, 6, 9, 11} then 30 else 31)"

text \<open>A field of the text: the digits at a position.\<close>

definition digits_at :: "nat \<Rightarrow> nat \<Rightarrow> jsstring \<Rightarrow> nat option" where
  "digits_at i n s = (let w = take n (drop i s) in
     if length w = n \<and> list_all is_digit w then Some (digits_value w) else None)"

definition unit_at :: "nat \<Rightarrow> nat \<Rightarrow> jsstring \<Rightarrow> bool" where
  "unit_at i u s = (i < length s \<and> s ! i = u)"

text \<open>The part \<open>-MM-DDTHH:mm:ss.sssZ\<close> after the year.\<close>

definition canonical_tail :: "int \<Rightarrow> jsstring \<Rightarrow> bool" where
  "canonical_tail y s =
     (length s = 20 \<and> unit_at 0 45 s \<and> unit_at 3 45 s \<and> unit_at 6 84 s \<and> unit_at 9 58 s
       \<and> unit_at 12 58 s \<and> unit_at 15 46 s \<and> unit_at 19 90 s
       \<and> (case (digits_at 1 2 s, digits_at 4 2 s, digits_at 7 2 s, digits_at 10 2 s,
                digits_at 13 2 s, digits_at 16 3 s) of
            (Some mo, Some d, Some h, Some mi, Some sec, Some ms) \<Rightarrow>
              1 \<le> mo \<and> mo \<le> 12 \<and> 1 \<le> d \<and> d \<le> days_in_month y mo \<and> h < 24 \<and> mi < 60 \<and> sec < 60
          | _ \<Rightarrow> False))"

definition is_canonical_timestamp :: "jsstring \<Rightarrow> bool" where
  "is_canonical_timestamp s =
     (if length s = 24 then
        (case digits_at 0 4 s of Some y \<Rightarrow> canonical_tail (int y) (drop 4 s) | None \<Rightarrow> False)
      else
        (case digits_at 1 6 s of
           None \<Rightarrow> False
         | Some y \<Rightarrow>
             if unit_at 0 43 s then
               9999 < y \<and> canonical_tail (int y) (drop 7 s)
               \<and> (y < 275760 \<or> y = 275760 \<and> drop 7 s \<le> js ''-09-13T00:00:00.000Z'')
             else if unit_at 0 45 s then
               0 < y \<and> canonical_tail (- int y) (drop 7 s)
               \<and> (y < 271821 \<or> y = 271821 \<and> js ''-04-20T00:00:00.000Z'' \<le> drop 7 s)
             else False))"

lemma canonical_timestamp_length:
  "is_canonical_timestamp s \<Longrightarrow> length s = 24 \<or> length s = 27"
  by (auto simp: is_canonical_timestamp_def canonical_tail_def split: if_splits option.splits)

end
