(* ===== verification/Checkpoint_Store.thy ===== *)
theory Checkpoint_Store
  imports Document_Store Timestamps
begin

text \<open>
  \<open>packages/core/src/workspace-checkpoint-store.ts\<close>: one continuity document per trusted
  workspace, updated under a revision compare-and-set, with a bounded history of compacted
  milestones. Input bodies are untyped JSON values, as they come from the client; the clock
  is an argument (\<open>None\<close> when \<open>toISOString\<close> throws); the mutual exclusion of \<open>#serialize\<close>
  is the atomicity of an operation here.
\<close>

section \<open>Data\<close>

datatype checkpoint_status = Active | Blocked | Complete

datatype evidence_kind =
  Ev_Artifact | Ev_Process | Ev_Preview | Ev_Pr | Ev_Ci | Ev_Git | Ev_Note

record evidence_ref =
  ev_kind :: evidence_kind
  ev_ref :: jsstring
  ev_summary :: "jsstring option"

record baseline =
  bl_branch :: "jsstring option"
  bl_head_oid :: "jsstring option"

record checkpoint_body =
  objective :: "jsstring option"
  status :: checkpoint_status
  body_baseline :: "baseline option"
  next_actions :: "jsstring list"
  evidence_refs :: "evidence_ref list"
  blocker :: "jsstring option"
  body_notes :: "jsstring option"

record checkpoint =
  cp_revision :: int
  cp_body :: checkpoint_body
  cp_updated_at :: jsstring

record source_state =
  head_oid :: jsstring
  changes_fingerprint :: jsstring

record milestone =
  ms_revision :: int
  ms_status :: checkpoint_status
  ms_objective :: "jsstring option"
  ms_source_state :: "source_state option"
  ms_updated_at :: jsstring

record continuity =
  ct_checkpoint :: checkpoint
  ct_captured :: "source_state option"
  ct_milestones :: "milestone list"

datatype checkpoint_error =
    Checkpoint_Not_Found
  | Checkpoint_Stale
  | Checkpoint_Invalid
  | Checkpoint_Limit_Exceeded
  | Checkpoint_Schema_Unsupported
  | Checkpoint_Io

definition checkpoint_max_bytes :: nat where "checkpoint_max_bytes = 16384"
definition continuity_max_bytes :: nat where "continuity_max_bytes = 32768"
definition milestone_max_count :: nat where "milestone_max_count = 8"

definition status_names :: "(jsstring \<times> checkpoint_status) list" where
  "status_names = [(js ''active'', Active), (js ''blocked'', Blocked), (js ''complete'', Complete)]"

definition kind_names :: "(jsstring \<times> evidence_kind) list" where
  "kind_names = [(js ''artifact'', Ev_Artifact), (js ''process'', Ev_Process),
     (js ''preview'', Ev_Preview), (js ''pr'', Ev_Pr), (js ''ci'', Ev_Ci), (js ''git'', Ev_Git),
     (js ''note'', Ev_Note)]"

section \<open>Validation\<close>

definition head_oid_ok :: "jsstring \<Rightarrow> bool" where
  "head_oid_ok s = (exactly is_hex 40 s \<or> exactly is_hex 64 s)"

definition fingerprint_ok :: "jsstring \<Rightarrow> bool" where
  "fingerprint_ok s = exactly is_lower_hex 64 s"

definition validate_trust_id :: "jsstring \<Rightarrow> checkpoint_error + unit" where
  "validate_trust_id s = ensure (tagged_hex32 ''trust_'' s) Checkpoint_Invalid"

definition validate_expected_revision ::
    "bool \<Rightarrow> json option \<Rightarrow> checkpoint_error + int option" where
  "validate_expected_revision required v = (case v of
     None \<Rightarrow> if required then Inl Checkpoint_Invalid else Inr None
   | Some _ \<Rightarrow> (case as_safe_from 1 v of
       None \<Rightarrow> Inl Checkpoint_Invalid | Some n \<Rightarrow> Inr (Some n)))"

definition parse_status :: "json option \<Rightarrow> checkpoint_error + checkpoint_status" where
  "parse_status v = (case as_str v of
     None \<Rightarrow> Inl Checkpoint_Invalid
   | Some s \<Rightarrow> (case map_of status_names s of
       None \<Rightarrow> Inl Checkpoint_Invalid | Some st \<Rightarrow> Inr st))"

definition ensure_utf8_bound :: "jsstring \<Rightarrow> nat \<Rightarrow> checkpoint_error + unit" where
  "ensure_utf8_bound s n = ensure (byte_length s \<le> n) Checkpoint_Limit_Exceeded"

definition optional_bounded_string ::
    "json option \<Rightarrow> nat \<Rightarrow> checkpoint_error + jsstring option" where
  "optional_bounded_string v n = (case v of
     None \<Rightarrow> Inr None
   | Some _ \<Rightarrow> (case as_str v of
       None \<Rightarrow> Inl Checkpoint_Invalid
     | Some s \<Rightarrow> bind_res (ensure_utf8_bound s n) (\<lambda>_. Inr (Some s))))"

definition normalize_source_state :: "json option \<Rightarrow> checkpoint_error + source_state" where
  "normalize_source_state v = (case as_record v of
     None \<Rightarrow> Inl Checkpoint_Invalid
   | Some fs \<Rightarrow>
       if \<not> only_keys fs [''headOid'', ''changesFingerprint''] then Inl Checkpoint_Invalid
       else (case (as_str (get fs ''headOid''), as_str (get fs ''changesFingerprint'')) of
          (Some h, Some c) \<Rightarrow>
            if head_oid_ok h \<and> fingerprint_ok c
            then Inr \<lparr>head_oid = to_lower h, changes_fingerprint = c\<rparr>
            else Inl Checkpoint_Invalid
        | _ \<Rightarrow> Inl Checkpoint_Invalid))"

definition optional_source_state :: "json option \<Rightarrow> checkpoint_error + source_state option" where
  "optional_source_state v = (case v of
     None \<Rightarrow> Inr None
   | Some _ \<Rightarrow> bind_res (normalize_source_state v) (\<lambda>s. Inr (Some s)))"

definition normalize_next_action :: "json \<Rightarrow> checkpoint_error + jsstring" where
  "normalize_next_action v = (case as_str (Some v) of
     None \<Rightarrow> Inl Checkpoint_Invalid
   | Some s \<Rightarrow> bind_res (ensure_utf8_bound s 512) (\<lambda>_. Inr s))"

definition normalize_evidence :: "json \<Rightarrow> checkpoint_error + evidence_ref" where
  "normalize_evidence v = (case as_record (Some v) of
     None \<Rightarrow> Inl Checkpoint_Invalid
   | Some fs \<Rightarrow>
       if \<not> only_keys fs [''kind'', ''ref'', ''summary''] then Inl Checkpoint_Invalid
       else (case as_str (get fs ''kind'') of
          None \<Rightarrow> Inl Checkpoint_Invalid
        | Some k \<Rightarrow> (case map_of kind_names k of
            None \<Rightarrow> Inl Checkpoint_Invalid
          | Some kind \<Rightarrow> (case as_str (get fs ''ref'') of
              None \<Rightarrow> Inl Checkpoint_Invalid
            | Some r \<Rightarrow>
                if r = [] then Inl Checkpoint_Invalid
                else
                  bind_res (ensure_utf8_bound r 512) (\<lambda>_.
                  bind_res (optional_bounded_string (get fs ''summary'') 1024) (\<lambda>summary.
                    Inr \<lparr>ev_kind = kind, ev_ref = r, ev_summary = summary\<rparr>))))))"

definition normalize_baseline :: "json option \<Rightarrow> checkpoint_error + baseline" where
  "normalize_baseline v = (case as_record v of
     None \<Rightarrow> Inl Checkpoint_Invalid
   | Some fs \<Rightarrow>
       if \<not> only_keys fs [''branch'', ''headOid''] then Inl Checkpoint_Invalid
       else (case (get fs ''branch'', as_str (get fs ''branch'')) of
          (Some _, None) \<Rightarrow> Inl Checkpoint_Invalid
        | (_, branch) \<Rightarrow>
            (case (get fs ''headOid'', as_str (get fs ''headOid'')) of
               (None, _) \<Rightarrow> Inr \<lparr>bl_branch = branch, bl_head_oid = None\<rparr>
             | (Some _, None) \<Rightarrow> Inl Checkpoint_Invalid
             | (Some _, Some h) \<Rightarrow>
                 if head_oid_ok h then Inr \<lparr>bl_branch = branch, bl_head_oid = Some (to_lower h)\<rparr>
                 else Inl Checkpoint_Invalid)))"

text \<open>\<open>array.map(f)\<close> behind the array and length checks that precede it.\<close>

definition bounded_array ::
    "nat \<Rightarrow> (json \<Rightarrow> checkpoint_error + 'a) \<Rightarrow> json option \<Rightarrow> checkpoint_error + 'a list" where
  "bounded_array n f v = (case as_arr v of
     None \<Rightarrow> Inl Checkpoint_Invalid
   | Some xs \<Rightarrow> if n < length xs then Inl Checkpoint_Limit_Exceeded else map_res f xs)"

definition check_blocker ::
    "checkpoint_status \<Rightarrow> jsstring option \<Rightarrow> jsstring list \<Rightarrow> checkpoint_error + unit" where
  "check_blocker st b actions =
     (if st = Blocked
      then ensure (case b of None \<Rightarrow> False | Some s \<Rightarrow> trim s \<noteq> []) Checkpoint_Invalid
      else if b \<noteq> None then Inl Checkpoint_Invalid
      else ensure (st = Complete \<longrightarrow> actions = []) Checkpoint_Invalid)"

definition normalize_body :: "json option \<Rightarrow> checkpoint_error + checkpoint_body" where
  "normalize_body v = (case as_record v of
     None \<Rightarrow> Inl Checkpoint_Invalid
   | Some fs \<Rightarrow>
       if \<not> only_keys fs [''objective'', ''status'', ''baseline'', ''nextActions'',
              ''evidenceRefs'', ''blocker'', ''notes'']
       then Inl Checkpoint_Invalid
       else
         bind_res (parse_status (get fs ''status'')) (\<lambda>st.
         bind_res (optional_bounded_string (get fs ''objective'') 2048) (\<lambda>obj.
         bind_res (optional_bounded_string (get fs ''blocker'') 2048) (\<lambda>blk.
         bind_res (optional_bounded_string (get fs ''notes'') 4096) (\<lambda>nts.
         bind_res (bounded_array 8 normalize_next_action (get fs ''nextActions'')) (\<lambda>actions.
         bind_res (bounded_array 16 normalize_evidence (get fs ''evidenceRefs'')) (\<lambda>evs.
         bind_res (case get fs ''baseline'' of
             None \<Rightarrow> Inr None
           | Some b \<Rightarrow> bind_res (normalize_baseline (Some b)) (\<lambda>x. Inr (Some x))) (\<lambda>base.
         bind_res (check_blocker st blk actions) (\<lambda>_.
           Inr \<lparr>objective = obj, status = st, body_baseline = base, next_actions = actions,
             evidence_refs = evs, blocker = blk, body_notes = nts\<rparr>)))))))))"

definition normalize_milestone :: "json \<Rightarrow> checkpoint_error + milestone" where
  "normalize_milestone v = (case as_record (Some v) of
     None \<Rightarrow> Inl Checkpoint_Invalid
   | Some fs \<Rightarrow>
       if \<not> only_keys fs [''revision'', ''status'', ''objective'', ''sourceState'', ''updatedAt'']
       then Inl Checkpoint_Invalid
       else (case as_safe_from 1 (get fs ''revision'') of
          None \<Rightarrow> Inl Checkpoint_Invalid
        | Some rvn \<Rightarrow>
            bind_res (parse_status (get fs ''status'')) (\<lambda>st.
            bind_res (optional_bounded_string (get fs ''objective'') 512) (\<lambda>obj.
            bind_res (optional_source_state (get fs ''sourceState'')) (\<lambda>src.
            (case as_str (get fs ''updatedAt'') of
               None \<Rightarrow> Inl Checkpoint_Invalid
             | Some at \<Rightarrow>
                 if is_canonical_timestamp at
                 then Inr \<lparr>ms_revision = rvn, ms_status = st, ms_objective = obj,
                    ms_source_state = src, ms_updated_at = at\<rparr>
                 else Inl Checkpoint_Invalid))))))"

section \<open>The document\<close>

definition evidence_json :: "evidence_ref \<Rightarrow> json" where
  "evidence_json e = JObj
     (fld ''kind'' (JStr (case ev_kind e of
        Ev_Artifact \<Rightarrow> js ''artifact'' | Ev_Process \<Rightarrow> js ''process'' | Ev_Preview \<Rightarrow> js ''preview''
      | Ev_Pr \<Rightarrow> js ''pr'' | Ev_Ci \<Rightarrow> js ''ci'' | Ev_Git \<Rightarrow> js ''git'' | Ev_Note \<Rightarrow> js ''note''))
      # fld ''ref'' (JStr (ev_ref e)) # opt_field ''summary'' JStr (ev_summary e))"

definition baseline_json :: "baseline \<Rightarrow> json" where
  "baseline_json b = JObj
     (opt_field ''branch'' JStr (bl_branch b) @ opt_field ''headOid'' JStr (bl_head_oid b))"

definition status_json :: "checkpoint_status \<Rightarrow> json" where
  "status_json st = JStr (case st of
     Active \<Rightarrow> js ''active'' | Blocked \<Rightarrow> js ''blocked'' | Complete \<Rightarrow> js ''complete'')"

definition body_fields :: "checkpoint_body \<Rightarrow> fields" where
  "body_fields b =
     opt_field ''objective'' JStr (objective b) @
     fld ''status'' (status_json (status b)) #
     opt_field ''baseline'' baseline_json (body_baseline b) @
     fld ''nextActions'' (JArr (map JStr (next_actions b))) #
     fld ''evidenceRefs'' (JArr (map evidence_json (evidence_refs b))) #
     opt_field ''blocker'' JStr (blocker b) @
     opt_field ''notes'' JStr (body_notes b)"

definition checkpoint_json :: "checkpoint \<Rightarrow> json" where
  "checkpoint_json c = JObj
     (fld ''schemaVersion'' (JNum 1) # fld ''revision'' (JNum (cp_revision c)) #
      body_fields (cp_body c) @ [fld ''updatedAt'' (JStr (cp_updated_at c))])"

definition source_state_json :: "source_state \<Rightarrow> json" where
  "source_state_json s = JObj [fld ''headOid'' (JStr (head_oid s)),
     fld ''changesFingerprint'' (JStr (changes_fingerprint s))]"

definition milestone_json :: "milestone \<Rightarrow> json" where
  "milestone_json m = JObj
     (fld ''revision'' (JNum (ms_revision m)) # fld ''status'' (status_json (ms_status m)) #
      opt_field ''objective'' JStr (ms_objective m) @
      opt_field ''sourceState'' source_state_json (ms_source_state m) @
      [fld ''updatedAt'' (JStr (ms_updated_at m))])"

definition continuity_json :: "continuity \<Rightarrow> json" where
  "continuity_json r = JObj
     (fld ''schemaVersion'' (JNum 2) # fld ''current'' (checkpoint_json (ct_checkpoint r)) #
      opt_field ''capturedSourceState'' source_state_json (ct_captured r) @
      [fld ''milestones'' (JArr (map milestone_json (ct_milestones r)))])"

text \<open>\<open>Buffer.byteLength(`${JSON.stringify(value)}\n`, "utf8")\<close>.\<close>

definition line_bytes :: "json \<Rightarrow> nat" where
  "line_bytes v = byte_length (stringify v @ [10])"

definition ensure_serialized_bound :: "checkpoint \<Rightarrow> checkpoint_error + unit" where
  "ensure_serialized_bound c =
     ensure (line_bytes (checkpoint_json c) \<le> checkpoint_max_bytes) Checkpoint_Limit_Exceeded"

text \<open>\<open>...(v.key === undefined ? {} : { key: v.key })\<close>.\<close>

definition copy_field :: "fields \<Rightarrow> string \<Rightarrow> fields" where
  "copy_field fs k = opt_field k (\<lambda>v. v) (get fs k)"

definition parse_checkpoint :: "json option \<Rightarrow> checkpoint_error + checkpoint" where
  "parse_checkpoint v = (case as_record v of
     None \<Rightarrow> Inl Checkpoint_Invalid
   | Some fs \<Rightarrow>
       if get fs ''schemaVersion'' \<noteq> Some (JNum 1) then Inl Checkpoint_Schema_Unsupported
       else if \<not> only_keys fs [''schemaVersion'', ''revision'', ''objective'', ''status'',
              ''baseline'', ''nextActions'', ''evidenceRefs'', ''blocker'', ''notes'', ''updatedAt'']
       then Inl Checkpoint_Invalid
       else (case (as_safe_from 1 (get fs ''revision''), as_str (get fs ''updatedAt'')) of
          (Some rvn, Some at) \<Rightarrow>
            if \<not> is_canonical_timestamp at then Inl Checkpoint_Invalid
            else
              bind_res (normalize_body (Some (JObj
                (copy_field fs ''objective'' @ copy_field fs ''status'' @ copy_field fs ''baseline'' @
                 copy_field fs ''nextActions'' @ copy_field fs ''evidenceRefs'' @
                 copy_field fs ''blocker'' @ copy_field fs ''notes'')))) (\<lambda>body.
              let c = \<lparr>cp_revision = rvn, cp_body = body, cp_updated_at = at\<rparr> in
              bind_res (ensure_serialized_bound c) (\<lambda>_. Inr c))
        | _ \<Rightarrow> Inl Checkpoint_Invalid))"

definition parse_continuity :: "json \<Rightarrow> checkpoint_error + continuity" where
  "parse_continuity v = (case as_record (Some v) of
     None \<Rightarrow> Inl Checkpoint_Invalid
   | Some fs \<Rightarrow>
       if get fs ''schemaVersion'' = Some (JNum 1) then
         bind_res (parse_checkpoint (Some v)) (\<lambda>c.
           Inr \<lparr>ct_checkpoint = c, ct_captured = None, ct_milestones = []\<rparr>)
       else if get fs ''schemaVersion'' \<noteq> Some (JNum 2) then Inl Checkpoint_Schema_Unsupported
       else if \<not> only_keys fs [''schemaVersion'', ''current'', ''capturedSourceState'', ''milestones'']
       then Inl Checkpoint_Invalid
       else
         bind_res (parse_checkpoint (get fs ''current'')) (\<lambda>c.
         bind_res (optional_source_state (get fs ''capturedSourceState'')) (\<lambda>src.
         bind_res (bounded_array milestone_max_count normalize_milestone (get fs ''milestones'')) (\<lambda>ms.
           Inr \<lparr>ct_checkpoint = c, ct_captured = src, ct_milestones = ms\<rparr>))))"

text \<open>
  \<open>#readContinuityUnlocked\<close> and the serialisation of \<open>#writeContinuityUnlocked\<close>: a content is
  the byte length of the text and what \<open>JSON.parse\<close> makes of it; the document of an absent
  file is \<open>undefined\<close>.
\<close>

type_synonym content = "nat \<times> json option"

definition parse_content :: "content \<Rightarrow> checkpoint_error + continuity option" where
  "parse_content c =
     (if continuity_max_bytes < fst c then Inl Checkpoint_Limit_Exceeded
      else (case snd c of
         None \<Rightarrow> Inl Checkpoint_Invalid
       | Some v \<Rightarrow> bind_res (parse_continuity v) (\<lambda>r. Inr (Some r))))"

definition read_continuity_unlocked ::
    "content state_file \<Rightarrow> checkpoint_error + continuity option" where
  "read_continuity_unlocked f = read_file Checkpoint_Io None parse_content f"

definition continuity_content :: "continuity \<Rightarrow> content" where
  "continuity_content r = (line_bytes (continuity_json r), Some (continuity_json r))"

definition write_continuity_unlocked :: "write_fault \<Rightarrow> continuity \<Rightarrow> content state_file \<Rightarrow>
    (checkpoint_error + unit) \<times> content state_file" where
  "write_continuity_unlocked fault r f =
     (if continuity_max_bytes < line_bytes (continuity_json r) then (Inl Checkpoint_Limit_Exceeded, f)
      else write_file Checkpoint_Io fault (continuity_content r) f)"

section \<open>Operations\<close>

text \<open>\<open>compactUtf8\<close>: whole code points as long as the bytes fit.\<close>

fun compact_points :: "jsstring \<Rightarrow> nat \<Rightarrow> jsstring list \<Rightarrow> jsstring" where
  "compact_points out n [] = out"
| "compact_points out n (p # ps) =
     (if n < byte_length (out @ p) then out else compact_points (out @ p) n ps)"

definition compact_utf8 :: "jsstring \<Rightarrow> nat \<Rightarrow> jsstring" where
  "compact_utf8 s n = (if byte_length s \<le> n then s else compact_points [] n (code_points s))"

definition compact_milestone :: "checkpoint \<Rightarrow> source_state option \<Rightarrow> milestone" where
  "compact_milestone c src =
     \<lparr>ms_revision = cp_revision c, ms_status = status (cp_body c),
      ms_objective = map_option (\<lambda>s. compact_utf8 s 512) (objective (cp_body c)),
      ms_source_state = src, ms_updated_at = cp_updated_at c\<rparr>"

type_synonym checkpoint_store = "jsstring \<Rightarrow> content state_file"

definition read_continuity :: "jsstring \<Rightarrow> checkpoint_store \<Rightarrow> checkpoint_error + continuity option" where
  "read_continuity i st = bind_res (validate_trust_id i) (\<lambda>_. read_continuity_unlocked (st i))"

definition read_checkpoint :: "jsstring \<Rightarrow> checkpoint_store \<Rightarrow> checkpoint_error + checkpoint option" where
  "read_checkpoint i st = map_sum id (map_option ct_checkpoint) (read_continuity i st)"

definition check_revision :: "continuity option \<Rightarrow> int option \<Rightarrow> checkpoint_error + unit" where
  "check_revision current expected = (case current of
     None \<Rightarrow> ensure (expected = None) Checkpoint_Not_Found
   | Some r \<Rightarrow> ensure (expected = Some (cp_revision (ct_checkpoint r))) Checkpoint_Stale)"

definition next_continuity :: "continuity option \<Rightarrow> checkpoint \<Rightarrow> source_state \<Rightarrow> continuity" where
  "next_continuity current c captured =
     \<lparr>ct_checkpoint = c, ct_captured = Some captured,
      ct_milestones = last_n milestone_max_count (case current of
        None \<Rightarrow> []
      | Some r \<Rightarrow> ct_milestones r @ [compact_milestone (ct_checkpoint r) (ct_captured r)])\<rparr>"

definition upsert_document :: "jsstring option \<Rightarrow> continuity option \<Rightarrow> checkpoint_body \<Rightarrow>
    source_state \<Rightarrow> int option \<Rightarrow> checkpoint_error + continuity" where
  "upsert_document now current body captured expected =
     bind_res (check_revision current expected) (\<lambda>_.
     (case now of
        None \<Rightarrow> Inl Checkpoint_Invalid
      | Some at \<Rightarrow>
          let c = \<lparr>cp_revision = (case current of None \<Rightarrow> 0 | Some r \<Rightarrow> cp_revision (ct_checkpoint r)) + 1,
                   cp_body = body, cp_updated_at = at\<rparr>
          in bind_res (ensure_serialized_bound c) (\<lambda>_. Inr (next_continuity current c captured))))"

definition upsert :: "jsstring option \<Rightarrow> write_fault \<Rightarrow> jsstring \<Rightarrow> json option \<Rightarrow> json option \<Rightarrow>
    json option \<Rightarrow> checkpoint_store \<Rightarrow> (checkpoint_error + checkpoint) \<times> checkpoint_store" where
  "upsert now fault i body_in captured_in expected_in st =
     (case bind_res (validate_trust_id i) (\<lambda>_.
           bind_res (validate_expected_revision False expected_in) (\<lambda>expected.
           bind_res (normalize_body body_in) (\<lambda>body.
           bind_res (normalize_source_state captured_in) (\<lambda>captured.
           bind_res (read_continuity_unlocked (st i)) (\<lambda>current.
             upsert_document now current body captured expected))))) of
        Inl e \<Rightarrow> (Inl e, st)
      | Inr r \<Rightarrow>
          (case write_continuity_unlocked fault r (st i) of
             (Inl e, f') \<Rightarrow> (Inl e, st(i := f'))
           | (Inr _, f') \<Rightarrow> (Inr (ct_checkpoint r), st(i := f'))))"

text \<open>\<open>rm\<close> and the directory sync; a fault is before or after the removal.\<close>

definition remove_file :: "write_fault \<Rightarrow> content state_file \<Rightarrow>
    (checkpoint_error + unit) \<times> content state_file" where
  "remove_file fault f = (case fault of
     No_Fault \<Rightarrow> (Inr (), Absent)
   | Before_Rename \<Rightarrow> (Inl Checkpoint_Io, f)
   | After_Rename \<Rightarrow> (Inl Checkpoint_Io, Absent))"

definition clear :: "write_fault \<Rightarrow> jsstring \<Rightarrow> json option \<Rightarrow> checkpoint_store \<Rightarrow>
    (checkpoint_error + unit) \<times> checkpoint_store" where
  "clear fault i expected_in st =
     (case bind_res (validate_trust_id i) (\<lambda>_.
           bind_res (validate_expected_revision True expected_in) (\<lambda>expected.
           bind_res (read_continuity_unlocked (st i)) (\<lambda>current.
           (case current of
              None \<Rightarrow> Inl Checkpoint_Not_Found
            | Some r \<Rightarrow> ensure (Some (cp_revision (ct_checkpoint r)) = expected) Checkpoint_Stale)))) of
        Inl e \<Rightarrow> (Inl e, st)
      | Inr _ \<Rightarrow> (case remove_file fault (st i) of (r, f') \<Rightarrow> (r, st(i := f'))))"

definition purge :: "write_fault \<Rightarrow> jsstring \<Rightarrow> checkpoint_store \<Rightarrow>
    (checkpoint_error + unit) \<times> checkpoint_store" where
  "purge fault i st = (case validate_trust_id i of
     Inl e \<Rightarrow> (Inl e, st)
   | Inr _ \<Rightarrow> (case remove_file fault (st i) of (r, f') \<Rightarrow> (r, st(i := f'))))"

section \<open>What the parsers accept\<close>

definition within :: "nat \<Rightarrow> jsstring option \<Rightarrow> bool" where
  "within n v = (case v of None \<Rightarrow> True | Some s \<Rightarrow> byte_length s \<le> n)"

definition oid_normal :: "jsstring \<Rightarrow> bool" where
  "oid_normal s = (exactly is_lower_hex 40 s \<or> exactly is_lower_hex 64 s)"

definition source_ok :: "source_state \<Rightarrow> bool" where
  "source_ok s = (oid_normal (head_oid s) \<and> fingerprint_ok (changes_fingerprint s))"

definition evidence_ok :: "evidence_ref \<Rightarrow> bool" where
  "evidence_ok e = (ev_ref e \<noteq> [] \<and> byte_length (ev_ref e) \<le> 512 \<and> within 1024 (ev_summary e))"

definition body_ok :: "checkpoint_body \<Rightarrow> bool" where
  "body_ok b = (within 2048 (objective b) \<and> within 2048 (blocker b) \<and> within 4096 (body_notes b)
     \<and> length (next_actions b) \<le> 8 \<and> list_all (\<lambda>s. byte_length s \<le> 512) (next_actions b)
     \<and> length (evidence_refs b) \<le> 16 \<and> list_all evidence_ok (evidence_refs b)
     \<and> (case body_baseline b of None \<Rightarrow> True | Some base \<Rightarrow>
          (case bl_head_oid base of None \<Rightarrow> True | Some h \<Rightarrow> oid_normal h))
     \<and> check_blocker (status b) (blocker b) (next_actions b) = Inr ())"

definition checkpoint_ok :: "checkpoint \<Rightarrow> bool" where
  "checkpoint_ok c = (1 \<le> cp_revision c \<and> cp_revision c \<le> max_safe \<and> body_ok (cp_body c)
     \<and> is_canonical_timestamp (cp_updated_at c)
     \<and> line_bytes (checkpoint_json c) \<le> checkpoint_max_bytes)"

definition milestone_ok :: "milestone \<Rightarrow> bool" where
  "milestone_ok m = (1 \<le> ms_revision m \<and> ms_revision m \<le> max_safe \<and> within 512 (ms_objective m)
     \<and> pred_option source_ok (ms_source_state m) \<and> is_canonical_timestamp (ms_updated_at m))"

definition record_ok :: "continuity \<Rightarrow> bool" where
  "record_ok r = (checkpoint_ok (ct_checkpoint r) \<and> pred_option source_ok (ct_captured r)
     \<and> length (ct_milestones r) \<le> milestone_max_count \<and> list_all milestone_ok (ct_milestones r))"

lemma oid_normal_lower: "head_oid_ok s \<Longrightarrow> oid_normal (to_lower s)"
  by (auto simp: head_oid_ok_def oid_normal_def exactly_def to_lower_hex)

lemma oid_normal_ok: "oid_normal s \<Longrightarrow> head_oid_ok s \<and> to_lower s = s"
  by (auto simp: head_oid_ok_def oid_normal_def exactly_def to_lower_idem_hex list_all_iff
      is_hex_of_lower_hex)

lemma parse_status_json [simp]: "parse_status (Some (status_json st)) = Inr st"
  by (cases st) (simp_all add: parse_status_def status_json_def status_names_def)

lemma optional_bounded_eq:
  "optional_bounded_string (map_option JStr v) n = (if within n v then Inr v else Inl Checkpoint_Limit_Exceeded)"
  by (cases v) (simp_all add: optional_bounded_string_def within_def ensure_utf8_bound_def ensure_def)

lemma optional_bounded_within: "optional_bounded_string v n = Inr x \<Longrightarrow> within n x"
  by (auto simp: optional_bounded_string_def within_def ensure_utf8_bound_def bind_res_eq_Inr
      split: option.splits)

lemma normalize_source_json: "source_ok s \<Longrightarrow> normalize_source_state (Some (source_state_json s)) = Inr s"
  using oid_normal_ok [of "head_oid s"]
  by (auto simp: normalize_source_state_def source_state_json_def source_ok_def)

lemma normalize_source_ok: "normalize_source_state v = Inr s \<Longrightarrow> source_ok s"
  by (auto simp: normalize_source_state_def source_ok_def oid_normal_lower
      split: option.splits if_splits)

lemma optional_source_json:
  "pred_option source_ok v \<Longrightarrow> optional_source_state (map_option source_state_json v) = Inr v"
  by (cases v) (simp_all add: optional_source_state_def normalize_source_json)

lemma optional_source_ok: "optional_source_state v = Inr s \<Longrightarrow> pred_option source_ok s"
  by (auto simp: optional_source_state_def bind_res_eq_Inr normalize_source_ok split: option.splits)

lemma normalize_evidence_json: "evidence_ok e \<Longrightarrow> normalize_evidence (evidence_json e) = Inr e"
  by (cases "ev_kind e")
    (auto simp: normalize_evidence_def evidence_json_def evidence_ok_def kind_names_def
      ensure_utf8_bound_def optional_bounded_eq)

lemma normalize_evidence_ok: "normalize_evidence v = Inr e \<Longrightarrow> evidence_ok e"
  by (auto simp: normalize_evidence_def evidence_ok_def ensure_utf8_bound_def bind_res_eq_Inr
      dest: optional_bounded_within split: option.splits if_splits)

lemma normalize_baseline_json:
  "(case bl_head_oid b of None \<Rightarrow> True | Some h \<Rightarrow> oid_normal h) \<Longrightarrow>
     normalize_baseline (Some (baseline_json b)) = Inr b"
  using oid_normal_ok
  by (cases "bl_branch b"; cases "bl_head_oid b")
    (auto simp: normalize_baseline_def baseline_json_def)

lemma normalize_baseline_ok:
  "normalize_baseline v = Inr b \<Longrightarrow> (case bl_head_oid b of None \<Rightarrow> True | Some h \<Rightarrow> oid_normal h)"
  by (auto simp: normalize_baseline_def oid_normal_lower split: option.splits if_splits)

lemma normalize_next_action_str [simp]:
  "normalize_next_action (JStr s) = (if byte_length s \<le> 512 then Inr s else Inl Checkpoint_Limit_Exceeded)"
  by (simp add: normalize_next_action_def ensure_utf8_bound_def ensure_def)

lemma normalize_next_action_ok: "normalize_next_action v = Inr s \<Longrightarrow> byte_length s \<le> 512"
  by (auto simp: normalize_next_action_def ensure_utf8_bound_def bind_res_eq_Inr split: option.splits)

lemma bounded_array_json:
  "length xs \<le> n \<Longrightarrow> (\<And>x. x \<in> set xs \<Longrightarrow> f (g x) = Inr x) \<Longrightarrow>
     bounded_array n f (Some (JArr (map g xs))) = Inr xs"
  by (simp add: bounded_array_def map_res_inverse)

lemma bounded_array_ok:
  assumes "bounded_array n f v = Inr xs" and "\<And>x y. f x = Inr y \<Longrightarrow> P y"
  shows "length xs \<le> n \<and> list_all P xs"
  using assms(1) map_res_all [of f _ xs P] assms(2)
  by (auto simp: bounded_array_def dest: map_res_length split: option.splits if_splits)

text \<open>\<open>normalizeBody\<close> sees its argument only through its field values.\<close>

lemma normalize_body_fields:
  assumes "only_keys fs [''objective'', ''status'', ''baseline'', ''nextActions'',
              ''evidenceRefs'', ''blocker'', ''notes'']"
    and "get fs ''objective'' = map_option JStr (objective b)"
    and "get fs ''status'' = Some (status_json (status b))"
    and "get fs ''baseline'' = map_option baseline_json (body_baseline b)"
    and "get fs ''nextActions'' = Some (JArr (map JStr (next_actions b)))"
    and "get fs ''evidenceRefs'' = Some (JArr (map evidence_json (evidence_refs b)))"
    and "get fs ''blocker'' = map_option JStr (blocker b)"
    and "get fs ''notes'' = map_option JStr (body_notes b)"
    and "body_ok b"
  shows "normalize_body (Some (JObj fs)) = Inr b"
proof -
  have "bounded_array 8 normalize_next_action (get fs ''nextActions'') = Inr (next_actions b)"
    using assms(5,9) by (auto simp: body_ok_def list_all_iff intro: bounded_array_json)
  moreover have "bounded_array 16 normalize_evidence (get fs ''evidenceRefs'') = Inr (evidence_refs b)"
    using assms(6,9) by (auto simp: body_ok_def list_all_iff normalize_evidence_json
        intro!: bounded_array_json)
  moreover have "(case get fs ''baseline'' of None \<Rightarrow> Inr None
      | Some v \<Rightarrow> bind_res (normalize_baseline (Some v)) (\<lambda>x. Inr (Some x))) = Inr (body_baseline b)"
    using assms(4,9) by (cases "body_baseline b") (simp_all add: body_ok_def normalize_baseline_json)
  ultimately show ?thesis
    using assms(1-3,7-9)
    by (simp add: normalize_body_def optional_bounded_eq body_ok_def)
qed

lemma normalize_body_ok:
  assumes "normalize_body v = Inr b"
  shows "body_ok b"
proof -
  from assms obtain fs st obj blk nts acts evs base where
    parts: "optional_bounded_string (get fs ''objective'') 2048 = Inr obj"
      "optional_bounded_string (get fs ''blocker'') 2048 = Inr blk"
      "optional_bounded_string (get fs ''notes'') 4096 = Inr nts"
      "bounded_array 8 normalize_next_action (get fs ''nextActions'') = Inr acts"
      "bounded_array 16 normalize_evidence (get fs ''evidenceRefs'') = Inr evs"
      "(case get fs ''baseline'' of None \<Rightarrow> Inr None
        | Some v \<Rightarrow> bind_res (normalize_baseline (Some v)) (\<lambda>x. Inr (Some x))) = Inr base"
      "check_blocker st blk acts = Inr ()"
    and b: "b = \<lparr>objective = obj, status = st, body_baseline = base, next_actions = acts,
             evidence_refs = evs, blocker = blk, body_notes = nts\<rparr>"
    by (auto simp: normalize_body_def bind_res_eq_Inr split: option.splits if_splits)
  have "case base of None \<Rightarrow> True | Some x \<Rightarrow>
      (case bl_head_oid x of None \<Rightarrow> True | Some h \<Rightarrow> oid_normal h)"
    using parts(6) by (auto simp: bind_res_eq_Inr dest!: normalize_baseline_ok split: option.splits)
  then show ?thesis
    using parts(1-3,7) bounded_array_ok [OF parts(4) normalize_next_action_ok]
      bounded_array_ok [OF parts(5) normalize_evidence_ok]
    by (simp add: body_ok_def b optional_bounded_within)
qed

section \<open>The codec\<close>

lemma copy_field_get: "get (copy_field fs k @ gs) k' = (if k = k' \<and> get fs k \<noteq> None then get fs k else get gs k')"
  by (auto simp: copy_field_def split: option.splits)

lemma copy_field_get_last: "get (copy_field fs k) k' = (if k = k' then get fs k else None)"
  by (simp add: copy_field_def option.map_ident)

lemma copy_field_keys: "only_keys (copy_field fs k @ gs) ks \<longleftrightarrow> (get fs k = None \<or> k \<in> set ks) \<and> only_keys gs ks"
  by (simp add: copy_field_def)

lemma copy_field_keys_last: "only_keys (copy_field fs k) ks \<longleftrightarrow> get fs k = None \<or> k \<in> set ks"
  by (simp add: copy_field_def)

lemmas copy_field_simps = copy_field_get copy_field_get_last copy_field_keys copy_field_keys_last

abbreviation checkpoint_fields :: "checkpoint \<Rightarrow> fields" where
  "checkpoint_fields c \<equiv> fld ''schemaVersion'' (JNum 1) # fld ''revision'' (JNum (cp_revision c)) #
     body_fields (cp_body c) @ [fld ''updatedAt'' (JStr (cp_updated_at c))]"

lemma get_checkpoint_fields:
  "get (checkpoint_fields c) ''schemaVersion'' = Some (JNum 1)"
  "get (checkpoint_fields c) ''revision'' = Some (JNum (cp_revision c))"
  "get (checkpoint_fields c) ''updatedAt'' = Some (JStr (cp_updated_at c))"
  "get (checkpoint_fields c) ''objective'' = map_option JStr (objective (cp_body c))"
  "get (checkpoint_fields c) ''status'' = Some (status_json (status (cp_body c)))"
  "get (checkpoint_fields c) ''baseline'' = map_option baseline_json (body_baseline (cp_body c))"
  "get (checkpoint_fields c) ''nextActions'' = Some (JArr (map JStr (next_actions (cp_body c))))"
  "get (checkpoint_fields c) ''evidenceRefs'' = Some (JArr (map evidence_json (evidence_refs (cp_body c))))"
  "get (checkpoint_fields c) ''blocker'' = map_option JStr (blocker (cp_body c))"
  "get (checkpoint_fields c) ''notes'' = map_option JStr (body_notes (cp_body c))"
  by (simp_all add: body_fields_def split: option.splits)

lemma checkpoint_fields_keys:
  "only_keys (checkpoint_fields c) [''schemaVersion'', ''revision'', ''objective'', ''status'',
     ''baseline'', ''nextActions'', ''evidenceRefs'', ''blocker'', ''notes'', ''updatedAt'']"
  by (simp add: body_fields_def)

lemma parse_checkpoint_json:
  assumes "checkpoint_ok c"
  shows "parse_checkpoint (Some (checkpoint_json c)) = Inr c"
proof -
  have "normalize_body (Some (JObj
      (copy_field (checkpoint_fields c) ''objective'' @ copy_field (checkpoint_fields c) ''status'' @
       copy_field (checkpoint_fields c) ''baseline'' @ copy_field (checkpoint_fields c) ''nextActions'' @
       copy_field (checkpoint_fields c) ''evidenceRefs'' @ copy_field (checkpoint_fields c) ''blocker'' @
       copy_field (checkpoint_fields c) ''notes''))) = Inr (cp_body c)"
    by (rule normalize_body_fields)
      (use assms in \<open>simp_all add: copy_field_simps get_checkpoint_fields checkpoint_ok_def
        del: get_Cons\<close>)
  then show ?thesis
    using assms
    by (simp add: parse_checkpoint_def checkpoint_json_def get_checkpoint_fields checkpoint_fields_keys
        checkpoint_ok_def ensure_serialized_bound_def as_safe_from_def Let_def
        del: get_Cons only_keys_Cons)
qed

lemma parse_checkpoint_ok: "parse_checkpoint v = Inr c \<Longrightarrow> checkpoint_ok c"
  by (auto simp: parse_checkpoint_def checkpoint_ok_def bind_res_eq_Inr as_safe_from_eq_Some Let_def
      ensure_serialized_bound_def normalize_body_ok split: option.splits if_splits)

lemma normalize_milestone_json: "milestone_ok m \<Longrightarrow> normalize_milestone (milestone_json m) = Inr m"
  using optional_bounded_eq [of "ms_objective m" 512] optional_source_json [of "ms_source_state m"]
  by (cases "ms_objective m"; cases "ms_source_state m")
    (simp_all add: normalize_milestone_def milestone_json_def milestone_ok_def as_safe_from_def)

lemma normalize_milestone_ok:
  assumes "normalize_milestone v = Inr m"
  shows "milestone_ok m"
proof -
  from assms obtain fs rvn st obj src at where
    parts: "as_safe_from 1 (get fs ''revision'') = Some rvn"
      "optional_bounded_string (get fs ''objective'') 512 = Inr obj"
      "optional_source_state (get fs ''sourceState'') = Inr src"
      "is_canonical_timestamp at"
    and m: "m = \<lparr>ms_revision = rvn, ms_status = st, ms_objective = obj,
        ms_source_state = src, ms_updated_at = at\<rparr>"
    by (auto simp: normalize_milestone_def bind_res_eq_Inr split: option.splits if_splits)
  then show ?thesis
    by (auto simp: milestone_ok_def as_safe_from_eq_Some optional_bounded_within optional_source_ok)
qed

lemma parse_continuity_json:
  assumes "record_ok r"
  shows "parse_continuity (continuity_json r) = Inr r"
proof -
  have "bounded_array milestone_max_count normalize_milestone
      (Some (JArr (map milestone_json (ct_milestones r)))) = Inr (ct_milestones r)"
    using assms by (intro bounded_array_json) (auto simp: record_ok_def list_all_iff normalize_milestone_json)
  then show ?thesis
    using assms
    by (cases "ct_captured r")
      (simp_all add: parse_continuity_def continuity_json_def record_ok_def parse_checkpoint_json
        optional_source_state_def normalize_source_json)
qed

lemma parse_continuity_ok:
  assumes "parse_continuity v = Inr r"
  shows "record_ok r"
proof -
  obtain fs where v: "v = JObj fs"
    using assms by (auto simp: parse_continuity_def as_record_eq_Some split: option.splits)
  show ?thesis
  proof (cases "get fs ''schemaVersion'' = Some (JNum 1)")
    case True
    then show ?thesis
      using assms by (auto simp: v parse_continuity_def bind_res_eq_Inr record_ok_def parse_checkpoint_ok)
  next
    case False
    with assms obtain c src ms where
      parts: "parse_checkpoint (get fs ''current'') = Inr c"
        "optional_source_state (get fs ''capturedSourceState'') = Inr src"
        "bounded_array milestone_max_count normalize_milestone (get fs ''milestones'') = Inr ms"
      and r: "r = \<lparr>ct_checkpoint = c, ct_captured = src, ct_milestones = ms\<rparr>"
      by (auto simp: v parse_continuity_def bind_res_eq_Inr split: if_splits)
    then show ?thesis
      using bounded_array_ok [OF parts(3) normalize_milestone_ok]
      by (simp add: record_ok_def parse_checkpoint_ok optional_source_ok)
  qed
qed

definition document_ok :: "continuity option \<Rightarrow> bool" where
  "document_ok d = (case d of None \<Rightarrow> True | Some r \<Rightarrow> record_ok r)"

definition document_fits :: "continuity \<Rightarrow> bool" where
  "document_fits r = (line_bytes (continuity_json r) \<le> continuity_max_bytes)"

lemma parse_content_record:
  "record_ok r \<Longrightarrow> document_fits r \<Longrightarrow> parse_content (continuity_content r) = Inr (Some r)"
  by (simp add: parse_content_def continuity_content_def document_fits_def parse_continuity_json)

lemma parse_content_ok: "parse_content c = Inr d \<Longrightarrow> document_ok d"
  by (auto simp: parse_content_def document_ok_def bind_res_eq_Inr parse_continuity_ok
      split: option.splits if_splits)

interpretation continuity_codec: document_codec continuity_json parse_continuity record_ok
  by unfold_locales (simp_all add: parse_continuity_json parse_continuity_ok)

section \<open>Compaction\<close>

lemma compact_points_eq:
  "\<exists>k. compact_points out n ps = out @ concat (take k ps)"
proof (induction ps arbitrary: out)
  case Nil
  then show ?case by simp
next
  case (Cons p ps)
  show ?case
  proof (cases "n < byte_length (out @ p)")
    case True
    then show ?thesis by (simp add: exI [of _ 0])
  next
    case False
    obtain k where "compact_points (out @ p) n ps = (out @ p) @ concat (take k ps)"
      using Cons by blast
    then show ?thesis using False by (auto intro: exI [of _ "Suc k"])
  qed
qed

lemma compact_points_bound:
  "byte_length out \<le> n \<Longrightarrow> byte_length (compact_points out n ps) \<le> n"
  by (induction ps arbitrary: out) auto

lemma compact_points_maximal:
  "compact_points out n ps = out @ concat (take k ps) \<Longrightarrow> k < length ps \<Longrightarrow>
    list_all (\<lambda>p. p \<noteq> []) ps \<Longrightarrow> n < byte_length (out @ concat (take (Suc k) ps))"
proof (induction ps arbitrary: out k)
  case Nil
  then show ?case by simp
next
  case (Cons p ps)
  show ?case
  proof (cases "n < byte_length (out @ p)")
    case True
    with Cons.prems have "concat (take k (p # ps)) = []" by simp
    then have "k = 0" using Cons.prems(3) by (cases k) auto
    then show ?thesis using True by simp
  next
    case False
    obtain j where "compact_points (out @ p) n ps = (out @ p) @ concat (take j ps)"
      using compact_points_eq by blast
    moreover have "k \<noteq> 0"
      using calculation False Cons.prems(1,3) by (cases k) auto
    ultimately show ?thesis
      using Cons.IH [of "out @ p" "k - 1"] Cons.prems False by (cases k) auto
  qed
qed

lemma within_compact: "byte_length (compact_utf8 s n) \<le> n"
  by (simp add: compact_utf8_def compact_points_bound)

lemma compact_milestone_ok:
  "checkpoint_ok c \<Longrightarrow> pred_option source_ok src \<Longrightarrow> milestone_ok (compact_milestone c src)"
  by (simp add: milestone_ok_def compact_milestone_def checkpoint_ok_def within_def within_compact
      split: option.splits)

section \<open>The operations on a readable store\<close>

definition current_revision :: "continuity option \<Rightarrow> int" where
  "current_revision d = (case d of None \<Rightarrow> 0 | Some r \<Rightarrow> cp_revision (ct_checkpoint r))"

lemma upsert_document_ok:
  assumes "upsert_document now current body captured expected = Inr r"
    and "document_ok current" and "current_revision current < max_safe"
    and "pred_option is_canonical_timestamp now" and "body_ok body" and "source_ok captured"
  shows "record_ok r" and "r = next_continuity current (ct_checkpoint r) captured"
    and "cp_revision (ct_checkpoint r) = current_revision current + 1"
    and "expected = map_option (\<lambda>r. cp_revision (ct_checkpoint r)) current"
proof -
  from assms(1) obtain at where at: "now = Some at" by (auto simp: upsert_document_def bind_res_eq_Inr
      split: option.splits)
  define c where "c = \<lparr>cp_revision = current_revision current + 1, cp_body = body, cp_updated_at = at\<rparr>"
  from assms(1) have r: "r = next_continuity current c captured"
    and bound: "line_bytes (checkpoint_json c) \<le> checkpoint_max_bytes"
    and expected: "check_revision current expected = Inr ()"
    by (auto simp: at upsert_document_def bind_res_eq_Inr Let_def c_def current_revision_def
        ensure_serialized_bound_def)
  have "0 \<le> current_revision current"
    using assms(2) by (auto simp: current_revision_def document_ok_def record_ok_def checkpoint_ok_def
        split: option.splits)
  then have c: "checkpoint_ok c"
    using assms(3-5) bound by (simp add: checkpoint_ok_def c_def at)
  have "list_all milestone_ok (ct_milestones r)"
    using assms(2) set_last_n by (fastforce simp: r next_continuity_def document_ok_def record_ok_def
        compact_milestone_ok list_all_iff split: option.splits)
  then show "record_ok r"
    using c assms(6) by (simp add: record_ok_def r next_continuity_def)
  show "r = next_continuity current (ct_checkpoint r) captured"
    and "cp_revision (ct_checkpoint r) = current_revision current + 1"
    by (simp_all add: r next_continuity_def c_def)
  show "expected = map_option (\<lambda>r. cp_revision (ct_checkpoint r)) current"
    using expected by (auto simp: check_revision_def split: option.splits)
qed

lemma read_unlocked_ok: "read_continuity_unlocked f = Inr d \<Longrightarrow> document_ok d"
  using parse_content_ok
  by (auto simp: read_continuity_unlocked_def read_file_def document_ok_def split: state_file.splits)

lemma write_unlocked_cases:
  assumes "write_continuity_unlocked fault r f = (res, f')" and "record_ok r"
  shows "(f' = f \<and> is_ok res = False) \<or> read_continuity_unlocked f' = Inr (Some r)"
  using assms parse_content_record [OF assms(2)]
  by (auto simp: write_continuity_unlocked_def read_continuity_unlocked_def read_file_def
      document_fits_def split: if_splits dest!: write_file_cases)

text \<open>An upsert either stops before the write or writes one record.\<close>

lemma upsert_cases:
  assumes "read_continuity_unlocked (st i) = Inr current"
    and "current_revision current < max_safe" and "pred_option is_canonical_timestamp now"
    and "upsert now fault i body_in captured_in expected_in st = (res, st')"
  obtains (stopped) e where "res = Inl e" and "st' = st"
  | (written) r f' body captured where
      "validate_trust_id i = Inr ()" and "normalize_body body_in = Inr body"
      "normalize_source_state captured_in = Inr captured"
      "validate_expected_revision False expected_in
         = Inr (map_option (\<lambda>r. cp_revision (ct_checkpoint r)) current)"
      "record_ok r" "r = next_continuity current (ct_checkpoint r) captured"
      "cp_revision (ct_checkpoint r) = current_revision current + 1"
      "st' = st(i := f')" "f' = st i \<and> \<not> is_ok res \<or> read_continuity_unlocked f' = Inr (Some r)"
      "is_ok res \<Longrightarrow> res = Inr (ct_checkpoint r)"
proof (cases "bind_res (validate_trust_id i) (\<lambda>_.
           bind_res (validate_expected_revision False expected_in) (\<lambda>expected.
           bind_res (normalize_body body_in) (\<lambda>body.
           bind_res (normalize_source_state captured_in) (\<lambda>captured.
           bind_res (read_continuity_unlocked (st i)) (\<lambda>current.
             upsert_document now current body captured expected)))))")
  case (Inl e)
  then have "res = Inl e \<and> st' = st" using assms(4) unfolding upsert_def by simp
  then show thesis using stopped by blast
next
  case (Inr r)
  then obtain expected body captured where
    in_ok: "validate_trust_id i = Inr ()" "validate_expected_revision False expected_in = Inr expected"
      "normalize_body body_in = Inr body" "normalize_source_state captured_in = Inr captured"
    and r: "upsert_document now current body captured expected = Inr r"
    by (auto simp: bind_res_eq_Inr assms(1))
  obtain w f' where w: "write_continuity_unlocked fault r (st i) = (w, f')" by (rule prod.exhaust)
  then have res: "res = map_sum id (\<lambda>_. ct_checkpoint r) w" and st': "st' = st(i := f')"
    using assms(4) unfolding upsert_def Inr by (cases w; simp)+
  note ok = upsert_document_ok [OF r read_unlocked_ok [OF assms(1)] assms(2,3)
      normalize_body_ok [OF in_ok(3)] normalize_source_ok [OF in_ok(4)]]
  show thesis
  proof (rule written [OF in_ok(1,3,4) _ ok(1,2,3) st'])
    show "validate_expected_revision False expected_in
         = Inr (map_option (\<lambda>r. cp_revision (ct_checkpoint r)) current)"
      using in_ok(2) ok(4) by simp
    show "f' = st i \<and> \<not> is_ok res \<or> read_continuity_unlocked f' = Inr (Some r)"
      using write_unlocked_cases [OF w ok(1)] by (cases w) (auto simp: res)
    show "is_ok res \<Longrightarrow> res = Inr (ct_checkpoint r)" by (cases w) (simp_all add: res)
  qed
qed

section \<open>Histories\<close>

text \<open>
  All sequences of operations on an initially empty state directory, each with any input, any
  write failure, and a clock that returns canonical text or throws. Revisions stay below the
  largest safe integer: 9007199254740991 updates of one workspace are out of reach.
\<close>

inductive checkpoint_history :: "checkpoint_store \<Rightarrow> bool" where
  history_empty: "checkpoint_history (\<lambda>_. Absent)"
| history_upsert: "checkpoint_history st \<Longrightarrow> pred_option is_canonical_timestamp now \<Longrightarrow>
    (\<And>d. read_continuity_unlocked (st i) = Inr d \<Longrightarrow> current_revision d < max_safe) \<Longrightarrow>
    checkpoint_history (snd (upsert now fault i body_in captured_in expected_in st))"
| history_clear: "checkpoint_history st \<Longrightarrow> checkpoint_history (snd (clear fault i expected_in st))"
| history_purge: "checkpoint_history st \<Longrightarrow> checkpoint_history (snd (purge fault i st))"

text \<open>The milestones are the revisions just before the current one, at most eight of them.\<close>

definition consecutive :: "continuity \<Rightarrow> bool" where
  "consecutive r = (let n = cp_revision (ct_checkpoint r) in
     map ms_revision (ct_milestones r) = [max 1 (n - 8) .. n - 1])"

definition file_ok :: "content state_file \<Rightarrow> bool" where
  "file_ok f = (\<exists>d. read_continuity_unlocked f = Inr d \<and> pred_option consecutive d)"

lemma file_ok_Absent [simp]: "file_ok Absent"
  by (simp add: file_ok_def read_continuity_unlocked_def read_file_def)

lemma consecutive_next:
  assumes "pred_option consecutive current" and "document_ok current"
    and "cp_revision c = current_revision current + 1"
  shows "consecutive (next_continuity current c src)"
proof (cases current)
  case None
  then show ?thesis
    using assms(3) by (simp add: consecutive_def next_continuity_def current_revision_def last_n_def)
next
  case (Some r)
  define n where "n = cp_revision (ct_checkpoint r)"
  have n: "1 \<le> n" and c: "cp_revision c = n + 1"
    using assms(2,3) by (simp_all add: Some document_ok_def record_ok_def checkpoint_ok_def
        current_revision_def n_def)
  have "map ms_revision (ct_milestones r) = [max 1 (n - 8) .. n - 1]"
    using assms(1) by (simp add: Some consecutive_def n_def Let_def)
  then have "map ms_revision (ct_milestones r @ [compact_milestone (ct_checkpoint r) (ct_captured r)])
      = [max 1 (n - 8) .. n]"
    using n by (simp add: compact_milestone_def n_def [symmetric] upto_rec2 [of _ n])
  then have "map ms_revision (ct_milestones (next_continuity current c src))
      = last_n 8 [max 1 (n - 8) .. n]"
    by (simp add: next_continuity_def Some map_last_n milestone_max_count_def)
  also have "\<dots> = [max 1 (n - 7) .. n]" by (simp add: last_n_upto max_def)
  finally show ?thesis by (simp add: consecutive_def next_continuity_def c Let_def)
qed

lemma upsert_file_ok:
  assumes "\<And>j. file_ok (st j)" and "pred_option is_canonical_timestamp now"
    and "\<And>d. read_continuity_unlocked (st i) = Inr d \<Longrightarrow> current_revision d < max_safe"
  shows "file_ok (snd (upsert now fault i b c e st) j)"
proof -
  obtain d where d: "read_continuity_unlocked (st i) = Inr d" "pred_option consecutive d"
    using assms(1) by (auto simp: file_ok_def)
  obtain res st' where u: "upsert now fault i b c e st = (res, st')" by (rule prod.exhaust)
  from d(1) assms(3) [OF d(1)] assms(2) u show ?thesis
  proof (cases rule: upsert_cases)
    case stopped
    then show ?thesis using assms(1) u by simp
  next
    case (written r f' body captured)
    have "consecutive r"
      using consecutive_next [OF d(2) read_unlocked_ok [OF d(1)] written(7), of captured] written(6)
      by simp
    then have "file_ok f'" using written(9) assms(1) by (auto simp: file_ok_def)
    then show ?thesis using assms(1) u written(8) by simp
  qed
qed

lemma remove_file_ok: "file_ok f \<Longrightarrow> file_ok (snd (remove_file fault f))"
  by (simp add: remove_file_def split: write_fault.splits)

lemma history_file_ok: "checkpoint_history st \<Longrightarrow> file_ok (st i)"
proof (induction arbitrary: i rule: checkpoint_history.induct)
  case history_empty
  show ?case by simp
next
  case (history_upsert st now j fault b c e)
  then show ?case by (intro upsert_file_ok) auto
next
  case (history_clear st fault j e)
  have "snd (clear fault j e st) i \<in> {st i, snd (remove_file fault (st i))}"
    by (auto simp: clear_def split: sum.splits prod.splits)
  then show ?case using history_clear remove_file_ok by auto
next
  case (history_purge st fault j)
  have "snd (purge fault j st) i \<in> {st i, snd (remove_file fault (st i))}"
    by (auto simp: purge_def split: sum.splits prod.splits)
  then show ?case using history_purge remove_file_ok by auto
qed

subsection \<open>A sample update\<close>

definition sample_id :: jsstring where
  "sample_id = js ''trust_'' @ replicate 32 97"

definition sample_body :: json where
  "sample_body = JObj [fld ''status'' (JStr (js ''active'')), fld ''nextActions'' (JArr []),
     fld ''evidenceRefs'' (JArr [])]"

definition sample_source :: json where
  "sample_source = JObj [fld ''headOid'' (JStr (replicate 40 70)),
     fld ''changesFingerprint'' (JStr (replicate 64 48))]"

definition sample_now :: jsstring where
  "sample_now = js ''2026-01-31T10:00:00.000Z''"

definition sample_checkpoint :: checkpoint where
  "sample_checkpoint = \<lparr>cp_revision = 1,
     cp_body = \<lparr>objective = None, status = Active, body_baseline = None, next_actions = [],
       evidence_refs = [], blocker = None, body_notes = None\<rparr>,
     cp_updated_at = sample_now\<rparr>"

definition sample_record :: continuity where
  "sample_record = \<lparr>ct_checkpoint = sample_checkpoint,
     ct_captured = Some \<lparr>head_oid = replicate 40 102, changes_fingerprint = replicate 64 48\<rparr>,
     ct_milestones = []\<rparr>"

lemma sample_now_canonical: "is_canonical_timestamp sample_now"
  by code_simp

lemma sample_normal:
  "validate_trust_id sample_id = Inr ()" "is_ok (normalize_body (Some sample_body))"
  "is_ok (normalize_source_state (Some sample_source))"
  by code_simp+

lemma sample_bytes:
  "line_bytes (checkpoint_json sample_checkpoint) \<le> 300"
  "line_bytes (continuity_json sample_record) \<le> 600"
  by (simp_all add: line_bytes_def byte_length_ascii continuity_json_def checkpoint_json_def
      body_fields_def sample_record_def sample_checkpoint_def source_state_json_def opt_field_def
      status_json_def int_text_def decimal_def digits_acc.simps quote_plain plain_def sample_now_def
      js_def list_all_iff)

definition sample_store :: checkpoint_store where
  "sample_store = (\<lambda>_. Absent)(sample_id := Content (continuity_content sample_record))"

lemma sample_inputs:
  "validate_trust_id sample_id = Inr ()"
  "normalize_body (Some sample_body) = Inr (cp_body sample_checkpoint)"
  "normalize_source_state (Some sample_source)
     = Inr \<lparr>head_oid = replicate 40 102, changes_fingerprint = replicate 64 48\<rparr>"
  by code_simp+

lemma sample_read_absent: "read_continuity_unlocked ((\<lambda>_. Absent) i) = Inr None"
  by (simp add: read_continuity_unlocked_def read_file_def)

lemma sample_upsert:
  "upsert (Some sample_now) No_Fault sample_id (Some sample_body) (Some sample_source) None (\<lambda>_. Absent)
     = (Inr sample_checkpoint, sample_store)"
proof -
  have "upsert_document (Some sample_now) None (cp_body sample_checkpoint)
      \<lparr>head_oid = replicate 40 102, changes_fingerprint = replicate 64 48\<rparr> None = Inr sample_record"
    using sample_bytes(1)
    by (simp add: upsert_document_def check_revision_def ensure_serialized_bound_def Let_def
        sample_record_def sample_checkpoint_def next_continuity_def checkpoint_max_bytes_def last_n_def)
  then show ?thesis
    using sample_bytes(2)
    by (simp add: upsert_def sample_inputs validate_expected_revision_def sample_read_absent [simplified]
        write_continuity_unlocked_def continuity_max_bytes_def write_file_def sample_store_def)
      (simp add: sample_record_def)
qed

lemma sample_current: "current_revision None < max_safe" "current_revision (Some sample_record) < max_safe"
  by (simp_all add: current_revision_def sample_record_def sample_checkpoint_def)

lemma sample_now_ok: "pred_option is_canonical_timestamp (Some sample_now)"
  by (simp add: sample_now_canonical)

section \<open>Properties\<close>

text \<open>
  An accepted \<open>upsert\<close> is a compare-and-set: it only succeeds when the expected revision was
  the stored one (absent for a first checkpoint), it raises the revision by one, what it wrote
  is what the next read returns, the replaced checkpoint becomes the newest milestone, and the
  files of other workspaces are untouched.
\<close>

lemma upsert_compare_and_set:
  assumes "read_continuity_unlocked (st i) = Inr current"
    and "current_revision current < max_safe" and "pred_option is_canonical_timestamp now"
    and "upsert now fault i body_in captured_in expected_in st = (Inr c, st')"
  shows "cp_revision c = current_revision current + 1 \<and>
    validate_expected_revision False expected_in
      = Inr (map_option (\<lambda>r. cp_revision (ct_checkpoint r)) current) \<and>
    (\<exists>src. normalize_source_state captured_in = Inr src \<and>
       read_continuity i st' = Inr (Some
         \<lparr>ct_checkpoint = c, ct_captured = Some src,
          ct_milestones = last_n 8 (case current of
             None \<Rightarrow> []
           | Some r \<Rightarrow> ct_milestones r @ [compact_milestone (ct_checkpoint r) (ct_captured r)])\<rparr>)) \<and>
    (\<forall>j. j = i \<or> st' j = st j)"
  using assms
proof (cases rule: upsert_cases)
  case stopped
  then show ?thesis by simp
next
  case (written r f' body captured)
  then have "c = ct_checkpoint r" and "read_continuity i st' = Inr (Some r)"
    by (simp_all add: read_continuity_def)
  then show ?thesis
    using written(3,4,6,7,8) by (auto simp: next_continuity_def milestone_max_count_def)
qed

text \<open>
  C20. No lost update: of two upserts that name the same expected revision, the second never
  writes once the first has succeeded, and with otherwise valid input it is told that its
  revision is stale.
\<close>

theorem upsert_no_lost_update:
  assumes "read_continuity_unlocked (st i) = Inr current"
    and "current_revision current + 1 < max_safe" and "pred_option is_canonical_timestamp now"
    and "upsert now fault i body_in captured_in expected_in st = (Inr c, st')"
    and "is_ok (normalize_body body2)" and "is_ok (normalize_source_state captured2)"
  shows "upsert now2 fault2 i body2 captured2 expected_in st' = (Inl Checkpoint_Stale, st')"
proof -
  have "current_revision current < max_safe" using assms(2) by simp
  from assms(1) this assms(3,4) show ?thesis
  proof (cases rule: upsert_cases)
    case stopped
    then show ?thesis by simp
  next
    case (written r f' body captured)
    then have "read_continuity_unlocked (st' i) = Inr (Some r)" by simp
    moreover have "map_option (\<lambda>r. cp_revision (ct_checkpoint r)) current \<noteq> Some (cp_revision (ct_checkpoint r))"
      using written(7) by (auto simp: current_revision_def)
    ultimately show ?thesis
      using written(1,4) assms(5,6)
      by (auto simp: upsert_def is_ok_iff upsert_document_def check_revision_def ensure_def)
  qed
qed

theorem upsert_no_lost_update_witness:
  "upsert (Some sample_now) No_Fault sample_id (Some sample_body) (Some sample_source) None sample_store
     = (Inl Checkpoint_Stale, sample_store)"
  by (rule upsert_no_lost_update [OF sample_read_absent _ sample_now_ok sample_upsert])
    (simp_all add: sample_inputs current_revision_def)

text \<open>
  C12. Continuity is never lost: after any history of upserts, clears and purges, each with any
  input and cut short by any write failure, every workspace's document reads back within all
  limits, and its milestones are exactly the up to eight revisions before the current one,
  oldest first.
\<close>

theorem checkpoint_history_consecutive:
  assumes "checkpoint_history st" and "tagged_hex32 ''trust_'' i"
  shows "\<exists>d. read_continuity i st = Inr d \<and>
    (case d of None \<Rightarrow> True
     | Some r \<Rightarrow> record_ok r \<and> map ms_revision (ct_milestones r)
         = [max 1 (cp_revision (ct_checkpoint r) - 8) .. cp_revision (ct_checkpoint r) - 1])"
proof -
  obtain d where "read_continuity_unlocked (st i) = Inr d" "pred_option consecutive d"
    using history_file_ok [OF assms(1)] by (auto simp: file_ok_def)
  moreover from this(1) have "document_ok d" by (rule read_unlocked_ok)
  ultimately show ?thesis
    using assms(2)
    by (auto simp: read_continuity_def validate_trust_id_def document_ok_def consecutive_def Let_def
        split: option.splits)
qed

theorem checkpoint_history_consecutive_witness:
  "\<exists>d. read_continuity sample_id sample_store = Inr d \<and>
    (case d of None \<Rightarrow> True
     | Some r \<Rightarrow> record_ok r \<and> map ms_revision (ct_milestones r)
         = [max 1 (cp_revision (ct_checkpoint r) - 8) .. cp_revision (ct_checkpoint r) - 1])"
proof (rule checkpoint_history_consecutive)
  have "checkpoint_history (snd (upsert (Some sample_now) No_Fault sample_id (Some sample_body)
      (Some sample_source) None (\<lambda>_. Absent)))"
    by (rule history_upsert [OF history_empty sample_now_ok])
      (use sample_current in \<open>simp add: sample_read_absent [simplified]\<close>)
  then show "checkpoint_history sample_store" by (simp add: sample_upsert)
  show "tagged_hex32 ''trust_'' sample_id"
    using sample_inputs(1) by (simp add: validate_trust_id_def)
qed

text \<open>
  The continuity document survives its round trip through JSON exactly when it is within the
  limits the parser enforces: nothing the parser would reject is ever accepted, and nothing it
  accepts is altered by being written and read again.
\<close>

lemma continuity_roundtrip:
  "parse_continuity (continuity_json r) = Inr r \<longleftrightarrow> record_ok r"
  using parse_continuity_json continuity_codec.parse_valid by blast

text \<open>
  \<open>compactUtf8\<close> returns the longest prefix of whole code points whose UTF-8 encoding fits.
\<close>

lemma compact_utf8_longest:
  "\<exists>k. compact_utf8 s n = concat (take k (code_points s)) \<and> byte_length (compact_utf8 s n) \<le> n \<and>
     (length (code_points s) \<le> k \<or> n < byte_length (concat (take (Suc k) (code_points s))))"
proof (cases "byte_length s \<le> n")
  case True
  then show ?thesis
    by (intro exI [of _ "length (code_points s)"]) (simp add: compact_utf8_def concat_code_points)
next
  case False
  then have eq: "compact_utf8 s n = compact_points [] n (code_points s)"
    by (simp add: compact_utf8_def)
  obtain k where k: "compact_points [] n (code_points s) = concat (take k (code_points s))"
    using compact_points_eq [of "[]"] by fastforce
  have "list_all (\<lambda>p. p \<noteq> []) (code_points s)"
    using code_points_not_Nil by (auto simp: list_all_iff)
  then have "length (code_points s) \<le> k \<or> n < byte_length (concat (take (Suc k) (code_points s)))"
    using compact_points_maximal [of "[]" n "code_points s" k] k by fastforce
  then show ?thesis using k eq within_compact [of s n] by (intro exI [of _ k]) simp
qed

end
