(* ===== verification/Patch.thy ===== *)
theory Patch
  imports Json
begin

text \<open>
  \<open>packages/capabilities/src/patch.ts\<close>: the \<open>file_patch\<close> capability. A unified diff is parsed
  whole, every file of it is preflighted against the workspace, and only then, in apply mode,
  the files are committed one by one. The workspace adapters and SHA-256 are parameters; the
  adapters thread the state of the workspace.
\<close>

section \<open>Data\<close>

datatype patch_line = Context jsstring | Remove jsstring | Add jsstring

fun line_text :: "patch_line \<Rightarrow> jsstring" where
  "line_text (Context s) = s"
| "line_text (Remove s) = s"
| "line_text (Add s) = s"

record hunk =
  old_start :: nat
  old_count :: nat
  new_start :: nat
  new_count :: nat
  hunk_lines :: "patch_line list"

datatype file_action = Create | Update | Delete

record parsed_file =
  pf_path :: jsstring
  pf_action :: file_action
  pf_hunks :: "hunk list"

record preflight_file =
  pl_path :: jsstring
  pl_action :: file_action
  pl_expected :: "jsstring option"
  pl_post_image :: "jsstring option"
  pl_resulting :: "jsstring option"
  pl_bytes :: nat

datatype capability_error =
    Capability_Input_Invalid
  | Capability_Limit_Exceeded
  | Patch_Precondition_Failed
  | Patch_Commit_Incomplete "jsstring list" jsstring

definition max_patch_bytes :: nat where "max_patch_bytes = 1048576"
definition max_patch_files :: nat where "max_patch_files = 64"
definition max_patch_hunks :: nat where "max_patch_hunks = 256"

section \<open>Lines\<close>

text \<open>\<open>splitLinesPreservingEndings\<close>: every line keeps its line feed.\<close>

fun split_lines :: "jsstring \<Rightarrow> jsstring list" where
  "split_lines [] = []"
| "split_lines (u # s) =
     (if u = 10 then [u] # split_lines s
      else (case split_lines s of [] \<Rightarrow> [[u]] | w # ws \<Rightarrow> (u # w) # ws))"

definition control_text :: "jsstring \<Rightarrow> jsstring" where
  "control_text l = (if ends_with l [13, 10] then take (length l - 2) l
     else if ends_with l [10] then take (length l - 1) l else l)"

section \<open>Headers\<close>

definition validate_patch_path :: "jsstring \<Rightarrow> capability_error + unit" where
  "validate_patch_path p = ensure
     (\<not> (p = [] \<or> starts_with p (js ''/'') \<or> 0 \<in> set p
        \<or> list_ex (\<lambda>s. s = [] \<or> s = js ''.'' \<or> s = js ''..'') (split_on 47 p)))
     Capability_Input_Invalid"

datatype side = Old | New

definition parse_header_path :: "jsstring \<Rightarrow> side \<Rightarrow> capability_error + jsstring option" where
  "parse_header_path line sd =
     (let raw = drop 4 line in
      if 9 \<in> set raw then Inl Capability_Input_Invalid
      else if raw = js ''/dev/null'' then Inr None
      else if \<not> starts_with raw (case sd of Old \<Rightarrow> js ''a/'' | New \<Rightarrow> js ''b/'')
      then Inl Capability_Input_Invalid
      else bind_res (validate_patch_path (drop 2 raw)) (\<lambda>_. Inr (Some (drop 2 raw))))"

definition resolve_file_action ::
    "jsstring option \<Rightarrow> jsstring option \<Rightarrow> capability_error + jsstring \<times> file_action" where
  "resolve_file_action old_path new_path = (case (old_path, new_path) of
     (None, Some n) \<Rightarrow> Inr (n, Create)
   | (Some p, None) \<Rightarrow> Inr (p, Delete)
   | (Some p, Some n) \<Rightarrow> if p = n then Inr (p, Update) else Inl Capability_Input_Invalid
   | (None, None) \<Rightarrow> Inl Capability_Input_Invalid)"

text \<open>The pieces of \<open>/^@@ -(\d+)(?:,(\d+))? \+(\d+)(?:,(\d+))? @@(?: .*)?$/\<close>.\<close>

definition match_text :: "jsstring \<Rightarrow> jsstring \<Rightarrow> jsstring option" where
  "match_text t s = (if starts_with s t then Some (drop (length t) s) else None)"

definition match_digits :: "jsstring \<Rightarrow> (nat \<times> jsstring) option" where
  "match_digits s = (let d = takeWhile is_digit s in
     if d = [] then None else Some (digits_value d, dropWhile is_digit s))"

definition match_count :: "jsstring \<Rightarrow> nat \<times> jsstring" where
  "match_count s = (case match_text [44] s of
     None \<Rightarrow> (1, s)
   | Some t \<Rightarrow> (case match_digits t of None \<Rightarrow> (1, s) | Some (n, r) \<Rightarrow> (n, r)))"

definition line_terminator :: "nat \<Rightarrow> bool" where
  "line_terminator u = (u = 10 \<or> u = 13 \<or> u = 8232 \<or> u = 8233)"

definition match_range :: "jsstring \<Rightarrow> (nat \<times> nat \<times> nat \<times> nat) option" where
  "match_range s =
     Option.bind (match_text (js ''@@ -'') s) (\<lambda>s.
     Option.bind (match_digits s) (\<lambda>(os, s).
     case match_count s of (oc, s) \<Rightarrow>
     Option.bind (match_text (js '' +'') s) (\<lambda>s.
     Option.bind (match_digits s) (\<lambda>(ns, s).
     case match_count s of (nc, s) \<Rightarrow>
     Option.bind (match_text (js '' @@'') s) (\<lambda>s.
       if s = [] \<or> (hd s = 32 \<and> \<not> list_ex line_terminator (tl s))
       then Some (os, oc, ns, nc) else None)))))"

definition valid_range :: "nat \<times> nat \<times> nat \<times> nat \<Rightarrow> bool" where
  "valid_range r = (case r of (os, oc, ns, nc) \<Rightarrow>
     int os \<le> 9007199254740991 \<and> int oc \<le> 9007199254740991
     \<and> int ns \<le> 9007199254740991 \<and> int nc \<le> 9007199254740991
     \<and> (oc = 0 \<or> 1 \<le> os) \<and> (nc = 0 \<or> 1 \<le> ns))"

section \<open>Hunks\<close>

definition parse_body_line :: "jsstring \<Rightarrow> capability_error + patch_line" where
  "parse_body_line raw =
     (if starts_with raw (92 # js '' No newline at end of file'') then Inl Capability_Input_Invalid
      else (case raw of
        [] \<Rightarrow> Inl Capability_Input_Invalid
      | u # s \<Rightarrow>
          if u = 32 then Inr (Context s) else if u = 45 then Inr (Remove s)
          else if u = 43 then Inr (Add s) else Inl Capability_Input_Invalid))"

fun old_cost :: "patch_line \<Rightarrow> nat" where
  "old_cost (Add _) = 0"
| "old_cost _ = 1"

fun new_cost :: "patch_line \<Rightarrow> nat" where
  "new_cost (Remove _) = 0"
| "new_cost _ = 1"

text \<open>The \<open>while\<close> loop of \<open>parseHunk\<close>, on the lines from \<open>index\<close>.\<close>

fun parse_body :: "nat \<Rightarrow> nat \<Rightarrow> nat \<Rightarrow> nat \<Rightarrow> jsstring list \<Rightarrow>
    capability_error + patch_line list \<times> jsstring list" where
  "parse_body oc nc o_seen n_seen ls =
     (if \<not> (o_seen < oc \<or> n_seen < nc) then Inr ([], ls)
      else (case ls of
        [] \<Rightarrow> Inl Capability_Input_Invalid
      | raw # rest \<Rightarrow>
          bind_res (parse_body_line raw) (\<lambda>l.
          let o' = o_seen + old_cost l; n' = n_seen + new_cost l in
          if oc < o' \<or> nc < n' then Inl Capability_Input_Invalid
          else bind_res (parse_body oc nc o' n' rest) (\<lambda>(body, ls'). Inr (l # body, ls')))))"

declare parse_body.simps [simp del]

definition parse_hunk :: "jsstring \<Rightarrow> jsstring list \<Rightarrow> capability_error + hunk \<times> jsstring list" where
  "parse_hunk header rest = (case match_range (control_text header) of
     None \<Rightarrow> Inl Capability_Input_Invalid
   | Some (os, oc, ns, nc) \<Rightarrow>
       if \<not> valid_range (os, oc, ns, nc) then Inl Capability_Input_Invalid
       else bind_res (parse_body oc nc 0 0 rest) (\<lambda>(body, ls').
         Inr (\<lparr>old_start = os, old_count = oc, new_start = ns, new_count = nc, hunk_lines = body\<rparr>, ls')))"

lemma parse_body_rest: "parse_body oc nc a b ls = Inr (body, ls') \<Longrightarrow> length ls' \<le> length ls"
proof (induction ls arbitrary: a b body)
  case Nil
  then show ?case by (subst (asm) parse_body.simps) (auto split: if_splits)
next
  case (Cons raw rest)
  from Cons.prems show ?case
    by (subst (asm) parse_body.simps)
      (auto simp: bind_res_eq_Inr Let_def split: if_splits dest: Cons.IH)
qed

lemma parse_hunk_rest: "parse_hunk h ls = Inr (hk, ls') \<Longrightarrow> length ls' \<le> length ls"
  by (auto simp: parse_hunk_def bind_res_eq_Inr parse_body_rest split: option.splits prod.splits if_splits)

function parse_hunks :: "nat \<Rightarrow> jsstring list \<Rightarrow>
    capability_error + hunk list \<times> nat \<times> jsstring list" where
  "parse_hunks n_hunks [] = Inr ([], n_hunks, [])"
| "parse_hunks n_hunks (l # rest) =
     (if \<not> starts_with (control_text l) (js ''@@'') then Inr ([], n_hunks, l # rest)
      else if max_patch_hunks < n_hunks + 1 then Inl Capability_Limit_Exceeded
      else
        bind_res (parse_hunk l rest) (\<lambda>hr.
        bind_res (parse_hunks (n_hunks + 1) (snd hr)) (\<lambda>(hs, n_hunks', ls').
          Inr (fst hr # hs, n_hunks', ls'))))"
  by pat_completeness auto
termination
  by (relation "measure (\<lambda>(_, ls). length ls)") (auto dest: parse_hunk_rest)

lemma parse_hunks_rest: "parse_hunks t ls = Inr (hs, t', ls') \<Longrightarrow> length ls' \<le> length ls"
proof (induction t ls arbitrary: hs t' ls' rule: parse_hunks.induct)
  case (2 n_hunks l rest)
  show ?case
  proof (cases "starts_with (control_text l) (js ''@@'') \<and> n_hunks + 1 \<le> max_patch_hunks")
    case True
    with "2.prems" obtain hr hs' where hr: "parse_hunk l rest = Inr hr"
      and hs': "parse_hunks (n_hunks + 1) (snd hr) = Inr (hs', t', ls')"
      by (auto simp: bind_res_eq_Inr)
    then have "length ls' \<le> length (snd hr)" using "2.IH" True by auto
    moreover have "length (snd hr) \<le> length rest"
      using hr by (cases hr) (auto dest: parse_hunk_rest)
    ultimately show ?thesis by simp
  next
    case False
    then show ?thesis using "2.prems" by (auto split: if_splits)
  qed
qed simp

section \<open>Files\<close>

text \<open>
  One file of the loop of \<open>parseUnifiedPatch\<close>, on its first line and the lines after it, and
  the loop itself, with the number of hunks so far
  and the paths already seen (one per file pushed).
\<close>

definition parse_file :: "nat \<Rightarrow> jsstring list \<Rightarrow> jsstring \<Rightarrow> jsstring list \<Rightarrow>
    capability_error + parsed_file \<times> nat \<times> jsstring list" where
  "parse_file n_hunks seen control rest =
     (if \<not> starts_with control (js ''--- '') then Inl Capability_Input_Invalid
      else
        bind_res (parse_header_path control Old) (\<lambda>old_path.
        case rest of
          [] \<Rightarrow> Inl Capability_Input_Invalid
        | l2 # rest2 \<Rightarrow>
            if \<not> starts_with (control_text l2) (js ''+++ '') then Inl Capability_Input_Invalid
            else
              bind_res (parse_header_path (control_text l2) New) (\<lambda>new_path.
              bind_res (resolve_file_action old_path new_path) (\<lambda>pa.
              if fst pa \<in> set seen then Inl Capability_Input_Invalid
              else if max_patch_files < length seen + 1 then Inl Capability_Limit_Exceeded
              else
                bind_res (parse_hunks n_hunks rest2) (\<lambda>h.
                if fst h = [] then Inl Capability_Input_Invalid
                else Inr (\<lparr>pf_path = fst pa, pf_action = snd pa, pf_hunks = fst h\<rparr>, snd h))))))"

lemma parse_fileE:
  assumes "parse_file n seen control rest = Inr (f, n', ls')"
  obtains l2 rest2 old_path new_path act where
    "rest = l2 # rest2" "parse_header_path control Old = Inr old_path"
    "parse_header_path (control_text l2) New = Inr new_path"
    "resolve_file_action old_path new_path = Inr (pf_path f, act)"
    "pf_path f \<notin> set seen" "length seen < max_patch_files"
    "parse_hunks n rest2 = Inr (pf_hunks f, n', ls')" "pf_hunks f \<noteq> []"
  using assms unfolding parse_file_def
  by (auto simp: guard_eq_Inr not_less)

lemma parse_file_rest: "parse_file n seen c rest = Inr (f, n', ls') \<Longrightarrow> length ls' < length rest"
  by (elim parse_fileE) (auto dest: parse_hunks_rest)

function parse_files :: "nat \<Rightarrow> jsstring list \<Rightarrow> jsstring list \<Rightarrow>
    capability_error + parsed_file list" where
  "parse_files n_hunks seen [] = Inr []"
| "parse_files n_hunks seen (l # rest) =
     (if control_text l = [] then parse_files n_hunks seen rest
      else if starts_with (control_text l) (js ''diff --git '') then parse_files n_hunks seen rest
      else
        bind_res (parse_file n_hunks seen (control_text l) rest) (\<lambda>r.
        bind_res (parse_files (fst (snd r)) (pf_path (fst r) # seen) (snd (snd r))) (\<lambda>fs.
          Inr (fst r # fs))))"
  by pat_completeness auto
termination
  by (relation "measure (\<lambda>(_, _, ls). length ls)") (auto dest!: parse_file_rest)

definition unsupported_markers :: "jsstring list" where
  "unsupported_markers = map js [''GIT binary patch'', ''Binary files '', ''rename from '',
     ''rename to '', ''copy from '', ''copy to '']"

definition parse_unified_patch :: "jsstring \<Rightarrow> capability_error + parsed_file list" where
  "parse_unified_patch patch =
     (if list_ex (includes_str patch) unsupported_markers then Inl Capability_Input_Invalid
      else bind_res (parse_files 0 [] (split_lines patch)) (\<lambda>fs.
        if fs = [] then Inl Capability_Input_Invalid else Inr fs))"

section \<open>Application\<close>

text \<open>The inner loop: a hunk body against the source from the cursor, giving the output lines.\<close>

fun apply_body :: "patch_line list \<Rightarrow> jsstring list \<Rightarrow>
    capability_error + jsstring list \<times> jsstring list" where
  "apply_body [] src = Inr ([], src)"
| "apply_body (Add s # ls) src =
     bind_res (apply_body ls src) (\<lambda>(out, src'). Inr (s # out, src'))"
| "apply_body (Context s # ls) src = (case src of
     [] \<Rightarrow> Inl Patch_Precondition_Failed
   | t # ts \<Rightarrow> if t \<noteq> s then Inl Patch_Precondition_Failed
       else bind_res (apply_body ls ts) (\<lambda>(out, src'). Inr (s # out, src')))"
| "apply_body (Remove s # ls) src = (case src of
     [] \<Rightarrow> Inl Patch_Precondition_Failed
   | t # ts \<Rightarrow> if t \<noteq> s then Inl Patch_Precondition_Failed else apply_body ls ts)"

definition target_of :: "nat \<Rightarrow> nat \<Rightarrow> int" where
  "target_of start count = (if count = 0 then int start else int start - 1)"

text \<open>
  The outer loop: \<open>cursor\<close> lines of the source are consumed, \<open>src\<close> is what is left of it, and
  \<open>delta\<close> is the cumulative growth.
\<close>

fun apply_hunk_list :: "nat \<Rightarrow> int \<Rightarrow> jsstring list \<Rightarrow> hunk list \<Rightarrow> capability_error + jsstring list" where
  "apply_hunk_list cursor delta src [] = Inr src"
| "apply_hunk_list cursor delta src (h # hs) =
     (let old_target = target_of (old_start h) (old_count h);
          new_target = target_of (new_start h) (new_count h) in
      if new_target \<noteq> old_target + delta \<or> old_target < int cursor
         \<or> int (cursor + length src) < old_target
      then Inl Patch_Precondition_Failed
      else
        let skip = nat old_target - cursor in
        bind_res (apply_body (hunk_lines h) (drop skip src)) (\<lambda>r.
        bind_res (apply_hunk_list (cursor + length src - length (snd r))
            (delta + int (new_count h) - int (old_count h)) (snd r) hs) (\<lambda>out.
          Inr (take skip src @ fst r @ out))))"

definition apply_hunks :: "jsstring \<Rightarrow> hunk list \<Rightarrow> capability_error + jsstring" where
  "apply_hunks current hunks = map_sum id concat (apply_hunk_list 0 0 (split_lines current) hunks)"

section \<open>Preflight\<close>

record path_identity =
  pi_exists :: bool
  pi_is_file :: bool
  pi_hash_truncated :: bool
  pi_size :: "nat option"

record read_result =
  rd_contents :: jsstring
  rd_bytes :: nat
  rd_eof :: bool

text \<open>The workspace as \<open>patchFile\<close> sees it; \<open>None\<close> is a rejected promise.\<close>

record 'k patch_workspace =
  ws_path_identity :: "jsstring \<Rightarrow> 'k \<Rightarrow> path_identity option \<times> 'k"
  ws_read_file :: "jsstring \<Rightarrow> nat \<Rightarrow> 'k \<Rightarrow> read_result option \<times> 'k"

record commit_input =
  ci_path :: jsstring
  ci_action :: file_action
  ci_expected :: "jsstring option"
  ci_content :: "jsstring option"

record commit_result =
  cr_schema_version :: int
  cr_action :: file_action
  cr_bytes_written :: int
  cr_sha256 :: "jsstring option"

definition precondition :: "'k \<Rightarrow> (capability_error + 'a) \<times> 'k" where
  "precondition k = (Inl Patch_Precondition_Failed, k)"

text \<open>The current content and its digest, for a file that is updated or deleted.\<close>

definition read_current :: "'k patch_workspace \<Rightarrow> (jsstring \<Rightarrow> jsstring) \<Rightarrow> parsed_file \<Rightarrow> path_identity \<Rightarrow>
    'k \<Rightarrow> (capability_error + jsstring \<times> jsstring option) \<times> 'k" where
  "read_current ws sha256 pf ident k =
     (if pf_action pf = Create then
        (if pi_exists ident then precondition k else (Inr ([], None), k))
      else if \<not> pi_exists ident \<or> \<not> pi_is_file ident \<or> pi_hash_truncated ident
          \<or> (case pi_size ident of None \<Rightarrow> False | Some n \<Rightarrow> max_patch_bytes < n)
        then precondition k
      else (case ws_read_file ws (pf_path pf) max_patch_bytes k of
          (None, k') \<Rightarrow> precondition k'
        | (Some r, k') \<Rightarrow>
            if \<not> rd_eof r \<or> rd_bytes r \<noteq> byte_length (rd_contents r) then precondition k'
            else (Inr (rd_contents r, Some (sha256 (rd_contents r))), k')))"

text \<open>The plan of one file, from its current content.\<close>

definition plan_file :: "(jsstring \<Rightarrow> jsstring) \<Rightarrow> parsed_file \<Rightarrow> jsstring \<Rightarrow> jsstring option \<Rightarrow>
    capability_error + preflight_file" where
  "plan_file sha256 pf current expected =
     bind_res (apply_hunks current (pf_hunks pf)) (\<lambda>next_text.
     if pf_action pf = Delete \<and> next_text \<noteq> [] then Inl Patch_Precondition_Failed
     else
       let post = (if pf_action pf = Delete then None else Some next_text) in
       Inr \<lparr>pl_path = pf_path pf, pl_action = pf_action pf, pl_expected = expected,
         pl_post_image = post, pl_resulting = map_option sha256 post,
         pl_bytes = (case post of None \<Rightarrow> 0 | Some t \<Rightarrow> byte_length t)\<rparr>)"

definition preflight_one :: "'k patch_workspace \<Rightarrow> (jsstring \<Rightarrow> jsstring) \<Rightarrow> parsed_file \<Rightarrow> 'k \<Rightarrow>
    (capability_error + preflight_file) \<times> 'k" where
  "preflight_one ws sha256 pf k = (case ws_path_identity ws (pf_path pf) k of
     (None, k1) \<Rightarrow> precondition k1
   | (Some ident, k1) \<Rightarrow>
       (case read_current ws sha256 pf ident k1 of
          (Inl e, k2) \<Rightarrow> (Inl e, k2)
        | (Inr (current, expected), k2) \<Rightarrow> (plan_file sha256 pf current expected, k2)))"

fun preflight_loop :: "'k patch_workspace \<Rightarrow> (jsstring \<Rightarrow> jsstring) \<Rightarrow> parsed_file list \<Rightarrow> 'k \<Rightarrow>
    (capability_error + preflight_file list) \<times> 'k" where
  "preflight_loop ws sha256 [] k = (Inr [], k)"
| "preflight_loop ws sha256 (pf # pfs) k = (case preflight_one ws sha256 pf k of
     (Inl e, k1) \<Rightarrow> (Inl e, k1)
   | (Inr p, k1) \<Rightarrow> (case preflight_loop ws sha256 pfs k1 of
       (Inl e, k2) \<Rightarrow> (Inl e, k2)
     | (Inr ps, k2) \<Rightarrow> (Inr (p # ps), k2)))"

text \<open>\<open>compareBytes\<close>, which compares the UTF-16 units of the two paths.\<close>

definition path_le :: "preflight_file \<Rightarrow> preflight_file \<Rightarrow> bool" where
  "path_le a b = (pl_path a \<le> pl_path b)"

definition preflight_all :: "'k patch_workspace \<Rightarrow> (jsstring \<Rightarrow> jsstring) \<Rightarrow> parsed_file list \<Rightarrow> 'k \<Rightarrow>
    (capability_error + preflight_file list) \<times> 'k" where
  "preflight_all ws sha256 pfs k = (case preflight_loop ws sha256 pfs k of
     (Inl e, k') \<Rightarrow> (Inl e, k')
   | (Inr ps, k') \<Rightarrow> (Inr (sort_by path_le ps), k'))"

section \<open>Commit\<close>

definition commit_of :: "preflight_file \<Rightarrow> commit_input" where
  "commit_of p = \<lparr>ci_path = pl_path p, ci_action = pl_action p, ci_expected = pl_expected p,
     ci_content = pl_post_image p\<rparr>"

definition commit_matches :: "preflight_file \<Rightarrow> commit_result \<Rightarrow> bool" where
  "commit_matches p r = (cr_schema_version r = 1 \<and> cr_action r = pl_action p
     \<and> cr_bytes_written r = int (pl_bytes p) \<and> cr_sha256 r = pl_resulting p)"

fun commit_all :: "(commit_input \<Rightarrow> 'k \<Rightarrow> commit_result option \<times> 'k) \<Rightarrow> preflight_file list \<Rightarrow>
    jsstring list \<Rightarrow> 'k \<Rightarrow> (capability_error + jsstring list) \<times> 'k" where
  "commit_all commit [] committed k = (Inr committed, k)"
| "commit_all commit (p # ps) committed k = (case commit (commit_of p) k of
     (None, k') \<Rightarrow> (Inl (Patch_Commit_Incomplete committed (pl_path p)), k')
   | (Some r, k') \<Rightarrow>
       if commit_matches p r then commit_all commit ps (committed @ [pl_path p]) k'
       else (Inl (Patch_Commit_Incomplete committed (pl_path p)), k'))"

datatype patch_mode = Check | Apply

record patch_result =
  pr_mode :: patch_mode
  pr_files :: "(preflight_file \<times> bool) list"
  pr_committed_paths :: "jsstring list"

definition parse_mode :: "jsstring option \<Rightarrow> capability_error + patch_mode" where
  "parse_mode m = (case m of
     None \<Rightarrow> Inr Check
   | Some t \<Rightarrow> if t = js ''check'' then Inr Check else if t = js ''apply'' then Inr Apply
       else Inl Capability_Input_Invalid)"

definition check_patch_input ::
    "jsstring \<Rightarrow> jsstring \<Rightarrow> jsstring option \<Rightarrow> capability_error + patch_mode \<times> parsed_file list" where
  "check_patch_input workspace_id patch mode_in =
     (if workspace_id = [] \<or> patch = [] then Inl Capability_Input_Invalid
      else if max_patch_bytes < byte_length patch then Inl Capability_Limit_Exceeded
      else bind_res (parse_mode mode_in) (\<lambda>mode.
           bind_res (parse_unified_patch patch) (\<lambda>pfs. Inr (mode, pfs))))"

definition patch_file :: "'k patch_workspace \<Rightarrow> (commit_input \<Rightarrow> 'k \<Rightarrow> commit_result option \<times> 'k) \<Rightarrow>
    (jsstring \<Rightarrow> jsstring) \<Rightarrow> jsstring \<Rightarrow> jsstring \<Rightarrow> jsstring option \<Rightarrow> 'k \<Rightarrow>
    (capability_error + patch_result) \<times> 'k" where
  "patch_file ws commit sha256 workspace_id patch mode_in k =
     (case check_patch_input workspace_id patch mode_in of
        Inl e \<Rightarrow> (Inl e, k)
      | Inr (mode, pfs) \<Rightarrow>
          (case preflight_all ws sha256 pfs k of
             (Inl e, k1) \<Rightarrow> (Inl e, k1)
           | (Inr plans, k1) \<Rightarrow>
               if mode = Check then
                 (Inr \<lparr>pr_mode = Check, pr_files = map (\<lambda>p. (p, False)) plans,
                    pr_committed_paths = []\<rparr>, k1)
               else (case commit_all commit plans [] k1 of
                   (Inl e, k2) \<Rightarrow> (Inl e, k2)
                 | (Inr committed, k2) \<Rightarrow>
                     (Inr \<lparr>pr_mode = Apply, pr_files = map (\<lambda>p. (p, True)) plans,
                        pr_committed_paths = committed\<rparr>, k2))))"

section \<open>Applying and reversing\<close>

fun is_add :: "patch_line \<Rightarrow> bool" where
  "is_add (Add _) = True"
| "is_add _ = False"

fun is_remove :: "patch_line \<Rightarrow> bool" where
  "is_remove (Remove _) = True"
| "is_remove _ = False"

text \<open>The lines a hunk body expects, and those it leaves.\<close>

definition old_texts :: "patch_line list \<Rightarrow> jsstring list" where
  "old_texts ls = map line_text (filter (\<lambda>l. \<not> is_add l) ls)"

definition new_texts :: "patch_line list \<Rightarrow> jsstring list" where
  "new_texts ls = map line_text (filter (\<lambda>l. \<not> is_remove l) ls)"

fun reverse_line :: "patch_line \<Rightarrow> patch_line" where
  "reverse_line (Context s) = Context s"
| "reverse_line (Remove s) = Add s"
| "reverse_line (Add s) = Remove s"

definition reverse_hunk :: "hunk \<Rightarrow> hunk" where
  "reverse_hunk h = \<lparr>old_start = new_start h, old_count = new_count h, new_start = old_start h,
     new_count = old_count h, hunk_lines = map reverse_line (hunk_lines h)\<rparr>"

definition hunk_wf :: "hunk \<Rightarrow> bool" where
  "hunk_wf h = (length (old_texts (hunk_lines h)) = old_count h
     \<and> length (new_texts (hunk_lines h)) = new_count h)"

lemma old_texts_simps [simp]:
  "old_texts [] = []" "old_texts (Add s # ls) = old_texts ls"
  "old_texts (Context s # ls) = s # old_texts ls" "old_texts (Remove s # ls) = s # old_texts ls"
  by (simp_all add: old_texts_def)

lemma new_texts_simps [simp]:
  "new_texts [] = []" "new_texts (Add s # ls) = s # new_texts ls"
  "new_texts (Context s # ls) = s # new_texts ls" "new_texts (Remove s # ls) = new_texts ls"
  by (simp_all add: new_texts_def)

lemma old_texts_reverse [simp]: "old_texts (map reverse_line ls) = new_texts ls"
proof (induction ls)
  case (Cons l ls)
  then show ?case by (cases l) simp_all
qed simp

lemma new_texts_reverse [simp]: "new_texts (map reverse_line ls) = old_texts ls"
proof (induction ls)
  case (Cons l ls)
  then show ?case by (cases l) simp_all
qed simp

lemma apply_body_iff:
  "apply_body ls src = Inr (out, rest) \<longleftrightarrow> src = old_texts ls @ rest \<and> out = new_texts ls"
  by (induction ls src arbitrary: out rule: apply_body.induct)
    (auto simp: bind_res_eq_Inr split: list.splits if_splits)

text \<open>One turn of the outer loop, as an introduction and as an elimination.\<close>

lemma apply_hunk_list_step:
  assumes "target_of (new_start h) (new_count h) = target_of (old_start h) (old_count h) + delta"
    and "int cursor \<le> target_of (old_start h) (old_count h)"
    and "target_of (old_start h) (old_count h) \<le> int (cursor + length src)"
    and "skip = nat (target_of (old_start h) (old_count h)) - cursor"
    and "apply_body (hunk_lines h) (drop skip src) = Inr (body_out, rest)"
    and "apply_hunk_list (cursor + length src - length rest)
        (delta + int (new_count h) - int (old_count h)) rest hs = Inr out"
  shows "apply_hunk_list cursor delta src (h # hs) = Inr (take skip src @ body_out @ out)"
  using assms by (simp add: Let_def)

lemma apply_hunk_list_stepE:
  assumes "apply_hunk_list cursor delta src (h # hs) = Inr out"
    and "skip = nat (target_of (old_start h) (old_count h)) - cursor"
  obtains rest out' where
    "target_of (new_start h) (new_count h) = target_of (old_start h) (old_count h) + delta"
    "int cursor \<le> target_of (old_start h) (old_count h)"
    "target_of (old_start h) (old_count h) \<le> int (cursor + length src)"
    "src = take skip src @ old_texts (hunk_lines h) @ rest"
    "apply_hunk_list (cursor + length src - length rest)
        (delta + int (new_count h) - int (old_count h)) rest hs = Inr out'"
    "out = take skip src @ new_texts (hunk_lines h) @ out'"
proof -
  from assms obtain rest out' where
    *: "target_of (new_start h) (new_count h) = target_of (old_start h) (old_count h) + delta"
    "int cursor \<le> target_of (old_start h) (old_count h)"
    "target_of (old_start h) (old_count h) \<le> int (cursor + length src)"
    "drop skip src = old_texts (hunk_lines h) @ rest"
    "apply_hunk_list (cursor + length src - length rest)
        (delta + int (new_count h) - int (old_count h)) rest hs = Inr out'"
    "out = take skip src @ new_texts (hunk_lines h) @ out'"
    by (auto simp: Let_def bind_res_eq_Inr apply_body_iff split: if_splits)
  moreover have "src = take skip src @ old_texts (hunk_lines h) @ rest"
    using *(4) by (metis append_take_drop_id)
  ultimately show thesis using that by blast
qed

lemma apply_hunk_list_reverse:
  assumes "apply_hunk_list cursor delta src hs = Inr out" and "list_all hunk_wf hs"
    and "0 \<le> int cursor + delta"
  shows "apply_hunk_list (nat (int cursor + delta)) (- delta) out (map reverse_hunk hs) = Inr src"
  using assms
proof (induction hs arbitrary: cursor delta src out)
  case Nil
  then show ?case by simp
next
  case (Cons h hs)
  define skip where "skip = nat (target_of (old_start h) (old_count h)) - cursor"
  from Cons.prems(1) skip_def obtain rest out' where
    pos: "target_of (new_start h) (new_count h) = target_of (old_start h) (old_count h) + delta"
      "int cursor \<le> target_of (old_start h) (old_count h)"
      "target_of (old_start h) (old_count h) \<le> int (cursor + length src)"
    and src: "src = take skip src @ old_texts (hunk_lines h) @ rest"
    and more: "apply_hunk_list (cursor + length src - length rest)
        (delta + int (new_count h) - int (old_count h)) rest hs = Inr out'"
    and out: "out = take skip src @ new_texts (hunk_lines h) @ out'"
    by (rule apply_hunk_list_stepE)
  have wf: "length (old_texts (hunk_lines h)) = old_count h"
      "length (new_texts (hunk_lines h)) = new_count h"
    using Cons.prems(2) by (simp_all add: hunk_wf_def)
  have skip: "skip \<le> length src" "int skip = target_of (old_start h) (old_count h) - int cursor"
    using pos by (simp_all add: skip_def)
  have "length src = skip + old_count h + length rest"
    using arg_cong [OF src, of length] wf skip by simp
  then have c2: "cursor + length src - length rest = cursor + skip + old_count h" by simp
  define c' where "c' = nat (int cursor + delta)"
  have c': "int c' = int cursor + delta" using Cons.prems(3) by (simp add: c'_def)
  have "apply_hunk_list c' (- delta) out (reverse_hunk h # map reverse_hunk hs)
      = Inr (take skip out @ old_texts (hunk_lines h) @ rest)"
  proof (rule apply_hunk_list_step)
    show "apply_body (hunk_lines (reverse_hunk h)) (drop skip out) = Inr (old_texts (hunk_lines h), out')"
      using skip(1) by (simp add: apply_body_iff reverse_hunk_def out)
    have e1: "nat (int (cursor + skip + old_count h) + (delta + int (new_count h) - int (old_count h)))
        = c' + length out - length out'"
      using skip(1) wf c' by (simp add: out)
    have e2: "- (delta + int (new_count h) - int (old_count h))
        = - delta + int (new_count (reverse_hunk h)) - int (old_count (reverse_hunk h))"
      by (simp add: reverse_hunk_def)
    have "apply_hunk_list
        (nat (int (cursor + skip + old_count h) + (delta + int (new_count h) - int (old_count h))))
        (- (delta + int (new_count h) - int (old_count h))) out' (map reverse_hunk hs) = Inr rest"
      by (rule Cons.IH [OF more [unfolded c2]]) (use Cons.prems(2,3) in simp_all)
    then show "apply_hunk_list (c' + length out - length out')
        (- delta + int (new_count (reverse_hunk h)) - int (old_count (reverse_hunk h))) out'
        (map reverse_hunk hs) = Inr rest"
      unfolding e1 e2 .
  qed (use pos skip c' in \<open>simp_all add: reverse_hunk_def out\<close>)
  moreover have "take skip out = take skip src" using skip(1) by (simp add: out)
  ultimately show ?case using src by (simp add: c'_def)
qed

section \<open>Lines and text\<close>

text \<open>A line with its feed, and text made of such lines.\<close>

definition full_line :: "jsstring \<Rightarrow> bool" where
  "full_line l = (l \<noteq> [] \<and> last l = 10 \<and> 10 \<notin> set (butlast l))"

definition full_text :: "jsstring \<Rightarrow> bool" where
  "full_text s = (s = [] \<or> last s = 10)"

lemma concat_split_lines [simp]: "concat (split_lines s) = s"
  by (induction s) (auto split: list.splits)

lemma split_lines_eq_Nil [simp]: "split_lines s = [] \<longleftrightarrow> s = []"
  by (cases s) (auto split: list.splits)

lemma split_lines_full_line: "10 \<notin> set w \<Longrightarrow> split_lines (w @ 10 # s) = (w @ [10]) # split_lines s"
  by (induction w) auto

lemma full_lineE: "full_line l \<Longrightarrow> \<exists>w. l = w @ [10] \<and> 10 \<notin> set w"
  unfolding full_line_def by (metis append_butlast_last_id)

lemma split_lines_concat: "list_all full_line ls \<Longrightarrow> split_lines (concat ls) = ls"
proof (induction ls)
  case (Cons l ls)
  then obtain w where "l = w @ [10]" "10 \<notin> set w" using full_lineE by auto
  then show ?case using Cons by (simp add: split_lines_full_line)
qed simp

lemma full_text_split: "full_text s \<Longrightarrow> list_all full_line (split_lines s)"
proof (induction s)
  case (Cons u s)
  show ?case
  proof (cases "split_lines s")
    case Nil
    then show ?thesis using Cons by (simp add: full_text_def full_line_def)
  next
    case (Cons w ws)
    then have "s \<noteq> []" by auto
    with Cons.prems have "full_text s" by (simp add: full_text_def split: if_splits)
    with Cons.IH have ls: "list_all full_line (w # ws)" using Cons by simp
    show ?thesis
    proof (cases "u = 10")
      case True
      then show ?thesis using ls Cons by (simp add: full_line_def [of "[10]"])
    next
      case False
      then show ?thesis
        using ls Cons by (auto simp: full_line_def [of w] full_line_def [of "u # w"])
    qed
  qed
qed simp

definition hunk_full :: "hunk \<Rightarrow> bool" where
  "hunk_full h = list_all (\<lambda>l. full_line (line_text l)) (hunk_lines h)"

lemma apply_hunk_list_full:
  assumes "apply_hunk_list cursor delta src hs = Inr out"
    and "list_all full_line src" and "list_all hunk_full hs"
  shows "list_all full_line out"
  using assms
proof (induction hs arbitrary: cursor delta src out)
  case (Cons h hs)
  define skip where "skip = nat (target_of (old_start h) (old_count h)) - cursor"
  from Cons.prems(1) skip_def obtain rest out' where
    src: "src = take skip src @ old_texts (hunk_lines h) @ rest"
    and more: "apply_hunk_list (cursor + length src - length rest)
        (delta + int (new_count h) - int (old_count h)) rest hs = Inr out'"
    and out: "out = take skip src @ new_texts (hunk_lines h) @ out'"
    by (rule apply_hunk_list_stepE)
  from src Cons.prems(2) have "list_all full_line (take skip src)" "list_all full_line rest"
    by (metis list_all_append)+
  moreover have "list_all full_line (new_texts (hunk_lines h))"
    using Cons.prems(3) by (auto simp: hunk_full_def new_texts_def list_all_iff)
  ultimately show ?case using Cons.IH [OF more] Cons.prems(3) by (simp add: out)
qed simp

section \<open>What the parser accepts\<close>

lemma parse_body_line_cost:
  "parse_body_line raw = Inr l \<Longrightarrow> \<exists>u. raw = u # line_text l \<and> u \<noteq> 10"
  by (auto simp: parse_body_line_def split: list.splits if_splits)

lemma texts_Cons_length:
  "length (old_texts (l # ls)) = old_cost l + length (old_texts ls)"
  "length (new_texts (l # ls)) = new_cost l + length (new_texts ls)"
  by (cases l; simp)+

lemma full_line_tail: "full_line (u # s) \<Longrightarrow> u \<noteq> 10 \<Longrightarrow> full_line s"
  by (auto simp: full_line_def split: if_splits)

lemma parse_body_wf:
  assumes "parse_body oc nc a b ls = Inr (body, ls')" and "a \<le> oc" and "b \<le> nc"
  shows "length (old_texts body) = oc - a \<and> length (new_texts body) = nc - b \<and>
    (list_all full_line ls \<longrightarrow> list_all (\<lambda>l. full_line (line_text l)) body \<and> list_all full_line ls')"
  using assms
proof (induction ls arbitrary: a b body)
  case Nil
  then show ?case by (subst (asm) parse_body.simps) (auto split: if_splits)
next
  case (Cons raw rest)
  show ?case
  proof (cases "a < oc \<or> b < nc")
    case False
    then show ?thesis using Cons.prems by (subst (asm) parse_body.simps) auto
  next
    case True
    with Cons.prems(1) obtain l body' where l: "parse_body_line raw = Inr l"
      and bound: "a + old_cost l \<le> oc" "b + new_cost l \<le> nc"
      and body': "parse_body oc nc (a + old_cost l) (b + new_cost l) rest = Inr (body', ls')"
      and body: "body = l # body'"
      by (subst (asm) parse_body.simps) (auto simp: bind_res_eq_Inr Let_def split: if_splits)
    obtain u where "raw = u # line_text l" "u \<noteq> 10" using parse_body_line_cost [OF l] by blast
    with Cons.IH [OF body' bound] show ?thesis
      using bound full_line_tail by (auto simp: body texts_Cons_length)
  qed
qed

lemma parse_hunk_wf:
  "parse_hunk h ls = Inr (hk, ls') \<Longrightarrow>
     hunk_wf hk \<and> (list_all full_line ls \<longrightarrow> hunk_full hk \<and> list_all full_line ls')"
  using parse_body_wf
  by (fastforce simp: parse_hunk_def bind_res_eq_Inr hunk_wf_def hunk_full_def
      split: option.splits prod.splits if_splits)

lemma parse_hunks_wf:
  assumes "parse_hunks n ls = Inr (hs, n', ls')"
  shows "list_all hunk_wf hs \<and> n' = n + length hs \<and> (n \<le> max_patch_hunks \<longrightarrow> n' \<le> max_patch_hunks) \<and>
    (list_all full_line ls \<longrightarrow> list_all hunk_full hs \<and> list_all full_line ls')"
  using assms
proof (induction n ls arbitrary: hs n' ls' rule: parse_hunks.induct)
  case (2 n_hunks l rest)
  show ?case
  proof (cases "starts_with (control_text l) (js ''@@'')")
    case True
    with "2.prems" have lim: "\<not> max_patch_hunks < n_hunks + 1" by (auto split: if_splits)
    with "2.prems" True obtain hr hs' where hr: "parse_hunk l rest = Inr hr"
      and hs': "parse_hunks (n_hunks + 1) (snd hr) = Inr (hs', n', ls')" and hs: "hs = fst hr # hs'"
      by (auto simp: bind_res_eq_Inr)
    have "parse_hunk l rest = Inr (fst hr, snd hr)" using hr by simp
    from parse_hunk_wf [OF this] "2.IH" [OF _ lim hr hs'] True lim show ?thesis
      by (auto simp: hs)
  next
    case False
    then show ?thesis using "2.prems" by simp
  qed
qed simp

lemma validated_safe: "validate_patch_path p = Inr () \<Longrightarrow> safe_path p"
  by (rule split_safe) (auto simp: validate_patch_path_def list_ex_iff js_def)

definition file_wf :: "parsed_file \<Rightarrow> bool" where
  "file_wf f = (safe_path (pf_path f) \<and> pf_hunks f \<noteq> [] \<and> list_all hunk_wf (pf_hunks f))"

lemma parse_header_safe: "parse_header_path l sd = Inr (Some p) \<Longrightarrow> safe_path p"
  by (auto simp: parse_header_path_def Let_def bind_res_eq_Inr validated_safe split: if_splits)

lemma resolve_path:
  "resolve_file_action a b = Inr (p, act) \<Longrightarrow> a = Some p \<or> b = Some p"
  by (auto simp: resolve_file_action_def split: option.splits if_splits)

lemma parse_files_wf:
  assumes "parse_files n seen ls = Inr fs" and "n \<le> max_patch_hunks" and "length seen \<le> max_patch_files"
  shows "list_all file_wf fs \<and> distinct (map pf_path fs) \<and> set (map pf_path fs) \<inter> set seen = {} \<and>
    length seen + length fs \<le> max_patch_files \<and>
    n + sum_list (map (\<lambda>f. length (pf_hunks f)) fs) \<le> max_patch_hunks \<and>
    (list_all full_line ls \<longrightarrow> list_all (\<lambda>f. list_all hunk_full (pf_hunks f)) fs)"
  using assms
proof (induction n seen ls arbitrary: fs rule: parse_files.induct)
  case (2 n seen l rest)
  let ?c = "control_text l"
  show ?case
  proof (cases "?c = [] \<or> starts_with ?c (js ''diff --git '')")
    case True
    with "2.prems"(1) have more: "parse_files n seen rest = Inr fs"
      by (cases "?c = []") simp_all
    show ?thesis
    proof (cases "?c = []")
      case True
      then show ?thesis using "2.IH"(1) [OF _ more "2.prems"(2,3)] by simp
    next
      case False
      with \<open>?c = [] \<or> _\<close> show ?thesis using "2.IH"(2) [OF _ _ more "2.prems"(2,3)] by simp
    qed
  next
    case False
    with "2.prems"(1) obtain r fs' where r: "parse_file n seen ?c rest = Inr r"
      and more: "parse_files (fst (snd r)) (pf_path (fst r) # seen) (snd (snd r)) = Inr fs'"
      and fs: "fs = fst r # fs'"
      by (auto simp: bind_res_eq_Inr)
    obtain f n' ls' where r_eq: "r = (f, n', ls')" by (metis prod.exhaust)
    from r [unfolded r_eq] obtain l2 rest2 old_path new_path act where
      rest: "rest = l2 # rest2" and old: "parse_header_path ?c Old = Inr old_path"
      and new: "parse_header_path (control_text l2) New = Inr new_path"
      and act: "resolve_file_action old_path new_path = Inr (pf_path f, act)"
      and fresh: "pf_path f \<notin> set seen" "length seen < max_patch_files"
      and h: "parse_hunks n rest2 = Inr (pf_hunks f, n', ls')" "pf_hunks f \<noteq> []"
      by (rule parse_fileE)
    note hw = parse_hunks_wf [OF h(1)]
    have "safe_path (pf_path f)"
      using resolve_path [OF act] old new parse_header_safe by auto
    moreover have "list_all file_wf fs' \<and> distinct (map pf_path fs') \<and>
        set (map pf_path fs') \<inter> set (pf_path f # seen) = {} \<and>
        length (pf_path f # seen) + length fs' \<le> max_patch_files \<and>
        n' + sum_list (map (\<lambda>f. length (pf_hunks f)) fs') \<le> max_patch_hunks \<and>
        (list_all full_line ls' \<longrightarrow> list_all (\<lambda>f. list_all hunk_full (pf_hunks f)) fs')"
      using "2.IH"(3) [OF _ _ r more] False hw "2.prems"(2) fresh by (simp add: r_eq)
    ultimately show ?thesis using hw h(2) fresh by (auto simp: fs r_eq file_wf_def [of f] rest)
  qed
qed simp

lemma parse_patch_wf:
  assumes "parse_unified_patch patch = Inr fs"
  shows "fs \<noteq> []" and "list_all file_wf fs" and "distinct (map pf_path fs)"
    and "length fs \<le> max_patch_files"
    and "sum_list (map (\<lambda>f. length (pf_hunks f)) fs) \<le> max_patch_hunks"
    and "full_text patch \<Longrightarrow> list_all (\<lambda>f. list_all hunk_full (pf_hunks f)) fs"
proof -
  from assms have "parse_files 0 [] (split_lines patch) = Inr fs" and ne: "fs \<noteq> []"
    by (auto simp: parse_unified_patch_def bind_res_eq_Inr split: if_splits)
  from parse_files_wf [OF this(1)] ne show "fs \<noteq> []" and "list_all file_wf fs"
    and "distinct (map pf_path fs)" and "length fs \<le> max_patch_files"
    and "sum_list (map (\<lambda>f. length (pf_hunks f)) fs) \<le> max_patch_hunks"
    and "full_text patch \<Longrightarrow> list_all (\<lambda>f. list_all hunk_full (pf_hunks f)) fs"
    using full_text_split [of patch] by auto
qed

section \<open>What is committed\<close>

text \<open>The same workspace with a log of the commit calls.\<close>

definition log_workspace :: "'k patch_workspace \<Rightarrow> ('k \<times> commit_input list) patch_workspace" where
  "log_workspace ws =
     \<lparr>ws_path_identity = (\<lambda>p (k, lg). let r = ws_path_identity ws p k in (fst r, (snd r, lg))),
      ws_read_file = (\<lambda>p n (k, lg). let r = ws_read_file ws p n k in (fst r, (snd r, lg)))\<rparr>"

definition log_commit :: "(commit_input \<Rightarrow> 'k \<Rightarrow> commit_result option \<times> 'k) \<Rightarrow>
    commit_input \<Rightarrow> 'k \<times> commit_input list \<Rightarrow> commit_result option \<times> ('k \<times> commit_input list)" where
  "log_commit commit c kl = (let r = commit c (fst kl) in (fst r, (snd r, snd kl @ [c])))"

lemma preflight_one_log: "snd (snd (preflight_one (log_workspace ws) sha pf kl)) = snd kl"
  by (cases kl) (auto simp: preflight_one_def log_workspace_def read_current_def precondition_def Let_def
      split: option.splits prod.splits sum.splits)

lemma preflight_loop_log: "snd (snd (preflight_loop (log_workspace ws) sha pfs kl)) = snd kl"
proof (induction pfs arbitrary: kl)
  case (Cons pf pfs)
  have "snd k1 = snd kl" if "preflight_one (log_workspace ws) sha pf kl = (r, k1)" for r k1
    using preflight_one_log [of ws sha pf kl] that by simp
  moreover have "snd k2 = snd k1" if "preflight_loop (log_workspace ws) sha pfs k1 = (r, k2)" for r k1 k2
    using Cons.IH [of k1] that by simp
  ultimately show ?case by (fastforce split: prod.splits sum.splits)
qed simp

lemma preflight_all_log:
  "preflight_all (log_workspace ws) sha pfs (k, lg) = (r, kl') \<Longrightarrow> snd kl' = lg"
  using preflight_loop_log [of ws sha pfs "(k, lg)"]
  by (auto simp: preflight_all_def split: prod.splits sum.splits)

lemma preflight_one_path: "preflight_one ws sha pf k = (Inr p, k') \<Longrightarrow> pl_path p = pf_path pf"
  by (auto simp: preflight_one_def precondition_def plan_file_def guard_eq_Inr Let_def
      split: option.splits prod.splits sum.splits if_splits)

lemma preflight_loop_paths:
  "preflight_loop ws sha pfs k = (Inr ps, k') \<Longrightarrow> map pl_path ps = map pf_path pfs"
  by (induction pfs arbitrary: k ps) (auto dest: preflight_one_path split: prod.splits sum.splits)

lemma preflight_loop_error:
  "preflight_loop ws sha pfs k = (Inl e, k') \<Longrightarrow> e = Patch_Precondition_Failed"
proof (induction pfs arbitrary: k)
  case (Cons pf pfs)
  have body: "apply_body ls src = Inl e' \<Longrightarrow> e' = Patch_Precondition_Failed" for ls src e'
    by (induction ls src rule: apply_body.induct) (auto simp: bind_res_eq_Inl split: list.splits if_splits)
  have "apply_hunk_list c d src hs = Inl e' \<Longrightarrow> e' = Patch_Precondition_Failed" for c d src hs e'
    by (induction hs arbitrary: c d src) (auto simp: bind_res_eq_Inl Let_def dest: body split: if_splits)
  then have "apply_hunks t hs = Inl e' \<Longrightarrow> e' = Patch_Precondition_Failed" for t hs e'
    by (auto simp: apply_hunks_def map_sum_def split: sum.splits)
  then have "preflight_one ws sha pf k = (Inl e', k1) \<Longrightarrow> e' = Patch_Precondition_Failed" for e' k1
    by (auto simp: preflight_one_def read_current_def precondition_def plan_file_def bind_res_eq_Inl Let_def
        split: option.splits prod.splits sum.splits if_splits)
  then show ?case using Cons by (auto split: prod.splits sum.splits)
qed simp

text \<open>The commit loop: a prefix of the plans in order, ended by the first failure.\<close>

lemma commit_all_log:
  "commit_all (log_commit commit) ps committed (k, lg) = (r, (k', lg')) \<Longrightarrow>
    (case r of
       Inr c \<Rightarrow> c = committed @ map pl_path ps \<and> lg' = lg @ map commit_of ps
     | Inl e \<Rightarrow> \<exists>n < length ps. e = Patch_Commit_Incomplete (committed @ map pl_path (take n ps)) (pl_path (ps ! n))
         \<and> lg' = lg @ map commit_of (take (Suc n) ps))"
proof (induction ps arbitrary: committed k lg)
  case (Cons p ps)
  obtain res k1 where c: "commit (commit_of p) k = (res, k1)" by (rule prod.exhaust)
  then have log: "log_commit commit (commit_of p) (k, lg) = (res, (k1, lg @ [commit_of p]))"
    by (simp add: log_commit_def Let_def)
  show ?case
  proof (cases "\<exists>cr. res = Some cr \<and> commit_matches p cr")
    case True
    then have "commit_all (log_commit commit) ps (committed @ [pl_path p]) (k1, lg @ [commit_of p]) = (r, (k', lg'))"
      using Cons.prems by (auto simp: log)
    from Cons.IH [OF this] show ?thesis
      by (cases r) (auto intro: exI [of _ "Suc _"])
  next
    case False
    then have "r = Inl (Patch_Commit_Incomplete committed (pl_path p)) \<and> lg' = lg @ [commit_of p]"
      using Cons.prems by (auto simp: log split: option.splits if_splits)
    then show ?thesis by (auto intro: exI [of _ 0])
  qed
qed auto

lemma preflight_all_sorted:
  assumes "preflight_all ws sha pfs k = (Inr plans, k')" and "distinct (map pf_path pfs)"
  shows "sorted_wrt (<) (map pl_path plans)"
proof -
  from assms(1) obtain ps where ps: "preflight_loop ws sha pfs k = (Inr ps, k')"
    and plans: "plans = sort_by path_le ps"
    by (auto simp: preflight_all_def split: prod.splits sum.splits)
  have "distinct (map pl_path plans)"
    using assms(2) preflight_loop_paths [OF ps] by (simp add: plans distinct_map_sort_by)
  moreover have "sorted_wrt path_le plans"
    unfolding plans by (rule sorted_sort_by) (auto simp: path_le_def)
  then have "sorted_wrt (\<lambda>a b. pl_path a \<le> pl_path b) plans"
    by (rule sorted_wrt_mono_rel [rotated]) (simp add: path_le_def)
  then have "sorted (map pl_path plans)" by (simp add: sorted_wrt_map)
  ultimately show ?thesis by (simp add: strict_sorted_iff)
qed

lemma sorted_wrt_take: "sorted_wrt P xs \<Longrightarrow> sorted_wrt P (take n xs)"
  by (metis append_take_drop_id sorted_wrt_append)

lemma map_commit_path [simp]: "map ci_path (map commit_of ps) = map pl_path ps"
  by (simp add: commit_of_def)

text \<open>Parsing never reports an incomplete commit.\<close>

definition parse_error :: "capability_error \<Rightarrow> bool" where
  "parse_error e = (e = Capability_Input_Invalid \<or> e = Capability_Limit_Exceeded)"

lemma parse_error_simps [simp]:
  "parse_error Capability_Input_Invalid" "parse_error Capability_Limit_Exceeded"
  "\<not> parse_error (Patch_Commit_Incomplete a b)"
  by (simp_all add: parse_error_def)

abbreviation parse_safe :: "capability_error + 'a \<Rightarrow> bool" where
  "parse_safe \<equiv> throws_only parse_error"

lemma parse_body_error: "parse_safe (parse_body oc nc a b ls)"
proof (induction ls arbitrary: a b)
  case Nil
  show ?case by (subst parse_body.simps) (simp add: throws_intros)
next
  case (Cons raw rest)
  have "parse_safe (parse_body_line raw)"
    unfolding parse_body_line_def by (intro throws_intros) simp_all
  with Cons show ?case by (subst parse_body.simps) (auto simp: Let_def intro!: throws_intros)
qed

lemma parse_hunk_error: "parse_safe (parse_hunk h ls)"
  unfolding parse_hunk_def by (intro throws_intros parse_body_error) simp_all

lemma parse_hunks_error: "parse_safe (parse_hunks n ls)"
proof (induction n ls rule: parse_hunks.induct)
  case (2 n l rest)
  then show ?case by (auto intro!: throws_intros parse_hunk_error)
qed (simp add: throws_intros)

lemma parse_header_error: "parse_safe (parse_header_path l sd)"
  unfolding parse_header_path_def validate_patch_path_def by (intro throws_intros) simp_all

lemma resolve_error: "parse_safe (resolve_file_action a b)"
  unfolding resolve_file_action_def by (intro throws_intros) simp_all

lemma parse_file_error: "parse_safe (parse_file n seen c ls)"
  unfolding parse_file_def
  by (intro throws_intros parse_header_error resolve_error parse_hunks_error) simp_all

lemma parse_files_error: "parse_safe (parse_files n seen ls)"
proof (induction n seen ls rule: parse_files.induct)
  case (2 n seen l rest)
  then show ?case by (auto intro!: throws_intros parse_file_error)
qed (simp add: throws_intros)

lemma check_input_error: "parse_safe (check_patch_input w patch mode)"
  unfolding check_patch_input_def parse_mode_def parse_unified_patch_def
  by (intro throws_intros parse_files_error) simp_all

subsection \<open>A sample patch\<close>

definition sample_patch :: jsstring where
  "sample_patch = js ''--- a/f'' @ [10] @ js ''+++ b/f'' @ [10] @ js ''@@ -1 +1,2 @@'' @ [10]
     @ js ''-x'' @ [10] @ js ''+y'' @ [10] @ js ''+z'' @ [10]"

definition sample_hunk :: hunk where
  "sample_hunk = \<lparr>old_start = 1, old_count = 1, new_start = 1, new_count = 2,
     hunk_lines = [Remove (js ''x'' @ [10]), Add (js ''y'' @ [10]), Add (js ''z'' @ [10])]\<rparr>"

lemma sample_parse: "parse_unified_patch sample_patch
    = Inr [\<lparr>pf_path = js ''f'', pf_action = Update, pf_hunks = [sample_hunk]\<rparr>]"
  by code_simp

lemma sample_apply: "apply_hunks (js ''x'' @ [10]) [sample_hunk] = Inr (js ''y'' @ [10] @ js ''z'' @ [10])"
  by code_simp

section \<open>Properties\<close>

text \<open>
  C29. A patch can be undone, if the text of the patch and the file both consist of whole lines,
  that is, are empty or end with a newline: when a parsed file's hunks apply to the file, the hunks
  with additions and removals (and the two ranges) exchanged apply to the result and give the
  original text back. A last line without a newline can be glued to the line a hunk adds after it,
  so nothing is claimed of such files.
\<close>

theorem apply_hunks_reversible:
  assumes "parse_unified_patch patch = Inr fs" and "f \<in> set fs"
    and "full_text patch" and "full_text current"
    and "apply_hunks current (pf_hunks f) = Inr patched"
  shows "apply_hunks patched (map reverse_hunk (pf_hunks f)) = Inr current"
proof -
  note wf = parse_patch_wf [OF assms(1)]
  have hs: "list_all hunk_wf (pf_hunks f)" "list_all hunk_full (pf_hunks f)"
    using wf(2) wf(6) [OF assms(3)] assms(2) by (auto simp: list_all_iff file_wf_def)
  from assms(5) obtain out where out: "apply_hunk_list 0 0 (split_lines current) (pf_hunks f) = Inr out"
    and patched: "patched = concat out"
    by (auto simp: apply_hunks_def map_sum_def split: sum.splits)
  have "split_lines patched = out"
    unfolding patched
    by (rule split_lines_concat) (rule apply_hunk_list_full [OF out full_text_split [OF assms(4)] hs(2)])
  then show ?thesis
    using apply_hunk_list_reverse [OF out hs(1)] by (simp add: apply_hunks_def)
qed

theorem apply_hunks_reversible_witness:
  "apply_hunks (js ''y'' @ [10] @ js ''z'' @ [10]) [reverse_hunk sample_hunk] = Inr (js ''x'' @ [10])"
  using apply_hunks_reversible [OF sample_parse, of _ "js ''x'' @ [10]" "js ''y'' @ [10] @ js ''z'' @ [10]"]
    sample_apply
  by (simp add: full_text_def sample_patch_def)

text \<open>
  C40. Whatever text is accepted as a patch is well-formed: between 1 and 64 files with distinct
  paths, at most 256 hunks in all, no file without a hunk, and in every hunk as many old and new
  lines as its header declares. Each path is a list of names joined by slashes, in which no name
  is empty, "." or ".." or contains a NUL, so that it never leaves the workspace as text.
\<close>

theorem parse_unified_patch_wf:
  assumes "parse_unified_patch patch = Inr fs"
  shows "fs \<noteq> [] \<and> length fs \<le> 64 \<and> distinct (map pf_path fs) \<and>
    sum_list (map (\<lambda>f. length (pf_hunks f)) fs) \<le> 256 \<and>
    list_all (\<lambda>f. safe_path (pf_path f) \<and> pf_hunks f \<noteq> [] \<and>
      list_all (\<lambda>h. length (filter (\<lambda>l. \<not> is_add l) (hunk_lines h)) = old_count h \<and>
        length (filter (\<lambda>l. \<not> is_remove l) (hunk_lines h)) = new_count h) (pf_hunks f)) fs"
  using parse_patch_wf(1-5) [OF assms]
  by (auto simp: list_all_iff max_patch_files_def max_patch_hunks_def file_wf_def hunk_wf_def
      old_texts_def new_texts_def)

theorem parse_unified_patch_wf_witness:
  "safe_path (js ''f'') \<and>
   length (filter (\<lambda>l. \<not> is_add l) (hunk_lines sample_hunk)) = old_count sample_hunk \<and>
   length (filter (\<lambda>l. \<not> is_remove l) (hunk_lines sample_hunk)) = new_count sample_hunk"
  using parse_unified_patch_wf [OF sample_parse] by simp


end
