(* ===== verification/Base64.thy ===== *)
theory Base64
  imports Js_String
begin

text \<open>
  Base64 as \<open>Buffer.from(text, "base64")\<close> and \<open>buffer.toString("base64")\<close> compute it on the
  texts the sources admit, and the canonical decoder built from them
  (\<open>decodeCanonicalBase64\<close> of \<open>packages/core/src/workspace-manager.ts\<close>).
\<close>

definition b64_char :: "nat \<Rightarrow> nat" where
  "b64_char n = (if n < 26 then 65 + n else if n < 52 then 71 + n else if n < 62 then n - 4
     else if n = 62 then 43 else 47)"

definition b64_value :: "nat \<Rightarrow> nat" where
  "b64_value u = (if is_upper u then u - 65 else if is_lower u then u - 71
     else if is_digit u then u + 4 else if u = 43 then 62 else 63)"

fun base64_encode :: "bytes \<Rightarrow> jsstring" where
  "base64_encode [] = []"
| "base64_encode [a] = [b64_char (a div 4), b64_char (a mod 4 * 16), 61, 61]"
| "base64_encode [a, b] =
     [b64_char (a div 4), b64_char (a mod 4 * 16 + b div 16), b64_char (b mod 16 * 4), 61]"
| "base64_encode (a # b # c # bs) =
     b64_char (a div 4) # b64_char (a mod 4 * 16 + b div 16) #
     b64_char (b mod 16 * 4 + c div 64) # b64_char (c mod 64) # base64_encode bs"

text \<open>
  The test \<open>/^(?:[A-Za-z0-9+/]{4})*(?:[A-Za-z0-9+/]{2}==|[A-Za-z0-9+/]{3}=)?$/\<close> (\<open>None\<close> when it
  fails) and \<open>Buffer.from\<close> on what it admits.
\<close>

fun base64_decode :: "jsstring \<Rightarrow> bytes option" where
  "base64_decode [] = Some []"
| "base64_decode (p # q # r # t # s) =
     (if is_base64 p \<and> is_base64 q \<and> r = 61 \<and> t = 61 \<and> s = [] then
        Some [b64_value p * 4 + b64_value q div 16]
      else if is_base64 p \<and> is_base64 q \<and> is_base64 r \<and> t = 61 \<and> s = [] then
        Some [b64_value p * 4 + b64_value q div 16, b64_value q mod 16 * 16 + b64_value r div 4]
      else if is_base64 p \<and> is_base64 q \<and> is_base64 r \<and> is_base64 t then
        map_option (\<lambda>bs. (b64_value p * 4 + b64_value q div 16) #
            (b64_value q mod 16 * 16 + b64_value r div 4) #
            (b64_value r mod 4 * 64 + b64_value t) # bs) (base64_decode s)
      else None)"
| "base64_decode _ = None"

definition decode_canonical_base64 :: "jsstring \<Rightarrow> bytes option" where
  "decode_canonical_base64 s = (case base64_decode s of
     None \<Rightarrow> None
   | Some bs \<Rightarrow> if base64_encode bs = s then Some bs else None)"

lemma b64_value_char [simp]: "n < 64 \<Longrightarrow> b64_value (b64_char n) = n"
  by (auto simp: b64_value_def b64_char_def is_upper_def is_lower_def is_digit_def)

lemma is_base64_char [simp]: "n < 64 \<Longrightarrow> is_base64 (b64_char n)"
  by (auto simp: is_base64_def is_alnum_def b64_char_def is_upper_def is_lower_def is_digit_def)

lemma b64_char_not_pad [simp]: "n < 64 \<Longrightarrow> b64_char n \<noteq> 61"
  by (auto simp: b64_char_def)

lemma b64_value_bound: "is_base64 u \<Longrightarrow> b64_value u < 64"
  by (auto simp: is_base64_def is_alnum_def b64_value_def is_upper_def is_lower_def is_digit_def)

lemma base64_decode_encode: "list_all (\<lambda>b. b < 256) bs \<Longrightarrow> base64_decode (base64_encode bs) = Some bs"
proof (induction bs rule: base64_encode.induct)
  case (2 a)
  then have "a div 4 < 64" "a mod 4 * 16 < 64" by auto
  then show ?case by (simp add: div_mult_mod_eq)
next
  case (3 a b)
  then have bounds: "a div 4 < 64" "a mod 4 * 16 + b div 16 < 64" "b mod 16 * 4 < 64" by auto
  moreover have "(a mod 4 * 16 + b div 16) div 16 = a mod 4" "(a mod 4 * 16 + b div 16) mod 16 = b div 16"
    using 3 by auto
  ultimately show ?case by simp
next
  case (4 a b c bs)
  then have bounds: "a div 4 < 64" "a mod 4 * 16 + b div 16 < 64" "b mod 16 * 4 + c div 64 < 64"
      "c mod 64 < 64" by auto
  have "(a mod 4 * 16 + b div 16) div 16 = a mod 4" "(a mod 4 * 16 + b div 16) mod 16 = b div 16"
      "(b mod 16 * 4 + c div 64) div 4 = b mod 16" "(b mod 16 * 4 + c div 64) mod 4 = c div 64"
    using 4 by auto
  with bounds 4 show ?case by simp
qed simp

lemma base64_decode_bytes: "base64_decode s = Some bs \<Longrightarrow> list_all (\<lambda>b. b < 256) bs"
proof (induction s arbitrary: bs rule: base64_decode.induct)
  case (2 p q r t s)
  have "b64_value p * 4 + b64_value q div 16 < 256" if "is_base64 p" "is_base64 q"
    using b64_value_bound [OF that(1)] b64_value_bound [OF that(2)] by auto
  moreover have "b64_value q mod 16 * 16 + b64_value r div 4 < 256" if "is_base64 r"
    using b64_value_bound [OF that] by auto
  moreover have "b64_value r mod 4 * 64 + b64_value t < 256" if "is_base64 t"
    using b64_value_bound [OF that] by auto
  ultimately show ?case using 2 by (auto split: if_splits)
qed auto

lemma decode_canonical_iff:
  "decode_canonical_base64 s = Some bs \<longleftrightarrow> list_all (\<lambda>b. b < 256) bs \<and> base64_encode bs = s"
proof
  assume "decode_canonical_base64 s = Some bs"
  then show "list_all (\<lambda>b. b < 256) bs \<and> base64_encode bs = s"
    using base64_decode_bytes by (auto simp: decode_canonical_base64_def split: option.splits if_splits)
next
  assume "list_all (\<lambda>b. b < 256) bs \<and> base64_encode bs = s"
  then show "decode_canonical_base64 s = Some bs"
    using base64_decode_encode [of bs] by (auto simp: decode_canonical_base64_def)
qed

lemma length_base64_encode: "length (base64_encode bs) = 4 * ((length bs + 2) div 3)"
proof (induction bs rule: base64_encode.induct)
  case (4 a b c bs)
  have "(length (a # b # c # bs) + 2) div 3 = (length bs + 2) div 3 + 1" by simp
  with 4 show ?case by simp
qed auto

section \<open>Properties\<close>

text \<open>
  The canonical decoder accepts exactly the encodings of byte strings and inverts the
  encoder: no two texts decode to the same bytes, whatever padding or stray bits they carry.
\<close>

lemma canonical_base64_bijective:
  "decode_canonical_base64 s = Some bs \<longleftrightarrow> list_all (\<lambda>b. b < 256) bs \<and> base64_encode bs = s"
  by (rule decode_canonical_iff)

end
