(* ===== verification/Kernel_Rpc.thy ===== *)
theory Kernel_Rpc
  imports Json
begin

text \<open>
  The request interface of the kernel process as its clients see it
  (\<open>KernelTransport.request\<close>). The kernel is a parameter: a function of the method, the
  parameters and the state of everything outside the host, which answers with a JSON value or
  fails. A client that receives no answer at all is not represented; the deadline of a close is
  a failure of the kernel.
\<close>

datatype kernel_failure =
    Rpc_Error jsstring
  | Transport_Failure

type_synonym 'k kernel = "string \<Rightarrow> fields \<Rightarrow> 'k \<Rightarrow> (kernel_failure + json) \<times> 'k"

text \<open>
  What an observer records: the requests a kernel received with its answers, and the changes of
  stored state (with whether they succeeded).
\<close>

datatype event =
    Sent string fields "kernel_failure + json"
  | Stored string bool

definition log_kernel :: "'k kernel \<Rightarrow> ('k \<times> event list) kernel" where
  "log_kernel kern m ps kl =
     (let r = kern m ps (fst kl) in (fst r, (snd r, snd kl @ [Sent m ps (fst r)])))"

lemma log_kernel_eq:
  "log_kernel kern m ps kl = (r, kl') \<longleftrightarrow>
     (\<exists>k'. kern m ps (fst kl) = (r, k') \<and> kl' = (k', snd kl @ [Sent m ps r]))"
  by (auto simp: log_kernel_def Let_def prod_eq_iff)

end
