(* ===== verification/Artifacts.thy ===== *)
theory Artifacts
  imports Base64 Kernel_Rpc
begin

text \<open>
  \<open>packages/artifacts/src/artifact-store.ts\<close>: reading and writing kernel artifacts by URI, and
  the validation of what the kernel reports about them.
\<close>

datatype artifact_error =
    Artifact_Write_Invalid
  | Artifact_Read_Invalid
  | Artifact_Uri_Invalid
  | Artifact_Protocol_Invalid
  | Artifact_Kernel kernel_failure

record artifact_metadata =
  am_uri :: jsstring
  am_media_type :: jsstring
  am_size :: int
  am_source_truncated :: bool

record artifact_read_result =
  ar_uri :: jsstring
  ar_data :: jsstring
  ar_bytes_read :: int
  ar_next_offset :: int
  ar_eof :: bool

definition artifact_read_max_bytes :: int where "artifact_read_max_bytes = 1048576"
definition artifact_write_max_bytes :: nat where "artifact_write_max_bytes = 5242880"

definition is_artifact_id :: "jsstring \<Rightarrow> bool" where
  "is_artifact_id s = (let suffix = (if starts_with s (js ''ka_'') then drop 3 s else []) in
     suffix \<noteq> [] \<and> length s \<le> 96 \<and> list_all is_base64url suffix)"

definition artifact_id_from_uri :: "jsstring \<Rightarrow> artifact_error + jsstring" where
  "artifact_id_from_uri uri =
     (let i = drop 11 uri in
      if starts_with uri (js ''artifact://'') \<and> starts_with i (js ''ka_'')
         \<and> 1 \<le> length (drop 3 i) \<and> length (drop 3 i) \<le> 93 \<and> list_all is_base64url (drop 3 i)
         \<and> is_artifact_id i
      then Inr i else Inl Artifact_Uri_Invalid)"

definition assert_only_keys :: "fields \<Rightarrow> string list \<Rightarrow> artifact_error + unit" where
  "assert_only_keys fs ks = ensure (only_keys fs ks) Artifact_Protocol_Invalid"

definition to_public_artifact_metadata :: "json option \<Rightarrow> artifact_error + artifact_metadata" where
  "to_public_artifact_metadata v = (case as_record v of
     None \<Rightarrow> Inl Artifact_Protocol_Invalid
   | Some fs \<Rightarrow>
       bind_res (assert_only_keys fs
         [''schemaVersion'', ''artifactId'', ''mediaType'', ''bytesWritten'', ''sourceTruncated'']) (\<lambda>_.
       if \<not> schema_one fs then Inl Artifact_Protocol_Invalid
       else (case (as_str (get fs ''artifactId''), as_str (get fs ''mediaType''),
              as_safe_from 0 (get fs ''bytesWritten''), as_bool (get fs ''sourceTruncated'')) of
          (Some i, Some mt, Some n, Some st) \<Rightarrow>
            if is_artifact_id i \<and> mt \<noteq> []
            then Inr \<lparr>am_uri = js ''artifact://'' @ i, am_media_type = mt, am_size = n,
              am_source_truncated = st\<rparr>
            else Inl Artifact_Protocol_Invalid
        | _ \<Rightarrow> Inl Artifact_Protocol_Invalid)))"

definition validate_artifact_read ::
    "json option \<Rightarrow> jsstring \<Rightarrow> int \<Rightarrow> int \<Rightarrow> artifact_error + artifact_read_result" where
  "validate_artifact_read v uri offset max_bytes = (case as_record v of
     None \<Rightarrow> Inl Artifact_Protocol_Invalid
   | Some fs \<Rightarrow>
       bind_res (assert_only_keys fs
         [''schemaVersion'', ''dataBase64'', ''bytesRead'', ''nextOffset'', ''eof'']) (\<lambda>_.
       if \<not> schema_one fs then Inl Artifact_Protocol_Invalid
       else (case (as_str (get fs ''dataBase64''), as_safe_from 0 (get fs ''bytesRead''),
              as_safe (get fs ''nextOffset''), as_bool (get fs ''eof'')) of
          (Some d, Some n, Some nxt, Some eof) \<Rightarrow>
            if n \<le> max_bytes \<and> nxt = offset + n
            then (case decode_canonical_base64 d of
                None \<Rightarrow> Inl Artifact_Protocol_Invalid
              | Some bs \<Rightarrow>
                  if int (length bs) \<noteq> n then Inl Artifact_Protocol_Invalid
                  else Inr \<lparr>ar_uri = uri, ar_data = d, ar_bytes_read = n, ar_next_offset = nxt, ar_eof = eof\<rparr>)
            else Inl Artifact_Protocol_Invalid
        | _ \<Rightarrow> Inl Artifact_Protocol_Invalid)))"

text \<open>\<open>boundedInteger(option ?? default, ...)\<close>; an option may hold any JSON value.\<close>

definition bounded_integer :: "json option \<Rightarrow> int \<Rightarrow> int \<Rightarrow> artifact_error + int" where
  "bounded_integer v default_value minimum =
     (if v = None \<or> v = Some JNull then Inr default_value
      else (case as_safe_from minimum v of
        None \<Rightarrow> Inl Artifact_Read_Invalid | Some n \<Rightarrow> Inr n))"

definition artifact_read :: "'k kernel \<Rightarrow> jsstring \<Rightarrow> json option \<Rightarrow> json option \<Rightarrow> 'k \<Rightarrow>
    (artifact_error + artifact_read_result) \<times> 'k" where
  "artifact_read kern uri offset_in max_in k =
     (case bind_res (artifact_id_from_uri uri) (\<lambda>i.
           bind_res (bounded_integer offset_in 0 0) (\<lambda>offset.
           bind_res (bounded_integer max_in artifact_read_max_bytes 1) (\<lambda>requested.
             Inr (i, offset, min requested artifact_read_max_bytes)))) of
        Inl e \<Rightarrow> (Inl e, k)
      | Inr (i, offset, max_bytes) \<Rightarrow>
          (case kern ''artifact.read'' [fld ''artifactId'' (JStr i), fld ''offset'' (JNum offset),
                fld ''maxBytes'' (JNum max_bytes)] k of
             (Inl e, k') \<Rightarrow> (Inl (Artifact_Kernel e), k')
           | (Inr v, k') \<Rightarrow> (validate_artifact_read (Some v) uri offset max_bytes, k')))"

definition artifact_write :: "'k kernel \<Rightarrow> jsstring \<Rightarrow> bytes \<Rightarrow> 'k \<Rightarrow>
    (artifact_error + artifact_metadata) \<times> 'k" where
  "artifact_write kern media_type bs k =
     (if media_type = [] \<or> 255 < length media_type
         \<or> \<not> list_all (\<lambda>u. 32 \<le> u \<and> u \<le> 126) media_type \<or> artifact_write_max_bytes < length bs
      then (Inl Artifact_Write_Invalid, k)
      else (case kern ''artifact.write'' [fld ''mediaType'' (JStr media_type),
                fld ''dataBase64'' (JStr (base64_encode bs))] k of
           (Inl e, k') \<Rightarrow> (Inl (Artifact_Kernel e), k')
         | (Inr v, k') \<Rightarrow> (to_public_artifact_metadata (Some v), k')))"

lemma starts_with_appendI: "length (js p) = n \<Longrightarrow> starts_with (js p @ s) (js p) \<and> drop n (js p @ s) = s"
  by simp

lemma artifact_id_uri:
  assumes "is_artifact_id i"
  shows "artifact_id_from_uri (js ''artifact://'' @ i) = Inr i"
proof -
  have "drop 11 (js ''artifact://'' @ i) = i" by (simp add: js_def)
  then show ?thesis
    using assms by (auto simp: artifact_id_from_uri_def is_artifact_id_def Let_def split: if_splits)
qed

section \<open>Properties\<close>

text \<open>
  Whatever the kernel replies, a successful \<open>read\<close> returns the canonical encoding of exactly
  \<open>bytesRead\<close> bytes, no more than the caller asked for and no more than 1 MiB, and \<open>nextOffset\<close>
  continues where this page ended.
\<close>

lemma artifact_read_page:
  assumes "artifact_read kern uri offset_in max_in k = (Inr r, k')"
  shows "\<exists>bs offset. base64_encode bs = ar_data r \<and> list_all (\<lambda>b. b < 256) bs \<and>
    int (length bs) = ar_bytes_read r \<and> length bs \<le> 1048576 \<and>
    bounded_integer offset_in 0 0 = Inr offset \<and> ar_next_offset r = offset + int (length bs) \<and>
    ar_next_offset r \<le> max_safe \<and>
    (\<exists>requested. bounded_integer max_in 1048576 1 = Inr requested \<and> int (length bs) \<le> requested)"
proof -
  from assms obtain i offset requested v where
    bounds: "bounded_integer offset_in 0 0 = Inr offset"
      "bounded_integer max_in artifact_read_max_bytes 1 = Inr requested"
    and v: "validate_artifact_read (Some v) uri offset (min requested artifact_read_max_bytes) = Inr r"
    by (auto simp: artifact_read_def bind_res_eq_Inr bind_res_eq_Inl split: sum.splits prod.splits)
  from v obtain bs n where "decode_canonical_base64 (ar_data r) = Some bs" "int (length bs) = n"
    "n = ar_bytes_read r" "ar_next_offset r = offset + n" "n \<le> min requested artifact_read_max_bytes"
    "\<bar>ar_next_offset r\<bar> \<le> max_safe"
    by (auto simp: validate_artifact_read_def guard_eq_Inr as_safe_eq_Some as_record_eq_Some
        split: option.splits json.splits if_splits)
  with bounds show ?thesis
    by (intro exI [of _ bs] exI [of _ offset]) (auto simp: decode_canonical_iff artifact_read_max_bytes_def)
qed

definition sample_kernel :: "unit kernel" where
  "sample_kernel m ps k = (Inr (JObj [fld ''schemaVersion'' (JNum 1), fld ''dataBase64'' (JStr (js ''aGk='')),
     fld ''bytesRead'' (JNum 2), fld ''nextOffset'' (JNum 7), fld ''eof'' (JBool True)]), k)"

lemma sample_artifact_read: "artifact_read sample_kernel (js ''artifact://ka_1'') (Some (JNum 5)) None ()
    = (Inr \<lparr>ar_uri = js ''artifact://ka_1'', ar_data = js ''aGk='', ar_bytes_read = 2,
        ar_next_offset = 7, ar_eof = True\<rparr>, ())"
  by code_simp

text \<open>
  The URI the host publishes for an artifact is one it accepts again, and it leads back to
  the kernel's identifier.
\<close>

lemma artifact_uri_roundtrip:
  assumes "to_public_artifact_metadata (Some (JObj fs)) = Inr m"
  shows "map_sum id (\<lambda>i. Some (JStr i)) (artifact_id_from_uri (am_uri m)) = Inr (get fs ''artifactId'')"
proof -
  from assms obtain i where "get fs ''artifactId'' = Some (JStr i)" "is_artifact_id i"
    "am_uri m = js ''artifact://'' @ i"
    by (auto simp: to_public_artifact_metadata_def guard_eq_Inr as_str_eq_Some
        split: option.splits json.splits if_splits)
  then show ?thesis by (simp add: artifact_id_uri)
qed

end
