(* ===== verification/Audit_Reader.thy ===== *)
theory Audit_Reader
  imports Json
begin

text \<open>
  \<open>packages/audit/src/audit-reader.ts\<close>: the most recent events of the append-only audit log,
  one JSON object per line. Lines that are torn or malformed are skipped. \<open>JSON.parse\<close> is the
  argument \<open>parse\<close> (\<open>None\<close> when it throws).
\<close>

datatype audit_phase = Decision | Outcome

record audit_event =
  ae_timestamp :: int
  ae_phase :: audit_phase
  ae_request_id :: jsstring
  ae_operation_id :: jsstring
  ae_action :: jsstring
  ae_decision :: "jsstring option"
  ae_reason :: "jsstring option"
  ae_outcome :: "jsstring option"

text \<open>\<open>optionalString\<close>: the outer \<open>None\<close> is its \<open>null\<close>.\<close>

definition optional_string :: "json option \<Rightarrow> jsstring option option" where
  "optional_string v = (case v of None \<Rightarrow> Some None | Some _ \<Rightarrow> map_option Some (as_str v))"

definition parse_phase :: "json option \<Rightarrow> audit_phase option" where
  "parse_phase v = (case as_str v of
     None \<Rightarrow> None
   | Some s \<Rightarrow> if s = js ''decision'' then Some Decision
       else if s = js ''outcome'' then Some Outcome else None)"

definition to_public_audit_event :: "json option \<Rightarrow> audit_event option" where
  "to_public_audit_event v = (case as_record v of
     None \<Rightarrow> None
   | Some fs \<Rightarrow>
       if \<not> schema_one fs then None
       else (case (as_safe_from 0 (get fs ''timestampUnixMs''), parse_phase (get fs ''phase''),
              as_str (get fs ''requestId''), as_str (get fs ''operationId''), as_str (get fs ''action'')) of
          (Some t, Some ph, Some req, Some op, Some act) \<Rightarrow>
            if \<not> starts_with req (js ''req_'') \<or> \<not> starts_with op (js ''op_'') \<or> act = [] then None
            else (case (optional_string (get fs ''decision''), optional_string (get fs ''reason''),
                     optional_string (get fs ''outcome'')) of
                (Some d, Some r, Some outc) \<Rightarrow>
                  Some \<lparr>ae_timestamp = t, ae_phase = ph, ae_request_id = req, ae_operation_id = op,
                    ae_action = act, ae_decision = d, ae_reason = r, ae_outcome = outc\<rparr>
              | _ \<Rightarrow> None)
        | _ \<Rightarrow> None))"

text \<open>
  \<open>clampLimit\<close>. The argument is the integral part of the number, \<open>None\<close> when it is not finite.
\<close>

definition clamp_limit :: "int option \<Rightarrow> nat" where
  "clamp_limit limit = (case limit of None \<Rightarrow> 50 | Some n \<Rightarrow> nat (min 200 (max 1 n)))"

definition line_event :: "(jsstring \<Rightarrow> json option) \<Rightarrow> jsstring \<Rightarrow> audit_event option" where
  "line_event parse l = (if l = [] then None else
     (case parse l of None \<Rightarrow> None | Some v \<Rightarrow> to_public_audit_event (Some v)))"

definition audit_events :: "(jsstring \<Rightarrow> json option) \<Rightarrow> jsstring \<Rightarrow> audit_event list" where
  "audit_events parse contents = List.map_filter (line_event parse) (split_on 10 contents)"

text \<open>\<open>readRecentAuditEvents\<close> on the file (\<open>None\<close> when it does not exist).\<close>

definition read_recent_audit_events ::
    "(jsstring \<Rightarrow> json option) \<Rightarrow> int option \<Rightarrow> jsstring option \<Rightarrow> audit_event list" where
  "read_recent_audit_events parse limit contents = (case contents of
     None \<Rightarrow> []
   | Some c \<Rightarrow> last_n (clamp_limit limit) (audit_events parse c))"

lemma split_on_append_sep: "split_on c (a @ c # b) = split_on c a @ split_on c b"
  by (induction a) (auto split: list.splits)

lemma map_filter_append: "List.map_filter f (xs @ ys) = List.map_filter f xs @ List.map_filter f ys"
  by (induction xs) (auto simp: List.map_filter_simps split: option.splits)

lemma audit_events_append:
  "audit_events parse (a @ 10 # b) = audit_events parse a @ audit_events parse b"
  by (simp add: audit_events_def split_on_append_sep map_filter_append)

lemma audit_events_line: "10 \<notin> set l \<Longrightarrow>
    audit_events parse l = (case line_event parse l of None \<Rightarrow> [] | Some e \<Rightarrow> [e])"
  by (simp add: audit_events_def split_on_no_sep List.map_filter_simps split: option.splits)

lemma clamp_limit_bounds: "1 \<le> clamp_limit limit \<and> clamp_limit limit \<le> 200"
  by (auto simp: clamp_limit_def split: option.splits)

section \<open>What is returned\<close>

text \<open>
  Appending to the log is seen as appending events: a completed line adds its event at the
  end and drops the oldest one beyond the limit, and a line the writer left torn (one that does
  not parse) changes nothing, whether it is the last of the file or not.
\<close>

lemma audit_append:
  assumes "10 \<notin> set l"
  shows "read_recent_audit_events parse limit (Some (log @ 10 # l)) =
    (case line_event parse l of
       None \<Rightarrow> read_recent_audit_events parse limit (Some log)
     | Some e \<Rightarrow> last_n (clamp_limit limit) (audit_events parse log @ [e]))"
  using assms
  by (simp add: read_recent_audit_events_def audit_events_append audit_events_line split: option.splits)

text \<open>
  Whatever the file contains, at most 200 events are returned, and each has a schema-valid
  shape: request and operation identifiers with their prefixes and a non-empty action.
\<close>

lemma audit_events_public:
  "length (read_recent_audit_events parse limit contents) \<le> 200 \<and>
   list_all (\<lambda>e. starts_with (ae_request_id e) (js ''req_'') \<and> starts_with (ae_operation_id e) (js ''op_'')
     \<and> ae_action e \<noteq> [] \<and> 0 \<le> ae_timestamp e) (read_recent_audit_events parse limit contents)"
proof (cases contents)
  case (Some c)
  let ?P = "\<lambda>e. starts_with (ae_request_id e) (js ''req_'') \<and> starts_with (ae_operation_id e) (js ''op_'')
     \<and> ae_action e \<noteq> [] \<and> 0 \<le> ae_timestamp e"
  have "?P e" if "to_public_audit_event v = Some e" for v e
    using that by (auto simp: to_public_audit_event_def as_safe_from_eq_Some split: option.splits if_splits)
  then have "\<forall>e \<in> set (audit_events parse c). ?P e"
    by (auto simp: audit_events_def List.map_filter_def line_event_def split: option.splits if_splits)
  then show ?thesis
    using Some clamp_limit_bounds [of limit] set_last_n [of "clamp_limit limit" "audit_events parse c"]
    by (auto simp: read_recent_audit_events_def list_all_iff)
qed (simp add: read_recent_audit_events_def)

end
