(* ===== verification/Kernel_Payloads.thy ===== *)
theory Kernel_Payloads
  imports Artifacts Profiles Trust_Store Checkpoint_Store
begin

text \<open>
  The validators at the end of \<open>packages/core/src/workspace-manager.ts\<close>: what the host accepts
  as a reply of the kernel process. Every reply is an untyped JSON value; a validator gives the
  typed result or the error RUNTIME\_PROTOCOL\_INVALID.
\<close>

datatype manager_error =
    Type_Error
  | Range_Error
  | Manager_Error string
  | Workspace_Not_Found
  | Workspace_Not_Ready
  | Close_Incomplete
  | Project_Profile_Invalid
  | Profile_Failed profile_error
  | Trust_Failed trust_error
  | Checkpoint_Failed checkpoint_error
  | Kernel_Failed kernel_failure

abbreviation protocol_invalid :: manager_error where
  "protocol_invalid \<equiv> Manager_Error ''RUNTIME_PROTOCOL_INVALID''"

text \<open>A test whose failure is a protocol error, and a partial parse whose failure is one.\<close>

definition valid_or :: "'a option \<Rightarrow> manager_error + 'a" where
  "valid_or v = (case v of None \<Rightarrow> Inl protocol_invalid | Some x \<Rightarrow> Inr x)"

lemma valid_or_eq_Inr [simp]: "valid_or v = Inr x \<longleftrightarrow> v = Some x"
  by (simp add: valid_or_def split: option.splits)

lemma valid_or_eq_Inl [simp]: "valid_or v = Inl e \<longleftrightarrow> v = None \<and> e = protocol_invalid"
  by (auto simp: valid_or_def split: option.splits)

section \<open>Roots, trees and searches\<close>

definition validate_inspect_result :: "json option \<Rightarrow> manager_error + jsstring \<times> filesystem_identity" where
  "validate_inspect_result v = (case as_record v of
     None \<Rightarrow> Inl protocol_invalid
   | Some fs \<Rightarrow>
       (case (as_str (get fs ''canonicalRoot''), as_record (get fs ''identity'')) of
          (Some root, Some ident) \<Rightarrow>
            (case (as_safe (get ident ''deviceMajor''), as_safe (get ident ''deviceMinor''),
                   as_str (get ident ''inode'')) of
               (Some ma, Some mi, Some ino) \<Rightarrow>
                 Inr (root, \<lparr>device_major = ma, device_minor = mi, inode = ino\<rparr>)
             | _ \<Rightarrow> Inl protocol_invalid)
        | _ \<Rightarrow> Inl protocol_invalid))"

definition is_tree_entry_kind :: "json option \<Rightarrow> bool" where
  "is_tree_entry_kind v = (case as_str v of
     None \<Rightarrow> False
   | Some s \<Rightarrow> s \<in> js ` set [''file'', ''directory'', ''symlink'', ''other''])"

record tree_entry =
  te_path :: jsstring
  te_kind :: jsstring
  te_size :: int

definition validate_tree_entry :: "json \<Rightarrow> manager_error + tree_entry" where
  "validate_tree_entry v = (case as_record (Some v) of
     None \<Rightarrow> Inl protocol_invalid
   | Some fs \<Rightarrow>
       (case (as_str (get fs ''path''), as_str (get fs ''kind''), as_safe_from 0 (get fs ''sizeBytes'')) of
          (Some p, Some kd, Some n) \<Rightarrow>
            if is_tree_entry_kind (get fs ''kind'') then Inr \<lparr>te_path = p, te_kind = kd, te_size = n\<rparr>
            else Inl protocol_invalid
        | _ \<Rightarrow> Inl protocol_invalid))"

record search_match =
  sm_path :: jsstring
  sm_line :: int
  sm_text :: jsstring

definition validate_search_match :: "json \<Rightarrow> manager_error + search_match" where
  "validate_search_match v = (case as_record (Some v) of
     None \<Rightarrow> Inl protocol_invalid
   | Some fs \<Rightarrow>
       (case (as_str (get fs ''path''), as_safe_from 1 (get fs ''line''), as_str (get fs ''lineText'')) of
          (Some p, Some n, Some t) \<Rightarrow> Inr \<lparr>sm_path = p, sm_line = n, sm_text = t\<rparr>
        | _ \<Rightarrow> Inl protocol_invalid))"

definition truncation_reasons :: "string list" where
  "truncation_reasons =
     [''TREE_LIMIT'', ''FILE_SIZE_LIMIT'', ''SCAN_BYTE_LIMIT'', ''MATCH_LIMIT'', ''SNIPPET_BYTE_LIMIT'']"

definition is_search_truncation_reason :: "json \<Rightarrow> bool" where
  "is_search_truncation_reason v = (case as_str (Some v) of
     None \<Rightarrow> False | Some s \<Rightarrow> s \<in> js ` set truncation_reasons)"

section \<open>Path identities\<close>

definition is_sha256 :: "jsstring \<Rightarrow> bool" where
  "is_sha256 s = exactly is_lower_hex 64 s"

definition str_is :: "json option \<Rightarrow> string \<Rightarrow> bool" where
  "str_is v s = (v = Some (JStr (js s)))"

definition is_valid_path_identity_result :: "json option \<Rightarrow> bool \<Rightarrow> bool" where
  "is_valid_path_identity_result v include_sha256 = (case as_record v of
     None \<Rightarrow> False
   | Some fs \<Rightarrow>
       if \<not> schema_one fs then False
       else (case (as_bool (get fs ''exists''), as_bool (get fs ''hashTruncated'')) of
          (Some exists_flag, Some trunc) \<Rightarrow>
            if \<not> exists_flag then
              get fs ''kind'' = None \<and> get fs ''sizeBytes'' = None \<and> get fs ''sha256'' = None \<and> \<not> trunc
            else if \<not> is_tree_entry_kind (get fs ''kind'') \<or> as_safe_from 0 (get fs ''sizeBytes'') = None
                \<or> (get fs ''sha256'' \<noteq> None \<and>
                    (case as_str (get fs ''sha256'') of None \<Rightarrow> True | Some s \<Rightarrow> \<not> is_sha256 s))
                \<or> (trunc \<and> get fs ''sha256'' \<noteq> None)
              then False
            else if \<not> include_sha256 then get fs ''sha256'' = None \<and> \<not> trunc
            else if str_is (get fs ''kind'') ''file'' \<or> str_is (get fs ''kind'') ''symlink''
              then trunc \<or> get fs ''sha256'' \<noteq> None
            else get fs ''sha256'' = None \<and> \<not> trunc
        | _ \<Rightarrow> False))"

section \<open>Git\<close>

definition optional_with :: "(jsstring \<Rightarrow> bool) \<Rightarrow> json option \<Rightarrow> bool" where
  "optional_with p v = (case v of None \<Rightarrow> True | Some _ \<Rightarrow>
     (case as_str v of None \<Rightarrow> False | Some s \<Rightarrow> p s))"

definition optional_nonempty_string :: "json option \<Rightarrow> bool" where
  "optional_nonempty_string v = optional_with (\<lambda>s. s \<noteq> []) v"

definition optional_git_status :: "json option \<Rightarrow> bool" where
  "optional_git_status v = optional_with (\<lambda>s. length s = 1 \<and> set s \<subseteq> set (js ''MADRCUT?'')) v"

definition optional_git_mode :: "json option \<Rightarrow> bool" where
  "optional_git_mode v = optional_with (exactly (\<lambda>u. 48 \<le> u \<and> u \<le> 55) 6) v"

definition optional_git_oid :: "json option \<Rightarrow> bool" where
  "optional_git_oid v =
     optional_with (\<lambda>s. 40 \<le> length s \<and> length s \<le> 64 \<and> list_all is_lower_hex s) v"

definition is_git_checkpoint_record_type :: "json option \<Rightarrow> bool" where
  "is_git_checkpoint_record_type v = (case as_str v of
     None \<Rightarrow> False
   | Some s \<Rightarrow> s \<in> js ` set [''ordinary'', ''rename'', ''unmerged'', ''untracked''])"

text \<open>The record is returned as it is, with its path.\<close>

definition validate_git_checkpoint_record :: "json \<Rightarrow> manager_error + jsstring \<times> fields" where
  "validate_git_checkpoint_record v = (case as_record (Some v) of
     None \<Rightarrow> Inl protocol_invalid
   | Some fs \<Rightarrow>
       (case as_str (get fs ''path'') of
          None \<Rightarrow> Inl protocol_invalid
        | Some p \<Rightarrow>
            if \<not> is_git_checkpoint_record_type (get fs ''recordType'') \<or> p = []
               \<or> \<not> optional_nonempty_string (get fs ''originalPath'')
               \<or> \<not> optional_git_status (get fs ''indexStatus'')
               \<or> \<not> optional_git_status (get fs ''worktreeStatus'')
               \<or> \<not> optional_git_mode (get fs ''headMode'') \<or> \<not> optional_git_mode (get fs ''indexMode'')
               \<or> \<not> optional_git_mode (get fs ''worktreeMode'')
               \<or> \<not> optional_git_oid (get fs ''headOid'') \<or> \<not> optional_git_oid (get fs ''indexOid'')
               \<or> \<not> optional_git_oid (get fs ''stage1Oid'') \<or> \<not> optional_git_oid (get fs ''stage2Oid'')
               \<or> \<not> optional_git_oid (get fs ''stage3Oid'')
               \<or> (get fs ''currentIdentity'' \<noteq> None
                   \<and> \<not> is_valid_path_identity_result (get fs ''currentIdentity'') True)
            then Inl protocol_invalid
            else if str_is (get fs ''recordType'') ''rename'' \<and> get fs ''originalPath'' = None
            then Inl protocol_invalid
            else if \<not> str_is (get fs ''recordType'') ''rename'' \<and> get fs ''originalPath'' \<noteq> None
            then Inl protocol_invalid
            else if (str_is (get fs ''recordType'') ''untracked''
                     \<or> (as_str (get fs ''worktreeStatus'') \<noteq> None \<and> \<not> str_is (get fs ''worktreeStatus'') ''D''))
                   \<and> get fs ''currentIdentity'' = None
            then Inl protocol_invalid
            else Inr (p, fs)))"

record git_checkpoint =
  gc_head_oid :: jsstring
  gc_records :: "(jsstring \<times> fields) list"
  gc_truncated :: bool

definition validate_git_checkpoint :: "json option \<Rightarrow> manager_error + git_checkpoint" where
  "validate_git_checkpoint v = (case as_record v of
     None \<Rightarrow> Inl protocol_invalid
   | Some fs \<Rightarrow>
       if \<not> schema_one fs then Inl protocol_invalid
       else (case (as_str (get fs ''headOid''), as_arr (get fs ''records''), as_bool (get fs ''truncated'')) of
          (Some h, Some rs, Some t) \<Rightarrow>
            if \<not> (exactly is_lower_hex 40 h \<or> exactly is_lower_hex 64 h) then Inl protocol_invalid
            else bind_res (map_res validate_git_checkpoint_record rs) (\<lambda>records.
              if has_dup (map fst records) then Inl protocol_invalid
              else Inr \<lparr>gc_head_oid = h, gc_records = records, gc_truncated = t\<rparr>)
        | _ \<Rightarrow> Inl protocol_invalid))"

definition is_git_oid :: "jsstring \<Rightarrow> bool" where
  "is_git_oid s = ((length s = 40 \<or> length s = 64) \<and> list_all is_lower_hex s)"

definition has_ascii_control :: "jsstring \<Rightarrow> bool" where
  "has_ascii_control s = list_ex is_control s"

definition is_safe_private_remote_name :: "jsstring \<Rightarrow> bool" where
  "is_safe_private_remote_name s = (0 < length s \<and> length s \<le> 128 \<and> \<not> has_ascii_control s)"

definition is_safe_private_remote_url :: "jsstring \<Rightarrow> bool" where
  "is_safe_private_remote_url s = (0 < length s \<and> byte_length s \<le> 8192 \<and> \<not> has_ascii_control s)"

definition is_ref_part :: "jsstring \<Rightarrow> bool" where
  "is_ref_part p = (p \<noteq> [] \<and> \<not> ends_with p (js ''.lock'') \<and> \<not> ends_with p (js ''.'')
     \<and> is_alnum (hd p) \<and> list_all (\<lambda>u. is_alnum u \<or> u = 46 \<or> u = 95 \<or> u = 45) (tl p))"

definition is_safe_private_git_ref :: "jsstring \<Rightarrow> bool" where
  "is_safe_private_git_ref s =
     (0 < length s \<and> length s \<le> 128 \<and> \<not> includes_str s (js ''..'') \<and> \<not> includes_str s (js ''@'' @ [123])
      \<and> list_all is_ref_part (split_on 47 s))"

definition sorted_keys :: "fields \<Rightarrow> jsstring" where
  "sorted_keys fs = join_with 44 (sort (map fst fs))"

record git_remote =
  gr_name :: jsstring
  gr_fetch_url :: jsstring

record git_repository_identity =
  gi_head_oid :: jsstring
  gi_branch :: "jsstring option"
  gi_remotes :: "git_remote list"

definition validate_remote :: "json \<Rightarrow> manager_error + git_remote" where
  "validate_remote v = (case as_record (Some v) of
     None \<Rightarrow> Inl protocol_invalid
   | Some fs \<Rightarrow>
       if sorted_keys fs \<noteq> js ''fetchUrl,name'' then Inl protocol_invalid
       else (case (as_str (get fs ''name''), as_str (get fs ''fetchUrl'')) of
          (Some n, Some u) \<Rightarrow>
            if is_safe_private_remote_name n \<and> is_safe_private_remote_url u
            then Inr \<lparr>gr_name = n, gr_fetch_url = u\<rparr> else Inl protocol_invalid
        | _ \<Rightarrow> Inl protocol_invalid))"

text \<open>The order \<open>Buffer.from(a).compare(Buffer.from(b))\<close>.\<close>

definition bytes_le :: "jsstring \<Rightarrow> jsstring \<Rightarrow> bool" where
  "bytes_le a b = (utf8_encode a \<le> utf8_encode b)"

definition validate_git_repository_identity :: "json option \<Rightarrow> manager_error + git_repository_identity" where
  "validate_git_repository_identity v = (case as_record v of
     None \<Rightarrow> Inl protocol_invalid
   | Some fs \<Rightarrow>
       if \<not> schema_one fs \<or> sorted_keys fs \<noteq> js ''branch,headOid,remotes,schemaVersion''
       then Inl protocol_invalid
       else (case (as_str (get fs ''headOid''), as_arr (get fs ''remotes'')) of
          (Some h, Some rs) \<Rightarrow>
            if \<not> is_git_oid h
               \<or> (get fs ''branch'' \<noteq> Some JNull \<and> (case as_str (get fs ''branch'') of
                    None \<Rightarrow> True | Some b \<Rightarrow> \<not> is_safe_private_git_ref b))
               \<or> 32 < length rs
            then Inl protocol_invalid
            else bind_res (map_res validate_remote rs) (\<lambda>remotes.
              let names = map gr_name remotes in
              if has_dup names \<or> sort_by bytes_le names \<noteq> names then Inl protocol_invalid
              else Inr \<lparr>gi_head_oid = h, gi_branch = as_str (get fs ''branch''), gi_remotes = remotes\<rparr>)
        | _ \<Rightarrow> Inl protocol_invalid))"

section \<open>Command results\<close>

definition validate_artifact_metadata :: "json option \<Rightarrow> manager_error + artifact_metadata" where
  "validate_artifact_metadata v = (case to_public_artifact_metadata v of
     Inl _ \<Rightarrow> Inl protocol_invalid | Inr m \<Rightarrow> Inr m)"

text \<open>The fields every command result has, and the keys it must not have.\<close>

record command_output =
  co_stdout :: jsstring
  co_stderr :: jsstring
  co_stdout_truncated :: bool
  co_stderr_truncated :: bool
  co_source_truncated :: bool
  co_bytes_spooled :: int
  co_artifact :: artifact_metadata

definition validate_command_output :: "string list \<Rightarrow> fields \<Rightarrow> manager_error + command_output" where
  "validate_command_output forbidden fs =
     (if list_ex (has_key fs) forbidden \<or> \<not> is_record (get fs ''artifact'') then Inl protocol_invalid
      else (case (as_str (get fs ''stdoutPreview''), as_str (get fs ''stderrPreview''),
              as_bool (get fs ''stdoutTruncated''), as_bool (get fs ''stderrTruncated''),
              as_bool (get fs ''sourceTruncated''), as_safe_from 0 (get fs ''bytesSpooled'')) of
          (Some so, Some se, Some st, Some et, Some src, Some n) \<Rightarrow>
            bind_res (validate_artifact_metadata (get fs ''artifact'')) (\<lambda>a.
              Inr \<lparr>co_stdout = so, co_stderr = se, co_stdout_truncated = st, co_stderr_truncated = et,
                co_source_truncated = src, co_bytes_spooled = n, co_artifact = a\<rparr>)
        | _ \<Rightarrow> Inl protocol_invalid))"

datatype operation_state = Running | Completed | Failed | Cancelled

definition parse_operation_state :: "json option \<Rightarrow> operation_state option" where
  "parse_operation_state v = (case as_str v of
     None \<Rightarrow> None
   | Some s \<Rightarrow> map_of [(js ''running'', Running), (js ''completed'', Completed), (js ''failed'', Failed),
       (js ''cancelled'', Cancelled)] s)"

record process_operation =
  po_operation_id :: jsstring
  po_state :: operation_state
  po_exit_code :: "int option"
  po_output :: command_output

definition validate_process_operation :: "json option \<Rightarrow> manager_error + process_operation" where
  "validate_process_operation v = (case as_record v of
     None \<Rightarrow> Inl protocol_invalid
   | Some fs \<Rightarrow>
       if \<not> schema_one fs then Inl protocol_invalid
       else (case (as_str (get fs ''operationId''), parse_operation_state (get fs ''state'')) of
          (Some i, Some st) \<Rightarrow>
            if \<not> starts_with i (js ''op_'') \<or> (get fs ''exitCode'' \<noteq> None \<and> as_safe (get fs ''exitCode'') = None)
            then Inl protocol_invalid
            else bind_res (validate_command_output [''executionId'', ''processGroup'', ''pid'', ''artifactId''] fs)
              (\<lambda>out. Inr \<lparr>po_operation_id = i, po_state = st, po_exit_code = as_safe (get fs ''exitCode''),
                po_output = out\<rparr>)
        | _ \<Rightarrow> Inl protocol_invalid))"

text \<open>\<open>#gitInspection\<close> and, with the operation echoed, \<open>#gitLocalMutation\<close> and \<open>#gitRemoteMutation\<close>.\<close>

record git_output =
  go_exit_code :: int
  go_output :: command_output

definition validate_git_output :: "string option \<Rightarrow> json option \<Rightarrow> manager_error + git_output" where
  "validate_git_output operation v = (case as_record v of
     None \<Rightarrow> Inl protocol_invalid
   | Some fs \<Rightarrow>
       if \<not> schema_one fs
          \<or> (case operation of None \<Rightarrow> False | Some op \<Rightarrow> \<not> str_is (get fs ''operation'') op)
       then Inl protocol_invalid
       else (case as_safe (get fs ''exitCode'') of
          None \<Rightarrow> Inl protocol_invalid
        | Some n \<Rightarrow> bind_res (validate_command_output [''artifactId'', ''processGroup'', ''pid''] fs)
            (\<lambda>out. Inr \<lparr>go_exit_code = n, go_output = out\<rparr>)))"

section \<open>Worktrees\<close>

datatype worktree_result =
    Worktree_Created jsstring jsstring jsstring jsstring
  | Worktree_Removed jsstring jsstring

definition validate_worktree :: "bool \<Rightarrow> json option \<Rightarrow> manager_error + worktree_result" where
  "validate_worktree create v = (case as_record v of
     None \<Rightarrow> Inl protocol_invalid
   | Some fs \<Rightarrow>
       if \<not> schema_one fs \<or> \<not> str_is (get fs ''operation'') (if create then ''create'' else ''remove'')
       then Inl protocol_invalid
       else (case (as_str (get fs ''name''), as_str (get fs ''relativePath'')) of
          (Some n, Some rel) \<Rightarrow>
            if rel \<noteq> js ''.worktrees/'' @ n then Inl protocol_invalid
            else if \<not> only_keys fs (if create
                then [''schemaVersion'', ''operation'', ''name'', ''relativePath'', ''branch'', ''headOid'']
                else [''schemaVersion'', ''operation'', ''name'', ''relativePath'', ''removed''])
            then Inl protocol_invalid
            else if create then
              (case (as_str (get fs ''branch''), as_str (get fs ''headOid'')) of
                 (Some b, Some h) \<Rightarrow>
                   if exactly is_lower_hex 40 h then Inr (Worktree_Created n rel b h)
                   else Inl protocol_invalid
               | _ \<Rightarrow> Inl protocol_invalid)
            else if get fs ''removed'' = Some (JBool True) then Inr (Worktree_Removed n rel)
            else Inl protocol_invalid
        | _ \<Rightarrow> Inl protocol_invalid))"

section \<open>History\<close>

text \<open>\<open>inspect\<close>: a forbidden key at any depth.\<close>

definition forbidden_keys :: "string list" where
  "forbidden_keys = [''capabilityId'', ''artifactId'', ''pid'', ''processGroup'']"

fun leaks :: "json \<Rightarrow> bool" where
  "leaks (JArr xs) = list_ex leaks xs"
| "leaks (JObj fs) = (list_ex (\<lambda>kv. fst kv \<in> js ` set forbidden_keys) fs \<or> list_ex (\<lambda>kv. leaks (snd kv)) fs)"
| "leaks _ = False"

definition oid_value :: "json option \<Rightarrow> bool" where
  "oid_value v = (case as_str v of None \<Rightarrow> False
     | Some s \<Rightarrow> exactly is_lower_hex 40 s \<or> exactly is_lower_hex 64 s)"

definition count_value :: "json option \<Rightarrow> bool" where
  "count_value v = (as_safe_from 0 v \<noteq> None)"

definition str_within :: "nat \<Rightarrow> json option \<Rightarrow> bool" where
  "str_within n v = (case as_str v of None \<Rightarrow> False | Some s \<Rightarrow> byte_length s \<le> n)"

definition valid_commit :: "bool \<Rightarrow> fields \<Rightarrow> bool" where
  "valid_commit allow_side fs =
     (same_keys fs ([''oid'', ''shortOid'', ''parents'', ''authorName'', ''authorTime'', ''committerTime'',
          ''subject'', ''encodingLossy''] @ (if allow_side \<and> get fs ''side'' \<noteq> None then [''side''] else []))
      \<and> oid_value (get fs ''oid'')
      \<and> as_str (get fs ''shortOid'') \<noteq> None
      \<and> as_str (get fs ''shortOid'') = map_option (take 12) (as_str (get fs ''oid''))
      \<and> (case as_arr (get fs ''parents'') of None \<Rightarrow> False | Some xs \<Rightarrow> list_all (\<lambda>x. oid_value (Some x)) xs)
      \<and> str_within 256 (get fs ''authorName'')
      \<and> as_safe (get fs ''authorTime'') \<noteq> None \<and> as_safe (get fs ''committerTime'') \<noteq> None
      \<and> str_within 512 (get fs ''subject'')
      \<and> as_bool (get fs ''encodingLossy'') \<noteq> None
      \<and> (\<not> allow_side \<or> get fs ''side'' = None \<or> str_is (get fs ''side'') ''base''
          \<or> str_is (get fs ''side'') ''head''))"

definition valid_commit_value :: "bool \<Rightarrow> json \<Rightarrow> bool" where
  "valid_commit_value allow_side v = (case as_record (Some v) of
     None \<Rightarrow> False | Some fs \<Rightarrow> valid_commit allow_side fs)"

definition valid_history_path :: "json option \<Rightarrow> bool" where
  "valid_history_path v = (case as_str v of
     None \<Rightarrow> False
   | Some s \<Rightarrow> byte_length s \<le> 4096 \<and> \<not> starts_with s (js ''/'') \<and> \<not> starts_with s (js '':'')
       \<and> \<not> list_ex is_control s
       \<and> list_all (\<lambda>p. p \<noteq> [] \<and> p \<noteq> js ''.'' \<and> p \<noteq> js ''..'') (split_on 47 s))"

definition null_or_count :: "json option \<Rightarrow> bool" where
  "null_or_count v = (v = Some JNull \<or> count_value v)"

definition valid_changed_path :: "json \<Rightarrow> bool" where
  "valid_changed_path v = (case as_record (Some v) of
     None \<Rightarrow> False
   | Some fs \<Rightarrow> same_keys fs [''path'', ''status'', ''insertions'', ''deletions'', ''binary'']
       \<and> valid_history_path (get fs ''path'')
       \<and> list_ex (str_is (get fs ''status'')) [''added'', ''modified'', ''deleted'', ''typeChanged'']
       \<and> null_or_count (get fs ''insertions'') \<and> null_or_count (get fs ''deletions'')
       \<and> as_bool (get fs ''binary'') \<noteq> None)"

definition valid_summary :: "json option \<Rightarrow> bool" where
  "valid_summary v = (case as_record v of
     None \<Rightarrow> False
   | Some fs \<Rightarrow> same_keys fs [''filesChanged'', ''insertions'', ''deletions'', ''binaryFiles'']
       \<and> list_all (\<lambda>key. count_value (get fs key)) [''filesChanged'', ''insertions'', ''deletions'', ''binaryFiles''])"

definition bounded_count :: "json option \<Rightarrow> bool" where
  "bounded_count v = (case as_record v of
     None \<Rightarrow> False
   | Some fs \<Rightarrow> same_keys fs [''value'', ''exact'']
       \<and> (case as_safe_from 0 (get fs ''value'') of None \<Rightarrow> False | Some n \<Rightarrow> n \<le> 10000)
       \<and> as_bool (get fs ''exact'') \<noteq> None)"

definition array_within :: "nat \<Rightarrow> (json \<Rightarrow> bool) \<Rightarrow> json option \<Rightarrow> bool" where
  "array_within n p v = (case as_arr v of None \<Rightarrow> False | Some xs \<Rightarrow> length xs \<le> n \<and> list_all p xs)"

definition returned_count_ok :: "fields \<Rightarrow> bool" where
  "returned_count_ok fs = (case (as_arr (get fs ''commits''), as_safe (get fs ''returnedCount'')) of
     (Some xs, Some n) \<Rightarrow> n = int (length xs) | _ \<Rightarrow> False)"

datatype history_method = Git_Log | Git_Show | Git_Range | Git_Diff_History

fun history_method_name :: "history_method \<Rightarrow> string" where
  "history_method_name Git_Log = ''git.log''"
| "history_method_name Git_Show = ''git.show''"
| "history_method_name Git_Range = ''git.range''"
| "history_method_name Git_Diff_History = ''git.diff_history''"

text \<open>The branch of \<open>validateGitHistoryResult\<close> for each method.\<close>

fun history_shape :: "history_method \<Rightarrow> fields \<Rightarrow> bool" where
  "history_shape Git_Log fs =
     (same_keys fs [''schemaVersion'', ''resolvedOid'', ''commits'', ''returnedCount'', ''truncated'', ''truncationReasons'']
      \<and> array_within 100 (valid_commit_value False) (get fs ''commits'') \<and> returned_count_ok fs)"
| "history_shape Git_Show fs =
     (same_keys fs [''schemaVersion'', ''commit'', ''changedPaths'', ''summary'', ''patch'', ''truncated'', ''truncationReasons'']
      \<and> (case as_record (get fs ''commit'') of
           None \<Rightarrow> False
         | Some c \<Rightarrow> valid_commit False (filter (\<lambda>kv. fst kv \<noteq> js ''body'' \<and> fst kv \<noteq> js ''messageTruncated'') c)
             \<and> as_str (get c ''body'') \<noteq> None \<and> as_bool (get c ''messageTruncated'') \<noteq> None)
      \<and> array_within 500 valid_changed_path (get fs ''changedPaths'') \<and> valid_summary (get fs ''summary'')
      \<and> (get fs ''patch'' = Some JNull \<or> as_str (get fs ''patch'') \<noteq> None))"
| "history_shape Git_Range fs =
     (same_keys fs [''schemaVersion'', ''baseOid'', ''headOid'', ''isAncestor'', ''mergeBaseOid'', ''ahead'', ''behind'',
        ''commits'', ''returnedCount'', ''truncated'', ''truncationReasons'']
      \<and> as_bool (get fs ''isAncestor'') \<noteq> None \<and> bounded_count (get fs ''ahead'') \<and> bounded_count (get fs ''behind'')
      \<and> array_within 100 (valid_commit_value True) (get fs ''commits'') \<and> returned_count_ok fs)"
| "history_shape Git_Diff_History fs =
     (same_keys fs [''schemaVersion'', ''baseOid'', ''headOid'', ''changedPaths'', ''summary'', ''patch'', ''truncated'', ''truncationReasons'']
      \<and> array_within 500 valid_changed_path (get fs ''changedPaths'') \<and> valid_summary (get fs ''summary'')
      \<and> as_str (get fs ''patch'') \<noteq> None)"

definition null_or_oid :: "json option \<Rightarrow> bool" where
  "null_or_oid v = (v = None \<or> v = Some JNull \<or> oid_value v)"

definition validate_git_history_result :: "history_method \<Rightarrow> json option \<Rightarrow> manager_error + fields" where
  "validate_git_history_result method_id v = (case as_record v of
     None \<Rightarrow> Inl protocol_invalid
   | Some fs \<Rightarrow>
       if \<not> schema_one fs \<or> leaks (JObj fs)
          \<or> \<not> list_all (\<lambda>key. null_or_oid (get fs key)) [''resolvedOid'', ''baseOid'', ''headOid'', ''mergeBaseOid'']
       then Inl protocol_invalid
       else (case (as_bool (get fs ''truncated''), as_arr (get fs ''truncationReasons'')) of
          (Some t, Some rs) \<Rightarrow>
            if t = (rs \<noteq> []) \<and> history_shape method_id fs then Inr fs else Inl protocol_invalid
        | _ \<Rightarrow> Inl protocol_invalid))"

section \<open>What an accepted reply looks like\<close>

text \<open>The values inside a value, at any depth.\<close>

inductive nested :: "json \<Rightarrow> json \<Rightarrow> bool" where
  nested_refl: "nested v v"
| nested_arr: "x \<in> set xs \<Longrightarrow> nested x w \<Longrightarrow> nested (JArr xs) w"
| nested_obj: "kv \<in> set fs \<Longrightarrow> nested (snd kv) w \<Longrightarrow> nested (JObj fs) w"

lemma leaks_nested: "nested v w \<Longrightarrow> leaks w \<Longrightarrow> leaks v"
  by (induction rule: nested.induct) (auto simp: list_ex_iff)

lemma leaks_witness: "leaks v \<Longrightarrow> \<exists>gs. nested v (JObj gs) \<and> (\<exists>key \<in> fst ` set gs. key \<in> js ` set forbidden_keys)"
proof (induction v rule: leaks.induct)
  case (1 xs)
  then show ?case by (auto simp: list_ex_iff intro: nested_arr) (meson nested_arr)
next
  case (2 fs)
  from "2.prems" consider "\<exists>kv \<in> set fs. fst kv \<in> js ` set forbidden_keys"
    | kv where "kv \<in> set fs" "leaks (snd kv)"
    by (auto simp: list_ex_iff)
  then show ?case
  proof cases
    case 1
    then show ?thesis by (auto intro!: exI [of _ fs] nested_refl)
  next
    case 2
    then obtain gs where "nested (snd kv) (JObj gs)"
        "\<exists>key \<in> fst ` set gs. key \<in> js ` set forbidden_keys"
      using "2.IH" by blast
    then show ?thesis using 2(1) nested_obj by blast
  qed
qed simp_all

lemma leaks_iff: "leaks v \<longleftrightarrow>
    (\<exists>gs. nested v (JObj gs) \<and> (\<exists>key \<in> fst ` set gs. key \<in> js ` set forbidden_keys))"
proof
  assume "\<exists>gs. nested v (JObj gs) \<and> (\<exists>key \<in> fst ` set gs. key \<in> js ` set forbidden_keys)"
  then obtain gs where "nested v (JObj gs)" "leaks (JObj gs)"
    by (auto simp: list_ex_iff)
  then show "leaks v" by (rule leaks_nested)
qed (rule leaks_witness)

text \<open>
  C34. A Git history reply the host accepts has no field \<open>capabilityId\<close>, \<open>artifactId\<close>, \<open>pid\<close> or
  \<open>processGroup\<close> in any object at any depth, and is the object the kernel sent.
\<close>
theorem history_reply_leaks_nothing:
  assumes "validate_git_history_result m (Some v) = Inr fs" and "nested v (JObj gs)"
  shows "v = JObj fs \<and> get gs ''capabilityId'' = None \<and> get gs ''artifactId'' = None
    \<and> get gs ''pid'' = None \<and> get gs ''processGroup'' = None"
proof -
  have v: "v = JObj fs" and "\<not> leaks v"
    using assms(1) by (auto simp: validate_git_history_result_def as_eq_Some split: option.splits if_splits)
  then have none: "\<forall>key \<in> fst ` set gs. key \<notin> js ` set forbidden_keys" using assms(2) leaks_iff by auto
  have "get gs key = None" if "key \<in> set forbidden_keys" for key
    using none that by (force simp: get_def map_of_eq_None_iff)
  with v show ?thesis by (simp add: forbidden_keys_def)
qed

definition sample_history :: fields where
  "sample_history = [fld ''schemaVersion'' (JNum 1), fld ''resolvedOid'' (JStr (replicate 40 97)),
     fld ''commits'' (JArr []), fld ''returnedCount'' (JNum 0), fld ''truncated'' (JBool False),
     fld ''truncationReasons'' (JArr [])]"

lemma sample_history_valid:
  "validate_git_history_result Git_Log (Some (JObj sample_history)) = Inr sample_history"
  by (simp add: sample_history_def validate_git_history_result_def schema_one_def null_or_oid_def oid_value_def
      exactly_def is_lower_hex_def is_digit_def list_all_iff forbidden_keys_def same_keys_def array_within_def
      returned_count_ok_def image_iff)

theorem history_reply_leaks_nothing_witness:
  "get sample_history ''capabilityId'' = None \<and> get sample_history ''artifactId'' = None
    \<and> get sample_history ''pid'' = None \<and> get sample_history ''processGroup'' = None"
  using history_reply_leaks_nothing [OF sample_history_valid nested_refl] by blast

lemma sort_by_fixed_sorted:
  assumes "sort_by le xs = xs" and "\<And>x y. le x y \<or> le y x" and "\<And>x y z. le x y \<Longrightarrow> le y z \<Longrightarrow> le x z"
  shows "sorted_wrt le xs"
proof -
  have "sorted_wrt le (sort_by le xs)" by (rule sorted_sort_by) (fact assms(2), fact assms(3))
  with assms(1) show ?thesis by simp
qed

lemma remote_safe: "validate_remote v = Inr r \<Longrightarrow>
    is_safe_private_remote_name (gr_name r) \<and> is_safe_private_remote_url (gr_fetch_url r)"
  unfolding validate_remote_def by (auto split: option.splits if_splits)

text \<open>
  An accepted repository identity has a 40 or 64 digit lower-case head, a branch that is a safe
  reference name, and at most 32 remotes whose names are pairwise distinct and in byte order,
  each with a name and a URL within their bounds and free of control characters.
\<close>
lemma repository_identity_canonical:
  assumes "validate_git_repository_identity v = Inr g"
  shows "is_git_oid (gi_head_oid g)
    \<and> (case gi_branch g of None \<Rightarrow> True | Some b \<Rightarrow> is_safe_private_git_ref b)
    \<and> length (gi_remotes g) \<le> 32
    \<and> sorted_wrt (\<lambda>a b. bytes_le (gr_name a) (gr_name b) \<and> gr_name a \<noteq> gr_name b) (gi_remotes g)
    \<and> (\<forall>r \<in> set (gi_remotes g). is_safe_private_remote_name (gr_name r)
         \<and> is_safe_private_remote_url (gr_fetch_url r))"
proof -
  obtain fs h rs where fs: "as_record v = Some fs" and h: "as_str (get fs ''headOid'') = Some h"
    and rs: "as_arr (get fs ''remotes'') = Some rs" and oid: "is_git_oid h"
    and br: "get fs ''branch'' = Some JNull \<or>
      (case as_str (get fs ''branch'') of None \<Rightarrow> False | Some b \<Rightarrow> is_safe_private_git_ref b)"
    and le: "length rs \<le> 32" and m: "map_res validate_remote rs = Inr (gi_remotes g)"
    and dup: "\<not> has_dup (map gr_name (gi_remotes g))"
    and so: "sort_by bytes_le (map gr_name (gi_remotes g)) = map gr_name (gi_remotes g)"
    and g: "gi_head_oid g = h" "gi_branch g = as_str (get fs ''branch'')"
    using assms unfolding validate_git_repository_identity_def Let_def
    by (auto simp: bind_res_eq_Inr not_less split: option.splits if_splits)
  have "sorted_wrt bytes_le (map gr_name (gi_remotes g))"
    by (rule sort_by_fixed_sorted [OF so]) (auto simp: bytes_le_def)
  with dup have "sorted_wrt (\<lambda>a b. bytes_le (gr_name a) (gr_name b) \<and> gr_name a \<noteq> gr_name b) (gi_remotes g)"
    by (simp add: sorted_wrt_map has_dup_iff distinct_conv_nth sorted_wrt_iff_nth_less)
      (metis nat_neq_iff order.strict_trans)
  moreover have "is_safe_private_remote_name (gr_name r) \<and> is_safe_private_remote_url (gr_fetch_url r)"
    if "r \<in> set (gi_remotes g)" for r
    using map_res_in_set [OF m that] remote_safe by blast
  ultimately show ?thesis
    using oid br le map_res_length [OF m] g by (auto split: option.splits)
qed

end
