(* ===== verification/Effects.thy ===== *)
theory Effects
  imports Prelude
begin

text \<open>
  Asynchronous functions of the sources, run to their end: an action takes the state of
  everything, and gives a result or a thrown error together with the state then reached.
  \<open>bind_act\<close> is \<open>await\<close> followed by the rest of the function, \<open>catch_act\<close> is \<open>try\<close> and
  \<open>catch\<close>; what happened before an error stays in the state.
\<close>

type_synonym ('s, 'e, 'a) action = "'s \<Rightarrow> ('e + 'a) \<times> 's"

definition ret_act :: "'a \<Rightarrow> ('s, 'e, 'a) action" where
  "ret_act x s = (Inr x, s)"

definition throw_act :: "'e \<Rightarrow> ('s, 'e, 'a) action" where
  "throw_act e s = (Inl e, s)"

definition lift_act :: "'e + 'a \<Rightarrow> ('s, 'e, 'a) action" where
  "lift_act r s = (r, s)"

definition bind_act :: "('s, 'e, 'a) action \<Rightarrow> ('a \<Rightarrow> ('s, 'e, 'b) action) \<Rightarrow> ('s, 'e, 'b) action" where
  "bind_act m f s = (case m s of (Inl e, s') \<Rightarrow> (Inl e, s') | (Inr x, s') \<Rightarrow> f x s')"

definition catch_act :: "('s, 'e, 'a) action \<Rightarrow> ('e \<Rightarrow> ('s, 'e, 'a) action) \<Rightarrow> ('s, 'e, 'a) action" where
  "catch_act m h s = (case m s of (Inl e, s') \<Rightarrow> h e s' | (Inr x, s') \<Rightarrow> (Inr x, s'))"

definition guard_act :: "bool \<Rightarrow> 'e \<Rightarrow> ('s, 'e, unit) action" where
  "guard_act b e s = (if b then (Inr (), s) else (Inl e, s))"

definition read_act :: "('s \<Rightarrow> 'a) \<Rightarrow> ('s, 'e, 'a) action" where
  "read_act f s = (Inr (f s), s)"

definition write_act :: "('s \<Rightarrow> 's) \<Rightarrow> ('s, 'e, unit) action" where
  "write_act f s = (Inr (), f s)"

text \<open>\<open>for (const x of xs) await f(x);\<close>\<close>

fun for_act :: "('a \<Rightarrow> ('s, 'e, unit) action) \<Rightarrow> 'a list \<Rightarrow> ('s, 'e, unit) action" where
  "for_act f [] = ret_act ()"
| "for_act f (x # xs) = bind_act (f x) (\<lambda>_. for_act f xs)"

text \<open>The results of awaiting \<open>f(x)\<close> for every \<open>x\<close>, in order.\<close>

fun map_act :: "('a \<Rightarrow> ('s, 'e, 'b) action) \<Rightarrow> 'a list \<Rightarrow> ('s, 'e, 'b list) action" where
  "map_act f [] = ret_act []"
| "map_act f (x # xs) = bind_act (f x) (\<lambda>y. bind_act (map_act f xs) (\<lambda>ys. ret_act (y # ys)))"

named_theorems act_simps \<open>evaluation of actions\<close>

lemma ret_act_apply [act_simps]: "ret_act x s = (Inr x, s)"
  by (simp add: ret_act_def)

lemma throw_act_apply [act_simps]: "throw_act e s = (Inl e, s)"
  by (simp add: throw_act_def)

lemma lift_act_apply [act_simps]: "lift_act r s = (r, s)"
  by (simp add: lift_act_def)

lemma guard_act_apply [act_simps]: "guard_act b e s = (if b then Inr () else Inl e, s)"
  by (simp add: guard_act_def)

lemma read_act_apply [act_simps]: "read_act f s = (Inr (f s), s)"
  by (simp add: read_act_def)

lemma write_act_apply [act_simps]: "write_act f s = (Inr (), f s)"
  by (simp add: write_act_def)

lemma bind_act_eq:
  "bind_act m f s = (r, s') \<longleftrightarrow>
     (\<exists>e. m s = (Inl e, s') \<and> r = Inl e) \<or> (\<exists>x s1. m s = (Inr x, s1) \<and> f x s1 = (r, s'))"
  by (auto simp: bind_act_def split: prod.splits sum.splits)

lemma bind_act_eq_Inr:
  "bind_act m f s = (Inr y, s') \<longleftrightarrow> (\<exists>x s1. m s = (Inr x, s1) \<and> f x s1 = (Inr y, s'))"
  by (auto simp: bind_act_eq)

lemma bind_act_eq_Inl:
  "bind_act m f s = (Inl e, s') \<longleftrightarrow>
     m s = (Inl e, s') \<or> (\<exists>x s1. m s = (Inr x, s1) \<and> f x s1 = (Inl e, s'))"
  by (auto simp: bind_act_eq)

lemma catch_act_eq:
  "catch_act m h s = (r, s') \<longleftrightarrow>
     (\<exists>x. m s = (Inr x, s') \<and> r = Inr x) \<or> (\<exists>e s1. m s = (Inl e, s1) \<and> h e s1 = (r, s'))"
  by (auto simp: catch_act_def split: prod.splits sum.splits)

section \<open>Relations every run respects\<close>

text \<open>
  A relation between the state before and after holds of a whole function when it is
  reflexive, transitive and holds of its calls.
\<close>

definition obeys :: "('s \<Rightarrow> 's \<Rightarrow> bool) \<Rightarrow> ('s, 'e, 'a) action \<Rightarrow> bool" where
  "obeys R m = (\<forall>s. R s (snd (m s)))"

locale run_relation =
  fixes R :: "'s \<Rightarrow> 's \<Rightarrow> bool"
  assumes R_refl: "R s s"
    and R_trans: "R s t \<Longrightarrow> R t u \<Longrightarrow> R s u"
begin

lemma obeys_pure:
  "obeys R (ret_act x)" "obeys R (throw_act e)" "obeys R (lift_act r)"
  "obeys R (guard_act b e)" "obeys R (read_act f)"
  by (simp_all add: obeys_def act_simps R_refl)

lemma obeys_bind:
  assumes "obeys R m" and "\<And>x. obeys R (f x)"
  shows "obeys R (bind_act m f)"
  unfolding obeys_def
proof
  fix s
  obtain r s1 where m: "m s = (r, s1)" by (rule prod.exhaust)
  then have "R s s1" using assms(1) unfolding obeys_def by (metis snd_conv)
  moreover have "R s1 (snd (f x s1))" for x using assms(2) by (simp add: obeys_def)
  ultimately show "R s (snd (bind_act m f s))"
    using m by (auto simp: bind_act_def intro: R_trans split: sum.splits)
qed

lemma obeys_catch:
  assumes "obeys R m" and "\<And>e. obeys R (h e)"
  shows "obeys R (catch_act m h)"
  unfolding obeys_def
proof
  fix s
  obtain r s1 where m: "m s = (r, s1)" by (rule prod.exhaust)
  then have "R s s1" using assms(1) unfolding obeys_def by (metis snd_conv)
  moreover have "R s1 (snd (h e s1))" for e using assms(2) by (simp add: obeys_def)
  ultimately show "R s (snd (catch_act m h s))"
    using m by (auto simp: catch_act_def intro: R_trans split: sum.splits)
qed

lemma obeys_for: "(\<And>x. obeys R (f x)) \<Longrightarrow> obeys R (for_act f xs)"
  by (induction xs) (simp_all add: obeys_pure obeys_bind)

lemma obeys_map: "(\<And>x. obeys R (f x)) \<Longrightarrow> obeys R (map_act f xs)"
  by (induction xs) (simp_all add: obeys_pure obeys_bind)

lemma obeys_if:
  "(b \<Longrightarrow> obeys R m) \<Longrightarrow> (\<not> b \<Longrightarrow> obeys R n) \<Longrightarrow> obeys R (if b then m else n)"
  by simp

lemma obeys_option:
  "obeys R m \<Longrightarrow> (\<And>x. obeys R (f x)) \<Longrightarrow> obeys R (case v of None \<Rightarrow> m | Some x \<Rightarrow> f x)"
  by (cases v) simp_all

lemma obeys_prod:
  "(\<And>x y. obeys R (f x y)) \<Longrightarrow> obeys R (case v of (x, y) \<Rightarrow> f x y)"
  by (cases v) simp

lemmas obeys_intros = obeys_pure obeys_bind obeys_catch obeys_for obeys_map obeys_if
  obeys_option obeys_prod

end

section \<open>Postconditions\<close>

text \<open>
  \<open>wp m Q E s\<close>: run from \<open>s\<close>, a result of \<open>m\<close> satisfies \<open>Q\<close> and an error \<open>E\<close>, each with the
  state reached. The rules follow the structure of the function, so that a proof meets one
  subgoal for each way a call can end.
\<close>

definition wp :: "('s, 'e, 'a) action \<Rightarrow> ('a \<Rightarrow> 's \<Rightarrow> bool) \<Rightarrow> ('e \<Rightarrow> 's \<Rightarrow> bool) \<Rightarrow> 's \<Rightarrow> bool" where
  "wp m Q E s = (case m s of (Inr x, s') \<Rightarrow> Q x s' | (Inl e, s') \<Rightarrow> E e s')"

named_theorems wp_intros \<open>structural rules of postconditions\<close>

lemma wpD:
  assumes "wp m Q E s" and "m s = (r, s')"
  shows "case r of Inr x \<Rightarrow> Q x s' | Inl e \<Rightarrow> E e s'"
  using assms by (simp add: wp_def)

lemma wpI: "(\<And>x s'. m s = (Inr x, s') \<Longrightarrow> Q x s') \<Longrightarrow> (\<And>e s'. m s = (Inl e, s') \<Longrightarrow> E e s') \<Longrightarrow> wp m Q E s"
  by (simp add: wp_def split: prod.splits sum.splits)

lemma wp_bind [wp_intros]: "wp m (\<lambda>x. wp (f x) Q E) E s \<Longrightarrow> wp (bind_act m f) Q E s"
  by (auto simp: wp_def bind_act_def split: prod.splits sum.splits)

lemma wp_catch [wp_intros]: "wp m Q (\<lambda>e. wp (h e) Q E) s \<Longrightarrow> wp (catch_act m h) Q E s"
  by (auto simp: wp_def catch_act_def split: prod.splits sum.splits)

lemma wp_ret [wp_intros]: "Q x s \<Longrightarrow> wp (ret_act x) Q E s"
  by (simp add: wp_def act_simps)

lemma wp_throw [wp_intros]: "E e s \<Longrightarrow> wp (throw_act e) Q E s"
  by (simp add: wp_def act_simps)

lemma wp_lift [wp_intros]:
  "(\<And>x. r = Inr x \<Longrightarrow> Q x s) \<Longrightarrow> (\<And>e. r = Inl e \<Longrightarrow> E e s) \<Longrightarrow> wp (lift_act r) Q E s"
  by (auto simp: wp_def act_simps split: sum.splits)

lemma wp_guard [wp_intros]: "(b \<Longrightarrow> Q () s) \<Longrightarrow> (\<not> b \<Longrightarrow> E e s) \<Longrightarrow> wp (guard_act b e) Q E s"
  by (simp add: wp_def act_simps)

lemma wp_read [wp_intros]: "Q (f s) s \<Longrightarrow> wp (read_act f) Q E s"
  by (simp add: wp_def act_simps)

lemma wp_write [wp_intros]: "Q () (f s) \<Longrightarrow> wp (write_act f) Q E s"
  by (simp add: wp_def act_simps)

lemma wp_prod [wp_intros]: "(\<And>x y. v = (x, y) \<Longrightarrow> wp (f x y) Q E s) \<Longrightarrow> wp (case v of (x, y) \<Rightarrow> f x y) Q E s"
  by (cases v) simp

lemma wp_option [wp_intros]:
  "(v = None \<Longrightarrow> wp m Q E s) \<Longrightarrow> (\<And>x. v = Some x \<Longrightarrow> wp (f x) Q E s) \<Longrightarrow>
     wp (case v of None \<Rightarrow> m | Some x \<Rightarrow> f x) Q E s"
  by (cases v) simp_all

lemma wp_let [wp_intros]: "wp (f x) Q E s \<Longrightarrow> wp (Let x f) Q E s"
  by simp

lemma wp_mono:
  "wp m Q E s \<Longrightarrow> (\<And>x s'. Q x s' \<Longrightarrow> Q' x s') \<Longrightarrow> (\<And>e s'. E e s' \<Longrightarrow> E' e s') \<Longrightarrow> wp m Q' E' s"
  by (auto simp: wp_def split: prod.splits sum.splits)

lemma wp_for:
  assumes "I s" and "\<And>x s. x \<in> set xs \<Longrightarrow> I s \<Longrightarrow> wp (f x) (\<lambda>_. I) E s"
    and "\<And>s. I s \<Longrightarrow> Q () s"
  shows "wp (for_act f xs) Q E s"
  using assms
proof (induction xs arbitrary: s)
  case Nil
  then show ?case by (simp add: wp_ret)
next
  case (Cons x xs)
  have "wp (f x) (\<lambda>_. I) E s" using Cons.prems by simp
  then have "wp (f x) (\<lambda>_. wp (for_act f xs) Q E) E s"
    by (rule wp_mono) (rule Cons.IH; simp add: Cons.prems)+
  then show ?case by (simp add: wp_bind)
qed

context run_relation
begin

text \<open>A loop that collects results: what holds of a result stays true while the loop goes on.\<close>

lemma wp_map:
  assumes "I s" and step: "\<And>x t. x \<in> set xs \<Longrightarrow> I t \<Longrightarrow> wp (f x) (\<lambda>y u. I u \<and> R t u \<and> P x y u) E t"
    and stable: "\<And>x y t u. P x y t \<Longrightarrow> R t u \<Longrightarrow> P x y u"
    and "\<And>ys u. list_all2 (\<lambda>x y. P x y u) xs ys \<Longrightarrow> I u \<Longrightarrow> R s u \<Longrightarrow> Q ys u"
  shows "wp (map_act f xs) Q E s"
  using assms(1,2,4)
proof (induction xs arbitrary: s Q)
  case Nil
  then show ?case by (simp add: wp_ret R_refl)
next
  case (Cons x xs)
  have "wp (f x) (\<lambda>y u. I u \<and> R s u \<and> P x y u) E s" using Cons.prems by simp
  then show ?case
    unfolding map_act.simps
  proof (intro wp_bind, elim wp_mono)
    fix y t
    assume y: "I t \<and> R s t \<and> P x y t"
    show "wp (bind_act (map_act f xs) (\<lambda>ys. ret_act (y # ys))) Q E t"
    proof (rule wp_bind, rule Cons.IH)
      fix ys u
      assume "list_all2 (\<lambda>x y. P x y u) xs ys" "I u" "R t u"
      then show "wp (ret_act (y # ys)) Q E u"
        using y by (intro wp_ret Cons.prems(3)) (auto intro: stable R_trans)
    qed (use y Cons.prems(2) in auto)
  qed
qed

lemma wp_obeys: "obeys R m \<Longrightarrow> wp m (\<lambda>_. R s) (\<lambda>_. R s) s"
  by (auto simp: wp_def obeys_def split: prod.splits sum.splits) (metis snd_conv)+

end

end
