(* ===== verification/Workspace_Manager.thy ===== *)
theory Workspace_Manager
  imports Kernel_Payloads Effects
begin

text \<open>
  \<open>packages/core/src/workspace-manager.ts\<close>: the \<open>WorkspaceManager\<close>, which opens workspaces
  under the user's trust decisions, hands every capability request of a READY workspace to the
  kernel, and closes them again. Each method is one action on a session: the \<open>#workspaces\<close> map
  and the state of the world (kernel, trust store, checkpoint store), whose interfaces are the
  functions of a \<open>host\<close>. Generated identifiers, \<open>JSON.parse\<close>, \<open>localeCompare\<close> and the passing of
  the close deadline are arguments.
\<close>

section \<open>State\<close>

datatype workspace_phase = Opening | Ready | Closing

record workspace_state =
  wk_phase :: workspace_phase
  wk_close_in_flight :: bool
  wk_root :: "jsstring option"
  wk_trust_id :: "jsstring option"
  wk_capability :: "jsstring option"
  wk_policy :: "policy option"

record 'k session =
  workspaces :: "(jsstring \<times> workspace_state) list"
  world :: 'k

record 'k checkpoint_storage =
  cs_read :: "jsstring \<Rightarrow> 'k \<Rightarrow> (checkpoint_error + continuity option) \<times> 'k"
  cs_upsert :: "jsstring \<Rightarrow> json option \<Rightarrow> json option \<Rightarrow> json option \<Rightarrow> 'k \<Rightarrow> (checkpoint_error + checkpoint) \<times> 'k"
  cs_clear :: "jsstring \<Rightarrow> json option \<Rightarrow> 'k \<Rightarrow> (checkpoint_error + unit) \<times> 'k"
  cs_purge :: "jsstring \<Rightarrow> 'k \<Rightarrow> (checkpoint_error + unit) \<times> 'k"

record 'k host =
  h_kernel :: "'k kernel"
  h_trust_list :: "'k \<Rightarrow> (trust_error + trusted_entry list) \<times> 'k"
  h_trust :: "jsstring \<Rightarrow> filesystem_identity \<Rightarrow> profile_name \<Rightarrow> 'k \<Rightarrow> (trust_error + trusted_entry) \<times> 'k"
  h_untrust :: "jsstring \<Rightarrow> 'k \<Rightarrow> (trust_error + bool) \<times> 'k"
  h_require_trusted :: "jsstring \<Rightarrow> filesystem_identity \<Rightarrow> 'k \<Rightarrow> (trust_error + trusted_entry) \<times> 'k"
  h_checkpoints :: "'k checkpoint_storage option"

type_synonym ('k, 'a) manager_act = "('k session, manager_error, 'a) action"

record open_workspace =
  ow_id :: jsstring
  ow_root :: jsstring
  ow_policy :: policy

definition new_workspace :: workspace_state where
  "new_workspace = \<lparr>wk_phase = Opening, wk_close_in_flight = False, wk_root = None, wk_trust_id = None,
     wk_capability = None, wk_policy = None\<rparr>"

definition on_workspaces :: "((jsstring \<times> workspace_state) list \<Rightarrow> (jsstring \<times> workspace_state) list) \<Rightarrow>
    ('k, unit) manager_act" where
  "on_workspaces f = write_act (\<lambda>s. s\<lparr>workspaces := f (workspaces s)\<rparr>)"

text \<open>Assignments to the state object that sits in the map.\<close>

definition update_workspace :: "jsstring \<Rightarrow> (workspace_state \<Rightarrow> workspace_state) \<Rightarrow> ('k, unit) manager_act" where
  "update_workspace i f = on_workspaces (\<lambda>m. case map_of m i of None \<Rightarrow> m | Some w \<Rightarrow> AList.update i (f w) m)"

text \<open>A call into the world, with its errors wrapped.\<close>

definition call_world :: "('e \<Rightarrow> manager_error) \<Rightarrow> ('k \<Rightarrow> ('e + 'a) \<times> 'k) \<Rightarrow> ('k, 'a) manager_act" where
  "call_world wrap f s = (case f (world s) of
     (Inl e, k) \<Rightarrow> (Inl (wrap e), s\<lparr>world := k\<rparr>)
   | (Inr x, k) \<Rightarrow> (Inr x, s\<lparr>world := k\<rparr>))"

definition kernel_request :: "'k host \<Rightarrow> string \<Rightarrow> fields \<Rightarrow> ('k, json) manager_act" where
  "kernel_request h m ps = call_world Kernel_Failed (h_kernel h m ps)"

definition reply_ok :: "json \<Rightarrow> bool" where
  "reply_ok v = (case as_record (Some v) of None \<Rightarrow> False | Some fs \<Rightarrow> get fs ''ok'' = Some (JBool True))"

definition request_ok :: "'k host \<Rightarrow> string \<Rightarrow> fields \<Rightarrow> ('k, unit) manager_act" where
  "request_ok h m ps = bind_act (kernel_request h m ps) (\<lambda>v.
     guard_act (reply_ok v) protocol_invalid)"

definition audit_trust :: "'k host \<Rightarrow> jsstring \<Rightarrow> string \<Rightarrow> string \<Rightarrow> ('k, unit) manager_act" where
  "audit_trust h op act_name phase = request_ok h ''trust.audit''
     [fld ''operationId'' (JStr op), fld ''action'' (JStr (js act_name)), fld ''phase'' (JStr (js phase))]"

definition audit_checkpoint :: "'k host \<Rightarrow> jsstring \<Rightarrow> string \<Rightarrow> string \<Rightarrow> ('k, unit) manager_act" where
  "audit_checkpoint h op act_name phase = request_ok h ''workspace.checkpoint_audit''
     [fld ''operationId'' (JStr op), fld ''action'' (JStr (js act_name)), fld ''phase'' (JStr (js phase))]"

definition capability_field :: "jsstring \<Rightarrow> jsstring \<times> json" where
  "capability_field cap = fld ''capabilityId'' (JStr cap)"

definition public_workspace :: "jsstring \<Rightarrow> workspace_state \<Rightarrow> manager_error + open_workspace" where
  "public_workspace i w = (case (wk_phase w, wk_root w, wk_policy w) of
     (Ready, Some root, Some p) \<Rightarrow> Inr \<lparr>ow_id = i, ow_root = root, ow_policy = p\<rparr>
   | _ \<Rightarrow> Inl Workspace_Not_Ready)"

section \<open>Opening\<close>

definition parse_project_profile :: "(jsstring \<Rightarrow> json option) \<Rightarrow> jsstring \<Rightarrow> manager_error + policy" where
  "parse_project_profile parse contents = (case parse contents of
     None \<Rightarrow> Inl Project_Profile_Invalid
   | Some v \<Rightarrow> (case parse_policy (Some v) of
       None \<Rightarrow> Inl Project_Profile_Invalid | Some p \<Rightarrow> Inr p))"

text \<open>\<open>inspected.identity\<close>, which is sent back as it came.\<close>

definition inspected_identity :: "json \<Rightarrow> json" where
  "inspected_identity v = (case as_record (Some v) of
     None \<Rightarrow> JNull
   | Some fs \<Rightarrow> (case get fs ''identity'' of None \<Rightarrow> JNull | Some x \<Rightarrow> x))"

definition parse_register_result :: "json \<Rightarrow> manager_error + jsstring" where
  "parse_register_result v = valid_or (case as_record (Some v) of
     None \<Rightarrow> None
   | Some fs \<Rightarrow> (case as_str (get fs ''capabilityId'') of
       None \<Rightarrow> None | Some c \<Rightarrow> if c = [] then None else Some c))"

definition parse_profile_result :: "json \<Rightarrow> manager_error + jsstring option" where
  "parse_profile_result v = valid_or (case as_record (Some v) of
     None \<Rightarrow> None
   | Some fs \<Rightarrow> if get fs ''contents'' = Some JNull then Some None
       else map_option Some (as_str (get fs ''contents'')))"

definition effective_policy ::
    "(jsstring \<Rightarrow> json option) \<Rightarrow> policy \<Rightarrow> jsstring option \<Rightarrow> manager_error + policy" where
  "effective_policy parse ceiling contents =
     bind_res (case contents of None \<Rightarrow> Inr ceiling | Some c \<Rightarrow> parse_project_profile parse c) (\<lambda>restriction.
     (case resolve_profile ceiling restriction of
        Inl e \<Rightarrow> Inl (Profile_Failed e) | Inr p \<Rightarrow> Inr p))"

text \<open>The \<open>try\<close> block of \<open>openWorkspace\<close>.\<close>

definition open_body :: "'k host \<Rightarrow> (jsstring \<Rightarrow> json option) \<Rightarrow> jsstring \<Rightarrow> jsstring \<Rightarrow>
    ('k, open_workspace) manager_act" where
  "open_body h parse i root_path =
     bind_act (kernel_request h ''system.inspect_root'' [fld ''path'' (JStr root_path)]) (\<lambda>v.
     bind_act (lift_act (validate_inspect_result (Some v))) (\<lambda>(root, ident).
     bind_act (update_workspace i (\<lambda>w. w\<lparr>wk_root := Some root\<rparr>)) (\<lambda>_.
     bind_act (call_world Trust_Failed (h_require_trusted h root ident)) (\<lambda>trusted.
     bind_act (update_workspace i (\<lambda>w. w\<lparr>wk_trust_id := Some (entry_id trusted)\<rparr>)) (\<lambda>_.
     let ceiling = get_profile_preset (profile_ceiling trusted) in
     bind_act (kernel_request h ''workspace.register'' [fld ''rootPath'' (JStr root),
         fld ''expectedIdentity'' (inspected_identity v), fld ''ceiling'' (policy_json ceiling)]) (\<lambda>reg.
     bind_act (lift_act (parse_register_result reg)) (\<lambda>cap.
     bind_act (update_workspace i (\<lambda>w. w\<lparr>wk_capability := Some cap\<rparr>)) (\<lambda>_.
     bind_act (kernel_request h ''workspace.read_project_profile'' [capability_field cap]) (\<lambda>prof.
     bind_act (lift_act (parse_profile_result prof)) (\<lambda>contents.
     bind_act (lift_act (effective_policy parse ceiling contents)) (\<lambda>pol.
     bind_act (request_ok h ''workspace.restrict_policy''
         [capability_field cap, fld ''restriction'' (policy_json pol)]) (\<lambda>_.
     bind_act (request_ok h ''workspace.activate'' [capability_field cap]) (\<lambda>_.
     bind_act (update_workspace i (\<lambda>w. w\<lparr>wk_policy := Some pol, wk_phase := Ready\<rparr>)) (\<lambda>_.
     bind_act (read_act (\<lambda>s. map_of (workspaces s) i)) (\<lambda>w.
       lift_act (case w of None \<Rightarrow> Inl Workspace_Not_Ready | Some w \<Rightarrow> public_workspace i w))))))))))))))))"

text \<open>Its \<open>catch\<close> block.\<close>

definition open_failed :: "'k host \<Rightarrow> jsstring \<Rightarrow> manager_error \<Rightarrow> ('k, 'a) manager_act" where
  "open_failed h i e =
     bind_act (read_act (\<lambda>s. Option.bind (map_of (workspaces s) i) wk_capability)) (\<lambda>cap.
     bind_act (on_workspaces (AList.delete i)) (\<lambda>_.
     bind_act (case cap of
         None \<Rightarrow> ret_act ()
       | Some c \<Rightarrow> catch_act (request_ok h ''workspace.unregister'' [capability_field c]) (\<lambda>_. ret_act ())) (\<lambda>_.
       throw_act e)))"

definition open_workspace :: "'k host \<Rightarrow> (jsstring \<Rightarrow> json option) \<Rightarrow> jsstring \<Rightarrow> jsstring \<Rightarrow>
    ('k, open_workspace) manager_act" where
  "open_workspace h parse fresh root_path =
     bind_act (guard_act (root_path \<noteq> []) Type_Error) (\<lambda>_.
     bind_act (read_act (\<lambda>s. map_of (workspaces s) fresh)) (\<lambda>existing.
     bind_act (guard_act (existing = None) (Manager_Error ''WORKSPACE_ID_COLLISION'')) (\<lambda>_.
     bind_act (on_workspaces (AList.update fresh new_workspace)) (\<lambda>_.
       catch_act (open_body h parse fresh root_path) (open_failed h fresh)))))"

definition list_workspaces :: "(jsstring \<Rightarrow> jsstring \<Rightarrow> bool) \<Rightarrow> ('k, open_workspace list) manager_act" where
  "list_workspaces locale_le =
     bind_act (read_act workspaces) (\<lambda>m.
     bind_act (lift_act (map_res (\<lambda>iw. public_workspace (fst iw) (snd iw))
         (filter (\<lambda>iw. wk_phase (snd iw) = Ready \<and> wk_capability (snd iw) \<noteq> None) m))) (\<lambda>ws.
       ret_act (sort_by (\<lambda>a b. locale_le (ow_id a) (ow_id b)) ws)))"

section \<open>Trust\<close>

record trusted_summary =
  ts_id :: jsstring
  ts_root :: jsstring
  ts_ceiling :: profile_name
  ts_trusted_at :: jsstring

definition public_trusted_workspace :: "trusted_entry \<Rightarrow> trusted_summary" where
  "public_trusted_workspace e = \<lparr>ts_id = entry_id e, ts_root = canonical_root e,
     ts_ceiling = profile_ceiling e, ts_trusted_at = trusted_at e\<rparr>"

definition trust_workspace :: "'k host \<Rightarrow> jsstring \<Rightarrow> jsstring \<Rightarrow> profile_name \<Rightarrow>
    ('k, trusted_summary) manager_act" where
  "trust_workspace h op root_path ceil =
     bind_act (guard_act (root_path \<noteq> []) Type_Error) (\<lambda>_.
     bind_act (kernel_request h ''system.inspect_root'' [fld ''path'' (JStr root_path)]) (\<lambda>v.
     bind_act (lift_act (validate_inspect_result (Some v))) (\<lambda>(root, ident).
     bind_act (call_world Trust_Failed (h_trust_list h)) (\<lambda>es.
     let act_name = (if list_ex (\<lambda>e. canonical_root e = root) es then ''profile_update'' else ''trust'') in
     bind_act (audit_trust h op act_name ''decision'') (\<lambda>_.
     bind_act (catch_act (call_world Trust_Failed (h_trust h root ident ceil))
         (\<lambda>e. bind_act (audit_trust h op act_name ''failed'') (\<lambda>_. throw_act e))) (\<lambda>entry.
     bind_act (audit_trust h op act_name ''success'') (\<lambda>_.
       ret_act (public_trusted_workspace entry))))))))"

definition list_trusted_workspaces :: "(jsstring \<Rightarrow> jsstring \<Rightarrow> bool) \<Rightarrow> 'k host \<Rightarrow>
    ('k, trusted_summary list) manager_act" where
  "list_trusted_workspaces locale_le h =
     bind_act (call_world Trust_Failed (h_trust_list h)) (\<lambda>es.
       ret_act (sort_by (\<lambda>a b. locale_le (ts_root a) (ts_root b)) (map public_trusted_workspace es)))"

section \<open>Closing\<close>

text \<open>
  \<open>beforeDeadline(request, deadline)\<close>: the request is sent in any case; \<open>late\<close> says that the
  deadline passes before its answer, which is then ignored.
\<close>

definition before_deadline :: "bool \<Rightarrow> ('k, unit) manager_act \<Rightarrow> ('k, unit) manager_act" where
  "before_deadline late m = (\<lambda>s. let (r, s') = m s in (if late then Inl Close_Incomplete else r, s'))"

definition close_workspace :: "(nat \<Rightarrow> bool) \<Rightarrow> 'k host \<Rightarrow> jsstring \<Rightarrow> ('k, unit) manager_act" where
  "close_workspace late h i =
     bind_act (read_act (\<lambda>s. map_of (workspaces s) i)) (\<lambda>found.
     case found of
       None \<Rightarrow> throw_act Workspace_Not_Found
     | Some w \<Rightarrow>
         (case wk_capability w of
            None \<Rightarrow> throw_act Workspace_Not_Ready
          | Some cap \<Rightarrow>
              bind_act (guard_act (wk_phase w \<noteq> Opening \<and> \<not> wk_close_in_flight w) Workspace_Not_Ready) (\<lambda>_.
              bind_act (update_workspace i (\<lambda>w. w\<lparr>wk_phase := Closing, wk_close_in_flight := True\<rparr>)) (\<lambda>_.
              catch_act
                (bind_act (before_deadline (late 0) (request_ok h ''workspace.begin_close'' [capability_field cap])) (\<lambda>_.
                 bind_act (before_deadline (late 1) (request_ok h ''workspace.cancel_executions'' [capability_field cap])) (\<lambda>_.
                 bind_act (before_deadline (late 2) (request_ok h ''workspace.unregister'' [capability_field cap])) (\<lambda>_.
                   on_workspaces (AList.delete i)))))
                (\<lambda>_. bind_act (update_workspace i (\<lambda>w. w\<lparr>wk_close_in_flight := False\<rparr>)) (\<lambda>_.
                   throw_act Close_Incomplete))))))"

text \<open>The states \<open>untrustWorkspace\<close> has to close.\<close>

definition bound_to :: "jsstring \<Rightarrow> trusted_entry option \<Rightarrow> workspace_state \<Rightarrow> bool" where
  "bound_to trust_id trusted w = (wk_trust_id w = Some trust_id
     \<or> (case trusted of None \<Rightarrow> False | Some e \<Rightarrow> wk_root w = Some (canonical_root e)))"

definition untrust_workspace :: "(jsstring \<Rightarrow> nat \<Rightarrow> bool) \<Rightarrow> 'k host \<Rightarrow> jsstring \<Rightarrow> jsstring \<Rightarrow>
    ('k, bool) manager_act" where
  "untrust_workspace late h op trust_id =
     bind_act (guard_act (trust_id \<noteq> []) Type_Error) (\<lambda>_.
     bind_act (call_world Trust_Failed (h_trust_list h)) (\<lambda>es.
     let trusted = find (\<lambda>e. entry_id e = trust_id) es in
     bind_act (read_act (\<lambda>s. filter (\<lambda>iw. bound_to trust_id trusted (snd iw)) (workspaces s))) (\<lambda>bound.
     bind_act (guard_act (list_all (\<lambda>iw. wk_phase (snd iw) = Ready) bound) Workspace_Not_Ready) (\<lambda>_.
     bind_act (audit_trust h op ''untrust'' ''decision'') (\<lambda>_.
     bind_act
       (catch_act
         (bind_act (for_act (\<lambda>iw. close_workspace (late (fst iw)) h (fst iw)) bound) (\<lambda>_.
          bind_act (case h_checkpoints h of
              None \<Rightarrow> ret_act ()
            | Some cs \<Rightarrow> call_world Checkpoint_Failed (cs_purge cs trust_id)) (\<lambda>_.
            call_world Trust_Failed (h_untrust h trust_id))))
         (\<lambda>e. bind_act (audit_trust h op ''untrust'' ''failed'') (\<lambda>_. throw_act e))) (\<lambda>removed.
     bind_act (audit_trust h op ''untrust'' ''success'') (\<lambda>_.
       ret_act removed)))))))"

section \<open>Postconditions of the calls\<close>

lemma wp_on_workspaces [wp_intros]:
  "Q () (s\<lparr>workspaces := f (workspaces s)\<rparr>) \<Longrightarrow> wp (on_workspaces f) Q E s"
  unfolding on_workspaces_def by (rule wp_write)

lemma wp_call_world [wp_intros]:
  "(\<And>x k. f (world s) = (Inr x, k) \<Longrightarrow> Q x (s\<lparr>world := k\<rparr>)) \<Longrightarrow>
   (\<And>e k. f (world s) = (Inl e, k) \<Longrightarrow> E (wrap e) (s\<lparr>world := k\<rparr>)) \<Longrightarrow> wp (call_world wrap f) Q E s"
  by (simp add: wp_def call_world_def split: prod.splits sum.splits)

lemma wp_kernel_request [wp_intros]:
  "(\<And>x k. h_kernel h m ps (world s) = (Inr x, k) \<Longrightarrow> Q x (s\<lparr>world := k\<rparr>)) \<Longrightarrow>
   (\<And>e k. h_kernel h m ps (world s) = (Inl e, k) \<Longrightarrow> E (Kernel_Failed e) (s\<lparr>world := k\<rparr>)) \<Longrightarrow>
   wp (kernel_request h m ps) Q E s"
  unfolding kernel_request_def by (rule wp_call_world)

lemma wp_request_ok [wp_intros]:
  "(\<And>x k. h_kernel h m ps (world s) = (Inr x, k) \<Longrightarrow> reply_ok x \<Longrightarrow> Q () (s\<lparr>world := k\<rparr>)) \<Longrightarrow>
   (\<And>r e k. h_kernel h m ps (world s) = (r, k) \<Longrightarrow> E e (s\<lparr>world := k\<rparr>)) \<Longrightarrow>
   wp (request_ok h m ps) Q E s"
  unfolding request_ok_def by (intro wp_intros) simp_all

lemma update_assoc_update:
  "AList.update i v (AList.update i w m) = AList.update i v m"
  by (induction m) auto

lemma wp_update_workspace [wp_intros]:
  assumes "workspaces s = AList.update i w m"
    and "Q () (s\<lparr>workspaces := AList.update i (f w) m\<rparr>)"
  shows "wp (update_workspace i f) Q E s"
  unfolding update_workspace_def
  by (rule wp_on_workspaces) (use assms in \<open>simp add: update_assoc_update\<close>)

end
