(* ===== verification/Workspace_Calls.thy ===== *)
theory Workspace_Calls
  imports Workspace_Manager Patch
begin

text \<open>
  The capability requests of \<open>packages/core/src/workspace-manager.ts\<close>: information, checkpoints,
  files, Git, processes, tree and search. Each checks its input, requires a READY workspace,
  sends one request with that workspace's capability, and validates the reply. Inputs that the
  TypeScript types bound to numbers are integers here.
\<close>

section \<open>The READY gate\<close>

definition require_ready_state :: "jsstring \<Rightarrow> ('k, workspace_state \<times> jsstring) manager_act" where
  "require_ready_state i = bind_act (read_act (\<lambda>s. map_of (workspaces s) i)) (\<lambda>found.
     lift_act (case found of
       None \<Rightarrow> Inl Workspace_Not_Found
     | Some w \<Rightarrow> (case wk_capability w of
         None \<Rightarrow> Inl Workspace_Not_Ready
       | Some cap \<Rightarrow> if wk_phase w = Ready then Inr (w, cap) else Inl Workspace_Not_Ready)))"

definition require_ready :: "jsstring \<Rightarrow> ('k, open_workspace) manager_act" where
  "require_ready i = bind_act (require_ready_state i) (\<lambda>wc. lift_act (public_workspace i (fst wc)))"

definition require_ready_trust_id :: "workspace_state \<Rightarrow> manager_error + jsstring" where
  "require_ready_trust_id w = (case wk_trust_id w of
     None \<Rightarrow> Inl Workspace_Not_Ready
   | Some t \<Rightarrow> if wk_phase w = Ready then Inr t else Inl Workspace_Not_Ready)"

text \<open>One request of a READY workspace.\<close>

definition ready_call :: "'k host \<Rightarrow> jsstring \<Rightarrow> string \<Rightarrow> fields \<Rightarrow> (json option \<Rightarrow> manager_error + 'a) \<Rightarrow>
    ('k, 'a) manager_act" where
  "ready_call h i m ps validate =
     bind_act (require_ready_state i) (\<lambda>wc.
     bind_act (kernel_request h m (capability_field (snd wc) # ps)) (\<lambda>v.
       lift_act (validate (Some v))))"

text \<open>\<open>catch\<close> blocks that turn kernel errors with known messages into codes of the manager.\<close>

definition translate_error :: "(string \<times> string) list \<Rightarrow> manager_error \<Rightarrow> manager_error" where
  "translate_error table e = (case e of
     Kernel_Failed (Rpc_Error msg) \<Rightarrow> (case find (\<lambda>mc. js (fst mc) = msg) table of
       None \<Rightarrow> e | Some mc \<Rightarrow> Manager_Error (snd mc))
   | _ \<Rightarrow> e)"

definition translating :: "(string \<times> string) list \<Rightarrow> ('k, 'a) manager_act \<Rightarrow> ('k, 'a) manager_act" where
  "translating table m = catch_act m (\<lambda>e. throw_act (translate_error table e))"

definition same_codes :: "string list \<Rightarrow> (string \<times> string) list" where
  "same_codes cs = map (\<lambda>c. (c, c)) cs"

definition git_mutation_error_codes :: "string list" where
  "git_mutation_error_codes = [''GIT_POLICY_DENIED'', ''GIT_MUTATION_INPUT_INVALID'',
     ''GIT_MUTATION_UNAVAILABLE'', ''GIT_MUTATION_FAILED'']"

definition git_worktree_error_codes :: "string list" where
  "git_worktree_error_codes = [''WORKSPACE_NOT_READY'', ''GIT_POLICY_DENIED'', ''GIT_WORKTREE_INPUT_INVALID'',
     ''GIT_WORKTREE_TARGET_EXISTS'', ''GIT_WORKTREE_BRANCH_MISSING'', ''GIT_WORKTREE_BRANCH_IN_USE'',
     ''GIT_WORKTREE_METADATA_INVALID'', ''GIT_WORKTREE_DIRTY'', ''GIT_WORKTREE_LOCKED'',
     ''GIT_WORKTREE_UNAVAILABLE'', ''GIT_WORKTREE_FAILED'', ''GIT_WORKTREE_INCONSISTENT'']"

definition git_remote_mutation_error_codes :: "string list" where
  "git_remote_mutation_error_codes = [''GIT_REMOTE_POLICY_DENIED'', ''GIT_REMOTE_INPUT_INVALID'',
     ''GIT_REMOTE_UNAVAILABLE'', ''GIT_REMOTE_FAILED'']"

definition git_history_error_codes :: "string list" where
  "git_history_error_codes = [''NOT_A_GIT_REPOSITORY'', ''REVISION_INVALID'', ''REVISION_NOT_FOUND'',
     ''OBJECT_TYPE_UNSUPPORTED'', ''PATH_INVALID'', ''OUTPUT_LIMIT_EXCEEDED'', ''PROCESS_TIMEOUT'',
     ''GIT_UNAVAILABLE'', ''GIT_READ_FAILED'']"

section \<open>Information and checkpoints\<close>

definition workspace_info :: "'k host \<Rightarrow> jsstring \<Rightarrow> ('k, open_workspace \<times> continuity option) manager_act" where
  "workspace_info h i =
     bind_act (require_ready_state i) (\<lambda>wc.
     bind_act (lift_act (public_workspace i (fst wc))) (\<lambda>ow.
     case h_checkpoints h of
       None \<Rightarrow> ret_act (ow, None)
     | Some cs \<Rightarrow>
         bind_act (lift_act (require_ready_trust_id (fst wc))) (\<lambda>t.
         bind_act (call_world Checkpoint_Failed (cs_read cs t)) (\<lambda>r.
           ret_act (ow, r)))))"

datatype checkpoint_input =
    Upsert_Checkpoint "json option" "json option" "json option"
  | Clear_Checkpoint "json option"

definition checkpoint_action :: "checkpoint_input \<Rightarrow> string" where
  "checkpoint_action c = (case c of Upsert_Checkpoint _ _ _ \<Rightarrow> ''upsert'' | Clear_Checkpoint _ \<Rightarrow> ''clear'')"

definition checkpoint_effect :: "'k checkpoint_storage \<Rightarrow> jsstring \<Rightarrow> checkpoint_input \<Rightarrow>
    ('k, checkpoint option) manager_act" where
  "checkpoint_effect cs t c = (case c of
     Upsert_Checkpoint body captured expected \<Rightarrow>
       bind_act (call_world Checkpoint_Failed (cs_upsert cs t body captured expected)) (\<lambda>r. ret_act (Some r))
   | Clear_Checkpoint expected \<Rightarrow>
       bind_act (call_world Checkpoint_Failed (cs_clear cs t expected)) (\<lambda>_. ret_act None))"

definition checkpoint_workspace :: "'k host \<Rightarrow> jsstring \<Rightarrow> jsstring \<Rightarrow> checkpoint_input \<Rightarrow>
    ('k, checkpoint option) manager_act" where
  "checkpoint_workspace h op i c =
     bind_act (require_ready_state i) (\<lambda>wc.
     case h_checkpoints h of
       None \<Rightarrow> throw_act (Manager_Error ''CHECKPOINT_UNAVAILABLE'')
     | Some cs \<Rightarrow>
         bind_act (lift_act (require_ready_trust_id (fst wc))) (\<lambda>t.
         bind_act (audit_checkpoint h op (checkpoint_action c) ''decision'') (\<lambda>_.
         bind_act (catch_act (checkpoint_effect cs t c)
             (\<lambda>e. bind_act (audit_checkpoint h op (checkpoint_action c) ''failed'') (\<lambda>_. throw_act e))) (\<lambda>r.
         bind_act (audit_checkpoint h op (checkpoint_action c) ''success'') (\<lambda>_.
           ret_act r)))))"

section \<open>Files\<close>

definition safe_range :: "int \<Rightarrow> int \<Rightarrow> int \<Rightarrow> bool" where
  "safe_range lo hi n = (\<bar>n\<bar> \<le> max_safe \<and> lo \<le> n \<and> n \<le> hi)"

definition default_to :: "'a \<Rightarrow> 'a option \<Rightarrow> 'a" where
  "default_to d v = (case v of None \<Rightarrow> d | Some x \<Rightarrow> x)"

definition check_file_range :: "jsstring \<Rightarrow> int \<Rightarrow> int \<Rightarrow> manager_error + unit" where
  "check_file_range path offset max_bytes =
     bind_res (ensure (path \<noteq> []) Type_Error) (\<lambda>_.
     bind_res (ensure (safe_range 0 max_safe offset) Range_Error) (\<lambda>_.
       ensure (safe_range 0 1048576 max_bytes) Range_Error))"

record file_read_result =
  fr_contents :: jsstring
  fr_bytes_read :: int
  fr_eof :: bool

definition validate_file_read :: "json option \<Rightarrow> manager_error + file_read_result" where
  "validate_file_read v = valid_or (case as_record v of
     None \<Rightarrow> None
   | Some fs \<Rightarrow>
       (case (as_str (get fs ''contents''), as_safe_from 0 (get fs ''bytesRead''), as_bool (get fs ''eof'')) of
          (Some c, Some n, Some e) \<Rightarrow> Some \<lparr>fr_contents = c, fr_bytes_read = n, fr_eof = e\<rparr>
        | _ \<Rightarrow> None))"

definition read_file_call :: "'k host \<Rightarrow> jsstring \<Rightarrow> jsstring \<Rightarrow> int option \<Rightarrow> int option \<Rightarrow>
    ('k, file_read_result) manager_act" where
  "read_file_call h i path offset_in max_in =
     (let offset = default_to 0 offset_in; max_bytes = default_to 1048576 max_in in
      bind_act (lift_act (check_file_range path offset max_bytes)) (\<lambda>_.
        ready_call h i ''file.read'' [fld ''path'' (JStr path), fld ''offset'' (JNum offset),
          fld ''maxBytes'' (JNum max_bytes)] validate_file_read))"

record file_bytes_result =
  fb_bytes :: bytes
  fb_bytes_read :: int
  fb_eof :: bool

definition validate_file_bytes :: "int \<Rightarrow> json option \<Rightarrow> manager_error + file_bytes_result" where
  "validate_file_bytes max_bytes v = valid_or (case as_record v of
     None \<Rightarrow> None
   | Some fs \<Rightarrow>
       (case (as_str (get fs ''contentBase64''), as_safe_from 0 (get fs ''bytesRead''), as_bool (get fs ''eof'')) of
          (Some c, Some n, Some e) \<Rightarrow>
            if max_bytes < n then None
            else (case decode_canonical_base64 c of
               None \<Rightarrow> None
             | Some bs \<Rightarrow> if int (length bs) = n
                 then Some \<lparr>fb_bytes = bs, fb_bytes_read = n, fb_eof = e\<rparr> else None)
        | _ \<Rightarrow> None))"

definition read_file_bytes :: "'k host \<Rightarrow> jsstring \<Rightarrow> jsstring \<Rightarrow> int option \<Rightarrow> int option \<Rightarrow>
    ('k, file_bytes_result) manager_act" where
  "read_file_bytes h i path offset_in max_in =
     (let offset = default_to 0 offset_in; max_bytes = default_to 1048576 max_in in
      bind_act (lift_act (check_file_range path offset max_bytes)) (\<lambda>_.
        ready_call h i ''file.read'' [fld ''path'' (JStr path), fld ''offset'' (JNum offset),
          fld ''maxBytes'' (JNum max_bytes), fld ''encoding'' (JStr (js ''base64''))]
          (validate_file_bytes max_bytes)))"

definition path_identity_call :: "'k host \<Rightarrow> jsstring \<Rightarrow> jsstring \<Rightarrow> bool \<Rightarrow> ('k, json) manager_act" where
  "path_identity_call h i path include_sha256 =
     bind_act (guard_act (path \<noteq> []) Type_Error) (\<lambda>_.
       ready_call h i ''file.identity'' [fld ''path'' (JStr path), fld ''includeSha256'' (JBool include_sha256)]
         (\<lambda>v. valid_or (if is_valid_path_identity_result v include_sha256 then v else None)))"

datatype write_precondition = Missing | Sha256 jsstring

definition precondition_json :: "write_precondition \<Rightarrow> json" where
  "precondition_json p = (case p of
     Missing \<Rightarrow> JObj [fld ''kind'' (JStr (js ''missing''))]
   | Sha256 d \<Rightarrow> JObj [fld ''kind'' (JStr (js ''sha256'')), fld ''value'' (JStr d)])"

record file_write_result =
  fw_bytes_written :: int
  fw_created :: bool

definition validate_file_write :: "json option \<Rightarrow> manager_error + file_write_result" where
  "validate_file_write v = valid_or (case as_record v of
     None \<Rightarrow> None
   | Some fs \<Rightarrow>
       (case (as_safe_from 0 (get fs ''bytesWritten''), as_bool (get fs ''created'')) of
          (Some n, Some c) \<Rightarrow> Some \<lparr>fw_bytes_written = n, fw_created = c\<rparr>
        | _ \<Rightarrow> None))"

definition write_file_call :: "'k host \<Rightarrow> jsstring \<Rightarrow> jsstring \<Rightarrow> jsstring \<Rightarrow> write_precondition option \<Rightarrow>
    ('k, file_write_result) manager_act" where
  "write_file_call h i path contents pre =
     bind_act (guard_act (path \<noteq> []) Type_Error) (\<lambda>_.
     bind_act (guard_act (case pre of Some (Sha256 d) \<Rightarrow> is_sha256 d | _ \<Rightarrow> True) Type_Error) (\<lambda>_.
       translating [(''FILE_PRECONDITION_FAILED'', ''FILE_PRECONDITION_FAILED'')]
         (ready_call h i ''file.write'' (fld ''path'' (JStr path) # fld ''content'' (JStr contents) #
            opt_field ''precondition'' precondition_json pre) validate_file_write)))"

record file_edit_result =
  fe_bytes_written :: int
  fe_replacements :: int

definition validate_file_edit :: "json option \<Rightarrow> manager_error + file_edit_result" where
  "validate_file_edit v = valid_or (case as_record v of
     None \<Rightarrow> None
   | Some fs \<Rightarrow>
       (case (as_safe_from 0 (get fs ''bytesWritten''), as_safe_from 0 (get fs ''replacements'')) of
          (Some n, Some r) \<Rightarrow> Some \<lparr>fe_bytes_written = n, fe_replacements = r\<rparr>
        | _ \<Rightarrow> None))"

definition edit_file_call :: "'k host \<Rightarrow> jsstring \<Rightarrow> jsstring \<Rightarrow> jsstring \<Rightarrow> jsstring \<Rightarrow> int \<Rightarrow>
    ('k, file_edit_result) manager_act" where
  "edit_file_call h i path old_text new_text expected =
     bind_act (guard_act (path \<noteq> [] \<and> old_text \<noteq> []) Type_Error) (\<lambda>_.
     bind_act (guard_act (safe_range 0 max_safe expected) Range_Error) (\<lambda>_.
       ready_call h i ''file.edit'' [fld ''path'' (JStr path), fld ''oldText'' (JStr old_text),
         fld ''newText'' (JStr new_text), fld ''expectedReplacements'' (JNum expected)] validate_file_edit))"

definition action_name :: "file_action \<Rightarrow> string" where
  "action_name a = (case a of Create \<Rightarrow> ''create'' | Update \<Rightarrow> ''update'' | Delete \<Rightarrow> ''delete'')"

definition commit_input_valid :: "commit_input \<Rightarrow> bool" where
  "commit_input_valid c = (case ci_action c of
     Create \<Rightarrow> ci_expected c = None \<and> ci_content c \<noteq> None
   | Update \<Rightarrow> (case ci_expected c of None \<Rightarrow> False | Some d \<Rightarrow> is_sha256 d) \<and> ci_content c \<noteq> None
   | Delete \<Rightarrow> (case ci_expected c of None \<Rightarrow> False | Some d \<Rightarrow> is_sha256 d) \<and> ci_content c = None)"

definition nullable_str :: "jsstring option \<Rightarrow> json" where
  "nullable_str v = (case v of None \<Rightarrow> JNull | Some s \<Rightarrow> JStr s)"

definition validate_commit_result :: "file_action \<Rightarrow> json option \<Rightarrow> manager_error + commit_result" where
  "validate_commit_result act v = valid_or (case as_record v of
     None \<Rightarrow> None
   | Some fs \<Rightarrow>
       if \<not> schema_one fs \<or> \<not> str_is (get fs ''action'') (action_name act)
          \<or> \<not> same_keys fs [''schemaVersion'', ''action'', ''bytesWritten'', ''sha256'']
          \<or> (if act = Delete then get fs ''sha256'' \<noteq> Some JNull
              else (case as_str (get fs ''sha256'') of None \<Rightarrow> True | Some d \<Rightarrow> \<not> is_sha256 d))
       then None
       else (case as_safe_from 0 (get fs ''bytesWritten'') of
          None \<Rightarrow> None
        | Some n \<Rightarrow> Some \<lparr>cr_schema_version = 1, cr_action = act, cr_bytes_written = n,
            cr_sha256 = as_str (get fs ''sha256'')\<rparr>))"

definition commit_patch_file :: "'k host \<Rightarrow> jsstring \<Rightarrow> commit_input \<Rightarrow> ('k, commit_result) manager_act" where
  "commit_patch_file h i c =
     bind_act (guard_act (ci_path c \<noteq> []) Type_Error) (\<lambda>_.
     bind_act (guard_act (commit_input_valid c) Type_Error) (\<lambda>_.
       ready_call h i ''file.commit_patch_file'' [fld ''path'' (JStr (ci_path c)),
         fld ''action'' (JStr (js (action_name (ci_action c)))),
         fld ''expectedSha256'' (nullable_str (ci_expected c)),
         fld ''content'' (nullable_str (ci_content c))] (validate_commit_result (ci_action c))))"

section \<open>Git\<close>

datatype git_revision = Head_Revision | Oid_Revision jsstring | Branch_Revision jsstring | Tag_Revision jsstring

definition revision_json :: "git_revision \<Rightarrow> json" where
  "revision_json r = (case r of
     Head_Revision \<Rightarrow> JObj [fld ''kind'' (JStr (js ''head''))]
   | Oid_Revision s \<Rightarrow> JObj [fld ''kind'' (JStr (js ''oid'')), fld ''oid'' (JStr s)]
   | Branch_Revision s \<Rightarrow> JObj [fld ''kind'' (JStr (js ''branch'')), fld ''name'' (JStr s)]
   | Tag_Revision s \<Rightarrow> JObj [fld ''kind'' (JStr (js ''tag'')), fld ''name'' (JStr s)])"

definition git_history :: "'k host \<Rightarrow> history_method \<Rightarrow> jsstring \<Rightarrow> fields \<Rightarrow> ('k, fields) manager_act" where
  "git_history h m i ps = translating (same_codes git_history_error_codes)
     (ready_call h i (history_method_name m) ps (validate_git_history_result m))"

definition git_log :: "'k host \<Rightarrow> jsstring \<Rightarrow> git_revision \<Rightarrow> jsstring option \<Rightarrow> int \<Rightarrow> ('k, fields) manager_act" where
  "git_log h i r path n = git_history h Git_Log i
     (fld ''revision'' (revision_json r) # opt_field ''path'' JStr path @ [fld ''limit'' (JNum n)])"

definition git_show :: "'k host \<Rightarrow> jsstring \<Rightarrow> git_revision \<Rightarrow> jsstring option \<Rightarrow> bool \<Rightarrow> int \<Rightarrow>
    ('k, fields) manager_act" where
  "git_show h i r path include_patch max_bytes = git_history h Git_Show i
     (fld ''revision'' (revision_json r) # opt_field ''path'' JStr path @
      [fld ''includePatch'' (JBool include_patch), fld ''maxPatchBytes'' (JNum max_bytes)])"

definition git_range :: "'k host \<Rightarrow> jsstring \<Rightarrow> git_revision \<Rightarrow> git_revision \<Rightarrow> bool \<Rightarrow> int \<Rightarrow>
    ('k, fields) manager_act" where
  "git_range h i base_rev head_rev symmetric n = git_history h Git_Range i
     [fld ''baseRevision'' (revision_json base_rev), fld ''headRevision'' (revision_json head_rev),
      fld ''mode'' (JStr (if symmetric then js ''symmetric'' else js ''direct'')), fld ''limit'' (JNum n)]"

definition git_diff_history :: "'k host \<Rightarrow> jsstring \<Rightarrow> git_revision \<Rightarrow> git_revision \<Rightarrow> jsstring option \<Rightarrow> int \<Rightarrow>
    ('k, fields) manager_act" where
  "git_diff_history h i base_rev head_rev path max_bytes = git_history h Git_Diff_History i
     (fld ''baseRevision'' (revision_json base_rev) # fld ''headRevision'' (revision_json head_rev) #
      opt_field ''path'' JStr path @ [fld ''maxPatchBytes'' (JNum max_bytes)])"

record ci_audit =
  ca_operation_id :: jsstring
  ca_capability :: jsstring
  ca_phase :: jsstring
  ca_provider :: jsstring
  ca_repository :: jsstring
  ca_credential_source :: "jsstring option"
  ca_run_id :: "jsstring option"
  ca_job_id :: "jsstring option"
  ca_error_code :: "jsstring option"
  ca_truncated :: "bool option"
  ca_duration_ms :: "int option"

definition ci_audit_fields :: "ci_audit \<Rightarrow> fields" where
  "ci_audit_fields a =
     fld ''operationId'' (JStr (ca_operation_id a)) # fld ''ciCapability'' (JStr (ca_capability a)) #
     fld ''phase'' (JStr (ca_phase a)) # fld ''provider'' (JStr (ca_provider a)) #
     fld ''repository'' (JStr (ca_repository a)) #
     opt_field ''credentialSource'' JStr (ca_credential_source a) @
     opt_field ''runId'' JStr (ca_run_id a) @ opt_field ''jobId'' JStr (ca_job_id a) @
     opt_field ''errorCode'' JStr (ca_error_code a) @ opt_field ''truncated'' JBool (ca_truncated a) @
     opt_field ''durationMs'' JNum (ca_duration_ms a)"

definition validate_acknowledgement :: "json option \<Rightarrow> manager_error + unit" where
  "validate_acknowledgement v = valid_or (case as_record v of
     None \<Rightarrow> None
   | Some fs \<Rightarrow> if get fs ''ok'' = Some (JBool True) \<and> length (remdups (map fst fs)) = 1 then Some () else None)"

definition audit_remote_ci :: "'k host \<Rightarrow> jsstring \<Rightarrow> ci_audit \<Rightarrow> ('k, unit) manager_act" where
  "audit_remote_ci h i a = translating [(''AUDIT_UNAVAILABLE'', ''CI_AUDIT_UNAVAILABLE'')]
     (ready_call h i ''ci.audit'' (ci_audit_fields a) validate_acknowledgement)"

definition inspect_git_repository_identity :: "'k host \<Rightarrow> jsstring \<Rightarrow> ('k, git_repository_identity) manager_act" where
  "inspect_git_repository_identity h i =
     ready_call h i ''git.repository_identity'' [] validate_git_repository_identity"

definition git_inspection :: "'k host \<Rightarrow> jsstring \<Rightarrow> string \<Rightarrow> ('k, git_output) manager_act" where
  "git_inspection h i m = ready_call h i m [] (validate_git_output None)"

definition git_status :: "'k host \<Rightarrow> jsstring \<Rightarrow> ('k, git_output) manager_act" where
  "git_status h i = git_inspection h i ''git.status''"

definition git_checkpoint_patch :: "'k host \<Rightarrow> jsstring \<Rightarrow> ('k, git_output) manager_act" where
  "git_checkpoint_patch h i = git_inspection h i ''git.checkpoint_patch''"

definition git_diff :: "'k host \<Rightarrow> jsstring \<Rightarrow> ('k, git_output) manager_act" where
  "git_diff h i = git_inspection h i ''git.diff''"

definition git_checkpoint_call :: "'k host \<Rightarrow> jsstring \<Rightarrow> ('k, git_checkpoint) manager_act" where
  "git_checkpoint_call h i = translating [(''GIT_STATUS_INVALID'', ''GIT_STATUS_INVALID'')]
     (ready_call h i ''git.checkpoint'' [] validate_git_checkpoint)"

definition git_local_mutation :: "'k host \<Rightarrow> jsstring \<Rightarrow> string \<Rightarrow> fields \<Rightarrow> ('k, git_output) manager_act" where
  "git_local_mutation h i op ps = translating (same_codes git_mutation_error_codes)
     (ready_call h i ''git.local_mutation'' (fld ''operation'' (JStr (js op)) # ps) (validate_git_output (Some op)))"

definition git_stage :: "'k host \<Rightarrow> jsstring \<Rightarrow> jsstring list \<Rightarrow> ('k, git_output) manager_act" where
  "git_stage h i paths = git_local_mutation h i ''stage'' [fld ''paths'' (JArr (map JStr paths))]"

definition git_commit :: "'k host \<Rightarrow> jsstring \<Rightarrow> jsstring \<Rightarrow> ('k, git_output) manager_act" where
  "git_commit h i msg = git_local_mutation h i ''commit'' [fld ''message'' (JStr msg)]"

definition git_branch_create :: "'k host \<Rightarrow> jsstring \<Rightarrow> jsstring \<Rightarrow> ('k, git_output) manager_act" where
  "git_branch_create h i n = git_local_mutation h i ''branch_create'' [fld ''name'' (JStr n)]"

definition git_branch_switch :: "'k host \<Rightarrow> jsstring \<Rightarrow> jsstring \<Rightarrow> ('k, git_output) manager_act" where
  "git_branch_switch h i n = git_local_mutation h i ''branch_switch'' [fld ''name'' (JStr n)]"

definition git_branch_delete :: "'k host \<Rightarrow> jsstring \<Rightarrow> jsstring \<Rightarrow> ('k, git_output) manager_act" where
  "git_branch_delete h i n = git_local_mutation h i ''branch_delete'' [fld ''name'' (JStr n)]"

definition git_worktree_mutation :: "'k host \<Rightarrow> jsstring \<Rightarrow> bool \<Rightarrow> fields \<Rightarrow> ('k, worktree_result) manager_act" where
  "git_worktree_mutation h i create ps = translating (same_codes git_worktree_error_codes)
     (ready_call h i ''git.worktree_mutation''
        (fld ''operation'' (JStr (if create then js ''create'' else js ''remove'')) # ps) (validate_worktree create))"

definition git_worktree_create :: "'k host \<Rightarrow> jsstring \<Rightarrow> jsstring \<Rightarrow> jsstring \<Rightarrow> ('k, worktree_result) manager_act" where
  "git_worktree_create h i n branch =
     git_worktree_mutation h i True [fld ''name'' (JStr n), fld ''branch'' (JStr branch)]"

definition git_worktree_remove :: "'k host \<Rightarrow> jsstring \<Rightarrow> jsstring \<Rightarrow> ('k, worktree_result) manager_act" where
  "git_worktree_remove h i n = git_worktree_mutation h i False [fld ''name'' (JStr n)]"

definition credential_json :: "jsstring \<Rightarrow> json" where
  "credential_json token = JObj [fld ''kind'' (JStr (js ''github_token'')), fld ''token'' (JStr token)]"

definition git_remote_mutation :: "'k host \<Rightarrow> jsstring \<Rightarrow> string \<Rightarrow> jsstring \<Rightarrow> jsstring \<Rightarrow> jsstring option \<Rightarrow>
    ('k, git_output) manager_act" where
  "git_remote_mutation h i op remote ref credential = translating (same_codes git_remote_mutation_error_codes)
     (ready_call h i ''git.remote_mutation''
        (fld ''operation'' (JStr (js op)) # fld ''remote'' (JStr remote) # fld ''ref'' (JStr ref) #
         opt_field ''credential'' credential_json credential) (validate_git_output (Some op)))"

definition git_fetch :: "'k host \<Rightarrow> jsstring \<Rightarrow> jsstring \<Rightarrow> jsstring \<Rightarrow> jsstring option \<Rightarrow> ('k, git_output) manager_act" where
  "git_fetch h i remote ref credential = git_remote_mutation h i ''fetch'' remote ref credential"

definition git_pull :: "'k host \<Rightarrow> jsstring \<Rightarrow> jsstring \<Rightarrow> jsstring \<Rightarrow> jsstring option \<Rightarrow> ('k, git_output) manager_act" where
  "git_pull h i remote ref credential = git_remote_mutation h i ''pull'' remote ref credential"

definition git_push :: "'k host \<Rightarrow> jsstring \<Rightarrow> jsstring \<Rightarrow> jsstring \<Rightarrow> jsstring option \<Rightarrow> ('k, git_output) manager_act" where
  "git_push h i remote ref credential = git_remote_mutation h i ''push'' remote ref credential"

section \<open>Processes\<close>

definition env_json :: "(jsstring \<times> jsstring) list \<Rightarrow> json" where
  "env_json env = JObj (map (\<lambda>kv. (fst kv, JStr (snd kv))) env)"

definition run_process :: "'k host \<Rightarrow> jsstring \<Rightarrow> jsstring \<Rightarrow> jsstring list \<Rightarrow> jsstring option \<Rightarrow>
    (jsstring \<times> jsstring) list option \<Rightarrow> bool option \<Rightarrow> ('k, process_operation) manager_act" where
  "run_process h i executable argv cwd env background =
     bind_act (guard_act (executable \<noteq> []) Type_Error) (\<lambda>_.
       ready_call h i ''process.run'' [fld ''logicalExecutable'' (JStr executable),
         fld ''argv'' (JArr (map JStr argv)), fld ''cwd'' (JStr (default_to (js ''.'') cwd)),
         fld ''env'' (env_json (default_to [] env)), fld ''background'' (JBool (default_to False background))]
         validate_process_operation)"

record executable_availability =
  ea_executable :: bool
  ea_sandbox :: bool

definition validate_availability :: "json option \<Rightarrow> manager_error + executable_availability" where
  "validate_availability v = valid_or (case as_record v of
     None \<Rightarrow> None
   | Some fs \<Rightarrow>
       if \<not> schema_one fs \<or> \<not> only_keys fs [''schemaVersion'', ''executableAvailable'', ''sandboxAvailable''] then None
       else (case (as_bool (get fs ''executableAvailable''), as_bool (get fs ''sandboxAvailable'')) of
          (Some e, Some sb) \<Rightarrow> Some \<lparr>ea_executable = e, ea_sandbox = sb\<rparr>
        | _ \<Rightarrow> None))"

definition inspect_executable :: "'k host \<Rightarrow> jsstring \<Rightarrow> jsstring \<Rightarrow> ('k, executable_availability) manager_act" where
  "inspect_executable h i executable =
     bind_act (guard_act (executable \<noteq> []) Type_Error) (\<lambda>_.
       ready_call h i ''process.inspect_executable'' [fld ''logicalExecutable'' (JStr executable)]
         validate_availability)"

definition run_verification_process :: "'k host \<Rightarrow> jsstring \<Rightarrow> jsstring \<Rightarrow> jsstring \<Rightarrow> jsstring list \<Rightarrow>
    jsstring \<Rightarrow> bool option \<Rightarrow> ('k, process_operation) manager_act" where
  "run_verification_process h i recipe executable argv cwd background =
     bind_act (guard_act (recipe \<noteq> [] \<and> executable \<noteq> [] \<and> cwd \<noteq> []) Type_Error) (\<lambda>_.
       ready_call h i ''verify.run'' [fld ''recipeId'' (JStr recipe), fld ''logicalExecutable'' (JStr executable),
         fld ''argv'' (JArr (map JStr argv)), fld ''cwd'' (JStr cwd),
         fld ''background'' (JBool (default_to False background))] validate_process_operation)"

definition process_operation_call :: "'k host \<Rightarrow> jsstring \<Rightarrow> jsstring \<Rightarrow> string \<Rightarrow>
    ('k, process_operation) manager_act" where
  "process_operation_call h i op m =
     bind_act (guard_act (starts_with op (js ''op_'')) Type_Error) (\<lambda>_.
       ready_call h i m [fld ''operationId'' (JStr op)] validate_process_operation)"

definition process_status :: "'k host \<Rightarrow> jsstring \<Rightarrow> jsstring \<Rightarrow> ('k, process_operation) manager_act" where
  "process_status h i op = process_operation_call h i op ''process.status''"

definition process_cancel :: "'k host \<Rightarrow> jsstring \<Rightarrow> jsstring \<Rightarrow> ('k, process_operation) manager_act" where
  "process_cancel h i op = process_operation_call h i op ''process.cancel''"

section \<open>Trees and searches\<close>

definition scope_ok :: "jsstring \<Rightarrow> bool" where
  "scope_ok s = (s = js ''literal'' \<or> s = js ''semantic'')"

record tree_result =
  tr_entries :: "tree_entry list"
  tr_truncated :: bool

definition validate_tree :: "json option \<Rightarrow> manager_error + tree_result" where
  "validate_tree v = (case as_record v of
     None \<Rightarrow> Inl protocol_invalid
   | Some fs \<Rightarrow> (case (as_arr (get fs ''entries''), as_bool (get fs ''truncated'')) of
        (Some xs, Some t) \<Rightarrow> bind_res (map_res validate_tree_entry xs) (\<lambda>es.
          Inr \<lparr>tr_entries = es, tr_truncated = t\<rparr>)
      | _ \<Rightarrow> Inl protocol_invalid))"

definition tree_bounded :: "'k host \<Rightarrow> jsstring \<Rightarrow> jsstring \<Rightarrow> int \<Rightarrow> jsstring \<Rightarrow> ('k, tree_result) manager_act" where
  "tree_bounded h i path max_entries scope =
     bind_act (guard_act (path \<noteq> []) Type_Error) (\<lambda>_.
     bind_act (guard_act (safe_range 1 10000 max_entries) Type_Error) (\<lambda>_.
     bind_act (guard_act (scope_ok scope) Type_Error) (\<lambda>_.
       ready_call h i ''file.tree'' [fld ''path'' (JStr path), fld ''maxEntries'' (JNum max_entries),
         fld ''scope'' (JStr scope)] validate_tree)))"

definition tree_call :: "'k host \<Rightarrow> jsstring \<Rightarrow> jsstring \<Rightarrow> ('k, (jsstring \<times> jsstring) list) manager_act" where
  "tree_call h i path = bind_act (tree_bounded h i path 2000 (js ''literal'')) (\<lambda>r.
     ret_act (map (\<lambda>e. (te_path e, te_kind e)) (tr_entries r)))"

record search_result =
  sr_matches :: "search_match list"
  sr_truncated :: bool
  sr_reasons :: "json list"

definition validate_search :: "json option \<Rightarrow> manager_error + search_result" where
  "validate_search v = (case as_record v of
     None \<Rightarrow> Inl protocol_invalid
   | Some fs \<Rightarrow>
       (case (as_arr (get fs ''matches''), as_bool (get fs ''truncated''), as_arr (get fs ''truncationReasons'')) of
          (Some xs, Some t, Some rs) \<Rightarrow>
            if \<not> list_all is_search_truncation_reason rs \<or> t \<noteq> (rs \<noteq> []) then Inl protocol_invalid
            else bind_res (map_res validate_search_match xs) (\<lambda>ms.
              Inr \<lparr>sr_matches = ms, sr_truncated = t, sr_reasons = rs\<rparr>)
        | _ \<Rightarrow> Inl protocol_invalid))"

definition search_bounded :: "'k host \<Rightarrow> jsstring \<Rightarrow> jsstring \<Rightarrow> jsstring \<Rightarrow> int \<Rightarrow> jsstring \<Rightarrow>
    ('k, search_result) manager_act" where
  "search_bounded h i query path max_matches scope =
     bind_act (guard_act (query \<noteq> []) Type_Error) (\<lambda>_.
     bind_act (guard_act (path \<noteq> []) Type_Error) (\<lambda>_.
     bind_act (guard_act (safe_range 1 500 max_matches) Type_Error) (\<lambda>_.
     bind_act (guard_act (scope_ok scope) Type_Error) (\<lambda>_.
       ready_call h i ''file.search'' [fld ''path'' (JStr path), fld ''query'' (JStr query),
         fld ''maxMatches'' (JNum max_matches), fld ''scope'' (JStr scope)] validate_search))))"

definition search_call :: "'k host \<Rightarrow> jsstring \<Rightarrow> jsstring \<Rightarrow> jsstring \<Rightarrow> ('k, search_match list) manager_act" where
  "search_call h i query path =
     bind_act (search_bounded h i query path 200 (js ''literal'')) (\<lambda>r. ret_act (sr_matches r))"

end
