(* ===== verification/Workspace_Lifecycle.thy ===== *)
theory Workspace_Lifecycle
  imports Workspace_Calls
begin

text \<open>
  What the lifecycle methods of \<open>packages/core/src/workspace-manager.ts\<close> promise: the outcome of
  opening, the states of a close, revocation of trust, and the audit records that bracket every
  change of trust. The host of these facts is any host whose kernel keeps a log of the requests
  it was sent.
\<close>

section \<open>Logged hosts\<close>

text \<open>An effect on the world beside the log, and one the log records.\<close>

definition beside :: "('k \<Rightarrow> 'r \<times> 'k) \<Rightarrow> 'k \<times> event list \<Rightarrow> 'r \<times> ('k \<times> event list)" where
  "beside f kl = (let r = f (fst kl) in (fst r, (snd r, snd kl)))"

definition noted :: "string \<Rightarrow> ('k \<Rightarrow> ('e + 'a) \<times> 'k) \<Rightarrow> 'k \<times> event list \<Rightarrow> ('e + 'a) \<times> ('k \<times> event list)" where
  "noted name f kl = (let r = f (fst kl) in (fst r, (snd r, snd kl @ [Stored name (is_ok (fst r))])))"

definition logged_checkpoints :: "'k checkpoint_storage \<Rightarrow> ('k \<times> event list) checkpoint_storage" where
  "logged_checkpoints cs = \<lparr>cs_read = (\<lambda>t. beside (cs_read cs t)),
     cs_upsert = (\<lambda>t b c e. noted ''upsert'' (cs_upsert cs t b c e)),
     cs_clear = (\<lambda>t e. noted ''clear'' (cs_clear cs t e)), cs_purge = (\<lambda>t. noted ''purge'' (cs_purge cs t))\<rparr>"

definition logged_host :: "'k host \<Rightarrow> ('k \<times> event list) host" where
  "logged_host h = \<lparr>h_kernel = log_kernel (h_kernel h), h_trust_list = beside (h_trust_list h),
     h_trust = (\<lambda>r i c. noted ''trust'' (h_trust h r i c)), h_untrust = (\<lambda>t. noted ''untrust'' (h_untrust h t)),
     h_require_trusted = (\<lambda>r i. beside (h_require_trusted h r i)),
     h_checkpoints = map_option logged_checkpoints (h_checkpoints h)\<rparr>"

lemma beside_eq: "beside f kl = (r, kl') \<longleftrightarrow> (\<exists>k'. f (fst kl) = (r, k') \<and> kl' = (k', snd kl))"
  by (auto simp: beside_def Let_def prod_eq_iff)

lemma noted_eq: "noted name f kl = (r, kl') \<longleftrightarrow>
    (\<exists>k'. f (fst kl) = (r, k') \<and> kl' = (k', snd kl @ [Stored name (is_ok r)]))"
  by (auto simp: noted_def Let_def prod_eq_iff)

lemma logged_host_simps [simp]:
  "h_kernel (logged_host h) = log_kernel (h_kernel h)"
  "h_trust_list (logged_host h) = beside (h_trust_list h)"
  "h_trust (logged_host h) r ident c = noted ''trust'' (h_trust h r ident c)"
  "h_untrust (logged_host h) t = noted ''untrust'' (h_untrust h t)"
  "h_require_trusted (logged_host h) r ident = beside (h_require_trusted h r ident)"
  "h_checkpoints (logged_host h) = map_option logged_checkpoints (h_checkpoints h)"
  by (simp_all add: logged_host_def)

lemma logged_checkpoints_simps [simp]:
  "cs_read (logged_checkpoints cs) t = beside (cs_read cs t)"
  "cs_upsert (logged_checkpoints cs) t b c e = noted ''upsert'' (cs_upsert cs t b c e)"
  "cs_clear (logged_checkpoints cs) t e = noted ''clear'' (cs_clear cs t e)"
  "cs_purge (logged_checkpoints cs) t = noted ''purge'' (cs_purge cs t)"
  by (simp_all add: logged_checkpoints_def)

lemmas logged_eq = log_kernel_eq beside_eq noted_eq

abbreviation log_of :: "('k \<times> event list) session \<Rightarrow> event list" where
  "log_of s \<equiv> snd (world s)"

text \<open>The capabilities whose registration a log shows as acknowledged.\<close>

fun registered :: "event \<Rightarrow> jsstring list" where
  "registered (Sent m ps (Inr v)) = (if m = ''workspace.register'' then
     (case parse_register_result v of Inl _ \<Rightarrow> [] | Inr c \<Rightarrow> [c]) else [])"
| "registered _ = []"

definition acknowledged :: "event list \<Rightarrow> jsstring list" where
  "acknowledged lg = concat (map registered lg)"

lemma acknowledged_append [simp]: "acknowledged (a @ b) = acknowledged a @ acknowledged b"
  by (simp add: acknowledged_def)

lemma acknowledged_Nil [simp]: "acknowledged [] = []"
  by (simp add: acknowledged_def)

lemma registered_other: "m \<noteq> ''workspace.register'' \<Longrightarrow> registered (Sent m ps r) = []"
  by (cases r) auto

lemma acknowledged_other [simp]: "m \<noteq> ''workspace.register'' \<Longrightarrow> acknowledged [Sent m ps r] = []"
  by (simp add: acknowledged_def registered_other)

lemma acknowledged_register [simp]:
  "acknowledged [Sent ''workspace.register'' ps (Inl e)] = []"
  "acknowledged [Sent ''workspace.register'' ps (Inr v)] =
     (case parse_register_result v of Inl _ \<Rightarrow> [] | Inr c \<Rightarrow> [c])"
  by (simp_all add: acknowledged_def split: sum.splits)

section \<open>Opening\<close>

text \<open>
  While \<open>openWorkspace\<close> runs, its state is the one entry it added to the map, \<open>new\<close> is what its
  requests added to the log, and the state holds the capability exactly of a registration the
  kernel acknowledged.
\<close>

definition in_opening :: "jsstring \<Rightarrow> (jsstring \<times> workspace_state) list \<Rightarrow> event list \<Rightarrow> event list \<Rightarrow>
    workspace_state \<Rightarrow> ('k \<times> event list) session \<Rightarrow> bool" where
  "in_opening i m lg new w s = (workspaces s = AList.update i w m \<and> log_of s = lg @ new
     \<and> acknowledged new = (case wk_capability w of None \<Rightarrow> [] | Some c \<Rightarrow> [c]))"

definition stopped_opening :: "jsstring \<Rightarrow> (jsstring \<times> workspace_state) list \<Rightarrow> event list \<Rightarrow>
    ('k \<times> event list) session \<Rightarrow> bool" where
  "stopped_opening i m lg s = (\<exists>new w. in_opening i m lg new w s)"

lemma opening_stopped: "in_opening i m lg new w s \<Longrightarrow> stopped_opening i m lg s"
  by (auto simp: stopped_opening_def)

lemma opening_world:
  "in_opening i m lg new w s \<Longrightarrow> snd k = snd (world s) \<Longrightarrow> in_opening i m lg new w (s\<lparr>world := k\<rparr>)"
  by (auto simp: in_opening_def)

lemma opening_sent:
  assumes "in_opening i m lg new w s" and "meth \<noteq> ''workspace.register''"
    and "h_kernel (logged_host h) meth ps (world s) = (r, k)"
  shows "in_opening i m lg (new @ [Sent meth ps r]) w (s\<lparr>world := k\<rparr>)"
  using assms by (auto simp: log_kernel_eq in_opening_def)

lemma opening_request:
  assumes "in_opening i m lg new w s" and "meth \<noteq> ''workspace.register''"
    and "\<And>v s'. in_opening i m lg (new @ [Sent meth ps (Inr v)]) w s' \<Longrightarrow> Q v s'"
    and "\<And>e s'. stopped_opening i m lg s' \<Longrightarrow> E e s'"
  shows "wp (kernel_request (logged_host h) meth ps) Q E s"
  by (rule wp_kernel_request) (blast intro: assms(3,4) opening_stopped opening_sent [OF assms(1,2)])+

lemma opening_request_ok:
  assumes "in_opening i m lg new w s" and "meth \<noteq> ''workspace.register''"
    and "\<And>v s'. reply_ok v \<Longrightarrow> in_opening i m lg (new @ [Sent meth ps (Inr v)]) w s' \<Longrightarrow> Q () s'"
    and "\<And>e s'. stopped_opening i m lg s' \<Longrightarrow> E e s'"
  shows "wp (request_ok (logged_host h) meth ps) Q E s"
  by (rule wp_request_ok) (blast intro: assms(3,4) opening_stopped opening_sent [OF assms(1,2)])+

lemma opening_update:
  assumes "in_opening i m lg new w s" and "wk_capability (f w) = wk_capability w"
    and "\<And>s'. in_opening i m lg new (f w) s' \<Longrightarrow> Q () s'"
  shows "wp (update_workspace i f) Q E s"
  by (rule wp_update_workspace [of _ _ w m]) (use assms in \<open>auto simp: in_opening_def\<close>)

text \<open>What an object of a reply says under a key.\<close>

definition says :: "json \<Rightarrow> string \<Rightarrow> json \<Rightarrow> bool" where
  "says v key x = (\<exists>fs. v = JObj fs \<and> get fs key = Some x)"

lemma register_says: "parse_register_result v = Inr c \<Longrightarrow> says v ''capabilityId'' (JStr c)"
  by (auto simp: parse_register_result_def says_def as_eq_Some split: option.splits if_splits)

lemma reply_says: "reply_ok v \<Longrightarrow> says v ''ok'' (JBool True)"
  by (auto simp: reply_ok_def says_def as_eq_Some split: option.splits)

lemma inspect_says:
  assumes "validate_inspect_result (Some v) = Inr (root, ident)"
  shows "says v ''canonicalRoot'' (JStr root) \<and> says v ''identity'' (inspected_identity v)
    \<and> says (inspected_identity v) ''deviceMajor'' (JNum (device_major ident))
    \<and> says (inspected_identity v) ''deviceMinor'' (JNum (device_minor ident))
    \<and> says (inspected_identity v) ''inode'' (JStr (inode ident))"
  using assms
  by (auto simp: validate_inspect_result_def inspected_identity_def says_def as_eq_Some split: option.splits)

text \<open>The registration and the note of its capability, as one step.\<close>

lemma opening_register:
  assumes "in_opening i m lg new w s" and "wk_capability w = None"
    and "\<And>v c s'. says v ''capabilityId'' (JStr c) \<Longrightarrow>
      in_opening i m lg (new @ [Sent ''workspace.register'' ps (Inr v)]) (w\<lparr>wk_capability := Some c\<rparr>) s' \<Longrightarrow>
      wp (f c) Q E s'"
    and "\<And>e s'. stopped_opening i m lg s' \<Longrightarrow> E e s'"
  shows "wp (bind_act (kernel_request (logged_host h) ''workspace.register'' ps) (\<lambda>reg.
     bind_act (lift_act (parse_register_result reg)) (\<lambda>cap.
     bind_act (update_workspace i (\<lambda>w. w\<lparr>wk_capability := Some cap\<rparr>)) (\<lambda>_. f cap)))) Q E s"
proof (intro wp_bind wp_kernel_request wp_lift)
  fix v k c
  assume "h_kernel (logged_host h) ''workspace.register'' ps (world s) = (Inr v, k)"
    and c: "parse_register_result v = Inr c"
  then show "wp (update_workspace i (\<lambda>w. w\<lparr>wk_capability := Some c\<rparr>)) (\<lambda>_. wp (f c) Q E) E (s\<lparr>world := k\<rparr>)"
    using assms(1,2) register_says [OF c]
    by (intro wp_update_workspace [of _ _ w m] assms(3)) (auto simp: in_opening_def log_kernel_eq)
next
  fix v k e
  assume "h_kernel (logged_host h) ''workspace.register'' ps (world s) = (Inr v, k)"
    and "parse_register_result v = Inl e"
  then show "E e (s\<lparr>world := k\<rparr>)"
    using assms(1,2) by (intro assms(4) opening_stopped [of i m lg "new @ [Sent _ _ _]" w])
      (auto simp: in_opening_def log_kernel_eq)
next
  fix e k
  assume "h_kernel (logged_host h) ''workspace.register'' ps (world s) = (Inl e, k)"
  then show "E (Kernel_Failed e) (s\<lparr>world := k\<rparr>)"
    using assms(1,2) by (intro assms(4) opening_stopped [of i m lg "new @ [Sent _ _ _]" w])
      (auto simp: in_opening_def log_kernel_eq)
qed

text \<open>
  A READY state, as the end of \<open>openWorkspace\<close> leaves it, with the whole exchange that grants it:
  \<open>new\<close> is what the call adds to the log. The kernel resolved the path the caller gave to the
  root of the state; the trust store holds the trust decision of the state for this root with the
  identity the kernel reported; the root was registered with that identity and the preset of the
  trusted ceiling; the capability of the state is the one this registration was answered with;
  the project profile was read, the policy of the state, which is below the ceiling, was imposed
  and the workspace activated under this capability, and the kernel acknowledged both.
\<close>

definition granted :: "'k host \<Rightarrow> jsstring \<Rightarrow> event list \<Rightarrow> workspace_state \<Rightarrow> bool" where
  "granted h root_path new w = (\<exists>v idn reg prof r a root ident e k k' c p.
     new = [Sent ''system.inspect_root'' [fld ''path'' (JStr root_path)] (Inr v),
       Sent ''workspace.register'' [fld ''rootPath'' (JStr root), fld ''expectedIdentity'' idn,
         fld ''ceiling'' (policy_json (get_profile_preset (profile_ceiling e)))] (Inr reg),
       Sent ''workspace.read_project_profile'' [fld ''capabilityId'' (JStr c)] (Inr prof),
       Sent ''workspace.restrict_policy'' [fld ''capabilityId'' (JStr c), fld ''restriction'' (policy_json p)] (Inr r),
       Sent ''workspace.activate'' [fld ''capabilityId'' (JStr c)] (Inr a)]
     \<and> says v ''canonicalRoot'' (JStr root) \<and> says v ''identity'' idn
     \<and> says idn ''deviceMajor'' (JNum (device_major ident)) \<and> says idn ''deviceMinor'' (JNum (device_minor ident))
     \<and> says idn ''inode'' (JStr (inode ident))
     \<and> h_require_trusted h root ident k = (Inr e, k')
     \<and> says reg ''capabilityId'' (JStr c) \<and> says r ''ok'' (JBool True) \<and> says a ''ok'' (JBool True)
     \<and> policy_valid p \<and> narrower p (get_profile_preset (profile_ceiling e))
     \<and> w = \<lparr>wk_phase = Ready, wk_close_in_flight = False, wk_root = Some root,
         wk_trust_id = Some (entry_id e), wk_capability = Some c, wk_policy = Some p\<rparr>)"

lemma effective_policy_below:
  assumes "effective_policy parse (get_profile_preset n) contents = Inr p"
  shows "policy_valid p \<and> narrower p (get_profile_preset n)"
proof -
  obtain r where "resolve_profile (get_profile_preset n) r = Inr p"
    using assms unfolding effective_policy_def by (auto simp: bind_res_eq_Inr split: sum.splits) (metis sum.exhaust)
  then show ?thesis by (auto simp: resolve_profile_eq split: if_splits)
qed

lemma open_granted:
  assumes "validate_inspect_result (Some v) = Inr (root, ident)" and "h_require_trusted h root ident k = (Inr e, k')"
    and "says reg ''capabilityId'' (JStr c)"
    and "effective_policy parse (get_profile_preset (profile_ceiling e)) contents = Inr p"
    and "reply_ok r" and "reply_ok a"
  shows "granted h root_path
    [Sent ''system.inspect_root'' [fld ''path'' (JStr root_path)] (Inr v),
     Sent ''workspace.register'' [fld ''rootPath'' (JStr root), fld ''expectedIdentity'' (inspected_identity v),
       fld ''ceiling'' (policy_json (get_profile_preset (profile_ceiling e)))] (Inr reg),
     Sent ''workspace.read_project_profile'' [capability_field c] (Inr prof),
     Sent ''workspace.restrict_policy'' [capability_field c, fld ''restriction'' (policy_json p)] (Inr r),
     Sent ''workspace.activate'' [capability_field c] (Inr a)]
    \<lparr>wk_phase = Ready, wk_close_in_flight = False, wk_root = Some root,
      wk_trust_id = Some (entry_id e), wk_capability = Some c, wk_policy = Some p\<rparr>"
  unfolding granted_def capability_field_def
  using inspect_says [OF assms(1)] assms(2,3) reply_says [OF assms(5)] reply_says [OF assms(6)]
    effective_policy_below [OF assms(4)]
  apply -
  apply (rule exI [of _ v])
  apply (rule exI [of _ "inspected_identity v"])
  apply (rule exI [of _ reg])
  apply (rule exI [of _ prof])
  apply (rule exI [of _ r])
  apply (rule exI [of _ a])
  apply (rule exI [of _ root])
  apply (rule exI [of _ ident])
  apply (rule exI [of _ e])
  apply (rule exI [of _ k])
  apply (rule exI [of _ k'])
  apply (rule exI [of _ c])
  apply (rule exI [of _ p])
  apply simp
  done

lemma opening_trust:
  assumes "in_opening i m lg new w s"
    and "\<And>t k k' s'. h_require_trusted h root ident k = (Inr t, k') \<Longrightarrow>
      in_opening i m lg new (w\<lparr>wk_trust_id := Some (entry_id t)\<rparr>) s' \<Longrightarrow> wp (f t) Q E s'"
    and "\<And>e s'. stopped_opening i m lg s' \<Longrightarrow> E e s'"
  shows "wp (bind_act (call_world Trust_Failed (h_require_trusted (logged_host h) root ident)) (\<lambda>t.
     bind_act (update_workspace i (\<lambda>w. w\<lparr>wk_trust_id := Some (entry_id t)\<rparr>)) (\<lambda>_. f t))) Q E s"
proof (intro wp_bind wp_call_world)
  fix t k
  assume "h_require_trusted (logged_host h) root ident (world s) = (Inr t, k)"
  then obtain k' where "h_require_trusted h root ident (fst (world s)) = (Inr t, k')" "snd k = snd (world s)"
    by (auto simp: beside_eq)
  then show "wp (update_workspace i (\<lambda>w. w\<lparr>wk_trust_id := Some (entry_id t)\<rparr>)) (\<lambda>_. wp (f t) Q E) E (s\<lparr>world := k\<rparr>)"
    using assms(1) by (intro opening_update [of i m lg new w]) (auto intro: opening_world assms(2))
next
  fix e k
  assume "h_require_trusted (logged_host h) root ident (world s) = (Inl e, k)"
  then show "E (Trust_Failed e) (s\<lparr>world := k\<rparr>)"
    using assms(1) by (intro assms(3) opening_stopped opening_world) (auto simp: beside_eq)
qed

lemma opening_read:
  assumes "in_opening i m lg new w s" and "Q (Some w) s"
  shows "wp (read_act (\<lambda>s. map_of (workspaces s) i)) Q E s"
  by (rule wp_read) (use assms in \<open>simp add: in_opening_def\<close>)

lemma open_body_outcome:
  assumes "in_opening i m lg [] new_workspace s"
  shows "wp (open_body (logged_host h) parse i root_path)
    (\<lambda>ow s'. \<exists>new w. in_opening i m lg new w s' \<and> granted h root_path new w \<and> public_workspace i w = Inr ow)
    (\<lambda>e. stopped_opening i m lg) s"
  (is "wp _ ?Q ?E s")
proof -
  show ?thesis
    unfolding open_body_def
    apply (intro wp_bind)
    apply (rule opening_request [OF assms])
      apply simp
     apply (intro wp_bind wp_lift wp_prod)
      apply (rule opening_update, assumption)
       apply (simp add: new_workspace_def)
      apply (rule opening_trust, assumption)
       apply (intro wp_let)
       apply (rule opening_register, assumption)
         apply (simp add: new_workspace_def)
        apply (intro wp_bind)
        apply (rule opening_request, assumption, simp)
         apply (intro wp_bind wp_lift)
           apply (rule opening_request_ok, assumption, simp)
            apply (intro wp_bind)
            apply (rule opening_request_ok, assumption, simp)
             apply (intro wp_bind)
             apply (rule opening_update, assumption, simp)
             apply (intro wp_bind)
             apply (rule opening_read, assumption)
             apply (rule wp_lift)
              apply (rule exI, rule exI, rule conjI, assumption)
              apply (simp add: new_workspace_def public_workspace_def, rule open_granted; assumption)
             apply (auto intro: opening_stopped simp: new_workspace_def public_workspace_def)
    done
qed

lemma open_failed_outcome:
  assumes "stopped_opening i m lg s" and "map_of m i = None"
  shows "wp (open_failed (logged_host h) i e) (\<lambda>_ _. False)
    (\<lambda>_ s'. workspaces s' = m \<and> (\<exists>new. log_of s' = lg @ new \<and>
       (case acknowledged new of [] \<Rightarrow> True
        | c # cs \<Rightarrow> cs = [] \<and> (\<exists>r. last new = Sent ''workspace.unregister'' [capability_field c] r)))) s"
proof -
  obtain new w where s: "workspaces s = AList.update i w m" "log_of s = lg @ new"
      "acknowledged new = (case wk_capability w of None \<Rightarrow> [] | Some c \<Rightarrow> [c])"
    using assms(1) by (auto simp: stopped_opening_def in_opening_def)
  show ?thesis
  proof (cases "wk_capability w")
    case None
    then show ?thesis unfolding open_failed_def
      by (intro wp_intros) (use s assms(2) in \<open>auto simp: delete_update_new intro!: exI [of _ new]\<close>)
  next
    case (Some c)
    show ?thesis unfolding open_failed_def
      apply (rule wp_bind, rule wp_read, rule wp_bind, rule wp_on_workspaces)
      apply (simp add: s(1) Some delete_update_new [OF assms(2)])
      apply (rule wp_bind, rule wp_catch, rule wp_request_ok)
       apply (rule wp_throw)
       apply (use s Some in \<open>fastforce simp: log_kernel_eq intro: exI [of _ "new @ [Sent _ _ _]"]\<close>)
      apply (rule wp_ret, rule wp_throw)
      apply (use s Some in \<open>fastforce simp: log_kernel_eq intro: exI [of _ "new @ [Sent _ _ _]"]\<close>)
      done
  qed
qed

lemma open_outcome:
  fixes h :: "'k host"
  shows "case open_workspace (logged_host h) parse i root_path s of
     (Inr ow, s') \<Rightarrow> map_of (workspaces s) i = None
       \<and> (\<exists>new w. log_of s' = log_of s @ new \<and> workspaces s' = AList.update i w (workspaces s)
            \<and> granted h root_path new w \<and> public_workspace i w = Inr ow)
   | (Inl e, s') \<Rightarrow> workspaces s' = workspaces s \<and> (\<exists>new. log_of s' = log_of s @ new \<and>
       (case acknowledged new of [] \<Rightarrow> True
        | c # cs \<Rightarrow> cs = [] \<and> (\<exists>r. last new = Sent ''workspace.unregister'' [capability_field c] r)))"
proof -
  let ?E = "\<lambda>e s'. workspaces s' = workspaces s \<and> (\<exists>new. log_of s' = log_of s @ new \<and>
       (case acknowledged new of [] \<Rightarrow> True
        | c # cs \<Rightarrow> cs = [] \<and> (\<exists>r. last new = Sent ''workspace.unregister'' [capability_field c] r)))"
  let ?Q = "\<lambda>ow s'. map_of (workspaces s) i = None
       \<and> (\<exists>new w. log_of s' = log_of s @ new \<and> workspaces s' = AList.update i w (workspaces s)
            \<and> granted h root_path new w \<and> public_workspace i w = Inr ow)"
  have "?E e s" for e by simp
  moreover have "wp (catch_act (open_body (logged_host h) parse i root_path) (open_failed (logged_host h) i)) ?Q ?E
      (s\<lparr>workspaces := AList.update i new_workspace (workspaces s)\<rparr>)"
    if "map_of (workspaces s) i = None"
  proof (rule wp_catch, rule wp_mono, rule open_body_outcome)
    show "in_opening i (workspaces s) (log_of s) [] new_workspace
        (s\<lparr>workspaces := AList.update i new_workspace (workspaces s)\<rparr>)"
      by (simp add: in_opening_def new_workspace_def)
  next
    fix e and s' :: "('k \<times> event list) session"
    assume "stopped_opening i (workspaces s) (log_of s) s'"
    from open_failed_outcome [OF this that]
    show "wp (open_failed (logged_host h) i e) ?Q ?E s'"
      by (rule wp_mono) auto
  qed (use that in \<open>auto simp: in_opening_def\<close>)
  ultimately have "wp (open_workspace (logged_host h) parse i root_path) ?Q ?E s"
    unfolding open_workspace_def by (intro wp_bind wp_guard wp_read wp_on_workspaces) simp_all
  then show ?thesis by (simp add: wp_def split: prod.splits sum.splits)
qed

text \<open>
  C14. \<open>openWorkspace\<close> either adds exactly one workspace, READY, whose trust decision was made
  for its root, whose capability is the one its registration was answered with, whose policy
  grants nothing beyond the preset of the trusted ceiling and was imposed before the activation,
  and which is what the caller is told; or it leaves the map as it was, and when the kernel had
  acknowledged a registration, the last request asked it to unregister that capability.
\<close>
theorem open_workspace_outcome:
  "case open_workspace (logged_host h) parse i root_path s of
     (Inr ow, s') \<Rightarrow> map_of (workspaces s) i = None
       \<and> (\<exists>new w. log_of s' = log_of s @ new \<and> workspaces s' = AList.update i w (workspaces s)
            \<and> granted h root_path new w \<and> public_workspace i w = Inr ow)
   | (Inl e, s') \<Rightarrow> workspaces s' = workspaces s \<and> (\<exists>new. log_of s' = log_of s @ new \<and>
       (case acknowledged new of [] \<Rightarrow> True
        | c # cs \<Rightarrow> cs = [] \<and> (\<exists>r. last new = Sent ''workspace.unregister'' [capability_field c] r)))"
  by (rule open_outcome)

section \<open>Settled sessions\<close>

text \<open>
  Between the calls of a client, every workspace of the map went through a successful opening,
  whose whole exchange with the kernel is a piece of the log; it is READY, or CLOSING after a
  close that could not be completed.
\<close>

definition settled :: "'k host \<Rightarrow> event list \<Rightarrow> workspace_state \<Rightarrow> bool" where
  "settled h lg w = (\<exists>earlier new later root_path w0. lg = earlier @ new @ later
     \<and> granted h root_path new w0 \<and> (w = w0 \<or> w = w0\<lparr>wk_phase := Closing\<rparr>))"

definition settled_session :: "'k host \<Rightarrow> ('k \<times> event list) session \<Rightarrow> bool" where
  "settled_session h s = (distinct (map fst (workspaces s))
     \<and> (\<forall>iw \<in> set (workspaces s). settled h (log_of s) (snd iw)))"

lemma settled_fields:
  assumes "settled h lg w"
  shows "\<exists>root t c p. wk_root w = Some root \<and> wk_trust_id w = Some t \<and> wk_capability w = Some c
    \<and> wk_policy w = Some p \<and> policy_valid p \<and> \<not> wk_close_in_flight w \<and> wk_phase w \<noteq> Opening"
  using assms by (auto simp: settled_def granted_def)

lemma settled_more: "settled h lg w \<Longrightarrow> settled h (lg @ extra) w"
  unfolding settled_def by (metis append.assoc)

lemma settled_extend:
  assumes "settled_session h s" and "log_of s' = log_of s @ extra" and "set (workspaces s') \<subseteq> set (workspaces s)"
    and "distinct (map fst (workspaces s'))"
  shows "settled_session h s'"
proof -
  have "settled h (log_of s @ extra) (snd iw)" if "iw \<in> set (workspaces s')" for iw
    using assms(1,3) that by (intro settled_more) (auto simp: settled_session_def)
  with assms(2,4) show ?thesis by (simp add: settled_session_def)
qed

section \<open>Closing\<close>

definition closable :: "workspace_state \<Rightarrow> bool" where
  "closable w = (wk_phase w \<noteq> Opening \<and> wk_capability w \<noteq> None \<and> \<not> wk_close_in_flight w)"

definition close_methods :: "string list" where
  "close_methods = [''workspace.begin_close'', ''workspace.cancel_executions'', ''workspace.unregister'']"

lemma wp_before_deadline:
  "(\<not> late \<Longrightarrow> wp m Q E s) \<Longrightarrow>
   (late \<Longrightarrow> wp m (\<lambda>_ s'. E Close_Incomplete s') (\<lambda>_ s'. E Close_Incomplete s') s) \<Longrightarrow>
   wp (before_deadline late m) Q E s"
  by (auto simp: wp_def before_deadline_def split: prod.splits sum.splits)

lemma wp_update_present:
  "map_of (workspaces s) i = Some w \<Longrightarrow> Q () (s\<lparr>workspaces := AList.update i (f w) (workspaces s)\<rparr>) \<Longrightarrow>
     wp (update_workspace i f) Q E s"
  unfolding update_workspace_def by (rule wp_on_workspaces) simp

text \<open>One of the three requests of a close: the map stays, and the log grows by the request.\<close>

lemma wp_close_request:
  assumes "workspaces s = m" and "log_of s = lg"
    and "\<And>v s'. workspaces s' = m \<Longrightarrow> log_of s' = lg @ [Sent meth ps (Inr v)] \<Longrightarrow> reply_ok v \<Longrightarrow> \<not> late \<Longrightarrow> Q () s'"
    and "\<And>e r s'. workspaces s' = m \<Longrightarrow> log_of s' = lg @ [Sent meth ps r] \<Longrightarrow> E e s'"
  shows "wp (before_deadline late (request_ok (logged_host h) meth ps)) Q E s"
  by (rule wp_before_deadline; rule wp_request_ok)
    (use assms(1,2) in \<open>auto simp: log_kernel_eq intro!: assms(3,4)\<close>)

definition closed_log :: "(nat \<Rightarrow> bool) \<Rightarrow> jsstring \<Rightarrow> event list \<Rightarrow> bool" where
  "closed_log late cap new = (\<exists>rs. new = map2 (\<lambda>m v. Sent m [capability_field cap] (Inr v)) close_methods rs
     \<and> length rs = 3 \<and> list_all reply_ok rs \<and> \<not> late 0 \<and> \<not> late 1 \<and> \<not> late 2)"

definition failed_close_log :: "jsstring \<Rightarrow> event list \<Rightarrow> bool" where
  "failed_close_log cap new = (\<exists>rs. new = map2 (\<lambda>m r. Sent m [capability_field cap] r) close_methods rs
     \<and> 0 < length rs \<and> length rs \<le> 3)"

lemma close_body:
  assumes "map_of (workspaces s) i = Some w" and "closable w" and "wk_capability w = Some cap"
  shows "wp (close_workspace late (logged_host h) i)
    (\<lambda>_ s'. workspaces s' = AList.delete i (workspaces s)
       \<and> (\<exists>new. log_of s' = log_of s @ new \<and> closed_log late cap new))
    (\<lambda>e s'. e = Close_Incomplete
       \<and> workspaces s' = AList.update i (w\<lparr>wk_phase := Closing, wk_close_in_flight := False\<rparr>) (workspaces s)
       \<and> (\<exists>new. log_of s' = log_of s @ new \<and> failed_close_log cap new)) s"
proof -
  let ?m = "AList.update i (w\<lparr>wk_phase := Closing, wk_close_in_flight := True\<rparr>) (workspaces s)"
  let ?inv = "\<lambda>s'. workspaces s' = ?m \<and> (\<exists>new. log_of s' = log_of s @ new \<and> failed_close_log cap new)"
  let ?steps = "bind_act (before_deadline (late 0) (request_ok (logged_host h) ''workspace.begin_close'' [capability_field cap])) (\<lambda>_.
     bind_act (before_deadline (late 1) (request_ok (logged_host h) ''workspace.cancel_executions'' [capability_field cap])) (\<lambda>_.
     bind_act (before_deadline (late 2) (request_ok (logged_host h) ''workspace.unregister'' [capability_field cap])) (\<lambda>_.
       on_workspaces (AList.delete i))))"
  have failed: "failed_close_log cap [Sent ''workspace.begin_close'' [capability_field cap] r]"
    "failed_close_log cap [Sent ''workspace.begin_close'' [capability_field cap] r0,
       Sent ''workspace.cancel_executions'' [capability_field cap] r]"
    "failed_close_log cap [Sent ''workspace.begin_close'' [capability_field cap] r0,
       Sent ''workspace.cancel_executions'' [capability_field cap] r1,
       Sent ''workspace.unregister'' [capability_field cap] r]" for r r0 r1
    by (auto simp: failed_close_log_def close_methods_def
        intro: exI [of _ "[r]"] exI [of _ "[r0, r]"] exI [of _ "[r0, r1, r]"])
  have closed: "closed_log late cap [Sent ''workspace.begin_close'' [capability_field cap] (Inr v0),
       Sent ''workspace.cancel_executions'' [capability_field cap] (Inr v1),
       Sent ''workspace.unregister'' [capability_field cap] (Inr v2)]"
    if "reply_ok v0" "reply_ok v1" "reply_ok v2" "\<not> late 0" "\<not> late 1" "\<not> late 2" for v0 v1 v2
    using that by (auto simp: closed_log_def close_methods_def intro: exI [of _ "[v0, v1, v2]"])
  have body: "wp ?steps
     (\<lambda>_ s'. workspaces s' = AList.delete i (workspaces s)
       \<and> (\<exists>new. log_of s' = log_of s @ new \<and> closed_log late cap new))
     (\<lambda>_. ?inv) (s\<lparr>workspaces := ?m\<rparr>)"
    apply (rule wp_bind, rule wp_close_request [where m = ?m and lg = "log_of s"], simp, simp)
     apply (rule wp_bind, rule wp_close_request, assumption, assumption)
      apply (rule wp_bind, rule wp_close_request, assumption, assumption)
       apply (rule wp_on_workspaces)
       apply (auto simp: failed delete_update_same intro: closed)
    done
  have guard: "wk_phase w \<noteq> Opening \<and> \<not> wk_close_in_flight w"
    using assms(2) by (simp add: closable_def)
  show ?thesis
    unfolding close_workspace_def
    apply (rule wp_bind, rule wp_read)
    apply (simp add: assms(1,3) guard del: One_nat_def)
    apply (rule wp_bind, rule wp_guard)
     apply (rule wp_bind, rule wp_update_present [OF assms(1)])
     apply (rule wp_catch, rule wp_mono [OF body])
      apply assumption
     apply (rule wp_bind, rule wp_update_workspace, erule conjunct1)
     apply (rule wp_throw)
     apply (auto simp: update_assoc_update)
    done
qed

lemma close_outcome:
  "case close_workspace late (logged_host h) i s of
     (Inr _, s') \<Rightarrow> workspaces s' = AList.delete i (workspaces s)
       \<and> (\<exists>w cap new. map_of (workspaces s) i = Some w \<and> closable w \<and> wk_capability w = Some cap
            \<and> log_of s' = log_of s @ new \<and> closed_log late cap new)
   | (Inl e, s') \<Rightarrow> (case map_of (workspaces s) i of
       None \<Rightarrow> e = Workspace_Not_Found \<and> s' = s
     | Some w \<Rightarrow> if closable w
         then e = Close_Incomplete
           \<and> workspaces s' = AList.update i (w\<lparr>wk_phase := Closing, wk_close_in_flight := False\<rparr>) (workspaces s)
           \<and> (\<exists>cap new. wk_capability w = Some cap \<and> log_of s' = log_of s @ new \<and> failed_close_log cap new)
         else e = Workspace_Not_Ready \<and> s' = s)"
proof (cases "map_of (workspaces s) i")
  case None
  then show ?thesis by (simp add: close_workspace_def bind_act_def act_simps)
next
  case (Some w)
  show ?thesis
  proof (cases "closable w")
    case True
    then obtain cap where cap: "wk_capability w = Some cap" by (auto simp: closable_def)
    show ?thesis using close_body [OF Some True cap, of late h] Some True cap
      by (simp add: wp_def split: prod.splits sum.splits)
  next
    case False
    with Some show ?thesis
      by (cases "wk_capability w") (auto simp: close_workspace_def bind_act_def act_simps closable_def)
  qed
qed

text \<open>
  C22. \<open>closeWorkspace\<close> either removes exactly this workspace, after the kernel acknowledged the
  begin of the close, the cancellation of its executions and its unregistration, in this order
  and before the deadline; or it leaves the workspace CLOSING with its capability, so that the
  close can be tried again; or the workspace was unknown or not closable and nothing happened.
\<close>
theorem close_workspace_outcome:
  "case close_workspace late (logged_host h) i s of
     (Inr _, s') \<Rightarrow> workspaces s' = AList.delete i (workspaces s)
       \<and> (\<exists>w cap new. map_of (workspaces s) i = Some w \<and> closable w \<and> wk_capability w = Some cap
            \<and> log_of s' = log_of s @ new \<and> closed_log late cap new)
   | (Inl e, s') \<Rightarrow> (case map_of (workspaces s) i of
       None \<Rightarrow> e = Workspace_Not_Found \<and> s' = s
     | Some w \<Rightarrow> if closable w
         then e = Close_Incomplete
           \<and> workspaces s' = AList.update i (w\<lparr>wk_phase := Closing, wk_close_in_flight := False\<rparr>) (workspaces s)
           \<and> (\<exists>cap new. wk_capability w = Some cap \<and> log_of s' = log_of s @ new \<and> failed_close_log cap new)
         else e = Workspace_Not_Ready \<and> s' = s)"
  by (rule close_outcome)

text \<open>A kernel that acknowledges the requests of a close.\<close>

definition acknowledges :: "'k kernel \<Rightarrow> string \<Rightarrow> bool" where
  "acknowledges kern m = (\<forall>ps k. \<exists>v k'. kern m ps k = (Inr v, k') \<and> reply_ok v)"

lemma wp_acknowledged:
  assumes "acknowledges (h_kernel h) m" and "\<And>k. Q () (s\<lparr>world := k\<rparr>)"
  shows "wp (request_ok h m ps) Q E s"
proof -
  obtain v k where "h_kernel h m ps (world s) = (Inr v, k)" "reply_ok v"
    using assms(1) unfolding acknowledges_def by blast
  then show ?thesis using assms(2)
    by (simp add: wp_def request_ok_def kernel_request_def call_world_def bind_act_def act_simps)
qed

lemma close_acknowledged:
  assumes "map_of (workspaces s) i = Some w" and "closable w"
    and "list_all (acknowledges (h_kernel h)) close_methods"
  shows "\<exists>t. close_workspace (\<lambda>_. False) h i s = (Inr (), t) \<and> workspaces t = AList.delete i (workspaces s)"
proof -
  have ack: "acknowledges (h_kernel h) ''workspace.begin_close''"
    "acknowledges (h_kernel h) ''workspace.cancel_executions''" "acknowledges (h_kernel h) ''workspace.unregister''"
    using assms(3) by (simp_all add: close_methods_def)
  obtain cap where cap: "wk_capability w = Some cap" "wk_phase w \<noteq> Opening" "\<not> wk_close_in_flight w"
    using assms(2) by (auto simp: closable_def)
  have "wp (close_workspace (\<lambda>_. False) h i) (\<lambda>_ t. workspaces t = AList.delete i (workspaces s)) (\<lambda>_ _. False) s"
    unfolding close_workspace_def
    apply (rule wp_bind, rule wp_read)
    apply (simp add: assms(1) cap del: One_nat_def)
    apply (intro wp_bind wp_guard wp_catch wp_update_present [OF assms(1)] wp_before_deadline
        wp_acknowledged ack wp_on_workspaces)
    apply (simp_all add: delete_update_same)
    done
  then show ?thesis by (auto simp: wp_def split: prod.splits sum.splits)
qed

text \<open>
  A close that could not be completed can be completed: when the kernel comes back and
  acknowledges the three requests in time, trying again removes exactly this workspace.
\<close>
lemma incomplete_close_can_be_retried:
  assumes "close_workspace late (logged_host h) i s = (Inl Close_Incomplete, s')"
    and "list_all (acknowledges (h_kernel h')) close_methods" and "workspaces s'' = workspaces s'"
  shows "\<exists>t. close_workspace (\<lambda>_. False) h' i s'' = (Inr (), t)
    \<and> workspaces t = AList.delete i (workspaces s)"
proof -
  obtain w where w: "closable w"
    and s': "workspaces s' = AList.update i (w\<lparr>wk_phase := Closing, wk_close_in_flight := False\<rparr>) (workspaces s)"
    using close_outcome [where late = late and h = h and i = i and s = s] assms(1) by (auto split: option.splits if_splits)
  have "map_of (workspaces s'') i = Some (w\<lparr>wk_phase := Closing, wk_close_in_flight := False\<rparr>)"
    by (simp add: assms(3) s')
  moreover have "closable (w\<lparr>wk_phase := Closing, wk_close_in_flight := False\<rparr>)"
    using w by (simp add: closable_def)
  ultimately show ?thesis
    using close_acknowledged [OF _ _ assms(2)] by (fastforce simp: assms(3) s' delete_update_same)
qed

section \<open>Audit records\<close>

definition audit_fields :: "jsstring \<Rightarrow> string \<Rightarrow> string \<Rightarrow> fields" where
  "audit_fields op act_name phase = [fld ''operationId'' (JStr op), fld ''action'' (JStr (js act_name)),
     fld ''phase'' (JStr (js phase))]"

lemma wp_audit:
  assumes "workspaces s = m" and "log_of s = lg"
    and "\<And>v s'. workspaces s' = m \<Longrightarrow> log_of s' = lg @ [Sent meth ps (Inr v)] \<Longrightarrow> reply_ok v \<Longrightarrow> Q () s'"
    and "\<And>e r s'. workspaces s' = m \<Longrightarrow> log_of s' = lg @ [Sent meth ps r] \<Longrightarrow>
      (\<And>v. r = Inr v \<Longrightarrow> \<not> reply_ok v) \<Longrightarrow> E e s'"
  shows "wp (request_ok (logged_host h) meth ps) Q E s"
  unfolding request_ok_def
  by (intro wp_bind wp_kernel_request wp_guard)
    (use assms(1,2) in \<open>auto simp: log_kernel_eq intro!: assms(3,4)\<close>)

lemmas audit_folded = audit_trust_def [folded audit_fields_def] audit_checkpoint_def [folded audit_fields_def]

fun phase_is :: "string \<Rightarrow> event \<Rightarrow> bool" where
  "phase_is phase (Sent m ps r) = ((m = ''trust.audit'' \<or> m = ''workspace.checkpoint_audit'')
     \<and> get ps ''phase'' = Some (JStr (js phase)))"
| "phase_is phase (Stored n b) = False"

fun answered_ok :: "event \<Rightarrow> bool" where
  "answered_ok (Sent m ps (Inr v)) = reply_ok v"
| "answered_ok _ = False"

fun is_store :: "event \<Rightarrow> bool" where
  "is_store (Stored n b) = True"
| "is_store _ = False"

definition is_decision :: "event \<Rightarrow> bool" where
  "is_decision e = (phase_is ''decision'' e \<and> answered_ok e)"

text \<open>
  Nothing is stored before the kernel acknowledged the decision; a call that returns ends with
  the acknowledged record of its success. One that fails after its decision ends with the attempt
  to record the failure, unless what failed was the record of success itself: then that record is
  the last event, and the kernel did not acknowledge it.
\<close>

definition concludes :: "bool \<Rightarrow> event \<Rightarrow> bool" where
  "concludes returned e = (if returned then phase_is ''success'' e \<and> answered_ok e
     else phase_is ''failed'' e \<or> phase_is ''success'' e \<and> \<not> answered_ok e)"

definition audited :: "bool \<Rightarrow> event list \<Rightarrow> bool" where
  "audited returned new = (\<not> list_ex is_store (takeWhile (\<lambda>e. \<not> is_decision e) new)
     \<and> (case dropWhile (\<lambda>e. \<not> is_decision e) new of
          [] \<Rightarrow> \<not> returned
        | d # rest \<Rightarrow> rest \<noteq> [] \<and> concludes returned (last rest)))"

lemma audited_nothing:
  assumes "list_all (\<lambda>e. \<not> is_decision e \<and> \<not> is_store e) new"
  shows "audited False new"
proof -
  have "takeWhile (\<lambda>e. \<not> is_decision e) new = new" "dropWhile (\<lambda>e. \<not> is_decision e) new = []"
    using assms by (auto simp: list_all_iff)
  then show ?thesis using assms by (simp only: audited_def) (auto simp: list_all_iff list_ex_iff)
qed

lemma audited_bracket:
  assumes "list_all (\<lambda>e. \<not> is_decision e \<and> \<not> is_store e) pre" and "is_decision d"
    and "concludes returned e"
  shows "audited returned (pre @ d # mid @ [e])"
proof -
  have "takeWhile (\<lambda>e. \<not> is_decision e) (pre @ d # mid @ [e]) = pre"
    "dropWhile (\<lambda>e. \<not> is_decision e) (pre @ d # mid @ [e]) = d # mid @ [e]"
    using assms(1,2) by (simp_all add: list_all_iff takeWhile_append2 dropWhile_append2)
  then show ?thesis using assms by (auto simp: audited_def list_all_iff list_ex_iff)
qed

text \<open>The log since \<open>lg\<close>, before and after the acknowledged decision, and at the end.\<close>

definition stage :: "event list \<Rightarrow> bool \<Rightarrow> ('k \<times> event list) session \<Rightarrow> bool" where
  "stage lg decided s = (\<exists>pre rest. log_of s = lg @ pre @ rest
     \<and> list_all (\<lambda>e. \<not> is_decision e \<and> \<not> is_store e) pre
     \<and> (if decided then rest \<noteq> [] \<and> is_decision (hd rest) else rest = []))"

definition recorded :: "event list \<Rightarrow> bool \<Rightarrow> ('k \<times> event list) session \<Rightarrow> bool" where
  "recorded lg returned s = (\<exists>new. log_of s = lg @ new \<and> audited returned new)"

lemma stageI:
  "log_of s = lg @ pre @ rest \<Longrightarrow> list_all (\<lambda>e. \<not> is_decision e \<and> \<not> is_store e) pre \<Longrightarrow>
   (if decided then rest \<noteq> [] \<and> is_decision (hd rest) else rest = []) \<Longrightarrow> stage lg decided s"
  unfolding stage_def by blast

lemma stage_start: "stage (log_of s) False s"
  by (simp add: stage_def)

lemma stage_recorded: "stage lg False s \<Longrightarrow> recorded lg False s"
  by (auto simp: stage_def recorded_def audited_nothing)

lemma stage_same: "stage lg d s \<Longrightarrow> log_of s' = log_of s \<Longrightarrow> stage lg d s'"
  by (simp add: stage_def)

lemma stage_more:
  assumes "stage lg d s" and "log_of s' = log_of s @ new"
    and "\<And>e. e \<in> set new \<Longrightarrow> d \<or> \<not> is_decision e \<and> \<not> is_store e"
  shows "stage lg d s'"
proof -
  obtain pre rest where st: "log_of s = lg @ pre @ rest" "list_all (\<lambda>e. \<not> is_decision e \<and> \<not> is_store e) pre"
      "if d then rest \<noteq> [] \<and> is_decision (hd rest) else rest = []"
    using assms(1) unfolding stage_def by blast
  show ?thesis
  proof (cases d)
    case True
    then show ?thesis using st assms(2) 
      by (intro stageI [where pre = pre and rest = "rest @ new"]) (auto simp: list_all_iff)
  next
    case False
    then show ?thesis using st assms(2,3)
      by (intro stageI [where pre = "pre @ new" and rest = "[]"]) (auto simp: list_all_iff)
  qed
qed

lemma stage_decided:
  assumes "stage lg False s" and "log_of s' = log_of s @ [e]" and "is_decision e"
  shows "stage lg True s'"
proof -
  obtain pre where "log_of s = lg @ pre" "list_all (\<lambda>e. \<not> is_decision e \<and> \<not> is_store e) pre"
    using assms(1) by (auto simp: stage_def)
  then show ?thesis using assms(2,3)
    by (intro stageI [where pre = pre and rest = "[e]"]) auto
qed

lemma stage_finished:
  assumes "stage lg True s" and "log_of s' = log_of s @ [e]"
    and "concludes returned e"
  shows "recorded lg returned s'"
proof -
  obtain pre d mid where "log_of s = lg @ pre @ d # mid" "is_decision d"
      "list_all (\<lambda>e. \<not> is_decision e \<and> \<not> is_store e) pre"
    using assms(1) unfolding stage_def by (auto simp: neq_Nil_conv)
  then show ?thesis using audited_bracket [OF _ _ assms(3), of pre d mid] assms(2)
    by (auto simp: recorded_def intro!: exI [of _ "pre @ d # mid @ [e]"])
qed

lemma phase_fields [simp]: "get (audit_fields op a phase) ''phase'' = Some (JStr (js phase))"
  by (simp add: audit_fields_def)

lemma wp_stage_request:
  assumes "stage lg d s" and "m \<noteq> ''trust.audit''" and "m \<noteq> ''workspace.checkpoint_audit''"
    and "\<And>x s'. stage lg d s' \<Longrightarrow> workspaces s' = workspaces s \<Longrightarrow> Q x s'" and "\<And>e s'. stage lg d s' \<Longrightarrow> E e s'"
  shows "wp (kernel_request (logged_host h) m ps) Q E s"
proof (rule wp_kernel_request)
  show "Q x (s\<lparr>world := k\<rparr>)" if "h_kernel (logged_host h) m ps (world s) = (Inr x, k)" for x k
    by (rule assms(4), rule stage_more [OF assms(1)])
      (use that assms(2,3) in \<open>auto simp: log_kernel_eq is_decision_def\<close>)
  show "E (Kernel_Failed e) (s\<lparr>world := k\<rparr>)" if "h_kernel (logged_host h) m ps (world s) = (Inl e, k)" for e k
    by (rule assms(5), rule stage_more [OF assms(1)])
      (use that assms(2,3) in \<open>auto simp: log_kernel_eq is_decision_def\<close>)
qed

lemma wp_stage_read:
  assumes "stage lg d s" and "\<And>x s'. stage lg d s' \<Longrightarrow> workspaces s' = workspaces s \<Longrightarrow> Q x s'" and "\<And>e s'. stage lg d s' \<Longrightarrow> E e s'"
  shows "wp (call_world wrap (beside f)) Q E s"
  by (rule wp_call_world; (rule assms(2) | rule assms(3)); (rule stage_same [OF assms(1)])?) (auto simp: beside_eq)

lemma wp_stage_store:
  assumes "stage lg True s" and "\<And>x s'. stage lg True s' \<Longrightarrow> workspaces s' = workspaces s \<Longrightarrow> Q x s'" and "\<And>e s'. stage lg True s' \<Longrightarrow> E e s'"
  shows "wp (call_world wrap (noted n f)) Q E s"
  by (rule wp_call_world; (rule assms(2) | rule assms(3)); (rule stage_more [OF assms(1)])?) (auto simp: noted_eq)

lemma wp_decide:
  fixes s :: "('k \<times> event list) session"
  assumes "stage lg False s" and "m = ''trust.audit'' \<or> m = ''workspace.checkpoint_audit''"
    and "\<And>s'. stage lg True s' \<Longrightarrow> workspaces s' = workspaces s \<Longrightarrow> Q () s'" and "\<And>e s'. stage lg False s' \<Longrightarrow> E e s'"
  shows "wp (request_ok (logged_host h) m (audit_fields op a ''decision'')) Q E s"
proof (rule wp_audit [OF refl refl])
  let ?e = "Sent m (audit_fields op a ''decision'')"
  show "E e s'" if "log_of s' = log_of s @ [?e r]" "\<And>v. r = Inr v \<Longrightarrow> \<not> reply_ok v"
    for e r and s' :: "('k \<times> event list) session"
    using that by (intro assms(4) stage_more [OF assms(1) that(1)])
      (auto simp: is_decision_def elim!: answered_ok.elims)
  show "Q () s'" if "workspaces s' = workspaces s" "log_of s' = log_of s @ [?e (Inr v)]" "reply_ok v"
    for v and s' :: "('k \<times> event list) session"
    using that assms(2) by (intro assms(3) stage_decided [OF assms(1)]) (auto simp: is_decision_def)
qed

lemma wp_conclude:
  fixes s :: "('k \<times> event list) session"
  assumes "stage lg True s" and "m = ''trust.audit'' \<or> m = ''workspace.checkpoint_audit''"
    and "phase = ''success'' \<or> phase = ''failed''"
    and "\<And>s'. workspaces s' = workspaces s \<Longrightarrow> recorded lg (phase = ''success'') s' \<Longrightarrow> Q () s'"
    and "\<And>e s'. recorded lg False s' \<Longrightarrow> E e s'"
  shows "wp (request_ok (logged_host h) m (audit_fields op a phase)) Q E s"
proof (rule wp_audit [OF refl refl])
  let ?e = "Sent m (audit_fields op a phase)"
  show "E e s'" if "log_of s' = log_of s @ [?e r]" "\<And>v. r = Inr v \<Longrightarrow> \<not> reply_ok v"
    for e r and s' :: "('k \<times> event list) session"
  proof (rule assms(5), rule stage_finished [OF assms(1) that(1)])
    have "\<not> answered_ok (?e r)" using that(2) by (cases r) simp_all
    then show "concludes False (?e r)" using assms(2,3) by (auto simp: concludes_def)
  qed
  fix v and s' :: "('k \<times> event list) session"
  assume "workspaces s' = workspaces s" and log: "log_of s' = log_of s @ [?e (Inr v)]" and "reply_ok v"
  moreover from this have "recorded lg (phase = ''success'') s'"
    using assms(2,3) by (intro stage_finished [OF assms(1) log]) (auto simp: concludes_def)
  ultimately show "Q () s'" by (intro assms(4))
qed

text \<open>A close, as one step of a longer call.\<close>

lemma close_methods_quiet:
  assumes "e \<in> set (map2 (\<lambda>m r. Sent m [capability_field cap] r) close_methods rs)"
  shows "\<not> is_decision e \<and> \<not> is_store e"
  using assms by (auto simp: close_methods_def is_decision_def dest!: set_zip_leftD)

lemma failed_log_quiet: "failed_close_log cap new \<Longrightarrow> e \<in> set new \<Longrightarrow> \<not> is_decision e \<and> \<not> is_store e"
  using close_methods_quiet by (fastforce simp: failed_close_log_def)

lemma closed_log_failed:
  assumes "closed_log late cap new"
  shows "failed_close_log cap new"
proof -
  obtain rs where "new = map2 (\<lambda>m v. Sent m [capability_field cap] (Inr v)) close_methods rs" "length rs = 3"
    using assms by (auto simp: closed_log_def)
  then have "new = map2 (\<lambda>m r. Sent m [capability_field cap] r) close_methods (map Inr rs)"
      "0 < length (map Inr rs)" "length (map Inr rs) \<le> 3"
    by (simp_all add: zip_map2 case_prod_unfold comp_def)
  then show ?thesis unfolding failed_close_log_def by blast
qed

lemma stage_close_log:
  assumes "stage lg d s" and "log_of s' = log_of s @ new" and "failed_close_log cap new"
  shows "stage lg d s'"
  by (rule stage_more [OF assms(1,2)]) (use failed_log_quiet [OF assms(3)] in blast)

lemma wp_stage_close:
  assumes "stage lg d s"
    and "\<And>s'. stage lg d s' \<Longrightarrow> workspaces s' = AList.delete i (workspaces s) \<Longrightarrow> Q () s'"
    and "\<And>e s'. stage lg d s' \<Longrightarrow> E e s'"
  shows "wp (close_workspace late (logged_host h) i) Q E s"
proof (rule wpI)
  fix u s'
  assume "close_workspace late (logged_host h) i s = (Inr u, s')"
  then show "Q u s'"
    using close_outcome [where late = late and h = h and i = i and s = s]
    by (auto intro!: assms(2) intro: stage_close_log [OF assms(1)] closed_log_failed)
next
  fix e s'
  assume "close_workspace late (logged_host h) i s = (Inl e, s')"
  then have "s' = s \<or> (\<exists>cap new. log_of s' = log_of s @ new \<and> failed_close_log cap new)"
    using close_outcome [where late = late and h = h and i = i and s = s]
    by (auto split: option.splits if_splits)
  then show "E e s'"
    using assms(1) by (auto intro!: assms(3) intro: stage_close_log)
qed

lemma delete_filter: "AList.delete k m = filter (\<lambda>kv. fst kv \<noteq> k) m"
  by (induction m) auto

lemma wp_stage_close_all:
  fixes s :: "('k \<times> event list) session"
  assumes "stage lg d s"
    and "\<And>s'. stage lg d s' \<Longrightarrow> workspaces s' = filter (\<lambda>iw. fst iw \<notin> fst ` set bound) (workspaces s) \<Longrightarrow> Q () s'"
    and "\<And>e s'. stage lg d s' \<Longrightarrow> E e s'"
  shows "wp (for_act (\<lambda>iw. close_workspace (late (fst iw)) (logged_host h) (fst iw)) bound) Q E s"
  using assms
proof (induction bound arbitrary: s)
  case Nil
  then show ?case by (simp add: wp_ret)
next
  case (Cons iw bound)
  show ?case
    unfolding for_act.simps
  proof (rule wp_bind, rule wp_stage_close [OF Cons.prems(1)])
    fix s' :: "('k \<times> event list) session"
    assume s': "stage lg d s'" "workspaces s' = AList.delete (fst iw) (workspaces s)"
    show "wp (for_act (\<lambda>iw. close_workspace (late (fst iw)) (logged_host h) (fst iw)) bound) Q E s'"
      by (rule Cons.IH [OF s'(1)])
        (use Cons.prems(2,3) s'(2) in \<open>auto simp: delete_filter intro: filter_cong\<close>)
  qed (rule Cons.prems(3))
qed

definition audited_run :: "(('k \<times> event list) session, 'e, 'a) action \<Rightarrow> ('k \<times> event list) session \<Rightarrow> bool" where
  "audited_run m s = recorded (log_of s) (is_ok (fst (m s))) (snd (m s))"

lemma audited_runI:
  "wp m (\<lambda>_. recorded (log_of s) True) (\<lambda>_. recorded (log_of s) False) s \<Longrightarrow> audited_run m s"
  by (auto simp: wp_def audited_run_def split: prod.splits sum.splits)

lemma trust_audited: "audited_run (trust_workspace (logged_host h) op root ceil) s"
proof (rule audited_runI)
  have "stage (log_of s) False s" by (rule stage_start)
  then show "wp (trust_workspace (logged_host h) op root ceil)
      (\<lambda>_. recorded (log_of s) True) (\<lambda>_. recorded (log_of s) False) s"
    unfolding trust_workspace_def audit_folded logged_host_simps
    apply (intro wp_bind wp_guard)
     apply (rule wp_stage_request, assumption, simp, simp)
      apply (intro wp_bind wp_lift wp_prod)
       apply (rule wp_stage_read, assumption)
        apply (intro wp_let wp_bind)
        apply (rule wp_decide, assumption, simp)
         apply (intro wp_bind wp_catch)
         apply (rule wp_stage_store, assumption)
          apply (intro wp_bind)
          apply (rule wp_conclude, assumption, simp, simp)
           apply (intro wp_ret, simp)
          apply simp
         apply (intro wp_bind)
         apply (rule wp_conclude, assumption, simp, simp)
          apply (intro wp_throw, simp)
         apply (simp_all add: stage_recorded)
    done
qed

lemma checkpoint_audited: "audited_run (checkpoint_workspace (logged_host h) op i c) s"
proof (rule audited_runI)
  have effect: "wp (checkpoint_effect cs t c) Q E s'"
    if "map_option logged_checkpoints hc = Some cs" "stage lg True s'" "\<And>x s'. stage lg True s' \<Longrightarrow> Q x s'" "\<And>e s'. stage lg True s' \<Longrightarrow> E e s'"
    for hc cs t lg s' Q E
  proof -
    note rules = that
    obtain cs0 where "cs = logged_checkpoints cs0" using rules(1) by auto
    then show ?thesis unfolding checkpoint_effect_def
      by (cases c; simp; intro wp_bind wp_stage_store [OF rules(2)]) (auto intro: wp_ret rules(3,4))
  qed
  have "stage (log_of s) False s" by (rule stage_start)
  then show "wp (checkpoint_workspace (logged_host h) op i c)
      (\<lambda>_. recorded (log_of s) True) (\<lambda>_. recorded (log_of s) False) s"
    unfolding checkpoint_workspace_def require_ready_state_def audit_folded logged_host_simps
    apply (intro wp_bind wp_read wp_lift wp_option)
      apply (rule wp_throw, simp add: stage_recorded)
      apply (rule wp_decide, assumption, simp)
       apply (intro wp_bind wp_catch)
       apply (rule effect, assumption, assumption)
        apply (intro wp_bind)
        apply (rule wp_conclude, assumption, simp, simp)
         apply (intro wp_ret, simp)
        apply simp
       apply (intro wp_bind)
       apply (rule wp_conclude, assumption, simp, simp)
        apply (intro wp_throw, simp)
       apply (simp_all add: stage_recorded)
    done
qed

lemma wp_stage_purge:
  assumes "stage lg True s" and "\<And>s'. stage lg True s' \<Longrightarrow> workspaces s' = workspaces s \<Longrightarrow> Q () s'"
    and "\<And>e s'. stage lg True s' \<Longrightarrow> E e s'"
  shows "wp (case h_checkpoints (logged_host h) of None \<Rightarrow> ret_act ()
    | Some cs \<Rightarrow> call_world Checkpoint_Failed (cs_purge cs t)) Q E s"
  using assms by (cases "h_checkpoints h") (auto intro: wp_ret wp_stage_store)

lemma untrust_run:
  "wp (untrust_workspace late (logged_host h) op t)
     (\<lambda>_ s'. recorded (log_of s) True s' \<and> (\<exists>es k. h_trust_list h (fst (world s)) = (Inr es, k) \<and>
        workspaces s' = filter (\<lambda>iw. fst iw \<notin> fst ` set (filter (\<lambda>iw. bound_to t (find (\<lambda>e. entry_id e = t) es) (snd iw))
          (workspaces s))) (workspaces s)))
     (\<lambda>_ s'. recorded (log_of s) False s') s"
proof -
  have start: "stage (log_of s) False s" by (rule stage_start)
  show ?thesis
    unfolding untrust_workspace_def audit_folded
    apply (intro wp_bind wp_guard wp_call_world)
      apply (intro wp_let wp_bind wp_read wp_guard)
       apply (rule wp_decide, rule stage_same [OF start])
          apply (clarsimp simp: beside_eq)
         apply simp
        apply (intro wp_bind wp_catch)
        apply (rule wp_stage_close_all, assumption)
         apply (intro wp_bind)
         apply (rule wp_stage_purge, assumption)
          apply (simp only: logged_host_simps)
          apply (rule wp_stage_store, assumption)
           apply (intro wp_bind)
           apply (rule wp_conclude, assumption, simp, simp)
            apply (rule wp_ret)
            apply (fastforce simp: beside_eq)
           apply simp
          apply (intro wp_bind, rule wp_conclude, assumption, simp, simp, rule wp_throw, simp, simp)+
    apply (auto simp: beside_eq intro!: stage_recorded stage_same [OF start])
    done
qed

text \<open>
  C15. \<open>trustWorkspace\<close>, \<open>untrustWorkspace\<close> and \<open>checkpointWorkspace\<close> change stored state only
  after the kernel acknowledged the audit record of the decision. When such a call returns, its
  last event is the acknowledged record of success; when it fails after the decision, its last
  event is the attempt to record the failure, or the record of success if that is what the kernel
  did not acknowledge. No call that fails leaves an acknowledged record of success behind as its
  last event, and none that returns a record of failure.
\<close>
theorem changes_are_audited:
  "audited_run (trust_workspace (logged_host h) op root ceil) s
   \<and> audited_run (untrust_workspace late (logged_host h) op t) s
   \<and> audited_run (checkpoint_workspace (logged_host h) op i c) s"
proof (intro conjI)
  show "audited_run (untrust_workspace late (logged_host h) op t) s"
    by (rule audited_runI, rule wp_mono [OF untrust_run]) auto
qed (rule trust_audited checkpoint_audited)+


section \<open>Runs of a client\<close>

lemma granted_ready: "granted h root_path new w \<Longrightarrow> settled h (lg @ new) w"
  unfolding settled_def by (metis append.right_neutral)

lemma settled_closing:
  assumes "settled h lg w"
  shows "settled h lg (w\<lparr>wk_phase := Closing, wk_close_in_flight := False\<rparr>)"
proof -
  obtain earlier new later root_path w0 where g: "granted h root_path new w0"
    and w: "w = w0 \<or> w = w0\<lparr>wk_phase := Closing\<rparr>" and lg: "lg = earlier @ new @ later"
    using assms unfolding settled_def by blast
  from g have "\<not> wk_close_in_flight w0" by (auto simp: granted_def)
  then have "w\<lparr>wk_phase := Closing, wk_close_in_flight := False\<rparr> = w0\<lparr>wk_phase := Closing\<rparr>"
    using w by (cases w0) auto
  then show ?thesis using g lg unfolding settled_def by blast
qed

lemma distinct_update_keys: "distinct (map fst m) \<Longrightarrow> distinct (map fst (AList.update i w m))"
  by (rule distinct_update)

lemma set_update: "set (AList.update i w m) \<subseteq> insert (i, w) (set m)"
  by (induction m) auto

lemma settled_update:
  assumes "settled_session h s" and "settled h (log_of s @ extra) w"
    and "workspaces s' = AList.update i w (workspaces s)" and "log_of s' = log_of s @ extra"
  shows "settled_session h s'"
proof -
  have "settled h (log_of s @ extra) (snd iw)" if "iw \<in> set (workspaces s')" for iw
  proof (cases "iw \<in> set (workspaces s)")
    case True
    with assms(1) show ?thesis by (intro settled_more) (auto simp: settled_session_def)
  next
    case False
    with that set_update [of i w "workspaces s"] assms(2,3) show ?thesis by auto
  qed
  with assms(1,3,4) show ?thesis by (simp add: settled_session_def distinct_update_keys)
qed

text \<open>
  Any sequence of calls on a fresh manager: opening, closing and untrusting with any replies and
  deadlines, and everything else, which leaves the map as it is and only adds to the log.
\<close>

inductive manager_run :: "'k host \<Rightarrow> ('k \<times> event list) session \<Rightarrow> bool" for h where
  run_start: "workspaces s = [] \<Longrightarrow> manager_run h s"
| run_open: "manager_run h s \<Longrightarrow> manager_run h (snd (open_workspace (logged_host h) parse i root_path s))"
| run_close: "manager_run h s \<Longrightarrow> manager_run h (snd (close_workspace late (logged_host h) i s))"
| run_untrust: "manager_run h s \<Longrightarrow> manager_run h (snd (untrust_workspace lates (logged_host h) op t s))"
| run_other: "manager_run h s \<Longrightarrow> workspaces s' = workspaces s \<Longrightarrow> log_of s' = log_of s @ extra \<Longrightarrow>
    manager_run h s'"

lemma close_settled:
  assumes s: "settled_session h s"
  shows "settled_session h (snd (close_workspace late (logged_host h) i s))"
proof -
  obtain r s' where run: "close_workspace late (logged_host h) i s = (r, s')" by (rule prod.exhaust)
  note out = close_outcome [where late = late and h = h and i = i and s = s, unfolded run]
  show ?thesis
  proof (cases r)
    case (Inr u)
    with out obtain new where "workspaces s' = AList.delete i (workspaces s)" "log_of s' = log_of s @ new" by auto
    moreover have "distinct (map fst (AList.delete i (workspaces s)))"
      using s by (simp add: settled_session_def delete_filter distinct_map_filter)
    ultimately have "settled_session h s'"
      by (intro settled_extend [OF s]) (auto simp: delete_filter)
    with run show ?thesis by simp
  next
    case (Inl e)
    show ?thesis
    proof (cases "s' = s")
      case True
      with s run show ?thesis by simp
    next
      case False
      with out Inl obtain w new where w: "map_of (workspaces s) i = Some w"
        and s': "workspaces s' = AList.update i (w\<lparr>wk_phase := Closing, wk_close_in_flight := False\<rparr>) (workspaces s)"
          "log_of s' = log_of s @ new"
        by (auto split: option.splits if_splits)
      have "settled h (log_of s @ new) w"
        using s map_of_SomeD [OF w] by (auto simp: settled_session_def settled_more)
      then show ?thesis using settled_update [OF s settled_closing s'] run by simp
    qed
  qed
qed

lemma open_settled:
  assumes "settled_session h s"
  shows "settled_session h (snd (open_workspace (logged_host h) parse i root_path s))"
proof -
  obtain r s' where run: "open_workspace (logged_host h) parse i root_path s = (r, s')" by (rule prod.exhaust)
  note out = open_outcome [where h = h and parse = parse and i = i and root_path = root_path and s = s, unfolded run]
  show ?thesis
  proof (cases r)
    case (Inr ow)
    with out obtain new w where "log_of s' = log_of s @ new" "workspaces s' = AList.update i w (workspaces s)"
      and "granted h root_path new w" by auto
    then have "settled_session h s'" by (intro settled_update [OF assms granted_ready])
    with run show ?thesis by simp
  next
    case (Inl e)
    with out obtain new where "log_of s' = log_of s @ new" "workspaces s' = workspaces s" by auto
    then have "settled_session h s'" using assms by (intro settled_extend [OF assms]) (auto simp: settled_session_def)
    with run show ?thesis by simp
  qed
qed

text \<open>The effects of a logged host only add to the log.\<close>

definition appends :: "('k \<times> event list \<Rightarrow> 'r \<times> 'k \<times> event list) \<Rightarrow> bool" where
  "appends f = (\<forall>kl. \<exists>extra. snd (snd (f kl)) = snd kl @ extra)"

lemma appends_intros:
  "appends (beside g)" "appends (noted name g')" "appends (h_kernel (logged_host h) m ps)"
  "appends (h_trust_list (logged_host h))" "appends (h_untrust (logged_host h) t)"
  by (auto simp: appends_def beside_def noted_def Let_def log_kernel_def split: prod.splits)

lemma wp_settled_call:
  assumes "settled_session h s" and "appends f"
    and "\<And>x s'. settled_session h s' \<Longrightarrow> Q x s'" and "\<And>e s'. settled_session h s' \<Longrightarrow> E e s'"
  shows "wp (call_world wrap f) Q E s"
proof -
  have "settled_session h (s\<lparr>world := k\<rparr>)" if "f (world s) = (r, k)" for r k
  proof -
    have "\<exists>extra. snd (snd (f (world s))) = log_of s @ extra"
      using assms(2) unfolding appends_def by (rule spec)
    with that obtain extra where "snd k = log_of s @ extra" by auto
    then show ?thesis using assms(1)
      by (intro settled_extend [OF assms(1), where extra = extra]) (simp_all add: settled_session_def)
  qed
  then show ?thesis by (rule wp_call_world [OF assms(3) assms(4)]; blast)
qed

lemma wp_settled_ok:
  assumes "settled_session h s"
    and "\<And>s'. settled_session h s' \<Longrightarrow> Q () s'" and "\<And>e s'. settled_session h s' \<Longrightarrow> E e s'"
  shows "wp (request_ok (logged_host g) m ps) Q E s"
  unfolding request_ok_def kernel_request_def
  by (rule wp_bind, rule wp_settled_call [OF assms(1) appends_intros(3)], rule wp_guard)
    (erule assms(2) assms(3))+

lemma untrust_settled:
  assumes "settled_session h s"
  shows "settled_session h (snd (untrust_workspace late (logged_host h) op t s))"
proof -
  have close: "wp (close_workspace l (logged_host h) i) (\<lambda>_. settled_session h) (\<lambda>_. settled_session h) s"
    if "settled_session h s" for l i s
    using close_settled [OF that, of l i] by (auto simp: wp_def split: prod.splits sum.splits)
  have purge: "wp (case h_checkpoints (logged_host h) of None \<Rightarrow> ret_act ()
      | Some cs \<Rightarrow> call_world Checkpoint_Failed (cs_purge cs t)) Q E s"
    if "settled_session h s" "\<And>s'. settled_session h s' \<Longrightarrow> Q () s'" "\<And>e s'. settled_session h s' \<Longrightarrow> E e s'"
    for Q E s
  proof (cases "h_checkpoints h")
    case None
    then show ?thesis using that(1,2) by (simp add: wp_ret)
  next
    case (Some cs)
    have "wp (call_world Checkpoint_Failed (cs_purge (logged_checkpoints cs) t)) Q E s"
      unfolding logged_checkpoints_simps
      by (rule wp_settled_call [OF that(1) appends_intros(2)]) (simp_all add: that)
    with Some show ?thesis by simp
  qed
  have "wp (untrust_workspace late (logged_host h) op t) (\<lambda>_. settled_session h) (\<lambda>_. settled_session h) s"
    unfolding untrust_workspace_def audit_folded
    apply (intro wp_bind wp_guard)
      apply (rule wp_settled_call [OF assms], rule appends_intros)
       apply (intro wp_let wp_bind wp_read wp_guard)
        apply (rule wp_settled_ok, assumption)
         apply (intro wp_bind wp_catch)
         apply (rule wp_for [where I = "settled_session h"], assumption)
          apply (rule close [THEN wp_mono], assumption, assumption)
          apply (intro wp_bind, rule wp_settled_ok, assumption, rule wp_throw, assumption, assumption)
         apply (assumption | rule assms purge wp_bind wp_ret wp_throw wp_catch wp_settled_call
             wp_settled_ok appends_intros)+
    done
  then show ?thesis by (auto simp: wp_def split: prod.splits sum.splits)
qed

lemma run_settled: "manager_run h s \<Longrightarrow> settled_session h s"
proof (induction rule: manager_run.induct)
  case (run_start s)
  then show ?case by (simp add: settled_session_def)
next
  case (run_other s s' extra)
  then show ?case by (intro settled_extend [OF run_other.IH run_other.hyps(3)]) (auto simp: settled_session_def)
qed (simp_all add: open_settled close_settled untrust_settled)

text \<open>
  C8. After any sequence of calls with any replies of the kernel and any deadlines, workspace
  identifiers are distinct, and every workspace is what a successful opening made of it, but for
  the phase of one whose close failed: the log of the requests contains the whole exchange of
  that opening, in which the kernel answered the registration of the root of the workspace, under
  the identity the trust decision was made for, with the capability the workspace has, and the
  policy of the workspace, which grants nothing beyond the preset of the ceiling its root was
  trusted under, was imposed on this capability.
\<close>
theorem workspaces_stay_granted:
  assumes "manager_run h s"
  shows "distinct (map fst (workspaces s)) \<and> (\<forall>(i, w) \<in> set (workspaces s).
    \<not> wk_close_in_flight w \<and> (\<exists>earlier new later root_path w0. log_of s = earlier @ new @ later
      \<and> granted h root_path new w0 \<and> (w = w0 \<or> w = w0\<lparr>wk_phase := Closing\<rparr>)))"
proof -
  have s: "settled_session h s" by (rule run_settled [OF assms])
  have "\<not> wk_close_in_flight w \<and> settled h (log_of s) w" if "(i, w) \<in> set (workspaces s)" for i w
  proof -
    have "settled h (log_of s) w" using s that by (auto simp: settled_session_def)
    then show ?thesis using settled_fields [of h _ w] by auto
  qed
  then show ?thesis using s by (auto simp: settled_session_def settled_def)
qed

lemma settled_public:
  assumes "settled h lg w" and "wk_phase w = Ready"
  shows "\<exists>ow. public_workspace i w = Inr ow \<and> ow_id ow = i"
  using settled_fields [OF assms(1)] assms(2) by (auto simp: public_workspace_def)

lemma map_res_total:
  "(\<And>x. x \<in> set xs \<Longrightarrow> \<exists>y. f x = Inr y \<and> g y = k x) \<Longrightarrow> \<exists>ys. map_res f xs = Inr ys \<and> map g ys = map k xs"
  by (induction xs) (force simp: bind_res_eq_Inr)+

text \<open>
  \<open>listWorkspaces\<close> never fails: after any sequence of calls it lists every READY workspace
  once and nothing else, in the order of the comparison.
\<close>
lemma list_workspaces_total:
  assumes "manager_run h s" and "\<And>a b. le a b \<or> le b a" and "\<And>a b c. le a b \<Longrightarrow> le b c \<Longrightarrow> le a c"
  shows "\<exists>ws. list_workspaces le s = (Inr ws, s) \<and> distinct (map ow_id ws)
    \<and> sorted_wrt le (map ow_id ws)
    \<and> ow_id ` set ws = {i. \<exists>w. (i, w) \<in> set (workspaces s) \<and> wk_phase w = Ready}"
proof -
  let ?ready = "filter (\<lambda>iw. wk_phase (snd iw) = Ready \<and> wk_capability (snd iw) \<noteq> None) (workspaces s)"
  have s: "settled_session h s" by (rule run_settled [OF assms(1)])
  have fields: "\<exists>c. wk_capability w = Some c" if "(i, w) \<in> set (workspaces s)" for i w
    using s settled_fields [of h _ w] that by (fastforce simp: settled_session_def)
  have "\<exists>ow. public_workspace (fst iw) (snd iw) = Inr ow \<and> ow_id ow = fst iw" if "iw \<in> set ?ready" for iw
    using that s by (intro settled_public [of h "log_of s"]) (auto simp: settled_session_def)
  from map_res_total [of ?ready "\<lambda>iw. public_workspace (fst iw) (snd iw)" ow_id fst, OF this]
  obtain ws where ws: "map_res (\<lambda>iw. public_workspace (fst iw) (snd iw)) ?ready = Inr ws"
    and ids: "map ow_id ws = map fst ?ready" by blast
  let ?out = "sort_by (\<lambda>a b. le (ow_id a) (ow_id b)) ws"
  have "list_workspaces le s = (Inr ?out, s)"
    by (simp add: list_workspaces_def bind_act_def act_simps ws del: not_None_eq)
  moreover have "distinct (map ow_id ?out)"
    using s by (simp add: distinct_map_sort_by ids settled_session_def distinct_map_filter)
  moreover have "sorted_wrt le (map ow_id ?out)"
    unfolding sorted_wrt_map by (rule sorted_sort_by) (fact assms(2), fact assms(3))
  moreover have "ow_id ` set ws = {i. \<exists>w. (i, w) \<in> set (workspaces s) \<and> wk_phase w = Ready}"
    using arg_cong [OF ids, of set] fields by (force simp: image_iff)
  ultimately show ?thesis by (auto simp: set_sort_by)
qed

section \<open>An instance\<close>

text \<open>A kernel with one root, which is trusted and has no project profile.\<close>

definition sample_reply :: "string \<Rightarrow> json" where
  "sample_reply m = (if m = ''system.inspect_root'' then
     JObj [fld ''canonicalRoot'' (JStr (js ''/w'')), fld ''identity'' (JObj [fld ''deviceMajor'' (JNum 8),
       fld ''deviceMinor'' (JNum 1), fld ''inode'' (JStr (js ''7''))])]
     else if m = ''workspace.register'' then JObj [fld ''capabilityId'' (JStr (js ''cap1''))]
     else if m = ''workspace.read_project_profile'' then JObj [fld ''contents'' JNull]
     else JObj [fld ''ok'' (JBool True)])"

definition sample_trusted :: trusted_entry where
  "sample_trusted = \<lparr>entry_id = js ''t1'', canonical_root = js ''/w'',
     entry_identity = \<lparr>device_major = 8, device_minor = 1, inode = js ''7''\<rparr>,
     profile_ceiling = Observe, trusted_at = js ''now''\<rparr>"

definition sample_host :: "unit host" where
  "sample_host = \<lparr>h_kernel = (\<lambda>m ps k. (Inr (sample_reply m), k)), h_trust_list = (\<lambda>k. (Inr [sample_trusted], k)),
     h_trust = (\<lambda>r i c k. (Inr sample_trusted, k)), h_untrust = (\<lambda>t k. (Inr True, k)),
     h_require_trusted = (\<lambda>r i k. (Inr sample_trusted, k)), h_checkpoints = None\<rparr>"

definition empty_session :: "(unit \<times> event list) session" where
  "empty_session = \<lparr>workspaces = [], world = ((), [])\<rparr>"

abbreviation sample_open :: "(manager_error + open_workspace) \<times> (unit \<times> event list) session" where
  "sample_open \<equiv> open_workspace (logged_host sample_host) (\<lambda>_. None) (js ''ws1'') (js ''/w'') empty_session"

lemma sample_runs:
  "manager_run sample_host (snd sample_open)"
  by (rule run_open, rule run_start) (simp add: empty_session_def)

lemmas run_simps = act_simps bind_act_def catch_act_def kernel_request_def call_world_def request_ok_def
  reply_ok_def update_workspace_def on_workspaces_def logged_host_def log_kernel_def beside_def noted_def Let_def
  sample_host_def sample_reply_def before_deadline_def

definition sample_ready :: workspace_state where
  "sample_ready = \<lparr>wk_phase = Ready, wk_close_in_flight = False, wk_root = Some (js ''/w''),
     wk_trust_id = Some (js ''t1''), wk_capability = Some (js ''cap1''),
     wk_policy = Some (canonical_policy (get_profile_preset Observe))\<rparr>"

lemma preset_unrestricted:
  "effective_policy f (get_profile_preset n) None = Inr (canonical_policy (get_profile_preset n))"
proof -
  have "resolve_profile (get_profile_preset n) (get_profile_preset n) = Inr (canonical_policy (get_profile_preset n))"
    by (simp add: resolve_profile_eq)
  then show ?thesis by (simp add: effective_policy_def)
qed

lemma sample_calls:
  "kernel_request (logged_host sample_host) m ps s
    = (Inr (sample_reply m), s\<lparr>world := ((), log_of s @ [Sent m ps (Inr (sample_reply m))])\<rparr>)"
  "call_world Trust_Failed (beside (h_require_trusted sample_host root ident)) s
    = (Inr sample_trusted, s\<lparr>world := ((), log_of s)\<rparr>)"
  by (simp_all add: kernel_request_def call_world_def sample_host_def logged_host_def log_kernel_def beside_def Let_def)

lemma sample_replies:
  "validate_inspect_result (Some (sample_reply ''system.inspect_root''))
    = Inr (js ''/w'', \<lparr>device_major = 8, device_minor = 1, inode = js ''7''\<rparr>)"
  "parse_register_result (sample_reply ''workspace.register'') = Inr (js ''cap1'')"
  "parse_profile_result (sample_reply ''workspace.read_project_profile'') = Inr None"
  "reply_ok (sample_reply ''workspace.restrict_policy'')" "reply_ok (sample_reply ''workspace.activate'')"
  by (simp_all add: sample_reply_def validate_inspect_result_def parse_register_result_def
      parse_profile_result_def reply_ok_def valid_or_def)

lemma sample_opened: "workspaces (snd sample_open) = [(js ''ws1'', sample_ready)]"
  by (simp add: open_workspace_def open_body_def act_simps bind_act_def catch_act_def request_ok_def
      sample_calls sample_replies update_workspace_def on_workspaces_def empty_session_def new_workspace_def
      preset_unrestricted sample_trusted_def sample_ready_def public_workspace_def Let_def
      del: get_profile_preset.simps)

text \<open>A run in which a workspace was opened: it is READY with the capability \<open>cap1\<close> of the reply.\<close>

theorem workspaces_stay_granted_witness:
  "wk_phase sample_ready = Ready \<and> wk_capability sample_ready = Some (js ''cap1'')
   \<and> workspaces (snd sample_open) = [(js ''ws1'', sample_ready)]
   \<and> (\<exists>earlier new later root_path w0. log_of (snd sample_open) = earlier @ new @ later
      \<and> granted sample_host root_path new w0 \<and> (sample_ready = w0 \<or> sample_ready = w0\<lparr>wk_phase := Closing\<rparr>))"
  using workspaces_stay_granted [OF sample_runs] by (simp add: sample_opened) (simp add: sample_ready_def)

definition ready_session :: "(unit \<times> event list) session" where
  "ready_session = \<lparr>workspaces = [(js ''ws1'', sample_ready)], world = ((), [])\<rparr>"


end
