(* ===== verification/Workspace_Isolation.thy ===== *)
theory Workspace_Isolation
  imports Workspace_Lifecycle
begin

text \<open>
  The capability requests of \<open>packages/core/src/workspace-manager.ts\<close> are confined: whatever the
  input, each leaves the map of workspaces alone and asks the kernel at most once, only while the
  workspace is READY, and with the capability of that workspace.
\<close>

definition confined :: "jsstring \<Rightarrow> (('k \<times> event list) session, manager_error, 'a) action \<Rightarrow> bool" where
  "confined i m = (\<forall>s. let (r, s') = m s in
     workspaces s' = workspaces s \<and>
     (if log_of s' = log_of s then \<not> is_ok r
      else (\<exists>w cap meth ps reply. map_of (workspaces s) i = Some w \<and> wk_phase w = Ready
         \<and> wk_capability w = Some cap \<and> log_of s' = log_of s @ [Sent meth (capability_field cap # ps) reply])))"

lemma confined_wp:
  "confined i m \<longleftrightarrow> (\<forall>s. wp m
     (\<lambda>_ s'. workspaces s' = workspaces s \<and> (\<exists>w cap meth ps reply. map_of (workspaces s) i = Some w
        \<and> wk_phase w = Ready \<and> wk_capability w = Some cap
        \<and> log_of s' = log_of s @ [Sent meth (capability_field cap # ps) reply]))
     (\<lambda>_ s'. workspaces s' = workspaces s \<and> (log_of s' = log_of s \<or> (\<exists>w cap meth ps reply.
        map_of (workspaces s) i = Some w \<and> wk_phase w = Ready \<and> wk_capability w = Some cap
        \<and> log_of s' = log_of s @ [Sent meth (capability_field cap # ps) reply]))) s)"
  unfolding confined_def wp_def
  by (rule iff_allI) (auto simp: Let_def split: prod.splits sum.splits)

lemma confined_ready: "confined i (ready_call (logged_host h) i m ps validate)"
  unfolding confined_wp ready_call_def require_ready_state_def
  by (intro allI wp_bind wp_read wp_lift wp_kernel_request)
    (auto simp: log_kernel_eq split: option.splits if_splits)

lemma confined_guard: "(b \<Longrightarrow> confined i (f ())) \<Longrightarrow> confined i (bind_act (guard_act b e) f)"
  unfolding confined_wp by (intro allI wp_bind wp_guard) auto

lemma confined_lift: "(\<And>x. r = Inr x \<Longrightarrow> confined i (f x)) \<Longrightarrow> confined i (bind_act (lift_act r) f)"
  unfolding confined_wp by (intro allI wp_bind wp_lift) auto

lemma confined_translating: "confined i m \<Longrightarrow> confined i (translating table m)"
  unfolding confined_wp translating_def
  by (intro allI wp_catch) (auto elim!: wp_mono allE intro!: wp_throw)

lemma confined_ret: "confined i m \<Longrightarrow> confined i (bind_act m (\<lambda>x. ret_act (f x)))"
  unfolding confined_wp by (intro allI wp_bind) (auto elim!: wp_mono allE intro!: wp_ret)

lemmas confined_intros = confined_ready confined_guard confined_lift confined_translating confined_ret

lemmas call_defs = read_file_call_def read_file_bytes_def path_identity_call_def write_file_call_def edit_file_call_def
  commit_patch_file_def git_log_def git_show_def git_range_def git_diff_history_def git_history_def
  audit_remote_ci_def inspect_git_repository_identity_def git_status_def git_checkpoint_patch_def git_diff_def
  git_inspection_def git_checkpoint_call_def git_stage_def git_commit_def git_branch_create_def git_branch_switch_def
  git_branch_delete_def git_local_mutation_def git_worktree_create_def git_worktree_remove_def
  git_worktree_mutation_def git_fetch_def git_pull_def git_push_def git_remote_mutation_def run_process_def
  inspect_executable_def run_verification_process_def process_status_def process_cancel_def
  process_operation_call_def tree_bounded_def tree_call_def search_bounded_def search_call_def Let_def

lemma confined_files:
  "confined i (read_file_call (logged_host h) i path off max_n)"
  "confined i (read_file_bytes (logged_host h) i path off max_n)"
  "confined i (path_identity_call (logged_host h) i path b)"
  "confined i (write_file_call (logged_host h) i path contents pre)"
  "confined i (edit_file_call (logged_host h) i path old_text new_text count)"
  "confined i (commit_patch_file (logged_host h) i c)"
  "confined i (tree_bounded (logged_host h) i path limit scope)"
  "confined i (tree_call (logged_host h) i path)"
  "confined i (search_bounded (logged_host h) i query path limit scope)"
  "confined i (search_call (logged_host h) i query path)"
  unfolding call_defs by (intro confined_intros)+

lemma confined_git:
  "confined i (git_log (logged_host h) i r p n)" "confined i (git_show (logged_host h) i r p b n)"
  "confined i (git_range (logged_host h) i r r' b n)" "confined i (git_diff_history (logged_host h) i r r' p n)"
  "confined i (audit_remote_ci (logged_host h) i a)" "confined i (inspect_git_repository_identity (logged_host h) i)"
  "confined i (git_status (logged_host h) i)" "confined i (git_checkpoint_patch (logged_host h) i)"
  "confined i (git_diff (logged_host h) i)" "confined i (git_checkpoint_call (logged_host h) i)"
  "confined i (git_stage (logged_host h) i paths)" "confined i (git_commit (logged_host h) i msg)"
  "confined i (git_branch_create (logged_host h) i nm)" "confined i (git_branch_switch (logged_host h) i nm)"
  "confined i (git_branch_delete (logged_host h) i nm)" "confined i (git_worktree_create (logged_host h) i nm br)"
  "confined i (git_worktree_remove (logged_host h) i nm)" "confined i (git_fetch (logged_host h) i rem ref cred)"
  "confined i (git_pull (logged_host h) i rem ref cred)" "confined i (git_push (logged_host h) i rem ref cred)"
  unfolding call_defs by (intro confined_intros)+

lemma confined_processes:
  "confined i (run_process (logged_host h) i exe argv cwd env bg)"
  "confined i (inspect_executable (logged_host h) i exe)"
  "confined i (run_verification_process (logged_host h) i recipe exe argv dir bg)"
  "confined i (process_status (logged_host h) i op)" "confined i (process_cancel (logged_host h) i op)"
  unfolding call_defs by (intro confined_intros)+

text \<open>
  C2. Every capability request of the manager is confined: it never touches the map of
  workspaces, it sends at most one request, which carries the capability of the workspace it was
  called for and is sent only while that workspace is READY, and it returns a result only after
  such a request.
\<close>
theorem capability_calls_confined:
  "confined i (read_file_call (logged_host h) i path off max_n)
   \<and> confined i (read_file_bytes (logged_host h) i path off max_n)
   \<and> confined i (path_identity_call (logged_host h) i path b)
   \<and> confined i (write_file_call (logged_host h) i path contents pre)
   \<and> confined i (edit_file_call (logged_host h) i path old_text new_text count)
   \<and> confined i (commit_patch_file (logged_host h) i c)
   \<and> confined i (tree_bounded (logged_host h) i path limit scope)
   \<and> confined i (tree_call (logged_host h) i path)
   \<and> confined i (search_bounded (logged_host h) i query path limit scope)
   \<and> confined i (search_call (logged_host h) i query path)
   \<and> confined i (git_log (logged_host h) i r p n) \<and> confined i (git_show (logged_host h) i r p b n)
   \<and> confined i (git_range (logged_host h) i r r' b n) \<and> confined i (git_diff_history (logged_host h) i r r' p n)
   \<and> confined i (audit_remote_ci (logged_host h) i a) \<and> confined i (inspect_git_repository_identity (logged_host h) i)
   \<and> confined i (git_status (logged_host h) i) \<and> confined i (git_checkpoint_patch (logged_host h) i)
   \<and> confined i (git_diff (logged_host h) i) \<and> confined i (git_checkpoint_call (logged_host h) i)
   \<and> confined i (git_stage (logged_host h) i paths) \<and> confined i (git_commit (logged_host h) i msg)
   \<and> confined i (git_branch_create (logged_host h) i nm) \<and> confined i (git_branch_switch (logged_host h) i nm)
   \<and> confined i (git_branch_delete (logged_host h) i nm) \<and> confined i (git_worktree_create (logged_host h) i nm br)
   \<and> confined i (git_worktree_remove (logged_host h) i nm) \<and> confined i (git_fetch (logged_host h) i rem ref cred)
   \<and> confined i (git_pull (logged_host h) i rem ref cred) \<and> confined i (git_push (logged_host h) i rem ref cred)
   \<and> confined i (run_process (logged_host h) i exe argv cwd env bg)
   \<and> confined i (inspect_executable (logged_host h) i exe)
   \<and> confined i (run_verification_process (logged_host h) i recipe exe argv dir bg)
   \<and> confined i (process_status (logged_host h) i op) \<and> confined i (process_cancel (logged_host h) i op)"
  by (intro conjI confined_files confined_git confined_processes)

section \<open>Calls beside the kernel\<close>

text \<open>The other calls of the manager leave the map alone as well, on any host.\<close>

interpretation same_map: run_relation "\<lambda>s s' :: 'k session. workspaces s' = workspaces s"
  by unfold_locales auto

lemma same_map_call: "obeys (\<lambda>s s'. workspaces s' = workspaces s) (call_world wrap f)"
  by (simp add: obeys_def call_world_def split: prod.splits sum.splits)

lemma same_map_request: "obeys (\<lambda>s s'. workspaces s' = workspaces s) (kernel_request h m ps)"
  unfolding kernel_request_def by (rule same_map_call)

lemma same_map_ok: "obeys (\<lambda>s s'. workspaces s' = workspaces s) (request_ok h m ps)"
  unfolding request_ok_def by (intro same_map.obeys_intros same_map_request)

lemma same_map_let:
  "obeys (\<lambda>s s'. workspaces s' = workspaces s) (f x) \<Longrightarrow> obeys (\<lambda>s s'. workspaces s' = workspaces s) (Let x f)"
  by simp

lemma same_map_effect: "obeys (\<lambda>s s'. workspaces s' = workspaces s) (checkpoint_effect cs t c)"
  unfolding checkpoint_effect_def by (cases c) (simp_all add: same_map.obeys_bind same_map.obeys_pure same_map_call)

lemmas same_map_intros = same_map.obeys_intros same_map_call same_map_request same_map_ok same_map_let

text \<open>
  Information, checkpoint and trust calls leave the map of workspaces as it is, on every path,
  so that every call of the manager beside opening, closing and untrusting is a step that keeps
  the map.
\<close>
lemma other_calls_keep_workspaces:
  fixes h :: "'k host"
  shows "workspaces (snd (workspace_info h i s)) = workspaces s
   \<and> workspaces (snd (checkpoint_workspace h op i c s)) = workspaces s
   \<and> workspaces (snd (trust_workspace h op root ceil s)) = workspaces s
   \<and> workspaces (snd (list_trusted_workspaces le h s)) = workspaces s
   \<and> workspaces (snd (list_workspaces le s)) = workspaces s"
proof -
  let ?R = "\<lambda>s s'. workspaces s' = workspaces s"
  have "obeys ?R (workspace_info h i)"
    unfolding workspace_info_def require_ready_state_def by (intro same_map_intros)
  moreover have "obeys ?R (checkpoint_workspace h op i c)"
    unfolding checkpoint_workspace_def require_ready_state_def audit_checkpoint_def
    by (intro same_map_intros same_map_effect)
  moreover have "obeys ?R (trust_workspace h op root ceil)"
    unfolding trust_workspace_def audit_trust_def by (intro same_map_intros)
  moreover have "obeys ?R (list_trusted_workspaces le h)"
    unfolding list_trusted_workspaces_def by (intro same_map_intros)
  moreover have "obeys ?R (list_workspaces le :: ('k, open_workspace list) manager_act)"
    unfolding list_workspaces_def by (intro same_map_intros)
  ultimately show ?thesis by (simp add: obeys_def)
qed

end
