(* ===== verification/Kernel_Client.thy ===== *)
theory Kernel_Client
  imports Frame_Codec Kernel_Rpc
begin

text \<open>
  \<open>packages/core/src/kernel-client.ts\<close>: the \<open>KernelClient\<close> that multiplexes the requests of the
  host over the framed pipes of one kernel process. Every callback the client registers (input
  chunks, process errors, exit, failed writes, the continuation of \<open>stop\<close>) is one event, and
  events come in any order. A promise the client returned is a ticket; \<open>c_settled\<close> lists the
  tickets that were settled and how. Spawning the process is not modelled.
\<close>

section \<open>State\<close>

datatype client_state = Client_Running | Client_Stopping | Client_Unavailable | Client_Closed

datatype client_error =
    Runtime_Unavailable
  | Duplicate_Request
  | Unsendable frame_error
  | Kernel_Rpc_Error json json "json option"

datatype settlement = Resolved json | Rejected client_error

record client =
  c_state :: client_state
  c_decoder :: decoder
  c_pending :: "(jsstring \<times> nat) list"
  c_next :: nat
  c_settled :: "(nat \<times> settlement) list"
  c_written :: "bytes list"
  c_stderr_bytes :: nat
  c_unexpected :: bool
  c_killed :: bool
  c_exited :: bool
  c_stoppers :: nat

definition new_client :: client where
  "new_client = \<lparr>c_state = Client_Running, c_decoder = new_decoder, c_pending = [], c_next = 0,
     c_settled = [], c_written = [], c_stderr_bytes = 0, c_unexpected = False, c_killed = False,
     c_exited = False, c_stoppers = 0\<rparr>"

definition settle :: "nat \<Rightarrow> settlement \<Rightarrow> client \<Rightarrow> client" where
  "settle t r c = c\<lparr>c_settled := c_settled c @ [(t, r)]\<rparr>"

section \<open>Operations\<close>

definition poison :: "client \<Rightarrow> client" where
  "poison c =
     (if c_state c = Client_Closed then c
      else c\<lparr>c_unexpected := (c_unexpected c \<or> c_state c = Client_Running),
        c_state := Client_Unavailable,
        c_settled := c_settled c @ map (\<lambda>it. (snd it, Rejected Runtime_Unavailable)) (c_pending c),
        c_pending := []\<rparr>)"

definition request_json :: "jsstring \<Rightarrow> jsstring \<Rightarrow> fields \<Rightarrow> json" where
  "request_json i m ps = JObj [fld ''jsonrpc'' (JStr (js ''2.0'')), fld ''id'' (JStr i),
     fld ''method'' (JStr m), fld ''params'' (JObj ps)]"

definition client_request :: "jsstring \<Rightarrow> jsstring \<Rightarrow> fields \<Rightarrow> client \<Rightarrow> client" where
  "client_request i m ps c0 =
     (let t = c_next c0; c = c0\<lparr>c_next := Suc t\<rparr> in
      if c_state c \<noteq> Client_Running then settle t (Rejected Runtime_Unavailable) c
      else if map_of (c_pending c) i \<noteq> None then settle t (Rejected Duplicate_Request) c
      else (case encode_frame (Some (request_json i m ps)) of
          Inl e \<Rightarrow> settle t (Rejected (Unsendable e)) c
        | Inr f \<Rightarrow> c\<lparr>c_pending := AList.update i t (c_pending c), c_written := c_written c @ [f]\<rparr>))"

text \<open>The callback of \<open>stdin.write\<close> for the frame of ticket \<open>t\<close>, called with an error.\<close>

definition write_failed :: "jsstring \<Rightarrow> nat \<Rightarrow> client \<Rightarrow> client" where
  "write_failed i t c =
     (if map_of (c_pending c) i \<noteq> Some t then c
      else poison (settle t (Rejected Runtime_Unavailable) (c\<lparr>c_pending := AList.delete i (c_pending c)\<rparr>)))"

text \<open>\<open>#handleResponse\<close>: whether it returned, and the client then.\<close>

definition is_number :: "json option \<Rightarrow> bool" where
  "is_number v = (case v of Some (JNum _) \<Rightarrow> True | Some (JFrac _) \<Rightarrow> True | _ \<Rightarrow> False)"

definition response_outcome :: "fields \<Rightarrow> bool \<times> settlement" where
  "response_outcome fs =
     (case (get fs ''result'', get fs ''error'') of
        (Some _, Some _) \<Rightarrow> (False, Rejected Runtime_Unavailable)
      | (None, None) \<Rightarrow> (False, Rejected Runtime_Unavailable)
      | (Some v, None) \<Rightarrow> (True, Resolved v)
      | (None, Some e) \<Rightarrow>
          (case as_record (Some e) of
             None \<Rightarrow> (False, Rejected Runtime_Unavailable)
           | Some es \<Rightarrow> (case (get es ''code'', get es ''message'') of
               (Some code, Some (JStr msg)) \<Rightarrow>
                 if is_number (Some code) then (True, Rejected (Kernel_Rpc_Error code (JStr msg) (get es ''data'')))
                 else (False, Rejected Runtime_Unavailable)
             | _ \<Rightarrow> (False, Rejected Runtime_Unavailable))))"

definition handle_response :: "json \<Rightarrow> client \<Rightarrow> bool \<times> client" where
  "handle_response v c = (case as_record (Some v) of
     None \<Rightarrow> (False, c)
   | Some fs \<Rightarrow>
       if get fs ''jsonrpc'' \<noteq> Some (JStr (js ''2.0'')) then (False, c)
       else (case as_str (get fs ''id'') of
          None \<Rightarrow> (False, c)
        | Some i \<Rightarrow> (case map_of (c_pending c) i of
            None \<Rightarrow> (False, c)
          | Some t \<Rightarrow>
              (let (ok, r) = response_outcome fs in
               (ok, settle t r (c\<lparr>c_pending := AList.delete i (c_pending c)\<rparr>))))))"

fun handle_responses :: "json list \<Rightarrow> client \<Rightarrow> bool \<times> client" where
  "handle_responses [] c = (True, c)"
| "handle_responses (v # vs) c = (case handle_response v c of
     (True, c') \<Rightarrow> handle_responses vs c' | (False, c') \<Rightarrow> (False, c'))"

definition poison_and_kill :: "client \<Rightarrow> client" where
  "poison_and_kill c = (poison c)\<lparr>c_killed := True\<rparr>"

text \<open>The listener of \<open>stdout\<close>; \<open>None\<close> would be a decoder that does not return.\<close>

definition client_chunk :: "(jsstring \<Rightarrow> json option) \<Rightarrow> bytes \<Rightarrow> client \<Rightarrow> client option" where
  "client_chunk parse chunk c =
     (if c_state c = Client_Closed then Some c
      else (case push parse chunk (c_decoder c) of
          None \<Rightarrow> None
        | Some (Inl _, d) \<Rightarrow> Some (poison_and_kill (c\<lparr>c_decoder := d\<rparr>))
        | Some (Inr vs, d) \<Rightarrow>
            (case handle_responses vs (c\<lparr>c_decoder := d\<rparr>) of
               (True, c') \<Rightarrow> Some c' | (False, c') \<Rightarrow> Some (poison_and_kill c'))))"

definition client_stderr :: "nat \<Rightarrow> client \<Rightarrow> client" where
  "client_stderr n c = c\<lparr>c_stderr_bytes := min (64 * 1024) (c_stderr_bytes c + n)\<rparr>"

definition client_exit :: "client \<Rightarrow> client" where
  "client_exit c0 = (let c = c0\<lparr>c_exited := True\<rparr> in
     case finish (c_decoder c) of
       (Inl _, d) \<Rightarrow> poison (c\<lparr>c_decoder := d\<rparr>)
     | (Inr _, d) \<Rightarrow> if c_state c \<noteq> Client_Closed then poison (c\<lparr>c_decoder := d\<rparr>) else c\<lparr>c_decoder := d\<rparr>)"

record kernel_hello =
  kh_version :: jsstring
  kh_test_methods :: bool
  kh_audit_healthy :: bool
  kh_boundary :: bool

definition parse_hello :: "json \<Rightarrow> kernel_hello option" where
  "parse_hello v = (case as_record (Some v) of
     None \<Rightarrow> None
   | Some fs \<Rightarrow>
       (case (as_str (get fs ''runtimeVersion''), as_bool (get fs ''testMethods''),
              as_bool (get fs ''auditHealthy''), as_bool (get fs ''filesystemBoundaryAvailable'')) of
          (Some ver, Some tm, Some ah, Some fb) \<Rightarrow>
            Some \<lparr>kh_version = ver, kh_test_methods = tm, kh_audit_healthy = ah, kh_boundary = fb\<rparr>
        | _ \<Rightarrow> None))"

text \<open>The rest of \<open>hello\<close> after its request resolved.\<close>

definition client_hello :: "json \<Rightarrow> client \<Rightarrow> (client_error + kernel_hello) \<times> client" where
  "client_hello v c = (case parse_hello v of
     None \<Rightarrow> (Inl Runtime_Unavailable, poison_and_kill c)
   | Some k \<Rightarrow> (Inr k, c))"

text \<open>
  \<open>stop\<close> up to its \<open>await\<close>, the timer it starts, and its continuation once the exit promise is
  resolved. A call while another one waits runs through to the last line at once.
\<close>

definition client_stop :: "client \<Rightarrow> client" where
  "client_stop c = (case c_state c of
     Client_Closed \<Rightarrow> c
   | Client_Unavailable \<Rightarrow> c\<lparr>c_stoppers := Suc (c_stoppers c)\<rparr>
   | Client_Running \<Rightarrow> c\<lparr>c_state := Client_Stopping, c_stoppers := Suc (c_stoppers c)\<rparr>
   | Client_Stopping \<Rightarrow> c\<lparr>c_state := Client_Closed\<rparr>)"

definition client_kill_timer :: "client \<Rightarrow> client" where
  "client_kill_timer c = (if c_exited c then c else c\<lparr>c_killed := True\<rparr>)"

definition client_stop_resumes :: "client \<Rightarrow> client" where
  "client_stop_resumes c =
     (if c_exited c \<and> 0 < c_stoppers c
      then c\<lparr>c_state := Client_Closed, c_stoppers := c_stoppers c - 1\<rparr> else c)"

section \<open>Runs\<close>

datatype client_event =
    Call jsstring jsstring fields
  | Write_Error jsstring nat
  | Chunk bytes
  | Stderr nat
  | Child_Error
  | Child_Exit
  | Hello_Reply json
  | Stop_Called
  | Kill_Timer
  | Stop_Resumes

fun client_step :: "(jsstring \<Rightarrow> json option) \<Rightarrow> client_event \<Rightarrow> client \<Rightarrow> client option" where
  "client_step parse (Call i m ps) c = Some (client_request i m ps c)"
| "client_step parse (Write_Error i t) c = Some (write_failed i t c)"
| "client_step parse (Chunk bs) c = client_chunk parse bs c"
| "client_step parse (Stderr n) c = Some (client_stderr n c)"
| "client_step parse Child_Error c = Some (poison c)"
| "client_step parse Child_Exit c = Some (client_exit c)"
| "client_step parse (Hello_Reply v) c = Some (snd (client_hello v c))"
| "client_step parse Stop_Called c = Some (client_stop c)"
| "client_step parse Kill_Timer c = Some (client_kill_timer c)"
| "client_step parse Stop_Resumes c = Some (client_stop_resumes c)"

fun client_run :: "(jsstring \<Rightarrow> json option) \<Rightarrow> client_event list \<Rightarrow> client \<Rightarrow> client option" where
  "client_run parse [] c = Some c"
| "client_run parse (ev # evs) c = Option.bind (client_step parse ev c) (client_run parse evs)"

section \<open>The promises a client makes\<close>

text \<open>
  The abstract view: promises that are open, and those settled, each once. A step opens a fresh
  promise or settles an open one.
\<close>

record promises =
  p_open :: "nat set"
  p_done :: "(nat \<times> settlement) list"
  p_next :: nat

inductive promise_step :: "promises \<Rightarrow> promises \<Rightarrow> bool" where
  promise_open: "promise_step p (p\<lparr>p_open := insert (p_next p) (p_open p), p_next := Suc (p_next p)\<rparr>)"
| promise_settle: "t \<in> p_open p \<Longrightarrow>
    promise_step p (p\<lparr>p_open := p_open p - {t}, p_done := p_done p @ [(t, r)]\<rparr>)"

definition no_promises :: promises where
  "no_promises = \<lparr>p_open = {}, p_done = [], p_next = 0\<rparr>"

definition promises_of :: "client \<Rightarrow> promises" where
  "promises_of c = \<lparr>p_open = snd ` set (c_pending c), p_done = c_settled c, p_next = c_next c\<rparr>"

text \<open>What every reachable promise state satisfies.\<close>

definition promises_ok :: "promises \<Rightarrow> bool" where
  "promises_ok p = (distinct (map fst (p_done p)) \<and> p_open p \<inter> fst ` set (p_done p) = {}
     \<and> p_open p \<union> fst ` set (p_done p) = {..<p_next p})"

lemma promise_step_ok: "promise_step p q \<Longrightarrow> promises_ok p \<Longrightarrow> promises_ok q"
  by (induction rule: promise_step.induct) (auto simp: promises_ok_def lessThan_Suc)

lemma promise_steps_ok: "promise_step\<^sup>*\<^sup>* p q \<Longrightarrow> promises_ok p \<Longrightarrow> promises_ok q"
  by (induction rule: rtranclp_induct) (auto intro: promise_step_ok)

text \<open>The invariant of the client: no two pending requests share an identifier or a ticket.\<close>

definition client_ok :: "client \<Rightarrow> bool" where
  "client_ok c = (distinct (map fst (c_pending c)) \<and> distinct (map snd (c_pending c))
     \<and> (\<forall>it \<in> set (c_pending c). snd it < c_next c) \<and> decoder_live (c_decoder c)
     \<and> (c_state c = Client_Unavailable \<longrightarrow> c_pending c = []))"

lemma new_client_ok: "client_ok new_client"
  by (simp add: client_ok_def new_client_def)

definition simulates :: "client \<Rightarrow> client \<Rightarrow> bool" where
  "simulates c c' = (client_ok c \<longrightarrow> client_ok c' \<and> promise_step\<^sup>*\<^sup>* (promises_of c) (promises_of c'))"

lemma simulates_trans: "simulates c c' \<Longrightarrow> simulates c' c'' \<Longrightarrow> simulates c c''"
  by (auto simp: simulates_def)

lemma settle_all:
  "distinct (map snd ps) \<Longrightarrow> snd ` set ps \<subseteq> p_open p \<Longrightarrow>
     promise_step\<^sup>*\<^sup>* p (p\<lparr>p_open := p_open p - snd ` set ps, p_done := p_done p @ map (\<lambda>it. (snd it, r)) ps\<rparr>)"
proof (induction ps arbitrary: p)
  case Nil
  then show ?case by simp
next
  case (Cons it ps)
  let ?q = "p\<lparr>p_open := p_open p - {snd it}, p_done := p_done p @ [(snd it, r)]\<rparr>"
  have "promise_step p ?q" using Cons.prems by (intro promise_settle) auto
  moreover have "promise_step\<^sup>*\<^sup>* ?q (?q\<lparr>p_open := p_open ?q - snd ` set ps,
      p_done := p_done ?q @ map (\<lambda>it. (snd it, r)) ps\<rparr>)"
    by (rule Cons.IH) (use Cons.prems in \<open>simp_all add: subset_Diff_insert\<close>)
  moreover have "p_open p - {snd it} - snd ` set ps = p_open p - snd ` set (it # ps)" by auto
  ultimately show ?case by (simp add: converse_rtranclp_into_rtranclp)
qed

lemma poison_simulates: "simulates c (poison c)"
  unfolding simulates_def
proof (intro impI conjI)
  assume ok: "client_ok c"
  then show "client_ok (poison c)" by (auto simp: client_ok_def poison_def)
  show "promise_step\<^sup>*\<^sup>* (promises_of c) (promises_of (poison c))"
    using settle_all [of "c_pending c" "promises_of c" "Rejected Runtime_Unavailable"] ok
    by (cases "c_state c = Client_Closed") (simp_all add: poison_def promises_of_def client_ok_def)
qed

text \<open>Changes of fields that neither the invariant nor the promises see.\<close>

lemma promises_ignore [simp]:
  "promises_of (c\<lparr>c_killed := b\<rparr>) = promises_of c" "promises_of (c\<lparr>c_exited := b\<rparr>) = promises_of c"
  "promises_of (c\<lparr>c_decoder := d\<rparr>) = promises_of c" "promises_of (c\<lparr>c_state := st\<rparr>) = promises_of c"
  "promises_of (c\<lparr>c_stoppers := n\<rparr>) = promises_of c" "promises_of (c\<lparr>c_stderr_bytes := n\<rparr>) = promises_of c"
  by (simp_all add: promises_of_def)

lemma client_ok_ignore [simp]:
  "client_ok (c\<lparr>c_killed := b\<rparr>) = client_ok c" "client_ok (c\<lparr>c_exited := b\<rparr>) = client_ok c"
  "client_ok (c\<lparr>c_stoppers := n\<rparr>) = client_ok c" "client_ok (c\<lparr>c_stderr_bytes := n\<rparr>) = client_ok c"
  by (simp_all add: client_ok_def)

lemma set_delete_subset: "set (AList.delete i ps) \<subseteq> set ps"
  by (induction ps) auto

lemma distinct_delete_snd: "distinct (map snd ps) \<Longrightarrow> distinct (map snd (AList.delete i ps))"
  using set_delete_subset by (induction ps) fastforce+

lemma snd_delete:
  "distinct (map fst ps) \<Longrightarrow> distinct (map snd ps) \<Longrightarrow> map_of ps i = Some t \<Longrightarrow>
     snd ` set (AList.delete i ps) = snd ` set ps - {t}"
proof (induction ps)
  case Nil
  then show ?case by simp
next
  case (Cons it ps)
  show ?case
  proof (cases "fst it = i")
    case True
    then show ?thesis using Cons.prems by simp
  next
    case False
    then have "map_of ps i = Some t" using Cons.prems(3) by simp
    then have "t \<in> snd ` set ps" by (force dest: map_of_SomeD)
    then have "snd it \<noteq> t" using Cons.prems by auto
    then show ?thesis using Cons False by auto
  qed
qed

lemma settle_simulates:
  assumes "map_of (c_pending c) i = Some t"
  shows "simulates c (settle t r (c\<lparr>c_pending := AList.delete i (c_pending c)\<rparr>))"
  unfolding simulates_def
proof (intro impI conjI)
  assume ok: "client_ok c"
  let ?c = "settle t r (c\<lparr>c_pending := AList.delete i (c_pending c)\<rparr>)"
  show "client_ok ?c"
    using ok set_delete_subset [of i "c_pending c"]
    by (auto simp: client_ok_def settle_def distinct_delete distinct_delete_snd)
  have "promise_step (promises_of c) ((promises_of c)\<lparr>p_open := p_open (promises_of c) - {t},
      p_done := p_done (promises_of c) @ [(t, r)]\<rparr>)"
    by (rule promise_settle) (use map_of_SomeD [OF assms] in \<open>force simp: promises_of_def\<close>)
  then show "promise_step\<^sup>*\<^sup>* (promises_of c) (promises_of ?c)"
    using snd_delete [of "c_pending c" i t] assms ok
    by (simp add: promises_of_def settle_def client_ok_def r_into_rtranclp)
qed

lemma update_unused: "\<forall>w. (k, w) \<notin> set m \<Longrightarrow> AList.update k v m = m @ [(k, v)]"
  by (induction m) auto

lemma update_new_key: "map_of m k = None \<Longrightarrow> AList.update k v m = m @ [(k, v)]"
  by (rule update_unused) (auto simp: map_of_eq_None_iff image_iff)

lemma request_simulates: "simulates c (client_request i m ps c)"
  unfolding simulates_def
proof (intro impI conjI)
  assume ok: "client_ok c"
  then show "client_ok (client_request i m ps c)"
    by (auto simp: client_ok_def client_request_def settle_def Let_def update_unused less_Suc_eq
        split: sum.splits)
  let ?t = "c_next c"
  let ?p = "(promises_of c)\<lparr>p_open := insert ?t (p_open (promises_of c)), p_next := Suc ?t\<rparr>"
  have opened: "promise_step (promises_of c) ?p"
    using promise_open [of "promises_of c"] by (simp add: promises_of_def)
  have fresh: "?t \<notin> snd ` set (c_pending c)" using ok by (auto simp: client_ok_def)
  have "promise_step ?p ((promises_of c)\<lparr>p_next := Suc ?t, p_done := c_settled c @ [(?t, r)]\<rparr>)" for r
    using promise_settle [of ?t ?p r] fresh by (simp add: promises_of_def)
  with opened have refused: "promise_step\<^sup>*\<^sup>* (promises_of c)
      ((promises_of c)\<lparr>p_next := Suc ?t, p_done := c_settled c @ [(?t, r)]\<rparr>)" for r
    by (meson converse_rtranclp_into_rtranclp r_into_rtranclp)
  show "promise_step\<^sup>*\<^sup>* (promises_of c) (promises_of (client_request i m ps c))"
    using opened refused
    by (auto simp: client_request_def settle_def promises_of_def Let_def update_new_key
        split: sum.splits)
qed

lemma simulates_refl [simp]: "simulates c c"
  by (simp add: simulates_def)

lemma simulates_killed [simp]: "simulates c (c'\<lparr>c_killed := b\<rparr>) = simulates c c'"
  by (simp add: simulates_def)

lemma handle_response_simulates: "handle_response v c = (ok, c') \<Longrightarrow> simulates c c'"
  using settle_simulates
  by (auto simp: handle_response_def split: option.splits if_splits prod.splits)

lemma handle_responses_simulates: "handle_responses vs c = (ok, c') \<Longrightarrow> simulates c c'"
proof (induction vs arbitrary: c)
  case Nil
  then show ?case by simp
next
  case (Cons v vs)
  then show ?case
    using handle_response_simulates [of v c]
    by (auto split: prod.splits bool.splits intro: simulates_trans)
qed

lemma decoder_simulates:
  "decoder_live d \<Longrightarrow> simulates c (c\<lparr>c_decoder := d\<rparr>)"
  by (simp add: simulates_def client_ok_def)

lemma push_simulates:
  "client_ok c \<Longrightarrow> \<exists>r d. push parse bs (c_decoder c) = Some (r, d) \<and> simulates c (c\<lparr>c_decoder := d\<rparr>)"
  using push_terminates [of "c_decoder c" parse bs] decoder_simulates by (force simp: client_ok_def)

lemma poison_and_kill_simulates: "simulates c c' \<Longrightarrow> simulates c (poison_and_kill c')"
  by (auto simp: poison_and_kill_def intro: simulates_trans poison_simulates)

lemma chunk_simulates:
  assumes "client_ok c"
  shows "\<exists>c'. client_chunk parse bs c = Some c' \<and> simulates c c'"
proof -
  obtain r d where p: "push parse bs (c_decoder c) = Some (r, d)" and s: "simulates c (c\<lparr>c_decoder := d\<rparr>)"
    using push_simulates [OF assms] by blast
  obtain ok c' where h: "handle_responses (case r of Inl _ \<Rightarrow> [] | Inr vs \<Rightarrow> vs) (c\<lparr>c_decoder := d\<rparr>) = (ok, c')"
    by (rule prod.exhaust)
  have "simulates c c'" by (rule simulates_trans [OF s handle_responses_simulates [OF h]])
  with p s h show ?thesis
    by (cases r; cases ok) (auto simp: client_chunk_def poison_and_kill_simulates)
qed

lemma finish_live: "finish d = (r, d') \<Longrightarrow> decoder_live d \<Longrightarrow> decoder_live d'"
  by (auto simp: finish_def decoder_live_def split: if_splits)

lemma exit_simulates: "simulates c (client_exit c)"
proof (cases "client_ok c")
  case True
  obtain r d where f: "finish (c_decoder c) = (r, d)" by (rule prod.exhaust)
  let ?c = "c\<lparr>c_exited := True, c_decoder := d\<rparr>"
  have "decoder_live d" by (rule finish_live [OF f]) (use True in \<open>simp add: client_ok_def\<close>)
  then have "simulates c ?c" by (simp add: simulates_def client_ok_def)
  moreover have "client_exit c = ?c \<or> client_exit c = poison ?c"
    using f by (auto simp: client_exit_def Let_def split: sum.splits)
  ultimately show ?thesis using simulates_trans [OF _ poison_simulates, of c ?c] by auto
qed (simp add: simulates_def)

lemma write_failed_simulates: "simulates c (write_failed i t c)"
proof (cases "map_of (c_pending c) i = Some t")
  case True
  then show ?thesis
    using simulates_trans [OF settle_simulates [OF True] poison_simulates]
    by (simp add: write_failed_def)
qed (simp add: write_failed_def)

lemma quiet_simulates:
  "simulates c (client_stop c)" "simulates c (client_stop_resumes c)"
  "simulates c (client_kill_timer c)" "simulates c (client_stderr n c)"
  by (auto simp: simulates_def client_stop_def client_stop_resumes_def client_kill_timer_def
      client_stderr_def client_ok_def split: client_state.splits)

lemma hello_simulates: "simulates c (snd (client_hello v c))"
  by (auto simp: client_hello_def poison_and_kill_simulates split: option.splits)

lemma client_step_simulates:
  "client_ok c \<Longrightarrow> \<exists>c'. client_step parse ev c = Some c' \<and> simulates c c'"
  by (cases ev) (auto simp: request_simulates write_failed_simulates chunk_simulates quiet_simulates
      poison_simulates exit_simulates hello_simulates)

lemma client_run_simulates:
  "client_ok c \<Longrightarrow> \<exists>c'. client_run parse evs c = Some c' \<and> client_ok c'
     \<and> promise_step\<^sup>*\<^sup>* (promises_of c) (promises_of c')"
proof (induction evs arbitrary: c)
  case Nil
  then show ?case by simp
next
  case (Cons ev evs)
  obtain c1 where s: "client_step parse ev c = Some c1" and sim: "simulates c c1"
    using client_step_simulates [OF Cons.prems] by blast
  with Cons.prems have c1: "client_ok c1" "promise_step\<^sup>*\<^sup>* (promises_of c) (promises_of c1)"
    by (simp_all add: simulates_def)
  obtain c' where "client_run parse evs c1 = Some c'" "client_ok c'"
    "promise_step\<^sup>*\<^sup>* (promises_of c1) (promises_of c')" using Cons.IH [OF c1(1)] by blast
  with s c1(2) show ?case by (intro exI [of _ c']) auto
qed

section \<open>Exit settles what is open\<close>

text \<open>
  With at most one call of \<open>stop\<close>, nothing is pending once the process has exited, and the
  client is closed only then.
\<close>

definition stopped_once :: "nat \<Rightarrow> client \<Rightarrow> bool" where
  "stopped_once n c = (n \<le> 1 \<longrightarrow>
     (c_exited c \<longrightarrow> c_pending c = [] \<and> (c_state c = Client_Unavailable \<or> c_state c = Client_Closed))
     \<and> (c_state c = Client_Closed \<longrightarrow> c_exited c)
     \<and> (c_state c = Client_Stopping \<longrightarrow> n = 1))"

lemma handle_responses_fields:
  "handle_responses vs c = (ok, c') \<Longrightarrow> c_state c' = c_state c \<and> c_exited c' = c_exited c
     \<and> (c_pending c = [] \<longrightarrow> c_pending c' = [])"
proof (induction vs arbitrary: c)
  case Nil
  then show ?case by simp
next
  case (Cons v vs)
  obtain b c1 where h: "handle_response v c = (b, c1)" by (rule prod.exhaust)
  then have "c_state c1 = c_state c \<and> c_exited c1 = c_exited c \<and> (c_pending c = [] \<longrightarrow> c_pending c1 = [])"
    by (auto simp: handle_response_def settle_def split: option.splits if_splits prod.splits)
  with Cons h show ?case by (cases b) auto
qed

lemma poison_stopped: "stopped_once n c \<Longrightarrow> stopped_once n (poison c)"
  by (auto simp: stopped_once_def poison_def)

lemma poison_exited:
  "stopped_once n c \<Longrightarrow> stopped_once n (poison (c\<lparr>c_exited := True, c_decoder := d\<rparr>))"
  by (auto simp: stopped_once_def poison_def)

lemma chunk_stopped:
  assumes "client_chunk parse bs c = Some c'" and "stopped_once n c"
  shows "stopped_once n c'"
proof -
  have dec: "stopped_once n (c\<lparr>c_decoder := d\<rparr>)" for d using assms(2) by (simp add: stopped_once_def)
  have kill: "stopped_once n (poison_and_kill c1)" if "stopped_once n c1" for c1
    using poison_stopped [OF that] by (simp add: poison_and_kill_def stopped_once_def)
  have resp: "stopped_once n c1" if "handle_responses vs (c\<lparr>c_decoder := d\<rparr>) = (ok, c1)" for vs d ok c1
    using handle_responses_fields [OF that] assms(2) by (auto simp: stopped_once_def)
  show ?thesis
    using assms dec kill resp
    by (auto simp: client_chunk_def split: if_splits option.splits prod.splits sum.splits bool.splits)
qed

lemma client_step_stopped:
  assumes "client_step parse ev c = Some c'" and "stopped_once n c"
  shows "stopped_once (n + (if ev = Stop_Called then 1 else 0)) c'"
proof (cases ev)
  case (Call i m ps)
  with assms show ?thesis
    by (auto simp: stopped_once_def client_request_def settle_def Let_def split: if_splits sum.splits)
next
  case (Write_Error i t)
  have "stopped_once n (settle t r (c\<lparr>c_pending := AList.delete i (c_pending c)\<rparr>))" for r
    using assms(2) by (auto simp: stopped_once_def settle_def)
  with Write_Error assms show ?thesis
    by (auto simp: write_failed_def poison_stopped split: if_splits)
next
  case (Chunk bs)
  with assms show ?thesis by (simp add: chunk_stopped)
next
  case Child_Exit
  have "c' = poison (c\<lparr>c_exited := True, c_decoder := snd (finish (c_decoder c))\<rparr>)"
    using assms(1) Child_Exit
    by (auto simp: client_exit_def Let_def poison_def split: sum.splits prod.splits if_splits)
  with Child_Exit show ?thesis using poison_exited [OF assms(2)] by simp
next
  case (Hello_Reply v)
  with assms show ?thesis using poison_stopped [OF assms(2)]
    by (auto simp: client_hello_def poison_and_kill_def stopped_once_def split: option.splits)
qed (use assms poison_stopped in \<open>auto simp: stopped_once_def client_stop_def client_stop_resumes_def
  client_kill_timer_def client_stderr_def split: client_state.splits if_splits\<close>)

lemma client_run_stopped:
  "client_run parse evs c = Some c' \<Longrightarrow> stopped_once n c \<Longrightarrow>
     stopped_once (n + count_list evs Stop_Called) c'"
proof (induction evs arbitrary: c n)
  case Nil
  then show ?case by simp
next
  case (Cons ev evs)
  then obtain c1 where s: "client_step parse ev c = Some c1" and r: "client_run parse evs c1 = Some c'"
    by (auto simp: bind_eq_Some_conv)
  show ?case using Cons.IH [OF r client_step_stopped [OF s Cons.prems(2)]]
    by (cases "ev = Stop_Called") (simp_all add: add.commute)
qed

lemma poison_keeps_exit [simp]: "c_exited (poison c) = c_exited c"
  by (simp add: poison_def)

lemma client_step_exited:
  "client_step parse ev c = Some c' \<Longrightarrow> c_exited c' = (c_exited c \<or> ev = Child_Exit)"
  by (cases ev) (auto simp: client_request_def settle_def Let_def write_failed_def client_chunk_def
      poison_and_kill_def client_exit_def client_hello_def client_stop_def client_stop_resumes_def
      client_kill_timer_def client_stderr_def dest: handle_responses_fields
      split: if_splits sum.splits option.splits prod.splits bool.splits client_state.splits)

lemma client_run_exited:
  "client_run parse evs c = Some c' \<Longrightarrow> c_exited c' = (c_exited c \<or> Child_Exit \<in> set evs)"
proof (induction evs arbitrary: c)
  case Nil
  then show ?case by simp
next
  case (Cons ev evs)
  then obtain c1 where s: "client_step parse ev c = Some c1" and r: "client_run parse evs c1 = Some c'"
    by (auto simp: bind_eq_Some_conv)
  show ?case using Cons.IH [OF r] client_step_exited [OF s] by auto
qed

section \<open>Responses\<close>

definition result_response :: "jsstring \<Rightarrow> json \<Rightarrow> json" where
  "result_response i v = JObj [fld ''jsonrpc'' (JStr (js ''2.0'')), fld ''id'' (JStr i), fld ''result'' v]"

lemma stringify_result_response:
  \<open>plain i \<Longrightarrow> stringify (result_response i v)
     = js ''{"jsonrpc":"2.0","id":"'' @ i @ js ''","result":'' @ stringify v @ js ''}''\<close>
  by (simp add: result_response_def quote_plain plain_js) (simp add: js_def)

lemma handle_result_response:
  "map_of (c_pending c) i = Some t \<Longrightarrow> handle_response (result_response i v) c
     = (True, settle t (Resolved v) (c\<lparr>c_pending := AList.delete i (c_pending c)\<rparr>))"
  by (simp add: handle_response_def result_response_def response_outcome_def as_record_def as_str_def)

fun answer_all :: "(jsstring \<times> json) list \<Rightarrow> client \<Rightarrow> client" where
  "answer_all [] c = c"
| "answer_all ((i, v) # rs) c = answer_all rs
     (settle (the (map_of (c_pending c) i)) (Resolved v) (c\<lparr>c_pending := AList.delete i (c_pending c)\<rparr>))"

lemma handle_result_responses:
  "distinct (map fst rs) \<Longrightarrow> \<forall>r \<in> set rs. map_of (c_pending c) (fst r) \<noteq> None \<Longrightarrow>
     handle_responses (map (\<lambda>(i, v). result_response i v) rs) c = (True, answer_all rs c)"
proof (induction rs arbitrary: c)
  case Nil
  then show ?case by simp
next
  case (Cons r rs)
  obtain i v where r: "r = (i, v)" by (rule prod.exhaust)
  with Cons.prems obtain t where t: "map_of (c_pending c) i = Some t" by auto
  let ?c = "settle t (Resolved v) (c\<lparr>c_pending := AList.delete i (c_pending c)\<rparr>)"
  have "\<forall>r \<in> set rs. map_of (c_pending ?c) (fst r) \<noteq> None"
    using Cons.prems r by (auto simp: settle_def image_iff)
  then show ?case using Cons r t handle_result_response [OF t] by simp
qed

lemma handle_response_decoder:
  "handle_response v (c\<lparr>c_decoder := d\<rparr>) = map_prod id (c_decoder_update (\<lambda>_. d)) (handle_response v c)"
  by (simp add: handle_response_def settle_def split: option.splits prod.splits)

lemma handle_responses_decoder:
  "handle_responses vs (c\<lparr>c_decoder := d\<rparr>) = map_prod id (c_decoder_update (\<lambda>_. d)) (handle_responses vs c)"
  by (induction vs arbitrary: c)
    (auto simp: handle_response_decoder split: prod.splits bool.splits)

lemma handle_responses_append:
  "handle_responses (vs @ ws) c = (case handle_responses vs c of
     (True, c') \<Rightarrow> handle_responses ws c' | (False, c') \<Rightarrow> (False, c'))"
  by (induction vs arbitrary: c) (auto split: prod.splits bool.splits)

lemma client_run_chunks:
  assumes "push_chunks parse cs (c_decoder c) = Some (Inr vs, d)"
    and "handle_responses vs c = (True, c')" and "c_state c \<noteq> Client_Closed"
  shows "client_run parse (map Chunk cs) c = Some (c'\<lparr>c_decoder := d\<rparr>)"
  using assms
proof (induction cs arbitrary: c c' vs)
  case Nil
  then show ?case by simp
next
  case (Cons b cs)
  then obtain us d1 ws where p: "push parse b (c_decoder c) = Some (Inr us, d1)"
    and q: "push_chunks parse cs d1 = Some (Inr ws, d)" and vs: "vs = us @ ws"
    by (auto split: option.splits prod.splits sum.splits)
  then obtain c1 where h: "handle_responses us c = (True, c1)" "handle_responses ws c1 = (True, c')"
    using Cons.prems(2) by (auto simp: handle_responses_append split: prod.splits bool.splits)
  have "client_chunk parse b c = Some (c1\<lparr>c_decoder := d1\<rparr>)"
    using p h(1) Cons.prems(3) by (simp add: client_chunk_def handle_responses_decoder)
  moreover have "client_run parse (map Chunk cs) (c1\<lparr>c_decoder := d1\<rparr>) = Some (c'\<lparr>c_decoder := d\<rparr>)"
    using Cons.IH [of "c1\<lparr>c_decoder := d1\<rparr>" ws "c'\<lparr>c_decoder := d1\<rparr>"] q h Cons.prems(3) handle_responses_fields [OF h(1)]
    by (simp add: handle_responses_decoder)
  ultimately show ?case by simp
qed

lemma alist_delete_filter: "AList.delete i ps = filter (\<lambda>p. fst p \<noteq> i) ps"
  by (induction ps) auto

lemma answer_all_eq:
  "distinct (map fst rs) \<Longrightarrow> answer_all rs c = c\<lparr>
     c_pending := filter (\<lambda>p. fst p \<notin> fst ` set rs) (c_pending c),
     c_settled := c_settled c @ map (\<lambda>(i, v). (the (map_of (c_pending c) i), Resolved v)) rs\<rparr>"
proof (induction rs arbitrary: c)
  case Nil
  then show ?case by simp
next
  case (Cons r rs)
  obtain i v where r: "r = (i, v)" by (rule prod.exhaust)
  have "map (\<lambda>(i', v). (the (map_of (AList.delete i (c_pending c)) i'), Resolved v)) rs
      = map (\<lambda>(i', v). (the (map_of (c_pending c) i'), Resolved v)) rs"
    using Cons.prems r by (auto simp: image_iff)
  with Cons r show ?case
    by (auto simp: settle_def alist_delete_filter intro: filter_cong)
qed

section \<open>Properties\<close>

text \<open>
  C11. Every sequence of events, chunks of any bytes included, is handled by a client that never
  hangs, and what it does to the promises it returned is a sequence of abstract steps that open a
  fresh promise or settle an open one: no promise settles twice.
\<close>

theorem client_refines_promises:
  "\<exists>c. client_run parse evs new_client = Some c \<and> promise_step\<^sup>*\<^sup>* no_promises (promises_of c)
     \<and> promises_ok (promises_of c)"
proof -
  have "promises_of new_client = no_promises" by (simp add: promises_of_def new_client_def no_promises_def)
  moreover have "promises_ok no_promises" by (simp add: promises_ok_def no_promises_def)
  ultimately show ?thesis
    using client_run_simulates [OF new_client_ok, of parse evs] promise_steps_ok by metis
qed

text \<open>
  C30. When the process has exited, every request ever made is settled, exactly once, provided
  \<open>stop\<close> was called at most once: whatever was pending is rejected.
\<close>

theorem exit_settles_everything:
  assumes "client_run parse evs new_client = Some c" and "Child_Exit \<in> set evs"
    and "count_list evs Stop_Called \<le> 1"
  shows "c_pending c = [] \<and> distinct (map fst (c_settled c)) \<and> fst ` set (c_settled c) = {..<c_next c}"
proof -
  have "stopped_once 0 new_client" by (simp add: stopped_once_def new_client_def)
  from client_run_stopped [OF assms(1) this] have "c_pending c = []"
    using client_run_exited [OF assms(1)] assms(2,3) by (simp add: stopped_once_def)
  moreover have "promises_ok (promises_of c)"
    using client_run_simulates [OF new_client_ok, of parse evs] assms(1)
      promise_steps_ok [of "promises_of new_client" "promises_of c"]
    by (simp add: promises_ok_def promises_of_def new_client_def)
  ultimately show ?thesis by (simp add: promises_ok_def promises_of_def)
qed

theorem exit_settles_everything_witness:
  "\<exists>c. client_run (\<lambda>_. None) [Stop_Called, Call [120] [109] [], Child_Exit] new_client = Some c
     \<and> fst ` set (c_settled c) = {..<c_next c} \<and> c_next c = 1"
proof -
  obtain c where c: "client_run (\<lambda>_. None) [Stop_Called, Call [120] [109] [], Child_Exit] new_client = Some c"
    using client_run_simulates [OF new_client_ok] by blast
  then have "c_next c = 1"
    by (auto simp: client_stop_def client_request_def new_client_def settle_def client_exit_def poison_def
        finish_def new_decoder_def Let_def)
  with exit_settles_everything [OF c] c show ?thesis by simp
qed

text \<open>
  C10. The client and the frame codec together: whatever the order in which the kernel answers the
  pending requests and however the pipe cuts the frames of the answers, each promise resolves with
  the result sent for its own identifier, in the order of the answers, and the other requests stay
  pending. The premise on \<open>parse\<close> is that \<open>JSON.parse\<close> inverts \<open>JSON.stringify\<close> on the responses.
\<close>

theorem responses_reach_their_requests:
  assumes "c_state c \<noteq> Client_Closed" and "c_decoder c = new_decoder"
    and "distinct (map fst rs)" and "\<forall>r \<in> set rs. map_of (c_pending c) (fst r) \<noteq> None"
    and "\<forall>(i, v) \<in> set rs. units_ok (result_response i v)
           \<and> parse (stringify (result_response i v)) = Some (result_response i v)"
    and "map_res (\<lambda>v. encode_frame (Some v)) (map (\<lambda>(i, v). result_response i v) rs) = Inr fs"
    and "concat chunks = concat fs"
  shows "client_run parse (map Chunk chunks) c = Some (c\<lparr>
     c_pending := filter (\<lambda>p. fst p \<notin> fst ` set rs) (c_pending c),
     c_settled := c_settled c @ map (\<lambda>(i, v). (the (map_of (c_pending c) i), Resolved v)) rs\<rparr>)"
proof -
  let ?vs = "map (\<lambda>(i, v). result_response i v) rs"
  have "push_chunks parse chunks (c_decoder c) = Some (run_bytes parse (concat fs) new_decoder)"
    unfolding assms(2) assms(7) [symmetric]
    by (rule push_chunks_run) (simp_all add: new_decoder_def decoder_ok_def)
  also have "run_bytes parse (concat fs) new_decoder = (Inr ?vs, new_decoder)"
    by (rule run_bytes_frames [OF _ assms(6)]) (use assms(5) in auto)
  finally have "client_run parse (map Chunk chunks) c = Some ((answer_all rs c)\<lparr>c_decoder := new_decoder\<rparr>)"
    by (rule client_run_chunks) (use assms handle_result_responses in auto)
  then show ?thesis using assms(2,3) by (simp add: answer_all_eq)
qed

text \<open>Two calls are answered in the opposite order, one byte at a time; a third stays pending.\<close>

theorem responses_reach_their_requests_witness:
  "\<exists>parse bs c'. client_run parse (map (\<lambda>b. Chunk [b]) bs)
       (new_client\<lparr>c_pending := [([97], 0), ([98], 1), ([99], 2)], c_next := 3\<rparr>) = Some c'
     \<and> c_settled c' = [(1, Resolved JNull), (0, Resolved (JBool True))] \<and> c_pending c' = [([99], 2)]"
proof -
  let ?a = "result_response [97] (JBool True)" and ?b = "result_response [98] JNull"
  let ?parse = "\<lambda>t. if t = stringify ?a then Some ?a else if t = stringify ?b then Some ?b else None"
  let ?rs = "[([98], JNull), ([97], JBool True)]"
  let ?c = "new_client\<lparr>c_pending := [([97], 0), ([98], 1), ([99], 2)], c_next := 3\<rparr>"
  have "length (stringify ?a) < 100 \<and> length (stringify ?b) < 100
      \<and> list_all (\<lambda>u. u < 128) (stringify ?a) \<and> list_all (\<lambda>u. u < 128) (stringify ?b)
      \<and> stringify ?a \<noteq> stringify ?b"
    by (simp add: stringify_result_response plain_def) (simp add: js_def)
  then have short: "length (encoded ?a) < 100" "length (encoded ?b) < 100"
    and diff: "stringify ?a \<noteq> stringify ?b"
    by (simp_all add: encoded_def utf8_encode_ascii)
  obtain fs where fs: "map_res (\<lambda>v. encode_frame (Some v)) [?b, ?a] = Inr fs"
    using short by (simp add: encode_frame_def encoded_def [symmetric] Let_def MAX_FRAME_BYTES_def)
  have units: "units_ok ?a \<and> units_ok ?b" by (simp add: result_response_def js_def)
  have "client_run ?parse (map Chunk (map (\<lambda>b. [b]) (concat fs))) ?c = Some (?c\<lparr>
     c_pending := filter (\<lambda>p. fst p \<notin> fst ` set ?rs) (c_pending ?c),
     c_settled := c_settled ?c @ map (\<lambda>(i, v). (the (map_of (c_pending ?c) i), Resolved v)) ?rs\<rparr>)"
    by (rule responses_reach_their_requests [where fs = fs])
      (use fs units diff in \<open>simp_all add: new_client_def\<close>)
  then show ?thesis
    by (intro exI [of _ ?parse] exI [of _ "concat fs"]) (simp add: new_client_def comp_def)
qed

section \<open>A second call of stop\<close>

text \<open>
  \<open>stop\<close> called again while it waits closes the client before the process has exited; the exit
  then leaves what is pending for ever, and later events do not settle it either.
\<close>

lemma second_stop_abandons:
  assumes "encode_frame (Some (request_json i m ps)) = Inr f"
  shows "\<exists>c. client_run parse [Call i m ps, Stop_Called, Stop_Called, Child_Exit] new_client = Some c
     \<and> c_pending c = [(i, 0)] \<and> c_settled c = [] \<and> c_state c = Client_Closed"
  using assms
  by (simp add: client_request_def new_client_def client_stop_def client_exit_def finish_def
      new_decoder_def Let_def poison_def)

lemma closed_client_settles_nothing:
  assumes "client_step parse ev c = Some c'" and "c_state c = Client_Closed"
    and "\<And>i t. ev \<noteq> Write_Error i t"
  shows "c_state c' = Client_Closed \<and> c_pending c' = c_pending c"
  using assms
  by (cases ev) (auto simp: client_request_def settle_def Let_def client_chunk_def
      poison_and_kill_def client_exit_def client_hello_def client_stop_def client_stop_resumes_def
      client_kill_timer_def client_stderr_def poison_def
      split: if_splits sum.splits option.splits prod.splits)

end
