(* ===== verification/Connector_Auth.thy ===== *)
theory Connector_Auth
  imports Document_Store Timestamps Utf8
begin

text \<open>
  The credential of the HTTP connector: \<open>packages/auth/src/credential-store.ts\<close> (the file with the
  verifier, its rotation) and \<open>packages/auth/src/bearer-auth.ts\<close> (the check of an Authorization
  header). SHA-256, the random bytes and the clock are arguments.
\<close>

section \<open>Base64url\<close>

definition b64url_char :: "nat \<Rightarrow> nat" where
  "b64url_char n = (if n < 26 then 65 + n else if n < 52 then 71 + n else if n < 62 then n - 4
     else if n = 62 then 45 else 95)"

definition b64url_value :: "nat \<Rightarrow> nat" where
  "b64url_value u = (if is_upper u then u - 65 else if is_lower u then u - 71
     else if is_digit u then u + 4 else if u = 45 then 62 else 63)"

text \<open>\<open>buffer.toString("base64url")\<close>, without padding.\<close>

fun base64url_encode :: "bytes \<Rightarrow> jsstring" where
  "base64url_encode [] = []"
| "base64url_encode [a] = [b64url_char (a div 4), b64url_char (a mod 4 * 16)]"
| "base64url_encode [a, b] =
     [b64url_char (a div 4), b64url_char (a mod 4 * 16 + b div 16), b64url_char (b mod 16 * 4)]"
| "base64url_encode (a # b # c # bs) =
     b64url_char (a div 4) # b64url_char (a mod 4 * 16 + b div 16) #
     b64url_char (b mod 16 * 4 + c div 64) # b64url_char (c mod 64) # base64url_encode bs"

text \<open>
  \<open>Buffer.from(value, "base64url")\<close> on a value over the alphabet: the bits beyond the last whole
  byte are dropped.
\<close>

fun base64url_decode :: "jsstring \<Rightarrow> bytes" where
  "base64url_decode [p, q] = [b64url_value p * 4 + b64url_value q div 16]"
| "base64url_decode [p, q, r] =
     [b64url_value p * 4 + b64url_value q div 16, b64url_value q mod 16 * 16 + b64url_value r div 4]"
| "base64url_decode (p # q # r # t # s) =
     (b64url_value p * 4 + b64url_value q div 16) #
     (b64url_value q mod 16 * 16 + b64url_value r div 4) #
     (b64url_value r mod 4 * 64 + b64url_value t) # base64url_decode s"
| "base64url_decode _ = []"

definition is_canonical_base64url :: "jsstring \<Rightarrow> nat \<Rightarrow> bool" where
  "is_canonical_base64url s n =
     (length s = (n * 8 + 5) div 6 \<and> s \<noteq> [] \<and> list_all is_base64url s
       \<and> length (base64url_decode s) = n \<and> base64url_encode (base64url_decode s) = s)"

lemma b64url_value_char [simp]: "n < 64 \<Longrightarrow> b64url_value (b64url_char n) = n"
  by (auto simp: b64url_value_def b64url_char_def is_upper_def is_lower_def is_digit_def)

lemma is_base64url_char [simp]: "n < 64 \<Longrightarrow> is_base64url (b64url_char n)"
  by (auto simp: is_base64url_def is_alnum_def b64url_char_def is_upper_def is_lower_def is_digit_def)

lemma b64url_value_bound: "is_base64url u \<Longrightarrow> b64url_value u < 64"
  by (auto simp: is_base64url_def is_alnum_def b64url_value_def is_upper_def is_lower_def is_digit_def)

lemma base64url_decode_encode:
  "list_all (\<lambda>b. b < 256) bs \<Longrightarrow> base64url_decode (base64url_encode bs) = bs"
proof (induction bs rule: base64url_encode.induct)
  case (2 a)
  then have "a div 4 < 64" "a mod 4 * 16 < 64" by auto
  then show ?case by (simp add: div_mult_mod_eq)
next
  case (3 a b)
  then have "a div 4 < 64" "a mod 4 * 16 + b div 16 < 64" "b mod 16 * 4 < 64" by auto
  moreover have "(a mod 4 * 16 + b div 16) div 16 = a mod 4" "(a mod 4 * 16 + b div 16) mod 16 = b div 16"
    using 3 by auto
  ultimately show ?case by simp
next
  case (4 a b c bs)
  then have "a div 4 < 64" "a mod 4 * 16 + b div 16 < 64" "b mod 16 * 4 + c div 64 < 64"
      "c mod 64 < 64" by auto
  moreover have "(a mod 4 * 16 + b div 16) div 16 = a mod 4" "(a mod 4 * 16 + b div 16) mod 16 = b div 16"
      "(b mod 16 * 4 + c div 64) div 4 = b mod 16" "(b mod 16 * 4 + c div 64) mod 4 = c div 64"
    using 4 by auto
  ultimately show ?case using 4 by simp
qed simp

lemma base64url_encode_alphabet:
  "list_all (\<lambda>b. b < 256) bs \<Longrightarrow> list_all is_base64url (base64url_encode bs)"
proof (induction bs rule: base64url_encode.induct)
  case (4 a b c bs)
  then have "a div 4 < 64" "a mod 4 * 16 + b div 16 < 64" "b mod 16 * 4 + c div 64 < 64"
      "c mod 64 < 64" by auto
  then show ?case using 4 by simp
next
  case (3 a b)
  then have "a div 4 < 64" "a mod 4 * 16 + b div 16 < 64" "b mod 16 * 4 < 64" by auto
  then show ?case by simp
next
  case (2 a)
  then have "a div 4 < 64" "a mod 4 * 16 < 64" by auto
  then show ?case by simp
qed simp

lemma length_base64url_encode: "length (base64url_encode bs) = (length bs * 8 + 5) div 6"
proof (induction bs rule: base64url_encode.induct)
  case (4 a b c bs)
  have "(length (a # b # c # bs) * 8 + 5) div 6 = (length bs * 8 + 5) div 6 + 4" by simp
  with 4 show ?case by simp
qed auto

text \<open>Canonical texts are exactly the encodings.\<close>

lemma encode_canonical:
  "list_all (\<lambda>b. b < 256) bs \<Longrightarrow> bs \<noteq> [] \<Longrightarrow> is_canonical_base64url (base64url_encode bs) (length bs)"
  by (cases bs rule: base64url_encode.cases)
    (auto simp: is_canonical_base64url_def length_base64url_encode base64url_decode_encode
      base64url_encode_alphabet)

lemma canonical_decode_inj:
  "is_canonical_base64url s n \<Longrightarrow> is_canonical_base64url t m \<Longrightarrow>
     base64url_decode s = base64url_decode t \<Longrightarrow> s = t"
  by (metis is_canonical_base64url_def)

section \<open>The credential store\<close>

datatype credential_error =
    Credential_Invalid
  | Credential_Version_Unsupported
  | Token_Invalid
  | Credential_Io

record credential_document =
  cd_id :: jsstring
  cd_verifier :: jsstring
  cd_created_at :: jsstring
  cd_rotated_at :: jsstring

record credential_status =
  cs_id :: jsstring
  cs_created_at :: jsstring
  cs_rotated_at :: jsstring

definition connector_id_bytes :: nat where "connector_id_bytes = 12"

definition connector_secret_bytes :: nat where "connector_secret_bytes = 32"

definition connector_verifier_bytes :: nat where "connector_verifier_bytes = 32"

definition connector_token_prefix :: jsstring where "connector_token_prefix = js ''kgc_''"

definition connector_auth_domain :: jsstring where "connector_auth_domain = js ''kodegpt-connector-v1''"

definition verifier_material :: "jsstring \<Rightarrow> jsstring \<Rightarrow> bytes" where
  "verifier_material i secret =
     utf8_encode connector_auth_domain @ [0] @ utf8_encode i @ [0] @ utf8_encode secret"

definition derive_connector_verifier ::
    "(bytes \<Rightarrow> bytes) \<Rightarrow> jsstring \<Rightarrow> jsstring \<Rightarrow> credential_error + jsstring" where
  "derive_connector_verifier sha256 i secret =
     bind_res (ensure (is_canonical_base64url i connector_id_bytes) Token_Invalid) (\<lambda>_.
     bind_res (ensure (is_canonical_base64url secret connector_secret_bytes) Token_Invalid) (\<lambda>_.
     Inr (base64url_encode (sha256 (verifier_material i secret)))))"

definition public_status :: "credential_document \<Rightarrow> credential_status" where
  "public_status d = \<lparr>cs_id = cd_id d, cs_created_at = cd_created_at d, cs_rotated_at = cd_rotated_at d\<rparr>"

text \<open>The part of \<open>#read\<close> after \<open>JSON.parse\<close>; \<open>None\<close> is text it rejects.\<close>

definition parse_credential :: "json option \<Rightarrow> credential_error + credential_document option" where
  "parse_credential t = (case as_record t of
     None \<Rightarrow> Inl Credential_Invalid
   | Some fs \<Rightarrow>
       if \<not> schema_one fs then Inl Credential_Version_Unsupported
       else if \<not> same_keys fs [''createdAt'', ''id'', ''rotatedAt'', ''schemaVersion'', ''verifier'']
         then Inl Credential_Invalid
       else (case (as_str (get fs ''id''), as_str (get fs ''verifier''),
              as_str (get fs ''createdAt''), as_str (get fs ''rotatedAt'')) of
          (Some i, Some v, Some c, Some r) \<Rightarrow>
            if is_canonical_base64url i connector_id_bytes
               \<and> is_canonical_base64url v connector_verifier_bytes
               \<and> is_canonical_timestamp c \<and> is_canonical_timestamp r
            then Inr (Some \<lparr>cd_id = i, cd_verifier = v, cd_created_at = c, cd_rotated_at = r\<rparr>)
            else Inl Credential_Invalid
        | _ \<Rightarrow> Inl Credential_Invalid))"

definition credential_document_json :: "credential_document \<Rightarrow> json" where
  "credential_document_json d = JObj [fld ''schemaVersion'' (JNum 1), fld ''id'' (JStr (cd_id d)),
     fld ''verifier'' (JStr (cd_verifier d)), fld ''createdAt'' (JStr (cd_created_at d)),
     fld ''rotatedAt'' (JStr (cd_rotated_at d))]"

type_synonym credential_file = "json option state_file"

definition read_credential :: "credential_file \<Rightarrow> credential_error + credential_document option" where
  "read_credential f = read_file Credential_Io None parse_credential f"

definition write_credential :: "write_fault \<Rightarrow> credential_document \<Rightarrow> credential_file \<Rightarrow>
    (credential_error + unit) \<times> credential_file" where
  "write_credential fault d f = write_file Credential_Io fault (Some (credential_document_json d)) f"

definition connector_status :: "credential_file \<Rightarrow> credential_error + credential_status option" where
  "connector_status f = bind_res (read_credential f) (\<lambda>d. Inr (map_option public_status d))"

definition load_verifier :: "credential_file \<Rightarrow> credential_error + (jsstring \<times> jsstring) option" where
  "load_verifier f = bind_res (read_credential f) (\<lambda>d. Inr (map_option (\<lambda>d. (cd_id d, cd_verifier d)) d))"

text \<open>\<open>rotate\<close>; \<open>idb\<close> and \<open>secb\<close> are what the two calls of \<open>randomBytes\<close> return.\<close>

definition rotate_credential :: "(bytes \<Rightarrow> bytes) \<Rightarrow> bytes \<Rightarrow> bytes \<Rightarrow> jsstring \<Rightarrow> write_fault \<Rightarrow>
    credential_file \<Rightarrow> (credential_error + jsstring \<times> credential_status) \<times> credential_file" where
  "rotate_credential sha256 idb secb now fault f =
     (let i = base64url_encode idb; secret = base64url_encode secb in
      case bind_res (read_credential f) (\<lambda>previous.
           bind_res (derive_connector_verifier sha256 i secret) (\<lambda>v.
           Inr \<lparr>cd_id = i, cd_verifier = v,
             cd_created_at = (case previous of Some p \<Rightarrow> cd_created_at p | None \<Rightarrow> now),
             cd_rotated_at = now\<rparr>)) of
        Inl e \<Rightarrow> (Inl e, f)
      | Inr d \<Rightarrow> (case write_credential fault d f of
            (Inl e, f') \<Rightarrow> (Inl e, f')
          | (Inr _, f') \<Rightarrow> (Inr (connector_token_prefix @ i @ [46] @ secret, public_status d), f')))"

section \<open>The Authorization header\<close>

definition parse_connector_token :: "jsstring \<Rightarrow> (jsstring \<times> jsstring) option" where
  "parse_connector_token s =
     (if \<not> starts_with s connector_token_prefix then None
      else (case index_of 46 (length connector_token_prefix) s of
          None \<Rightarrow> None
        | Some k \<Rightarrow>
            if index_of 46 (Suc k) s \<noteq> None then None
            else (let i = slice (length connector_token_prefix) k s; secret = drop (Suc k) s in
              if is_canonical_base64url i connector_id_bytes
                 \<and> is_canonical_base64url secret connector_secret_bytes
              then Some (i, secret) else None)))"

definition authenticate :: "(bytes \<Rightarrow> bytes) \<Rightarrow> credential_file \<Rightarrow> jsstring option \<Rightarrow> credential_error + bool" where
  "authenticate sha256 f authorization = (case authorization of
     None \<Rightarrow> Inr False
   | Some h \<Rightarrow> (case index_of 32 0 h of
       None \<Rightarrow> Inr False
     | Some k \<Rightarrow>
         if k = 0 \<or> index_of 32 (Suc k) h \<noteq> None then Inr False
         else if to_lower (take k h) \<noteq> js ''bearer'' then Inr False
         else (case parse_connector_token (drop (Suc k) h) of
             None \<Rightarrow> Inr False
           | Some (i, secret) \<Rightarrow>
               bind_res (load_verifier f) (\<lambda>r. case r of
                 None \<Rightarrow> Inr False
               | Some (ri, rv) \<Rightarrow>
                   if ri \<noteq> i then Inr False
                   else bind_res (derive_connector_verifier sha256 i secret) (\<lambda>v.
                     let actual = base64url_decode v; expected = base64url_decode rv in
                     Inr (length actual = length expected \<and> actual = expected))))))"

section \<open>The codec of the file\<close>

definition credential_ok :: "credential_document option \<Rightarrow> bool" where
  "credential_ok d = (case d of None \<Rightarrow> True | Some d \<Rightarrow>
     is_canonical_base64url (cd_id d) connector_id_bytes
     \<and> is_canonical_base64url (cd_verifier d) connector_verifier_bytes
     \<and> is_canonical_timestamp (cd_created_at d) \<and> is_canonical_timestamp (cd_rotated_at d))"

lemma parse_credential_document_json:
  "credential_ok (Some d) \<Longrightarrow> parse_credential (Some (credential_document_json d)) = Inr (Some d)"
  by (simp add: credential_ok_def parse_credential_def credential_document_json_def schema_one_def same_keys_def)

lemma parse_credential_ok: "parse_credential t = Inr d \<Longrightarrow> credential_ok d"
  by (auto simp: parse_credential_def credential_ok_def split: option.splits if_splits)

interpretation credential_doc: document_codec "\<lambda>d. map_option credential_document_json d" parse_credential
    "\<lambda>d. d \<noteq> None \<and> credential_ok d"
proof
  show "d \<noteq> None \<and> credential_ok d \<Longrightarrow> parse_credential (map_option credential_document_json d) = Inr d" for d
    by (auto simp: parse_credential_document_json)
  show "parse_credential j = Inr d \<Longrightarrow> d \<noteq> None \<and> credential_ok d" for j d
    using parse_credential_ok [of j d] by (auto simp: parse_credential_def split: option.splits if_splits)
qed

section \<open>What a header authenticates\<close>

lemma find_index_append: "c \<notin> set w \<Longrightarrow> find_index (\<lambda>u. u = c) (w @ c # t) = Some (length w)"
  by (induction w) auto

lemma find_index_split:
  "find_index (\<lambda>u. u = c) xs = Some j \<Longrightarrow> \<exists>w t. xs = w @ c # t \<and> c \<notin> set w \<and> j = length w"
proof (induction xs arbitrary: j)
  case Nil
  then show ?case by simp
next
  case (Cons x xs)
  show ?case
  proof (cases "x = c")
    case True
    then show ?thesis using Cons.prems by (intro exI [of _ "[]"] exI [of _ xs]) auto
  next
    case False
    then obtain j' where "find_index (\<lambda>u. u = c) xs = Some j'" "j = Suc j'" using Cons.prems by auto
    with Cons.IH obtain w t where "xs = w @ c # t" "c \<notin> set w" "j' = length w" by blast
    with False \<open>j = Suc j'\<close> show ?thesis by (intro exI [of _ "x # w"] exI [of _ t]) auto
  qed
qed

lemma find_index_first:
  "find_index (\<lambda>u. u = c) xs = Some j \<longleftrightarrow> (\<exists>w t. xs = w @ c # t \<and> c \<notin> set w \<and> j = length w)"
  using find_index_append find_index_split by metis

text \<open>Where a separator was found, the text before it, and the text after it.\<close>

lemma index_of_first:
  "index_of c n s = Some k \<longleftrightarrow> (\<exists>w t. drop n s = w @ c # t \<and> c \<notin> set w \<and> k = n + length w)"
  by (auto simp: index_of_def find_index_first)

lemma index_of_absent: "index_of c n s = None \<longleftrightarrow> c \<notin> set (drop n s)"
  by (auto simp: index_of_def find_index_None)

lemma canonical_no_separator:
  "is_canonical_base64url s n \<Longrightarrow> 32 \<notin> set s \<and> 46 \<notin> set s"
  by (auto simp: is_canonical_base64url_def list_all_iff is_base64url_def is_alnum_def
      is_upper_def is_lower_def is_digit_def)

lemma parse_connector_token_iff:
  "parse_connector_token s = Some (i, secret) \<longleftrightarrow>
     s = connector_token_prefix @ i @ 46 # secret
     \<and> is_canonical_base64url i connector_id_bytes \<and> is_canonical_base64url secret connector_secret_bytes"
  (is "_ \<longleftrightarrow> ?r")
proof
  assume l: "parse_connector_token s = Some (i, secret)"
  then obtain rest where s: "s = connector_token_prefix @ rest"
    by (auto simp: parse_connector_token_def starts_with_iff split: if_splits)
  obtain k where k: "index_of 46 (length connector_token_prefix) s = Some k"
    using l by (auto simp: parse_connector_token_def split: if_splits option.splits)
  then obtain w t where w: "rest = w @ 46 # t" "46 \<notin> set w" "k = length connector_token_prefix + length w"
    by (auto simp: index_of_first s)
  show ?r using l k unfolding s w(1,3)
    by (auto simp: parse_connector_token_def slice_def Let_def split: if_splits)
next
  assume r: ?r
  then have no: "46 \<notin> set i" "46 \<notin> set secret" using canonical_no_separator by blast+
  have "index_of 46 (length connector_token_prefix) s = Some (length connector_token_prefix + length i)"
    using r no by (auto simp: index_of_first)
  then show "parse_connector_token s = Some (i, secret)"
    using r no by (simp add: parse_connector_token_def index_of_absent slice_def Let_def)
qed

lemma lower_bearer_no_space: "to_lower w = js ''bearer'' \<Longrightarrow> 32 \<notin> set w \<and> w \<noteq> []"
proof -
  assume a: "to_lower w = js ''bearer''"
  have "32 \<notin> set (to_lower w)" unfolding a by (simp add: js_def)
  moreover have "32 \<in> set w \<Longrightarrow> lower_unit 32 \<in> set (to_lower w)" by (simp add: to_lower_def)
  moreover have "w = [] \<Longrightarrow> to_lower w = []" by (simp add: to_lower_def)
  ultimately show ?thesis using a by (auto simp: lower_unit_def is_upper_def)
qed

text \<open>The header carries a token after a scheme that reads bearer in any case.\<close>

definition header_carries :: "jsstring \<Rightarrow> jsstring \<Rightarrow> bool" where
  "header_carries h token = (\<exists>scheme. to_lower scheme = js ''bearer'' \<and> h = scheme @ 32 # token)"

lemma authenticate_true:
  assumes lv: "load_verifier f = Inr (Some (ri, rv))" and sha: "\<And>m. list_all (\<lambda>b. b < 256) (sha256 m)"
  shows "authenticate sha256 f (Some h) = Inr (\<exists>secret. header_carries h (connector_token_prefix @ ri @ 46 # secret)
     \<and> is_canonical_base64url ri connector_id_bytes \<and> is_canonical_base64url secret connector_secret_bytes
     \<and> sha256 (verifier_material ri secret) = base64url_decode rv)"
  (is "_ = Inr (\<exists>secret. ?P secret)")
proof (cases "\<exists>scheme token. to_lower scheme = js ''bearer'' \<and> h = scheme @ 32 # token \<and> 32 \<notin> set token")
  case False
  have "\<not> ?P secret" for secret
  proof
    assume p: "?P secret"
    then have "32 \<notin> set (connector_token_prefix @ ri @ 46 # secret)"
      using canonical_no_separator by (auto simp: connector_token_prefix_def js_def)
    with p False show False by (auto simp: header_carries_def)
  qed
  moreover have "authenticate sha256 f (Some h) = Inr False"
  proof (cases "index_of 32 0 h")
    case None
    then show ?thesis by (simp add: authenticate_def)
  next
    case (Some k)
    then obtain w t where "h = w @ 32 # t" "32 \<notin> set w" "k = length w" by (auto simp: index_of_first)
    with False Some show ?thesis by (auto simp: authenticate_def index_of_absent)
  qed
  ultimately show ?thesis by simp
next
  case True
  then obtain w t where h: "to_lower w = js ''bearer''" "h = w @ 32 # t" "32 \<notin> set t" by blast
  note w = lower_bearer_no_space [OF h(1)]
  have ix: "index_of 32 0 h = Some (length w)" using w h(2) by (auto simp: index_of_first)
  have carries: "header_carries h token \<longleftrightarrow> token = t" if "32 \<notin> set token" for token
  proof
    assume "header_carries h token"
    then obtain v where v: "to_lower v = js ''bearer''" "h = v @ 32 # token"
      by (auto simp: header_carries_def)
    have "length v = length w"
      using arg_cong [OF v(1), of length] arg_cong [OF h(1), of length] by simp
    then show "token = t" using v(2) h(2) by simp
  qed (use h in \<open>auto simp: header_carries_def\<close>)
  have auth: "authenticate sha256 f (Some h) = (case parse_connector_token t of
      None \<Rightarrow> Inr False
    | Some (i, secret) \<Rightarrow> Inr (ri = i \<and> sha256 (verifier_material i secret) = base64url_decode rv))"
    using h(1,3) w ix lv
    by (auto simp: authenticate_def index_of_absent h(2) derive_connector_verifier_def Let_def
        base64url_decode_encode [OF sha] parse_connector_token_iff split: option.splits)
  have "?P secret \<longleftrightarrow> parse_connector_token t = Some (ri, secret)
      \<and> sha256 (verifier_material ri secret) = base64url_decode rv" for secret
    using carries [of "connector_token_prefix @ ri @ 46 # secret"] canonical_no_separator
    by (auto simp: parse_connector_token_iff connector_token_prefix_def js_def)
  then show ?thesis unfolding auth by (auto split: option.splits)
qed

lemma read_credential_ok: "read_credential f = Inr d \<Longrightarrow> credential_ok d"
  by (auto simp: read_credential_def read_file_def credential_ok_def [of None] parse_credential_ok
      split: state_file.splits)

lemma rotate_writes:
  assumes "rotate_credential sha256 idb secb now fault f = (Inr (token, st), f')"
    and "is_canonical_timestamp now"
    and sha: "\<And>m. length (sha256 m) = 32" "\<And>m. list_all (\<lambda>b. b < 256) (sha256 m)"
  obtains d previous where "read_credential f' = Inr (Some d)" "read_credential f = Inr previous"
    "cd_id d = base64url_encode idb"
    "cd_verifier d = base64url_encode (sha256 (verifier_material (cd_id d) (base64url_encode secb)))"
    "cd_created_at d = (case previous of Some p \<Rightarrow> cd_created_at p | None \<Rightarrow> now)" "cd_rotated_at d = now"
    "token = connector_token_prefix @ cd_id d @ 46 # base64url_encode secb" "st = public_status d"
    "is_canonical_base64url (cd_id d) connector_id_bytes"
    "is_canonical_base64url (base64url_encode secb) connector_secret_bytes"
proof -
  let ?i = "base64url_encode idb" and ?s = "base64url_encode secb"
  let ?v = "base64url_encode (sha256 (verifier_material ?i ?s))"
  obtain previous where p: "read_credential f = Inr previous"
    and ok: "is_canonical_base64url ?i connector_id_bytes" "is_canonical_base64url ?s connector_secret_bytes"
    using assms(1) by (auto simp: rotate_credential_def Let_def derive_connector_verifier_def ensure_def
        bind_res_def split: sum.splits if_splits)
  define d where "d = \<lparr>cd_id = ?i, cd_verifier = ?v,
    cd_created_at = (case previous of Some p \<Rightarrow> cd_created_at p | None \<Rightarrow> now), cd_rotated_at = now\<rparr>"
  have w: "write_credential fault d f = (Inr (), f')" "token = connector_token_prefix @ ?i @ 46 # ?s"
      "st = public_status d"
    using assms(1) p ok
    by (auto simp: rotate_credential_def Let_def derive_connector_verifier_def d_def
        split: sum.splits prod.splits)
  have "is_canonical_base64url ?v (length (sha256 (verifier_material ?i ?s)))"
    by (rule encode_canonical) (use sha in \<open>auto simp flip: length_greater_0_conv\<close>)
  moreover have "is_canonical_timestamp (cd_created_at d)"
    using read_credential_ok [OF p] assms(2) by (auto simp: d_def credential_ok_def split: option.splits)
  ultimately have "credential_ok (Some d)"
    using ok assms(2) sha(1) by (simp add: credential_ok_def d_def connector_verifier_bytes_def)
  then have "read_credential f' = Inr (Some d)"
    using write_file_cases [OF w(1) [unfolded write_credential_def]]
    by (auto simp: read_credential_def read_file_def parse_credential_document_json)
  then show thesis by (rule that) (use p w(2,3) ok in \<open>simp_all add: d_def\<close>)
qed

text \<open>Decoding a canonical text gives bytes, also when the text is the end of the material.\<close>

lemma base64url_decode_bytes:
  "list_all is_base64url s \<Longrightarrow> list_all (\<lambda>b. b < 256) (base64url_decode s)"
proof (induction s rule: base64url_decode.induct)
  case (3 p q r t s)
  then show ?case using b64url_value_bound [of p] b64url_value_bound [of q] b64url_value_bound [of r]
      b64url_value_bound [of t] by auto
next
  case (2 p q r)
  then show ?case using b64url_value_bound [of p] b64url_value_bound [of q] b64url_value_bound [of r] by auto
next
  case (1 p q)
  then show ?case using b64url_value_bound [of p] b64url_value_bound [of q] by auto
qed auto

lemma canonical_ascii: "is_canonical_base64url s n \<Longrightarrow> list_all (\<lambda>u. u < 128) s"
  by (auto simp: is_canonical_base64url_def list_all_iff is_base64url_def is_alnum_def is_upper_def
      is_lower_def is_digit_def)

lemma secret_hash:
  assumes "is_canonical_base64url s connector_secret_bytes" and "is_canonical_base64url i connector_id_bytes"
  shows "take 32 (map (\<lambda>b. b mod 256) (base64url_decode (drop 38 (verifier_material i s))) @ replicate 32 0)
    = base64url_decode s"
proof -
  have "length i = 16" using assms(2) by (simp add: is_canonical_base64url_def connector_id_bytes_def)
  moreover have "list_all (\<lambda>u. u < 128) connector_auth_domain" "length connector_auth_domain = 20"
    by (simp_all add: connector_auth_domain_def) (simp add: js_def)
  ultimately have "drop 38 (verifier_material i s) = s"
    using canonical_ascii [OF assms(1)] canonical_ascii [OF assms(2)]
    by (simp add: verifier_material_def utf8_encode_ascii)
  moreover have "map (\<lambda>b. b mod 256) (base64url_decode s) = base64url_decode s"
    using base64url_decode_bytes [of s] assms(1)
    by (intro map_idI) (auto simp: is_canonical_base64url_def list_all_iff)
  moreover have "length (base64url_decode s) = 32"
    using assms(1) by (simp add: is_canonical_base64url_def connector_secret_bytes_def)
  ultimately show ?thesis by simp
qed

lemma issued_token_authenticates:
  assumes "rotate_credential sha256 idb secb now fault f = (Inr (token, st), f')"
    and "is_canonical_timestamp now"
    and "\<And>m. length (sha256 m) = 32" and "\<And>m. list_all (\<lambda>b. b < 256) (sha256 m)"
    and "\<And>s. is_canonical_base64url s connector_secret_bytes \<Longrightarrow>
           sha256 (verifier_material (base64url_encode idb) s)
           = sha256 (verifier_material (base64url_encode idb) (base64url_encode secb)) \<Longrightarrow>
           s = base64url_encode secb"
  shows "authenticate sha256 f' (Some h) = Inr (header_carries h token)
    \<and> connector_status f' = Inr (Some st) \<and> cs_rotated_at st = now
    \<and> (\<forall>old. connector_status f = Inr (Some old) \<longrightarrow> cs_created_at st = cs_created_at old)"
proof -
  obtain d previous where d: "read_credential f' = Inr (Some d)" "read_credential f = Inr previous"
    "cd_id d = base64url_encode idb"
    "cd_verifier d = base64url_encode (sha256 (verifier_material (cd_id d) (base64url_encode secb)))"
    "cd_created_at d = (case previous of Some p \<Rightarrow> cd_created_at p | None \<Rightarrow> now)" "cd_rotated_at d = now"
    "token = connector_token_prefix @ cd_id d @ 46 # base64url_encode secb" "st = public_status d"
    "is_canonical_base64url (cd_id d) connector_id_bytes"
    "is_canonical_base64url (base64url_encode secb) connector_secret_bytes"
    using rotate_writes [OF assms(1-4)] .
  have lv: "load_verifier f' = Inr (Some (cd_id d, cd_verifier d))" using d(1) by (simp add: load_verifier_def)
  have "base64url_decode (cd_verifier d) = sha256 (verifier_material (cd_id d) (base64url_encode secb))"
    unfolding d(4) by (rule base64url_decode_encode [OF assms(4)])
  then have "(\<exists>secret. header_carries h (connector_token_prefix @ cd_id d @ 46 # secret)
      \<and> is_canonical_base64url (cd_id d) connector_id_bytes \<and> is_canonical_base64url secret connector_secret_bytes
      \<and> sha256 (verifier_material (cd_id d) secret) = base64url_decode (cd_verifier d))
    \<longleftrightarrow> header_carries h token"
    using assms(5) d(7,9,10) unfolding d(3) by auto
  then have "authenticate sha256 f' (Some h) = Inr (header_carries h token)"
    using authenticate_true [OF lv assms(4), where h = h] by simp
  moreover have "connector_status f = Inr (map_option public_status previous)"
    using d(2) by (simp add: connector_status_def)
  ultimately show ?thesis using d by (auto simp: connector_status_def public_status_def)
qed

text \<open>
  A stand-in for the hash, for the witnesses: the secret itself, which is what the material ends
  with; and a first rotation under it.
\<close>

definition sample_sha :: "bytes \<Rightarrow> bytes" where
  "sample_sha m = take 32 (map (\<lambda>b. b mod 256) (base64url_decode (drop 38 m)) @ replicate 32 0)"

definition sample_rotated_at :: jsstring where
  "sample_rotated_at = js ''2024-02-29T12:00:00.000Z''"

lemma sample_rotated_at_canonical: "is_canonical_timestamp sample_rotated_at"
  by (simp add: sample_rotated_at_def is_canonical_timestamp_def canonical_tail_def digits_at_def unit_at_def
      js_def is_digit_def digits_value_def is_leap_def days_in_month_def)

lemma sample_sha_bytes: "length (sample_sha m) = 32" "list_all (\<lambda>b. b < 256) (sample_sha m)"
  by (simp add: sample_sha_def, auto simp: sample_sha_def list_all_iff dest!: in_set_takeD)

lemma sample_canonical:
  "is_canonical_base64url (base64url_encode (replicate 12 0)) connector_id_bytes"
  "is_canonical_base64url (base64url_encode (replicate 32 1)) connector_secret_bytes"
  using encode_canonical [of "replicate 12 0"] encode_canonical [of "replicate 32 1"]
  by (simp_all add: connector_id_bytes_def connector_secret_bytes_def list_all_iff)

lemma sample_sha_inj:
  assumes "is_canonical_base64url s connector_secret_bytes"
    and "sample_sha (verifier_material (base64url_encode (replicate 12 0)) s)
      = sample_sha (verifier_material (base64url_encode (replicate 12 0)) (base64url_encode (replicate 32 1)))"
  shows "s = base64url_encode (replicate 32 1)"
  using assms secret_hash [OF assms(1) sample_canonical(1)] secret_hash [OF sample_canonical(2,1)]
    canonical_decode_inj [OF assms(1) sample_canonical(2)]
  by (simp add: sample_sha_def)

lemma sample_rotation:
  obtains token st f' where
    "rotate_credential sample_sha (replicate 12 0) (replicate 32 1) sample_rotated_at No_Fault Absent = (Inr (token, st), f')"
    "token = connector_token_prefix @ base64url_encode (replicate 12 0) @ 46 # base64url_encode (replicate 32 1)"
  using sample_canonical by (simp add: rotate_credential_def derive_connector_verifier_def
      read_credential_def read_file_def write_credential_def write_file_def Let_def)

section \<open>Properties\<close>

text \<open>
  C19. After a rotation has been written, an Authorization header is accepted exactly when it
  carries the token the rotation returned; in particular every token issued before is refused. The
  premises on \<open>sha256\<close> are that it yields 32 bytes and that no other secret collides with the
  issued one under its identifier.
\<close>

theorem only_issued_token_authenticates:
  assumes "rotate_credential sha256 idb secb now fault f = (Inr (token, st), f')"
    and "is_canonical_timestamp now"
    and "\<And>m. length (sha256 m) = 32" and "\<And>m. list_all (\<lambda>b. b < 256) (sha256 m)"
    and "\<And>s. is_canonical_base64url s connector_secret_bytes \<Longrightarrow>
           sha256 (verifier_material (base64url_encode idb) s)
           = sha256 (verifier_material (base64url_encode idb) (base64url_encode secb)) \<Longrightarrow>
           s = base64url_encode secb"
  shows "authenticate sha256 f' (Some h) = Inr (header_carries h token)
    \<and> connector_status f' = Inr (Some st) \<and> cs_rotated_at st = now
    \<and> (\<forall>old. connector_status f = Inr (Some old) \<longrightarrow> cs_created_at st = cs_created_at old)"
  by (rule issued_token_authenticates [OF assms])

theorem only_issued_token_authenticates_witness:
  "\<exists>sha256 token f'. authenticate sha256 f' (Some (js ''BEARER '' @ token)) = Inr True
     \<and> authenticate sha256 f' (Some (js ''Digest '' @ token)) = Inr False"
proof -
  obtain token st f' where r: "rotate_credential sample_sha (replicate 12 0) (replicate 32 1) sample_rotated_at
      No_Fault Absent = (Inr (token, st), f')"
    using sample_rotation .
  have auth: "authenticate sample_sha f' (Some h) = Inr (header_carries h token)" for h
    by (rule only_issued_token_authenticates [OF r sample_rotated_at_canonical sample_sha_bytes, THEN conjunct1])
      (rule sample_sha_inj)
  have "js ''BEARER '' @ token = js ''BEARER'' @ 32 # token" "js ''Digest '' @ token = js ''Digest'' @ 32 # token"
    by (simp_all add: js_def)
  moreover have "to_lower (js ''BEARER'') = js ''bearer''" "to_lower (js ''Digest'') \<noteq> js ''bearer''"
    by (simp_all add: to_lower_def lower_unit_def is_upper_def js_def)
  ultimately show ?thesis
    using auth [of "js ''BEARER '' @ token"] auth [of "js ''Digest '' @ token"]
    by (intro exI [of _ sample_sha] exI [of _ token] exI [of _ f']) (auto simp: header_carries_def)
qed

end
