(* ===== verification/Http_Gate.thy ===== *)
theory Http_Gate
  imports Connector_Auth Frame_Codec
begin

text \<open>
  The HTTP entrance of the MCP server: the host, origin, content type and length checks of
  \<open>packages/auth/src/http-trust.ts\<close> and the handler of \<open>packages/mcp-server/src/http.ts\<close> that runs
  them before it looks at the credential and forwards a request. The URL parser, with the query
  parameters of a parsed URL, and \<open>toLowerCase\<close> are arguments.
\<close>

record url =
  u_protocol :: jsstring
  u_username :: jsstring
  u_password :: jsstring
  u_host :: jsstring
  u_pathname :: jsstring
  u_search :: jsstring
  u_hash :: jsstring
  u_origin :: jsstring
  u_href :: jsstring

text \<open>\<open>tokens_of\<close> is \<open>searchParams.getAll("kodegpt_token")\<close>, \<open>without_tokens\<close> the text after \<open>delete\<close>.\<close>

record url_api =
  parse_url :: "jsstring \<Rightarrow> url option"
  lower :: "jsstring \<Rightarrow> jsstring"
  tokens_of :: "url \<Rightarrow> jsstring list"
  without_tokens :: "url \<Rightarrow> jsstring"

datatype http_error = Http_Type_Error | Http_Trust_Error string nat

record http_trust_config =
  hc_hosts :: "jsstring list"
  hc_origins :: "jsstring list"
  hc_public :: "jsstring option"
  hc_max_body :: int

record http_trust_input =
  hi_host :: "jsstring option"
  hi_origin :: "jsstring option"
  hi_content_type :: "jsstring option"
  hi_content_length :: "jsstring option"
  hi_body_bytes :: int

section \<open>Host, origin and body checks\<close>

definition normalize_authority :: "url_api \<Rightarrow> jsstring \<Rightarrow> http_error + jsstring" where
  "normalize_authority api v =
     (if v = [] \<or> trim v \<noteq> v \<or> 44 \<in> set v then Inl Http_Type_Error
      else (case parse_url api (js ''http://'' @ v) of
          None \<Rightarrow> Inl Http_Type_Error
        | Some u \<Rightarrow>
            if u_username u \<noteq> [] \<or> u_password u \<noteq> [] \<or> u_pathname u \<noteq> js ''/'' \<or> u_search u \<noteq> []
               \<or> u_hash u \<noteq> [] \<or> u_host u = [] \<or> lower api (u_host u) \<noteq> lower api v
            then Inl Http_Type_Error else Inr (lower api (u_host u))))"

definition parse_public_url :: "url_api \<Rightarrow> jsstring \<Rightarrow> http_error + url" where
  "parse_public_url api v = (case parse_url api v of
     None \<Rightarrow> Inl Http_Type_Error
   | Some u \<Rightarrow>
       if u_protocol u \<noteq> js ''https:'' \<or> u_username u \<noteq> [] \<or> u_password u \<noteq> [] \<or> u_host u = []
          \<or> u_hash u \<noteq> []
       then Inl Http_Type_Error else Inr u)"

definition origin_rejected :: http_error where
  "origin_rejected = Http_Trust_Error ''HTTP_ORIGIN_REJECTED'' 403"

definition parse_origin :: "url_api \<Rightarrow> jsstring \<Rightarrow> http_error + url" where
  "parse_origin api v = (case parse_url api v of
     None \<Rightarrow> Inl origin_rejected
   | Some u \<Rightarrow>
       if u_protocol u \<noteq> js ''http:'' \<and> u_protocol u \<noteq> js ''https:'' \<or> u_username u \<noteq> []
          \<or> u_password u \<noteq> [] \<or> u_pathname u \<noteq> js ''/'' \<or> u_search u \<noteq> [] \<or> u_hash u \<noteq> []
          \<or> u_host u = [] \<or> lower api (u_origin u) \<noteq> lower api v
       then Inl origin_rejected else Inr u)"

definition create_http_trust_config :: "url_api \<Rightarrow> jsstring list \<Rightarrow> jsstring list \<Rightarrow>
    jsstring option \<Rightarrow> int \<Rightarrow> http_error + http_trust_config" where
  "create_http_trust_config api hosts origins public max_body =
     bind_res (ensure (\<bar>max_body\<bar> \<le> max_safe \<and> 0 \<le> max_body) Http_Type_Error) (\<lambda>_.
     bind_res (map_res (normalize_authority api) hosts) (\<lambda>hs.
     bind_res (map_res (normalize_authority api) origins) (\<lambda>os.
     bind_res (case public of None \<Rightarrow> Inr None
         | Some p \<Rightarrow> bind_res (parse_public_url api p) (\<lambda>u. Inr (Some u))) (\<lambda>pu.
     let extra = (case pu of None \<Rightarrow> [] | Some u \<Rightarrow> [lower api (u_host u)]);
         hs' = remdups (hs @ extra); os' = remdups (os @ extra) in
     if hs' = [] then Inl Http_Type_Error
     else Inr \<lparr>hc_hosts = sort hs', hc_origins = sort os', hc_public = map_option u_href pu,
            hc_max_body = max_body\<rparr>))))"

definition is_json_content_type :: "url_api \<Rightarrow> jsstring option \<Rightarrow> bool" where
  "is_json_content_type api v = (case v of
     None \<Rightarrow> False
   | Some t \<Rightarrow> lower api (trim (hd (split_on 59 t))) = js ''application/json'')"

definition parse_content_length :: "jsstring option \<Rightarrow> http_error + int option" where
  "parse_content_length v = (case v of
     None \<Rightarrow> Inr None
   | Some t \<Rightarrow>
       if canonical_digits t \<and> int (digits_value t) \<le> max_safe then Inr (Some (int (digits_value t)))
       else Inl (Http_Trust_Error ''HTTP_CONTENT_LENGTH_INVALID'' 400))"

definition host_rejected :: http_error where
  "host_rejected = Http_Trust_Error ''HTTP_HOST_REJECTED'' 421"

definition check_host :: "url_api \<Rightarrow> http_trust_config \<Rightarrow> jsstring option \<Rightarrow> http_error + unit" where
  "check_host api cfg h = (case h of
     None \<Rightarrow> Inl (Http_Trust_Error ''HTTP_HOST_REQUIRED'' 400)
   | Some v \<Rightarrow>
       if v = [] then Inl (Http_Trust_Error ''HTTP_HOST_REQUIRED'' 400)
       else (case normalize_authority api v of
           Inl _ \<Rightarrow> Inl host_rejected
         | Inr host \<Rightarrow> ensure (host \<in> set (hc_hosts cfg)) host_rejected))"

definition check_origin :: "url_api \<Rightarrow> http_trust_config \<Rightarrow> jsstring option \<Rightarrow> http_error + unit" where
  "check_origin api cfg v = (case v of
     None \<Rightarrow> Inr ()
   | Some t \<Rightarrow>
       bind_res (parse_origin api t) (\<lambda>u.
       let origin_host = lower api (u_host u) in
       bind_res (ensure (origin_host \<in> set (hc_origins cfg)) origin_rejected) (\<lambda>_.
       case hc_public cfg of
         None \<Rightarrow> Inr ()
       | Some p \<Rightarrow> (case parse_url api p of
           None \<Rightarrow> Inl Http_Type_Error
         | Some pu \<Rightarrow> ensure (\<not> (origin_host = lower api (u_host pu)
               \<and> lower api (u_origin u) \<noteq> lower api (u_origin pu))) origin_rejected))))"

definition body_too_large :: http_error where
  "body_too_large = Http_Trust_Error ''HTTP_BODY_TOO_LARGE'' 413"

definition check_lengths :: "http_trust_config \<Rightarrow> jsstring option \<Rightarrow> int \<Rightarrow> http_error + unit" where
  "check_lengths cfg declared actual =
     bind_res (parse_content_length declared) (\<lambda>d.
     bind_res (ensure (case d of None \<Rightarrow> True | Some n \<Rightarrow> n \<le> hc_max_body cfg) body_too_large) (\<lambda>_.
     bind_res (ensure (\<bar>actual\<bar> \<le> max_safe \<and> 0 \<le> actual)
       (Http_Trust_Error ''HTTP_CONTENT_LENGTH_INVALID'' 400)) (\<lambda>_.
     bind_res (ensure (actual \<le> hc_max_body cfg) body_too_large) (\<lambda>_.
     ensure (d = None \<or> d = Some actual) (Http_Trust_Error ''HTTP_CONTENT_LENGTH_MISMATCH'' 400)))))"

definition enforce_http_request_trust ::
    "url_api \<Rightarrow> http_trust_config \<Rightarrow> http_trust_input \<Rightarrow> http_error + unit" where
  "enforce_http_request_trust api cfg r =
     bind_res (check_host api cfg (hi_host r)) (\<lambda>_.
     bind_res (check_origin api cfg (hi_origin r)) (\<lambda>_.
     bind_res (ensure (is_json_content_type api (hi_content_type r))
       (Http_Trust_Error ''HTTP_CONTENT_TYPE_UNSUPPORTED'' 415)) (\<lambda>_.
     check_lengths cfg (hi_content_length r) (hi_body_bytes r))))"

section \<open>The handler\<close>

record http_request =
  rq_method :: jsstring
  rq_url :: jsstring
  rq_host :: "jsstring option"
  rq_origin :: "jsstring option"
  rq_content_type :: "jsstring option"
  rq_content_length :: "jsstring option"
  rq_authorization :: "jsstring option"
  rq_chunks :: "bytes list"

datatype http_response =
    Method_Not_Allowed
  | Json_Error nat string
  | Unauthorized
  | Forwarded jsstring bytes
  | Threw

text \<open>\<open>readBoundedBody\<close>: the chunks until the total exceeds the limit, \<open>None\<close> then.\<close>

fun read_bounded_body :: "int \<Rightarrow> int \<Rightarrow> bytes list \<Rightarrow> bytes option" where
  "read_bounded_body max_bytes sofar [] = Some []"
| "read_bounded_body max_bytes sofar (c # cs) =
     (if max_bytes < sofar + int (length c) then None
      else map_option (\<lambda>bs. c @ bs) (read_bounded_body max_bytes (sofar + int (length c)) cs))"

definition resolve_http_credential ::
    "url_api \<Rightarrow> bool \<Rightarrow> url \<Rightarrow> jsstring option \<Rightarrow> (jsstring option \<times> jsstring) option" where
  "resolve_http_credential api query_ok u authorization =
     (if \<not> query_ok then Some (authorization, if tokens_of api u = [] then u_href u else without_tokens api u)
      else if tokens_of api u \<noteq> [] \<and> u_pathname u \<noteq> js ''/mcp'' then None
      else (case tokens_of api u of
          [] \<Rightarrow> Some (authorization, u_href u)
        | [t] \<Rightarrow> if authorization \<noteq> None then None
                 else Some (Some (js ''Bearer '' @ t), without_tokens api u)
        | _ \<Rightarrow> None))"

definition http_fetch :: "url_api \<Rightarrow> http_trust_config \<Rightarrow> (jsstring option \<Rightarrow> credential_error + bool) \<Rightarrow>
    bool \<Rightarrow> http_request \<Rightarrow> http_response" where
  "http_fetch api cfg auth query_ok r =
     (if rq_method r \<noteq> js ''POST'' then Method_Not_Allowed
      else (case read_bounded_body (hc_max_body cfg) 0 (rq_chunks r) of
          None \<Rightarrow> Json_Error 413 ''HTTP_BODY_TOO_LARGE''
        | Some body \<Rightarrow>
            (case enforce_http_request_trust api cfg
                \<lparr>hi_host = rq_host r, hi_origin = rq_origin r, hi_content_type = rq_content_type r,
                 hi_content_length = rq_content_length r, hi_body_bytes = int (length body)\<rparr> of
               Inl Http_Type_Error \<Rightarrow> Threw
             | Inl (Http_Trust_Error code status) \<Rightarrow> Json_Error status code
             | Inr _ \<Rightarrow>
                 (case parse_url api (rq_url r) of
                    None \<Rightarrow> Threw
                  | Some u \<Rightarrow>
                      (case resolve_http_credential api query_ok u (rq_authorization r) of
                         None \<Rightarrow> Unauthorized
                       | Some (h, forwarded_url) \<Rightarrow>
                           (case auth h of
                              Inl _ \<Rightarrow> Threw
                            | Inr ok \<Rightarrow> if ok then Forwarded forwarded_url body else Unauthorized))))))"

section \<open>What passes the checks\<close>

lemma normalized_authority: "normalize_authority api v = Inr h \<Longrightarrow> h = lower api v"
  by (auto simp: normalize_authority_def split: if_splits option.splits)

lemma map_res_normalized: "map_res (normalize_authority api) vs = Inr hs \<Longrightarrow> hs = map (lower api) vs"
  by (induction vs arbitrary: hs) (auto simp: bind_res_eq_Inr normalized_authority)

lemma read_bounded_body_Some:
  "read_bounded_body m sofar cs = Some bs \<Longrightarrow> sofar \<le> m \<Longrightarrow>
     bs = concat cs \<and> sofar + int (length bs) \<le> m"
  by (induction m sofar cs arbitrary: bs rule: read_bounded_body.induct) (auto split: if_splits)

text \<open>The hosts an operator meant: the listed ones and the one of the public URL, in any case.\<close>

definition meant_host :: "url_api \<Rightarrow> jsstring list \<Rightarrow> jsstring option \<Rightarrow> jsstring \<Rightarrow> bool" where
  "meant_host api listed public h = (h \<in> lower api ` set listed
     \<or> (\<exists>p u. public = Some p \<and> parse_url api p = Some u \<and> u_protocol u = js ''https:'' \<and> h = lower api (u_host u)))"

lemma config_hosts:
  assumes "create_http_trust_config api hosts origins public max_body = Inr cfg"
  shows "h \<in> set (hc_hosts cfg) \<Longrightarrow> meant_host api hosts public h"
    and "h \<in> set (hc_origins cfg) \<Longrightarrow> meant_host api origins public h"
    and "hc_max_body cfg = max_body" and "0 \<le> max_body"
  using assms
  by (auto simp: create_http_trust_config_def bind_res_eq_Inr Let_def meant_host_def parse_public_url_def
      dest!: map_res_normalized split: if_splits option.splits)

lemma check_host_passes: "check_host api cfg v = Inr u \<Longrightarrow> \<exists>t. v = Some t \<and> lower api t \<in> set (hc_hosts cfg)"
  by (auto simp: check_host_def dest: normalized_authority split: option.splits if_splits sum.splits)

text \<open>An origin that is plain \<open>http\<close> or \<open>https\<close>; at the host of the public URL it is that URL's own.\<close>

definition good_origin :: "url_api \<Rightarrow> jsstring option \<Rightarrow> jsstring \<Rightarrow> url \<Rightarrow> bool" where
  "good_origin api public t u = (parse_url api t = Some u
     \<and> (u_protocol u = js ''http:'' \<or> u_protocol u = js ''https:'')
     \<and> lower api (u_origin u) = lower api t
     \<and> (\<forall>p pu. public = Some p \<and> parse_url api p = Some pu \<and> lower api (u_host u) = lower api (u_host pu)
          \<longrightarrow> lower api t = lower api (u_origin pu)))"

lemma check_origin_passes:
  assumes "check_origin api cfg v = Inr x" and "v = Some t"
  shows "\<exists>u. good_origin api (hc_public cfg) t u \<and> lower api (u_host u) \<in> set (hc_origins cfg)"
  using assms
  by (auto simp: check_origin_def parse_origin_def good_origin_def Let_def bind_res_eq_Inr
      split: option.splits if_splits)

text \<open>Where the handler takes a credential from.\<close>

definition offered_header :: "url_api \<Rightarrow> bool \<Rightarrow> http_request \<Rightarrow> jsstring \<Rightarrow> bool" where
  "offered_header api query_ok r h = (rq_authorization r = Some h
     \<or> query_ok \<and> rq_authorization r = None \<and> (\<exists>u t. parse_url api (rq_url r) = Some u
         \<and> u_pathname u = js ''/mcp'' \<and> tokens_of api u = [t] \<and> h = js ''Bearer '' @ t))"

lemma resolved_credential:
  "resolve_http_credential api query_ok u (rq_authorization r) = Some (Some h, v) \<Longrightarrow>
     parse_url api (rq_url r) = Some u \<Longrightarrow> offered_header api query_ok r h"
  by (auto simp: resolve_http_credential_def offered_header_def split: if_splits list.splits)

lemma fetch_forwarded:
  assumes "http_fetch api cfg auth query_ok r = Forwarded v body"
  obtains h u where "rq_method r = js ''POST''" "read_bounded_body (hc_max_body cfg) 0 (rq_chunks r) = Some body"
    "check_host api cfg (rq_host r) = Inr ()" "check_origin api cfg (rq_origin r) = Inr ()"
    "is_json_content_type api (rq_content_type r)"
    "check_lengths cfg (rq_content_length r) (int (length body)) = Inr ()"
    "parse_url api (rq_url r) = Some u"
    "resolve_http_credential api query_ok u (rq_authorization r) = Some (h, v)" "auth h = Inr True"
  using assms
  by (auto simp: http_fetch_def enforce_http_request_trust_def bind_res_eq_Inr
      split: if_splits option.splits sum.splits http_error.splits prod.splits)

section \<open>Properties\<close>

text \<open>
  C1. The entrance as a whole: with a configuration made from an operator's input and a credential
  file written by a rotation, the handler forwards a request only if it is a POST within the body
  limit, addressed to a host the operator listed (or the host of the public URL), from an allowed
  origin if it names one, and carries the token of that rotation in its Authorization header or,
  where this is enabled, as the only \<open>kodegpt_token\<close> of a request to \<open>/mcp\<close> without that header.
  What is forwarded is the body as it was received.
\<close>

theorem only_token_holders_reach_the_server:
  assumes "create_http_trust_config api hosts origins public max_body = Inr cfg"
    and "rotate_credential sha256 idb secb now fault f = (Inr (token, st), f')"
    and "is_canonical_timestamp now"
    and "\<And>m. length (sha256 m) = 32" and "\<And>m. list_all (\<lambda>b. b < 256) (sha256 m)"
    and "\<And>s. is_canonical_base64url s connector_secret_bytes \<Longrightarrow>
           sha256 (verifier_material (base64url_encode idb) s)
           = sha256 (verifier_material (base64url_encode idb) (base64url_encode secb)) \<Longrightarrow>
           s = base64url_encode secb"
    and "http_fetch api cfg (authenticate sha256 f') query_ok r = Forwarded v body"
  shows "rq_method r = js ''POST'' \<and> body = concat (rq_chunks r) \<and> int (length body) \<le> max_body
    \<and> (\<exists>h. rq_host r = Some h \<and> meant_host api hosts public (lower api h))
    \<and> (\<forall>t. rq_origin r = Some t \<longrightarrow> (\<exists>u. good_origin api (hc_public cfg) t u
         \<and> meant_host api origins public (lower api (u_host u))))
    \<and> (\<exists>h. offered_header api query_ok r h \<and> header_carries h token)"
proof -
  obtain h u where p: "rq_method r = js ''POST''" "read_bounded_body (hc_max_body cfg) 0 (rq_chunks r) = Some body"
    "check_host api cfg (rq_host r) = Inr ()" "check_origin api cfg (rq_origin r) = Inr ()"
    "parse_url api (rq_url r) = Some u"
    "resolve_http_credential api query_ok u (rq_authorization r) = Some (h, v)"
    "authenticate sha256 f' h = Inr True"
    using fetch_forwarded [OF assms(7)] by metis
  obtain hdr where hdr: "h = Some hdr" using p(7) by (cases h) (simp_all add: authenticate_def)
  have "header_carries hdr token"
    using issued_token_authenticates [OF assms(2-6), of hdr] p(7) hdr by simp
  moreover have "offered_header api query_ok r hdr" using resolved_credential p(5,6) hdr by blast
  moreover have "body = concat (rq_chunks r) \<and> int (length body) \<le> max_body"
    using read_bounded_body_Some [OF p(2)] config_hosts(3,4) [OF assms(1)] by (metis add_0)
  moreover have "\<exists>h. rq_host r = Some h \<and> meant_host api hosts public (lower api h)"
    using check_host_passes [OF p(3)] config_hosts(1) [OF assms(1)] by blast
  moreover have "\<exists>u. good_origin api (hc_public cfg) t u \<and> meant_host api origins public (lower api (u_host u))"
    if "rq_origin r = Some t" for t
    using check_origin_passes [OF p(4) that] config_hosts(2) [OF assms(1)] by blast
  ultimately show ?thesis using p(1) by blast
qed

text \<open>A parser that knows two addresses, and a request with the token in the query.\<close>

definition sample_api :: url_api where
  "sample_api = (let u = \<lparr>u_protocol = js ''http:'', u_username = [], u_password = [], u_host = js ''localhost'',
       u_pathname = js ''/'', u_search = [], u_hash = [], u_origin = js ''http://localhost'',
       u_href = js ''http://localhost/''\<rparr>;
     token = connector_token_prefix @ base64url_encode (replicate 12 0) @ 46 # base64url_encode (replicate 32 1) in
     \<lparr>parse_url = (\<lambda>s. if s = js ''http://localhost'' then Some u
        else if s = js ''http://localhost/mcp'' then Some (u\<lparr>u_pathname := js ''/mcp''\<rparr>) else None),
      lower = to_lower, tokens_of = (\<lambda>u. if u_pathname u = js ''/mcp'' then [token] else []),
      without_tokens = (\<lambda>u. js ''http://localhost/mcp'')\<rparr>)"

definition sample_request :: http_request where
  "sample_request = \<lparr>rq_method = js ''POST'', rq_url = js ''http://localhost/mcp'',
     rq_host = Some (js ''localhost''), rq_origin = None, rq_content_type = Some (js ''application/json''),
     rq_content_length = Some [50], rq_authorization = None, rq_chunks = [[123], [125]]\<rparr>"

theorem only_token_holders_reach_the_server_witness:
  "\<exists>cfg sha256 f' token v. http_fetch sample_api cfg (authenticate sha256 f') True sample_request = Forwarded v [123, 125]
     \<and> (\<exists>h. offered_header sample_api True sample_request h \<and> header_carries h token)"
proof -
  obtain token st f' where r: "rotate_credential sample_sha (replicate 12 0) (replicate 32 1) sample_rotated_at
      No_Fault Absent = (Inr (token, st), f')"
    and token: "token = connector_token_prefix @ base64url_encode (replicate 12 0) @ 46 # base64url_encode (replicate 32 1)"
    using sample_rotation .
  have low: "to_lower (js ''localhost'') = js ''localhost''" "trim (js ''localhost'') = js ''localhost''"
      "44 \<notin> set (js ''localhost'')" "js ''http://'' @ js ''localhost'' = js ''http://localhost''"
    by (simp_all add: js_def to_lower_def lower_unit_def is_upper_def trim_def is_space_def)
  then have norm: "normalize_authority sample_api (js ''localhost'') = Inr (js ''localhost'')"
    by (simp add: normalize_authority_def sample_api_def Let_def)
  define cfg where "cfg = \<lparr>hc_hosts = [js ''localhost''], hc_origins = [], hc_public = None, hc_max_body = 2\<rparr>"
  have cfg: "create_http_trust_config sample_api [js ''localhost''] [] None 2 = Inr cfg"
    using norm by (simp add: create_http_trust_config_def Let_def cfg_def)
  have parts: "is_json_content_type sample_api (Some (js ''application/json''))"
    "check_lengths cfg (Some [50]) 2 = Inr ()"
    by (simp_all add: is_json_content_type_def sample_api_def Let_def js_def to_lower_def lower_unit_def
        is_upper_def trim_def is_space_def check_lengths_def parse_content_length_def canonical_digits_def
        is_digit_def digits_value_def cfg_def)
  have url: "parse_url sample_api (js ''http://localhost/mcp'') = Some \<lparr>u_protocol = js ''http:'',
      u_username = [], u_password = [], u_host = js ''localhost'', u_pathname = js ''/mcp'', u_search = [],
      u_hash = [], u_origin = js ''http://localhost'', u_href = js ''http://localhost/''\<rparr>"
    by (simp add: sample_api_def Let_def)
  have tokens: "tokens_of sample_api u = [token]" if "u_pathname u = js ''/mcp''" for u
    using that token by (simp add: sample_api_def Let_def)
  have "js ''Bearer '' @ token = js ''Bearer'' @ 32 # token" "to_lower (js ''Bearer'') = js ''bearer''"
    by (simp_all add: js_def to_lower_def lower_unit_def is_upper_def)
  then have "header_carries (js ''Bearer '' @ token) token" by (auto simp: header_carries_def)
  then have auth: "authenticate sample_sha f' (Some (js ''Bearer '' @ token)) = Inr True"
    using issued_token_authenticates [OF r sample_rotated_at_canonical sample_sha_bytes sample_sha_inj] by simp
  have "http_fetch sample_api cfg (authenticate sample_sha f') True sample_request
      = Forwarded (without_tokens sample_api undefined) [123, 125]"
    using parts norm auth url tokens
    by (simp add: http_fetch_def sample_request_def enforce_http_request_trust_def check_host_def
        check_origin_def resolve_http_credential_def cfg_def) (simp add: sample_api_def Let_def)
  then show ?thesis
    using only_token_holders_reach_the_server [OF cfg r sample_rotated_at_canonical sample_sha_bytes sample_sha_inj,
        of True sample_request] by blast
qed

end
