(* ===== verification/Preview_Manager.thy ===== *)
theory Preview_Manager
  imports Kernel_Payloads
begin

text \<open>
  \<open>packages/core/src/preview-manager.ts\<close>: previews of development servers, at most 32 at a time.
  \<open>start\<close> and \<open>stop\<close> await the process adapter several times, and other calls run in between; every
  stretch of code between two awaits is one step here. The adapters' answers are part of the
  events. The URL parser is an argument.
\<close>

section \<open>Data\<close>

record source_state_ref =
  ss_head_oid :: jsstring
  ss_fingerprint :: jsstring

record preview_input =
  pi_workspace :: jsstring
  pi_executable :: jsstring
  pi_port :: int
  pi_request_path :: "jsstring option"
  pi_wait_ms :: "int option"

record preview_record =
  pr_id :: jsstring
  pr_workspace :: jsstring
  pr_operation :: jsstring
  pr_port :: int
  pr_path :: jsstring
  pr_url :: jsstring
  pr_source :: source_state_ref

record preview_probe =
  pp_reachable :: bool
  pp_status :: "int option"

record preview_status =
  pst_id :: jsstring
  pst_operation :: jsstring
  pst_url :: jsstring
  pst_state :: operation_state
  pst_exit_code :: "int option"
  pst_probe :: preview_probe
  pst_source :: source_state_ref

datatype preview_error =
    Preview_Not_Found
  | Preview_Limit_Reached
  | Preview_Endpoint_In_Use
  | Preview_Type_Error
  | Preview_Range_Error
  | Preview_Adapter_Failed

definition max_preview_sessions :: int where "max_preview_sessions = 32"

definition default_preview_wait_ms :: int where "default_preview_wait_ms = 3000"

definition max_preview_wait_ms :: int where "max_preview_wait_ms = 10000"

definition unreachable_probe :: preview_probe where
  "unreachable_probe = \<lparr>pp_reachable = False, pp_status = None\<rparr>"

definition result_from :: "preview_record \<Rightarrow> process_operation \<Rightarrow> preview_probe \<Rightarrow> preview_status" where
  "result_from r op p = \<lparr>pst_id = pr_id r, pst_operation = pr_operation r, pst_url = pr_url r,
     pst_state = po_state op, pst_exit_code = po_exit_code op, pst_probe = p, pst_source = pr_source r\<rparr>"

text \<open>\<open>normalized p\<close> is pathname and search of \<open>new URL(p, "http://127.0.0.1")\<close>.\<close>

definition validate_start_input ::
    "(jsstring \<Rightarrow> jsstring option) \<Rightarrow> preview_input \<Rightarrow> preview_error + unit" where
  "validate_start_input normalized i =
     bind_res (ensure (pi_workspace i \<noteq> [] \<and> pi_executable i \<noteq> []) Preview_Type_Error) (\<lambda>_.
     bind_res (ensure (1024 \<le> pi_port i \<and> pi_port i \<le> 65535) Preview_Range_Error) (\<lambda>_.
     let p = (case pi_request_path i of Some p \<Rightarrow> p | None \<Rightarrow> js ''/'') in
     bind_res (ensure (normalized p = Some p \<and> starts_with p (js ''/'') \<and> \<not> starts_with p (js ''//'')
         \<and> byte_length p \<le> 2048 \<and> 35 \<notin> set p \<and> \<not> list_ex is_control p) Preview_Type_Error) (\<lambda>_.
     let w = (case pi_wait_ms i of Some w \<Rightarrow> w | None \<Rightarrow> default_preview_wait_ms) in
     ensure (0 \<le> w \<and> w \<le> max_preview_wait_ms) Preview_Range_Error)))"

definition validate_source_state :: "source_state_ref \<Rightarrow> preview_error + source_state_ref" where
  "validate_source_state s =
     (if (exactly is_lower_hex 40 (ss_head_oid s) \<or> exactly is_lower_hex 64 (ss_head_oid s))
         \<and> exactly is_lower_hex 64 (ss_fingerprint s)
      then Inr s else Inl Preview_Type_Error)"

section \<open>The manager between two awaits\<close>

datatype start_phase =
    Pruning nat preview_record
  | Checking_Port
  | Resolving_Source jsstring
  | Launching jsstring source_state_ref

datatype stop_phase = Stop_Status | Stop_Cancel

text \<open>
  The \<open>Map\<close> keeps its entries in the order of insertion and an iterator over it sees entries
  added while it runs: each entry carries the number of its insertion, and an iterator is the
  number it looks for next. Calls that wait are kept under a number of their own.
\<close>

record preview_manager =
  pm_previews :: "(nat \<times> preview_record) list"
  pm_inserted :: nat
  pm_pending :: int
  pm_starts :: "(nat \<times> preview_input \<times> start_phase) list"
  pm_stops :: "(nat \<times> preview_record \<times> stop_phase) list"

definition new_preview_manager :: preview_manager where
  "new_preview_manager = \<lparr>pm_previews = [], pm_inserted = 0, pm_pending = 0, pm_starts = [], pm_stops = []\<rparr>"

definition slots_used :: "preview_manager \<Rightarrow> int" where
  "slots_used m = int (length (pm_previews m)) + pm_pending m"

definition preview_with :: "jsstring \<Rightarrow> preview_manager \<Rightarrow> (nat \<times> preview_record) option" where
  "preview_with i m = find (\<lambda>e. pr_id (snd e) = i) (pm_previews m)"

definition delete_preview :: "jsstring \<Rightarrow> preview_manager \<Rightarrow> preview_manager" where
  "delete_preview i m = m\<lparr>pm_previews := filter (\<lambda>e. pr_id (snd e) \<noteq> i) (pm_previews m)\<rparr>"

definition set_preview :: "preview_record \<Rightarrow> preview_manager \<Rightarrow> preview_manager" where
  "set_preview r m = (case preview_with (pr_id r) m of
     Some _ \<Rightarrow> m\<lparr>pm_previews := map (\<lambda>e. if pr_id (snd e) = pr_id r then (fst e, r) else e) (pm_previews m)\<rparr>
   | None \<Rightarrow> m\<lparr>pm_previews := pm_previews m @ [(pm_inserted m, r)], pm_inserted := Suc (pm_inserted m)\<rparr>)"

text \<open>What a call returns: nothing yet, or its outcome.\<close>

datatype preview_outcome =
    Refused preview_error
  | Started preview_record process_operation int
  | Stopped preview_status

definition at_phase :: "nat \<Rightarrow> preview_input \<Rightarrow> start_phase \<Rightarrow> preview_manager \<Rightarrow> preview_manager" where
  "at_phase t i ph m = m\<lparr>pm_starts := AList.update t (i, ph) (pm_starts m)\<rparr>"

definition start_over :: "nat \<Rightarrow> preview_manager \<Rightarrow> preview_manager" where
  "start_over t m = m\<lparr>pm_starts := AList.delete t (pm_starts m)\<rparr>"

text \<open>The end of \<open>#reserveStartSlot\<close>, and its loop from an entry on.\<close>

definition reserve :: "nat \<Rightarrow> preview_input \<Rightarrow> preview_manager \<Rightarrow> preview_manager \<times> preview_outcome option" where
  "reserve t i m =
     (if max_preview_sessions \<le> slots_used m then (start_over t m, Some (Refused Preview_Limit_Reached))
      else (at_phase t i Checking_Port (m\<lparr>pm_pending := pm_pending m + 1\<rparr>), None))"

definition prune_from :: "nat \<Rightarrow> nat \<Rightarrow> preview_input \<Rightarrow> preview_manager \<Rightarrow>
    preview_manager \<times> preview_outcome option" where
  "prune_from cursor t i m = (case find (\<lambda>e. cursor \<le> fst e) (pm_previews m) of
     None \<Rightarrow> reserve t i m
   | Some (s, r) \<Rightarrow>
       if slots_used m < max_preview_sessions then reserve t i m
       else (at_phase t i (Pruning s r) m, None))"

definition start_called :: "(jsstring \<Rightarrow> jsstring option) \<Rightarrow> nat \<Rightarrow> preview_input \<Rightarrow> preview_manager \<Rightarrow>
    preview_manager \<times> preview_outcome option" where
  "start_called normalized t i m = (case validate_start_input normalized i of
     Inl e \<Rightarrow> (m, Some (Refused e))
   | Inr _ \<Rightarrow> if max_preview_sessions \<le> slots_used m then prune_from 0 t i m else reserve t i m)"

text \<open>The \<open>finally\<close> clause of a start that holds a slot.\<close>

definition give_up :: "nat \<Rightarrow> preview_error \<Rightarrow> preview_manager \<Rightarrow> preview_manager \<times> preview_outcome option" where
  "give_up t e m = (start_over t (m\<lparr>pm_pending := pm_pending m - 1\<rparr>), Some (Refused e))"

text \<open>
  What an awaited adapter answers; \<open>None\<close> is a rejected promise. The port check comes with the
  identifier the factory makes after it.
\<close>

datatype start_answer =
    Status_Answer "process_operation option"
  | Port_Answer "bool option" jsstring
  | Source_Answer "source_state_ref option"
  | Run_Answer "process_operation option"

definition preview_url :: "int \<Rightarrow> jsstring \<Rightarrow> jsstring" where
  "preview_url port path = js ''http://127.0.0.1:'' @ int_text port @ path"

definition start_resumes :: "nat \<Rightarrow> preview_input \<Rightarrow> start_phase \<Rightarrow> start_answer \<Rightarrow> preview_manager \<Rightarrow>
    (preview_manager \<times> preview_outcome option) option" where
  "start_resumes t i ph ans m = (case (ph, ans) of
     (Pruning s r, Status_Answer a) \<Rightarrow>
       Some (prune_from (Suc s) t i
         (case a of Some op \<Rightarrow> if po_state op \<noteq> Running then delete_preview (pr_id r) m else m | None \<Rightarrow> m))
   | (Checking_Port, Port_Answer a pid) \<Rightarrow>
       Some (case a of
         None \<Rightarrow> give_up t Preview_Adapter_Failed m
       | Some True \<Rightarrow> give_up t Preview_Endpoint_In_Use m
       | Some False \<Rightarrow>
           if \<not> tagged_hex32 ''pv_'' pid \<or> preview_with pid m \<noteq> None then give_up t Preview_Type_Error m
           else (at_phase t i (Resolving_Source pid) m, None))
   | (Resolving_Source pid, Source_Answer a) \<Rightarrow>
       Some (case a of
         None \<Rightarrow> give_up t Preview_Adapter_Failed m
       | Some s \<Rightarrow> (case validate_source_state s of
           Inl e \<Rightarrow> give_up t e m
         | Inr s' \<Rightarrow> (at_phase t i (Launching pid s') m, None)))
   | (Launching pid s, Run_Answer a) \<Rightarrow>
       Some (case a of
         None \<Rightarrow> give_up t Preview_Adapter_Failed m
       | Some op \<Rightarrow>
           (let path = (case pi_request_path i of Some p \<Rightarrow> p | None \<Rightarrow> js ''/'');
                r = \<lparr>pr_id = pid, pr_workspace = pi_workspace i, pr_operation = po_operation_id op,
                  pr_port = pi_port i, pr_path = path, pr_url = preview_url (pi_port i) path, pr_source = s\<rparr>;
                w = (case pi_wait_ms i of Some w \<Rightarrow> w | None \<Rightarrow> default_preview_wait_ms) in
            (start_over t ((set_preview r m)\<lparr>pm_pending := pm_pending m - 1\<rparr>), Some (Started r op w))))
   | _ \<Rightarrow> None)"

definition lookup_preview :: "jsstring \<Rightarrow> jsstring \<Rightarrow> preview_manager \<Rightarrow> preview_error + preview_record" where
  "lookup_preview ws i m = (case preview_with i m of
     None \<Rightarrow> Inl Preview_Not_Found
   | Some (_, r) \<Rightarrow> if pr_workspace r = ws then Inr r else Inl Preview_Not_Found)"

definition stop_called :: "nat \<Rightarrow> jsstring \<Rightarrow> jsstring \<Rightarrow> preview_manager \<Rightarrow>
    preview_manager \<times> preview_outcome option" where
  "stop_called t ws i m = (case lookup_preview ws i m of
     Inl e \<Rightarrow> (m, Some (Refused e))
   | Inr r \<Rightarrow> (m\<lparr>pm_stops := AList.update t (r, Stop_Status) (pm_stops m)\<rparr>, None))"

definition stop_resumes :: "nat \<Rightarrow> preview_record \<Rightarrow> stop_phase \<Rightarrow> process_operation option \<Rightarrow>
    preview_manager \<Rightarrow> preview_manager \<times> preview_outcome option" where
  "stop_resumes t r ph a m =
     (let done_m = m\<lparr>pm_stops := AList.delete t (pm_stops m)\<rparr> in
      case a of
        None \<Rightarrow> (done_m, Some (Refused Preview_Adapter_Failed))
      | Some op \<Rightarrow>
          if ph = Stop_Status \<and> po_state op = Running
          then (m\<lparr>pm_stops := AList.update t (r, Stop_Cancel) (pm_stops m)\<rparr>, None)
          else (delete_preview (pr_id r) done_m, Some (Stopped (result_from r op unreachable_probe))))"

definition release_previews :: "jsstring \<Rightarrow> preview_manager \<Rightarrow> preview_manager" where
  "release_previews ws m = m\<lparr>pm_previews := filter (\<lambda>e. pr_workspace (snd e) \<noteq> ws) (pm_previews m)\<rparr>"

section \<open>Runs\<close>

datatype preview_event =
    Start_Call nat preview_input
  | Start_Answered nat start_answer
  | Stop_Call nat jsstring jsstring
  | Stop_Answered nat "process_operation option"
  | Release jsstring

text \<open>\<open>None\<close>: no call waits for such an answer, or the number of the call is taken.\<close>

fun preview_step :: "(jsstring \<Rightarrow> jsstring option) \<Rightarrow> preview_event \<Rightarrow> preview_manager \<Rightarrow>
    (preview_manager \<times> preview_outcome option) option" where
  "preview_step normalized (Start_Call t i) m =
     (if map_of (pm_starts m) t \<noteq> None then None else Some (start_called normalized t i m))"
| "preview_step normalized (Start_Answered t a) m = (case map_of (pm_starts m) t of
     None \<Rightarrow> None | Some (i, ph) \<Rightarrow> start_resumes t i ph a m)"
| "preview_step normalized (Stop_Call t ws i) m =
     (if map_of (pm_stops m) t \<noteq> None then None else Some (stop_called t ws i m))"
| "preview_step normalized (Stop_Answered t a) m = (case map_of (pm_stops m) t of
     None \<Rightarrow> None | Some (r, ph) \<Rightarrow> Some (stop_resumes t r ph a m))"
| "preview_step normalized (Release ws) m = Some (release_previews ws m, None)"

fun preview_run :: "(jsstring \<Rightarrow> jsstring option) \<Rightarrow> preview_event list \<Rightarrow> preview_manager \<Rightarrow>
    preview_manager option" where
  "preview_run normalized [] m = Some m"
| "preview_run normalized (ev # evs) m =
     (case preview_step normalized ev m of None \<Rightarrow> None | Some (m', _) \<Rightarrow> preview_run normalized evs m')"

section \<open>Slots\<close>

fun holds_slot :: "start_phase \<Rightarrow> bool" where
  "holds_slot (Pruning s r) = False"
| "holds_slot _ = True"

definition held :: "(nat \<times> preview_input \<times> start_phase) list \<Rightarrow> nat" where
  "held ts = length (filter (\<lambda>x. holds_slot (snd (snd x))) ts)"

lemma held_delete:
  "distinct (map fst ts) \<Longrightarrow> map_of ts t = Some (i, ph) \<Longrightarrow>
     held ts = held (AList.delete t ts) + (if holds_slot ph then 1 else 0)"
proof (induction ts)
  case Nil
  then show ?case by simp
next
  case (Cons x ts)
  then show ?case by (cases "fst x = t") (auto simp: held_def split: if_splits)
qed

lemma held_update:
  "held (AList.update t (i, ph) ts) = held (AList.delete t ts) + (if holds_slot ph then 1 else 0)"
  if "distinct (map fst ts)"
  using that by (induction ts) (auto simp: held_def)

definition slots_ok :: "preview_manager \<Rightarrow> bool" where
  "slots_ok m = (slots_used m \<le> max_preview_sessions \<and> pm_pending m = int (held (pm_starts m))
     \<and> distinct (map fst (pm_starts m)))"

text \<open>The invariant while call \<open>t\<close> runs: its own slot, if it has one, is not counted as held.\<close>

definition running_ok :: "nat \<Rightarrow> int \<Rightarrow> preview_manager \<Rightarrow> bool" where
  "running_ok t own m = (slots_used m \<le> max_preview_sessions
     \<and> pm_pending m = int (held (AList.delete t (pm_starts m))) + own \<and> distinct (map fst (pm_starts m)))"

lemma slots_running:
  assumes "slots_ok m" and "map_of (pm_starts m) t = Some (i, ph)"
  shows "running_ok t (if holds_slot ph then 1 else 0) m"
  using assms held_delete [of "pm_starts m" t i ph] by (auto simp: slots_ok_def running_ok_def)

lemma slots_idle: "slots_ok m \<Longrightarrow> map_of (pm_starts m) t = None \<Longrightarrow> running_ok t 0 m"
  by (simp add: slots_ok_def running_ok_def map_of_eq_None_iff)

lemma at_phase_ok: "running_ok t (if holds_slot ph then 1 else 0) m \<Longrightarrow> slots_ok (at_phase t i ph m)"
  by (simp add: running_ok_def slots_ok_def at_phase_def slots_used_def held_update distinct_update)

lemma start_over_ok: "running_ok t 0 m \<Longrightarrow> slots_ok (start_over t m)"
  by (simp add: running_ok_def slots_ok_def start_over_def slots_used_def distinct_delete)

lemma give_up_ok: "running_ok t 1 m \<Longrightarrow> give_up t e m = (m', out) \<Longrightarrow> slots_ok m'"
  by (auto simp: give_up_def running_ok_def slots_used_def intro!: start_over_ok)

lemma reserve_ok: "running_ok t 0 m \<Longrightarrow> slots_ok (fst (reserve t i m))"
  by (auto simp: reserve_def start_over_ok running_ok_def slots_used_def intro!: at_phase_ok)

lemma prune_from_ok: "running_ok t 0 m \<Longrightarrow> slots_ok (fst (prune_from c t i m))"
  by (auto simp: prune_from_def reserve_ok intro!: at_phase_ok split: option.splits)

lemma start_called_ok:
  "slots_ok m \<Longrightarrow> map_of (pm_starts m) t = None \<Longrightarrow> slots_ok (fst (start_called norm t i m))"
  by (auto simp: start_called_def prune_from_ok reserve_ok slots_idle split: sum.splits)

lemma fewer_previews_ok:
  "length ps \<le> length (pm_previews m) \<Longrightarrow> slots_ok m \<Longrightarrow> slots_ok (m\<lparr>pm_previews := ps\<rparr>)"
  "length ps \<le> length (pm_previews m) \<Longrightarrow> running_ok t own m \<Longrightarrow> running_ok t own (m\<lparr>pm_previews := ps\<rparr>)"
  by (simp_all add: slots_ok_def running_ok_def slots_used_def)

lemma delete_preview_ok:
  "slots_ok m \<Longrightarrow> slots_ok (delete_preview i m)" "running_ok t own m \<Longrightarrow> running_ok t own (delete_preview i m)"
  by (simp_all add: delete_preview_def fewer_previews_ok)

lemma set_preview_ok:
  "running_ok t 1 m \<Longrightarrow> running_ok t 0 ((set_preview r m)\<lparr>pm_pending := pm_pending m - 1\<rparr>)"
  by (simp add: set_preview_def running_ok_def slots_used_def split: option.splits)

lemma start_resumes_ok:
  assumes "start_resumes t i ph a m = Some (m', out)" and ok: "slots_ok m"
    and t: "map_of (pm_starts m) t = Some (i, ph)"
  shows "slots_ok m'"
proof (cases ph)
  case (Pruning s r)
  then have "running_ok t 0 m" using slots_running [OF ok t] by simp
  then have "slots_ok (fst (prune_from c t i m))" "slots_ok (fst (prune_from c t i (delete_preview x m)))" for c x
    by (simp_all add: prune_from_ok delete_preview_ok)
  then show ?thesis using assms(1) Pruning
    by (auto simp: start_resumes_def split: start_answer.splits option.splits if_splits) (metis fst_conv)+
next
  case Checking_Port
  then have r: "running_ok t 1 m" using slots_running [OF ok t] by simp
  then show ?thesis using assms(1) Checking_Port at_phase_ok [of t "Resolving_Source x" m i for x]
    by (auto simp: start_resumes_def split: start_answer.splits option.splits bool.splits if_splits intro: give_up_ok [OF r])
next
  case (Resolving_Source pid)
  then have r: "running_ok t 1 m" using slots_running [OF ok t] by simp
  then show ?thesis using assms(1) Resolving_Source at_phase_ok [of t "Launching pid x" m i for x]
    by (auto simp: start_resumes_def split: start_answer.splits option.splits sum.splits intro: give_up_ok [OF r])
next
  case (Launching pid s)
  then have r: "running_ok t 1 m" using slots_running [OF ok t] by simp
  then show ?thesis using assms(1) Launching start_over_ok [OF set_preview_ok [OF r]]
    by (auto simp: start_resumes_def Let_def split: start_answer.splits option.splits intro: give_up_ok [OF r])
qed

lemma preview_step_ok:
  assumes "preview_step norm ev m = Some (m', out)" and "slots_ok m"
  shows "slots_ok m'"
proof (cases ev)
  case (Start_Call t i)
  then have "map_of (pm_starts m) t = None" "start_called norm t i m = (m', out)"
    using assms(1) by (cases "map_of (pm_starts m) t"; simp)+
  then show ?thesis using start_called_ok [OF assms(2), of t norm i] by simp
next
  case (Start_Answered t a)
  then show ?thesis using assms start_resumes_ok by (auto split: option.splits)
next
  case (Stop_Call t ws i)
  then show ?thesis using assms
    by (auto simp: stop_called_def slots_ok_def slots_used_def split: if_splits sum.splits)
next
  case (Stop_Answered t a)
  have "slots_ok (m\<lparr>pm_stops := x\<rparr>)" for x using assms(2) by (simp add: slots_ok_def slots_used_def)
  then show ?thesis using Stop_Answered assms
    by (auto simp: stop_resumes_def Let_def delete_preview_ok split: option.splits if_splits)
next
  case (Release ws)
  then show ?thesis using assms by (auto simp: release_previews_def fewer_previews_ok)
qed

lemma preview_run_ok: "preview_run norm evs m = Some m' \<Longrightarrow> slots_ok m \<Longrightarrow> slots_ok m'"
  by (induction evs arbitrary: m) (auto split: option.splits intro: preview_step_ok)

text \<open>No two previews share an identifier.\<close>

definition ids_distinct :: "preview_manager \<Rightarrow> bool" where
  "ids_distinct m = distinct (map (\<lambda>e. pr_id (snd e)) (pm_previews m))"

lemma ids_distinct_ignore [simp]:
  "ids_distinct (m\<lparr>pm_starts := x\<rparr>) = ids_distinct m" "ids_distinct (m\<lparr>pm_stops := y\<rparr>) = ids_distinct m"
  "ids_distinct (m\<lparr>pm_pending := n\<rparr>) = ids_distinct m"
  by (simp_all add: ids_distinct_def)

lemma ids_distinct_filter: "ids_distinct m \<Longrightarrow> ids_distinct (m\<lparr>pm_previews := filter P (pm_previews m)\<rparr>)"
  by (simp add: ids_distinct_def distinct_map_filter)

lemma ids_distinct_delete: "ids_distinct m \<Longrightarrow> ids_distinct (delete_preview i m)"
  by (simp add: delete_preview_def ids_distinct_filter)

lemma ids_distinct_set: "ids_distinct m \<Longrightarrow> ids_distinct (set_preview r m)"
proof (cases "preview_with (pr_id r) m")
  case None
  then have "pr_id r \<notin> (\<lambda>e. pr_id (snd e)) ` set (pm_previews m)"
    by (auto simp: preview_with_def find_None_iff) metis
  moreover assume "ids_distinct m"
  ultimately show ?thesis by (simp add: set_preview_def None ids_distinct_def)
next
  case (Some e)
  have "map (\<lambda>e. pr_id (snd e)) (map (\<lambda>e. if pr_id (snd e) = pr_id r then (fst e, r) else e) ps)
      = map (\<lambda>e. pr_id (snd e)) ps" for ps :: "(nat \<times> preview_record) list"
    by simp
  moreover assume "ids_distinct m"
  ultimately show ?thesis using Some by (simp add: set_preview_def ids_distinct_def del: map_map)
qed

lemmas quiet_steps = at_phase_def start_over_def give_up_def reserve_def

lemma prune_from_ids: "prune_from c t i m = (m', out) \<Longrightarrow> ids_distinct m \<Longrightarrow> ids_distinct m'"
  by (auto simp: prune_from_def quiet_steps split: option.splits if_splits)

lemma start_called_ids: "start_called norm t i m = (m', out) \<Longrightarrow> ids_distinct m \<Longrightarrow> ids_distinct m'"
  by (auto simp: start_called_def quiet_steps intro: prune_from_ids split: sum.splits if_splits)

lemma start_resumes_ids:
  "start_resumes t i ph a m = Some (m', out) \<Longrightarrow> ids_distinct m \<Longrightarrow> ids_distinct m'"
  by (auto simp: start_resumes_def ids_distinct_delete ids_distinct_set quiet_steps Let_def
      intro: prune_from_ids split: start_phase.splits start_answer.splits option.splits bool.splits sum.splits if_splits)

lemma preview_step_ids:
  assumes "preview_step norm ev m = Some (m', out)" and "ids_distinct m"
  shows "ids_distinct m'"
proof (cases ev)
  case (Start_Call t i)
  then have "start_called norm t i m = (m', out)" using assms(1) by (cases "map_of (pm_starts m) t") auto
  then show ?thesis using assms(2) by (rule start_called_ids)
next
  case (Start_Answered t a)
  with assms show ?thesis by (auto intro: start_resumes_ids split: option.splits)
next
  case (Stop_Answered t a)
  with assms show ?thesis
    by (auto simp: stop_resumes_def Let_def ids_distinct_delete split: option.splits if_splits)
qed (use assms in \<open>auto simp: stop_called_def release_previews_def ids_distinct_filter split: if_splits sum.splits\<close>)

lemma preview_run_ids: "preview_run norm evs m = Some m' \<Longrightarrow> ids_distinct m \<Longrightarrow> ids_distinct m'"
  by (induction evs arbitrary: m) (auto split: option.splits intro: preview_step_ids)

section \<open>Waiting for a preview to answer\<close>

record 'k preview_adapters =
  pa_status :: "jsstring \<Rightarrow> jsstring \<Rightarrow> 'k \<Rightarrow> process_operation option \<times> 'k"
  pa_inspect :: "int \<Rightarrow> jsstring \<Rightarrow> 'k \<Rightarrow> preview_probe option \<times> 'k"
  pa_sleep :: "int \<Rightarrow> 'k \<Rightarrow> 'k"

function wait_loop :: "'k preview_adapters \<Rightarrow> preview_record \<Rightarrow> process_operation \<Rightarrow> preview_probe \<Rightarrow>
    int \<Rightarrow> int \<Rightarrow> 'k \<Rightarrow> preview_status option \<times> 'k" where
  "wait_loop w r op p waited ms k =
     (if waited < ms then
        (let delay = min 100 (ms - waited) in
         case pa_status w (pr_workspace r) (pr_operation r) (pa_sleep w delay k) of
           (None, k2) \<Rightarrow> (None, k2)
         | (Some op', k2) \<Rightarrow>
             if po_state op' \<noteq> Running then (Some (result_from r op' unreachable_probe), k2)
             else (case pa_inspect w (pr_port r) (pr_path r) k2 of
                 (None, k3) \<Rightarrow> (None, k3)
               | (Some p', k3) \<Rightarrow>
                   if pp_reachable p' then (Some (result_from r op' p'), k3)
                   else wait_loop w r op' p' (waited + delay) ms k3))
      else (Some (result_from r op p), k))"
  by pat_completeness auto
termination
  by (relation "measure (\<lambda>(w, r, op, p, waited, ms, k). nat (ms - waited))") auto

declare wait_loop.simps [simp del]

definition wait_for_readiness :: "'k preview_adapters \<Rightarrow> preview_record \<Rightarrow> process_operation \<Rightarrow> int \<Rightarrow>
    'k \<Rightarrow> preview_status option \<times> 'k" where
  "wait_for_readiness w r op ms k =
     (if po_state op \<noteq> Running then (Some (result_from r op unreachable_probe), k)
      else (case pa_inspect w (pr_port r) (pr_path r) k of
          (None, k1) \<Rightarrow> (None, k1)
        | (Some p, k1) \<Rightarrow>
            if pp_reachable p \<or> ms = 0 then (Some (result_from r op p), k1)
            else wait_loop w r op p 0 ms k1))"

definition inspect_preview :: "'k preview_adapters \<Rightarrow> jsstring \<Rightarrow> jsstring \<Rightarrow> preview_manager \<Rightarrow> 'k \<Rightarrow>
    (preview_error + preview_status) \<times> 'k" where
  "inspect_preview w ws i m k = (case lookup_preview ws i m of
     Inl e \<Rightarrow> (Inl e, k)
   | Inr r \<Rightarrow> (case pa_status w (pr_workspace r) (pr_operation r) k of
       (None, k1) \<Rightarrow> (Inl Preview_Adapter_Failed, k1)
     | (Some op, k1) \<Rightarrow>
         if po_state op \<noteq> Running then (Inr (result_from r op unreachable_probe), k1)
         else (case pa_inspect w (pr_port r) (pr_path r) k1 of
             (None, k2) \<Rightarrow> (Inl Preview_Adapter_Failed, k2)
           | (Some p, k2) \<Rightarrow> (Inr (result_from r op p), k2))))"

text \<open>The adapters with a log of how long was slept and how often the preview was probed.\<close>

record wait_log =
  slept :: int
  naps :: nat
  probes :: nat

definition logged_adapters :: "'k preview_adapters \<Rightarrow> ('k \<times> wait_log) preview_adapters" where
  "logged_adapters w = \<lparr>
     pa_status = (\<lambda>ws op (k, lg). apsnd (\<lambda>k'. (k', lg)) (pa_status w ws op k)),
     pa_inspect = (\<lambda>port path (k, lg). apsnd (\<lambda>k'. (k', lg\<lparr>probes := Suc (probes lg)\<rparr>)) (pa_inspect w port path k)),
     pa_sleep = (\<lambda>ms (k, lg). (pa_sleep w ms k, lg\<lparr>slept := slept lg + ms, naps := Suc (naps lg)\<rparr>))\<rparr>"

lemma logged_adapters_simps [simp]:
  "pa_status (logged_adapters w) ws op (k, lg) = apsnd (\<lambda>k'. (k', lg)) (pa_status w ws op k)"
  "pa_inspect (logged_adapters w) port path (k, lg)
     = apsnd (\<lambda>k'. (k', lg\<lparr>probes := Suc (probes lg)\<rparr>)) (pa_inspect w port path k)"
  "pa_sleep (logged_adapters w) ms (k, lg) = (pa_sleep w ms k, lg\<lparr>slept := slept lg + ms, naps := Suc (naps lg)\<rparr>)"
  by (simp_all add: logged_adapters_def)

text \<open>A result that is honest: reachable only while running, and given up only when time is over.\<close>

definition honest :: "int \<Rightarrow> int \<Rightarrow> preview_status \<Rightarrow> bool" where
  "honest waited ms s = ((pp_reachable (pst_probe s) \<longrightarrow> pst_state s = Running)
     \<and> (pst_state s = Running \<and> \<not> pp_reachable (pst_probe s) \<longrightarrow> waited = ms))"

lemma wait_loop_log:
  assumes "wait_loop (logged_adapters w) r op p waited ms (k, lg) = (res, (k', lg'))"
    and "waited \<le> ms" and "po_state op = Running" and "\<not> pp_reachable p"
  shows "waited + slept lg' \<le> ms + slept lg
    \<and> int (naps lg') \<le> int (naps lg) + (ms - waited + 99) div 100
    \<and> int (probes lg') \<le> int (probes lg) + (ms - waited + 99) div 100
    \<and> (\<forall>s. res = Some s \<longrightarrow> honest (waited + (slept lg' - slept lg)) ms s)"
  using assms
proof (induction "nat (ms - waited)" arbitrary: op p waited k lg rule: less_induct)
  case less
  show ?case
  proof (cases "waited < ms")
    case False
    then show ?thesis using less.prems
      by (auto simp: wait_loop.simps [of "logged_adapters w"] honest_def result_from_def)
  next
    case True
    define delay where "delay = min 100 (ms - waited)"
    let ?lg1 = "lg\<lparr>slept := slept lg + delay, naps := Suc (naps lg)\<rparr>"
    have d: "0 < delay" "waited + delay \<le> ms" "delay \<le> 100" using True by (auto simp: delay_def)
    have rounds: "(ms - (waited + delay) + 99) div 100 + 1 \<le> (ms - waited + 99) div 100"
      using True by (cases "100 \<le> ms - waited"; simp add: delay_def min_def; presburger)
    obtain a k2 where st: "pa_status w (pr_workspace r) (pr_operation r) (pa_sleep w delay k) = (a, k2)"
      by (rule prod.exhaust)
    obtain b k3 where ins: "pa_inspect w (pr_port r) (pr_path r) k2 = (b, k3)" by (rule prod.exhaust)
    have step: "wait_loop (logged_adapters w) r op p waited ms (k, lg) = (case a of
          None \<Rightarrow> (None, (k2, ?lg1))
        | Some op' \<Rightarrow>
            if po_state op' \<noteq> Running then (Some (result_from r op' unreachable_probe), (k2, ?lg1))
            else (case b of
                None \<Rightarrow> (None, (k3, ?lg1\<lparr>probes := Suc (probes lg)\<rparr>))
              | Some p' \<Rightarrow>
                  if pp_reachable p' then (Some (result_from r op' p'), (k3, ?lg1\<lparr>probes := Suc (probes lg)\<rparr>))
                  else wait_loop (logged_adapters w) r op' p' (waited + delay) ms (k3, ?lg1\<lparr>probes := Suc (probes lg)\<rparr>)))"
      using True st ins
      by (subst wait_loop.simps) (simp add: Let_def flip: delay_def split: option.splits)
    show ?thesis
    proof (cases "\<exists>op' p'. a = Some op' \<and> po_state op' = Running \<and> b = Some p' \<and> \<not> pp_reachable p'")
      case True
      then obtain op' p' where go: "a = Some op'" "po_state op' = Running" "b = Some p'" "\<not> pp_reachable p'" by blast
      have "wait_loop (logged_adapters w) r op' p' (waited + delay) ms (k3, ?lg1\<lparr>probes := Suc (probes lg)\<rparr>) = (res, (k', lg'))"
        using less.prems(1) step go by simp
      from less.hyps [OF _ this d(2) go(2,4)] \<open>waited < ms\<close> d(1)
      show ?thesis using rounds by (auto simp: add.assoc)
    next
      case False
      then have "lg' = ?lg1 \<or> lg' = ?lg1\<lparr>probes := Suc (probes lg)\<rparr>"
          "\<forall>s. res = Some s \<longrightarrow> pp_reachable (pst_probe s) \<and> pst_state s = Running
            \<or> \<not> pp_reachable (pst_probe s) \<and> pst_state s \<noteq> Running"
        using less.prems(1) unfolding step
        by (auto simp: result_from_def unreachable_probe_def split: option.splits if_splits)
      moreover have "0 \<le> (ms - (waited + delay) + 99) div 100" using d by auto
      ultimately show ?thesis using d rounds by (auto simp: honest_def)
    qed
  qed
qed

section \<open>Properties\<close>

text \<open>
  C21. However the calls of \<open>start\<close>, \<open>stop\<close> and \<open>releaseWorkspace\<close> interleave at their awaits and
  whatever the adapters answer, failures included, there are never more than 32 previews and
  reserved slots together, the counter of reserved slots is exactly the number of starts that hold
  one (no error path leaks a slot or gives one back twice), and no two previews share an identifier.
\<close>

theorem previews_within_limit:
  assumes "preview_run normalized evs new_preview_manager = Some m"
  shows "slots_used m \<le> 32 \<and> length (pm_previews m) \<le> 32
    \<and> pm_pending m = int (length (filter (\<lambda>x. holds_slot (snd (snd x))) (pm_starts m)))
    \<and> distinct (map (\<lambda>e. pr_id (snd e)) (pm_previews m))"
proof -
  have "slots_ok new_preview_manager" "ids_distinct new_preview_manager"
    by (simp_all add: slots_ok_def slots_used_def ids_distinct_def new_preview_manager_def held_def max_preview_sessions_def)
  with preview_run_ok [OF assms] preview_run_ids [OF assms]
  have "slots_ok m" "ids_distinct m" by blast+
  then show ?thesis
    by (auto simp: slots_ok_def slots_used_def ids_distinct_def held_def max_preview_sessions_def)
qed

definition sample_input :: preview_input where
  "sample_input = \<lparr>pi_workspace = js ''w'', pi_executable = js ''node'', pi_port = 3000,
     pi_request_path = None, pi_wait_ms = Some 250\<rparr>"

theorem previews_within_limit_witness:
  "\<exists>m. preview_run Some [Start_Call 0 sample_input, Start_Call 1 sample_input,
       Start_Answered 1 (Port_Answer (Some True) [])] new_preview_manager = Some m
     \<and> pm_pending m = 1 \<and> slots_used m \<le> 32"
proof -
  have valid: "validate_start_input Some sample_input = Inr ()"
    by (simp add: validate_start_input_def sample_input_def Let_def js_def starts_with_def is_control_def
        max_preview_wait_ms_def byte_length_ascii)
  obtain m where m: "preview_run Some [Start_Call 0 sample_input, Start_Call 1 sample_input,
       Start_Answered 1 (Port_Answer (Some True) [])] new_preview_manager = Some m" "pm_pending m = 1"
    by (simp add: start_called_def valid reserve_def slots_used_def new_preview_manager_def
        max_preview_sessions_def at_phase_def start_over_def start_resumes_def give_up_def)
  from previews_within_limit [OF m(1)] m show ?thesis by blast
qed

text \<open>
  C33. Waiting for a preview to answer ends: whatever the process adapter and the probe report, at
  most the requested time is slept, in at most one nap and one probe per started 100 ms besides the
  first probe; and the answer is honest: reachable only for a running process, and unreachable while
  it runs only after exactly the requested time.
\<close>

theorem waiting_ends_in_time:
  assumes "wait_for_readiness (logged_adapters w) r op ms (k, \<lparr>slept = 0, naps = 0, probes = 0\<rparr>) = (res, (k', lg))"
    and "0 \<le> ms"
  shows "slept lg \<le> ms \<and> int (naps lg) \<le> (ms + 99) div 100 \<and> int (probes lg) \<le> 1 + (ms + 99) div 100
    \<and> (\<forall>s. res = Some s \<longrightarrow> honest (slept lg) ms s)"
proof (cases "po_state op = Running")
  case False
  then show ?thesis using assms
    by (auto simp: wait_for_readiness_def honest_def result_from_def unreachable_probe_def)
next
  case True
  obtain a k1 where ins: "pa_inspect w (pr_port r) (pr_path r) k = (a, k1)" by (rule prod.exhaust)
  let ?lg = "\<lparr>slept = 0, naps = 0, probes = 1\<rparr>"
  show ?thesis
  proof (cases "\<exists>p. a = Some p \<and> \<not> pp_reachable p \<and> ms \<noteq> 0")
    case False
    then show ?thesis using True ins assms
      by (auto simp: wait_for_readiness_def honest_def result_from_def split: option.splits if_splits)
  next
    case waits: True
    then obtain p where p: "a = Some p" "\<not> pp_reachable p" "ms \<noteq> 0" by blast
    have "wait_loop (logged_adapters w) r op p 0 ms (k1, ?lg) = (res, (k', lg))"
      using assms(1) True ins p by (simp add: wait_for_readiness_def)
    from wait_loop_log [OF this assms(2) True p(2)] show ?thesis by simp
  qed
qed

text \<open>A server that never answers: 250 ms are three naps and four probes.\<close>

theorem waiting_ends_in_time_witness:
  "\<exists>w r op s k' lg. wait_for_readiness (logged_adapters w) r op 250 ((), \<lparr>slept = 0, naps = 0, probes = 0\<rparr>)
       = (Some s, (k', lg)) \<and> lg = \<lparr>slept = 250, naps = 3, probes = 4\<rparr> \<and> honest (slept lg) 250 s"
proof -
  let ?op = "\<lparr>po_operation_id = [], po_state = Running, po_exit_code = None, po_output = undefined\<rparr>"
  let ?w = "\<lparr>pa_status = (\<lambda>ws i k. (Some ?op, k)), pa_inspect = (\<lambda>port path k. (Some unreachable_probe, k)),
    pa_sleep = (\<lambda>ms k. k)\<rparr> :: unit preview_adapters"
  obtain s k' lg where e: "wait_for_readiness (logged_adapters ?w) undefined ?op 250 ((), \<lparr>slept = 0, naps = 0, probes = 0\<rparr>)
      = (Some s, (k', lg))" and lg: "lg = \<lparr>slept = 250, naps = 3, probes = 4\<rparr>"
    by (simp add: wait_for_readiness_def wait_loop.simps unreachable_probe_def)
  from waiting_ends_in_time [OF e] have "honest (slept lg) 250 s" by simp
  with e lg show ?thesis by blast
qed

end
