(* ===== verification/Visual_Png.thy ===== *)
theory Visual_Png
  imports Js_String
begin

text \<open>
  \<open>packages/core/src/visual-png.ts\<close>: the decoder for the screenshots of visual verification, and
  the comparison of two of them. Decompression is an argument; everything else of the PNG format
  that the source reads is modelled byte by byte.
\<close>

section \<open>Data\<close>

datatype visual_error = Visual_Artifact_Too_Large | Visual_Png_Invalid

record png_header =
  ph_width :: nat
  ph_height :: nat
  ph_color_type :: nat
  ph_bpp :: nat

record visual_png =
  vp_width :: nat
  vp_height :: nat
  vp_rgba :: bytes

definition visual_artifact_max_bytes :: nat where "visual_artifact_max_bytes = 5 * 1024 * 1024"

definition visual_max_pixels :: nat where "visual_max_pixels = 3840 * 2160"

definition png_signature :: bytes where "png_signature = [137, 80, 78, 71, 13, 10, 26, 10]"

text \<open>\<open>getUint32\<close>, most significant byte first.\<close>

definition uint32 :: "bytes \<Rightarrow> nat" where
  "uint32 bs = ((bs ! 0 * 256 + bs ! 1) * 256 + bs ! 2) * 256 + bs ! 3"

section \<open>Header and scanlines\<close>

definition parse_header :: "bytes \<Rightarrow> visual_error + png_header" where
  "parse_header data =
     (if length data \<noteq> 13 then Inl Visual_Png_Invalid
      else
        let width = uint32 data; height = uint32 (drop 4 data); color_type = data ! 9 in
        if width = 0 \<or> height = 0 then Inl Visual_Png_Invalid
        else if visual_max_pixels < width * height then Inl Visual_Artifact_Too_Large
        else if data ! 8 \<noteq> 8 \<or> (color_type \<noteq> 2 \<and> color_type \<noteq> 6) \<or> data ! 10 \<noteq> 0 \<or> data ! 11 \<noteq> 0
          \<or> data ! 12 \<noteq> 0 then Inl Visual_Png_Invalid
        else Inr \<lparr>ph_width = width, ph_height = height, ph_color_type = color_type,
          ph_bpp = (if color_type = 2 then 3 else 4)\<rparr>)"

definition paeth_predictor :: "nat \<Rightarrow> nat \<Rightarrow> nat \<Rightarrow> nat" where
  "paeth_predictor left up upper_left =
     (let p = int left + int up - int upper_left;
          dl = \<bar>p - int left\<bar>; du = \<bar>p - int up\<bar>; dul = \<bar>p - int upper_left\<bar> in
      if dl \<le> du \<and> dl \<le> dul then left else if du \<le> dul then up else upper_left)"

definition predictor :: "nat \<Rightarrow> nat \<Rightarrow> nat \<Rightarrow> nat \<Rightarrow> nat" where
  "predictor f left up upper_left =
     (if f = 1 then left else if f = 2 then up else if f = 3 then (left + up) div 2
      else if f = 4 then paeth_predictor left up upper_left else 0)"

text \<open>
  The predictor at a column of a row, given the bytes of the row before that column and the row
  above it (none above the first).
\<close>

definition predict_at :: "nat \<Rightarrow> nat \<Rightarrow> bytes option \<Rightarrow> bytes \<Rightarrow> nat" where
  "predict_at bpp f prior row =
     (let c = length row;
          left = (if bpp \<le> c then row ! (c - bpp) else 0);
          up = (case prior of Some a \<Rightarrow> a ! c | None \<Rightarrow> 0);
          upper_left = (case prior of Some a \<Rightarrow> if bpp \<le> c then a ! (c - bpp) else 0 | None \<Rightarrow> 0) in
      predictor f left up upper_left)"

fun reconstruct_row :: "nat \<Rightarrow> nat \<Rightarrow> bytes option \<Rightarrow> bytes \<Rightarrow> bytes \<Rightarrow> bytes" where
  "reconstruct_row bpp f prior [] row = row"
| "reconstruct_row bpp f prior (e # es) row =
     reconstruct_row bpp f prior es (row @ [(e + predict_at bpp f prior row) mod 256])"

text \<open>\<open>n\<close> rows of \<open>row_bytes\<close> bytes, each after its filter byte.\<close>

fun reconstruct_rows :: "nat \<Rightarrow> nat \<Rightarrow> nat \<Rightarrow> bytes option \<Rightarrow> bytes \<Rightarrow> visual_error + bytes" where
  "reconstruct_rows bpp row_bytes 0 prior bs = Inr []"
| "reconstruct_rows bpp row_bytes (Suc n) prior [] = Inl Visual_Png_Invalid"
| "reconstruct_rows bpp row_bytes (Suc n) prior (f # bs) =
     (if 4 < f then Inl Visual_Png_Invalid
      else if length bs < row_bytes then Inl Visual_Png_Invalid
      else
        let row = reconstruct_row bpp f prior (take row_bytes bs) [] in
        case reconstruct_rows bpp row_bytes n (Some row) (drop row_bytes bs) of
          Inl e \<Rightarrow> Inl e
        | Inr rest \<Rightarrow> Inr (row @ rest))"

fun opaque :: "bytes \<Rightarrow> bytes" where
  "opaque (r # g # b # raw) = r # g # b # 255 # opaque raw"
| "opaque _ = []"

definition to_rgba :: "png_header \<Rightarrow> bytes \<Rightarrow> bytes" where
  "to_rgba h raw = (if ph_color_type h = 6 then raw else opaque raw)"

section \<open>Chunks\<close>

record chunk_state =
  k_header :: "png_header option"
  k_saw_idat :: bool
  k_saw_iend :: bool
  k_parts :: "bytes list"
  k_idat_bytes :: nat

definition no_chunks :: chunk_state where
  "no_chunks = \<lparr>k_header = None, k_saw_idat = False, k_saw_iend = False, k_parts = [], k_idat_bytes = 0\<rparr>"

text \<open>One chunk of type \<open>ty\<close> at \<open>offset\<close>.\<close>

definition read_chunk :: "nat \<Rightarrow> jsstring \<Rightarrow> bytes \<Rightarrow> chunk_state \<Rightarrow> visual_error + chunk_state" where
  "read_chunk offset ty data k =
     (if k_header k = None \<and> ty \<noteq> js ''IHDR'' then Inl Visual_Png_Invalid
      else if ty = js ''IHDR'' then
        if k_header k \<noteq> None \<or> offset \<noteq> length png_signature then Inl Visual_Png_Invalid
        else (case parse_header data of Inl e \<Rightarrow> Inl e | Inr h \<Rightarrow> Inr (k\<lparr>k_header := Some h\<rparr>))
      else if ty = js ''IDAT'' then
        let n = k_idat_bytes k + length data in
        if visual_artifact_max_bytes < n then Inl Visual_Artifact_Too_Large
        else Inr (k\<lparr>k_saw_idat := True, k_idat_bytes := n, k_parts := k_parts k @ [data]\<rparr>)
      else if ty = js ''IEND'' then
        if data \<noteq> [] \<or> \<not> k_saw_idat k then Inl Visual_Png_Invalid
        else Inr (k\<lparr>k_saw_iend := True\<rparr>)
      else Inr k)"

text \<open>\<open>toString("ascii")\<close> clears the high bit.\<close>

function read_chunks :: "nat \<Rightarrow> bytes \<Rightarrow> chunk_state \<Rightarrow> visual_error + chunk_state" where
  "read_chunks offset bs k =
     (if bs = [] then Inr k
      else if k_saw_iend k \<or> length bs < 12 then Inl Visual_Png_Invalid
      else
        let n = uint32 bs in
        if length bs < 12 + n then Inl Visual_Png_Invalid
        else (case read_chunk offset (map (\<lambda>b. b mod 128) (take 4 (drop 4 bs))) (take n (drop 8 bs)) k of
            Inl e \<Rightarrow> Inl e
          | Inr k' \<Rightarrow> read_chunks (offset + 12 + n) (drop (12 + n) bs) k'))"
  by pat_completeness auto
termination
  by (relation "measure (\<lambda>(offset, bs, k). length bs)") auto

declare read_chunks.simps [simp del]

definition decode_visual_png :: "(bytes \<Rightarrow> nat \<Rightarrow> bytes option) \<Rightarrow> bytes \<Rightarrow> visual_error + visual_png" where
  "decode_visual_png inflate bs =
     (if visual_artifact_max_bytes < length bs then Inl Visual_Artifact_Too_Large
      else if take 8 bs \<noteq> png_signature then Inl Visual_Png_Invalid
      else (case read_chunks 8 (drop 8 bs) no_chunks of
          Inl e \<Rightarrow> Inl e
        | Inr k \<Rightarrow> (case k_header k of
            None \<Rightarrow> Inl Visual_Png_Invalid
          | Some h \<Rightarrow>
              if \<not> k_saw_idat k \<or> \<not> k_saw_iend k then Inl Visual_Png_Invalid
              else
                let row_bytes = ph_width h * ph_bpp h; expected = (row_bytes + 1) * ph_height h in
                (case inflate (concat (k_parts k)) expected of
                   None \<Rightarrow> Inl Visual_Png_Invalid
                 | Some inflated \<Rightarrow>
                     if length inflated \<noteq> expected then Inl Visual_Png_Invalid
                     else (case reconstruct_rows (ph_bpp h) row_bytes (ph_height h) None inflated of
                         Inl e \<Rightarrow> Inl e
                       | Inr raw \<Rightarrow> Inr \<lparr>vp_width = ph_width h, vp_height = ph_height h,
                           vp_rgba = to_rgba h raw\<rparr>)))))"

section \<open>Comparison\<close>

definition pixel_offset :: "visual_png \<Rightarrow> nat \<Rightarrow> nat \<Rightarrow> nat option" where
  "pixel_offset v x y = (if vp_width v \<le> x \<or> vp_height v \<le> y then None else Some ((y * vp_width v + x) * 4))"

definition pixel_changed :: "visual_png \<Rightarrow> visual_png \<Rightarrow> nat \<Rightarrow> nat \<Rightarrow> bool" where
  "pixel_changed c r x y = (case (pixel_offset c x y, pixel_offset r x y) of
     (Some i, Some j) \<Rightarrow> vp_rgba c ! i \<noteq> vp_rgba r ! j \<or> vp_rgba c ! (i + 1) \<noteq> vp_rgba r ! (j + 1)
       \<or> vp_rgba c ! (i + 2) \<noteq> vp_rgba r ! (j + 2) \<or> vp_rgba c ! (i + 3) \<noteq> vp_rgba r ! (j + 3)
   | _ \<Rightarrow> True)"

record pixel_comparison =
  px_current :: "nat \<times> nat"
  px_reference :: "nat \<times> nat"
  px_match :: bool
  px_changed :: nat
  px_total :: nat

definition compare_visual_pixels :: "visual_png \<Rightarrow> visual_png \<Rightarrow> visual_error + pixel_comparison" where
  "compare_visual_pixels c r =
     (let width = max (vp_width c) (vp_width r); height = max (vp_height c) (vp_height r) in
      if visual_max_pixels < width * height then Inl Visual_Artifact_Too_Large
      else Inr \<lparr>px_current = (vp_width c, vp_height c), px_reference = (vp_width r, vp_height r),
        px_match = (vp_width c = vp_width r \<and> vp_height c = vp_height r),
        px_changed = length (filter (\<lambda>(x, y). pixel_changed c r x y) (List.product [0..<width] [0..<height])),
        px_total = width * height\<rparr>)"

section \<open>What an encoder writes\<close>

text \<open>
  The filters of the PNG specification, written after its text: the predicted byte is made from the
  bytes to the left, above and to the upper left, which are zero outside the image; Paeth takes the
  first of them that is nearest to their linear estimate.
\<close>

definition spec_paeth :: "nat \<Rightarrow> nat \<Rightarrow> nat \<Rightarrow> nat" where
  "spec_paeth a b c =
     (let dist = (\<lambda>v. \<bar>int a + int b - int c - int v\<bar>);
          nearest = min (dist a) (min (dist b) (dist c)) in
      hd (filter (\<lambda>v. dist v = nearest) [a, b, c]))"

definition spec_byte :: "nat \<Rightarrow> nat \<Rightarrow> bytes \<Rightarrow> bytes \<Rightarrow> nat \<Rightarrow> nat" where
  "spec_byte bpp f prior raw c =
     (let a = (if c < bpp then 0 else raw ! (c - bpp)); b = prior ! c;
          d = (if c < bpp then 0 else prior ! (c - bpp)) in
      nat ((int (raw ! c) - int ([0, a, b, (a + b) div 2, spec_paeth a b d] ! f)) mod 256))"

definition spec_row :: "nat \<Rightarrow> nat \<Rightarrow> bytes \<Rightarrow> bytes \<Rightarrow> bytes" where
  "spec_row bpp f prior raw = map (spec_byte bpp f prior raw) [0..<length raw]"

text \<open>A filter chosen for each row.\<close>

fun filter_rows :: "nat \<Rightarrow> bytes \<Rightarrow> (nat \<times> bytes) list \<Rightarrow> bytes" where
  "filter_rows bpp prior [] = []"
| "filter_rows bpp prior ((f, row) # rs) = f # spec_row bpp f prior row @ filter_rows bpp row rs"

lemma paeth_spec: "paeth_predictor a b c = spec_paeth a b c"
  by (auto simp: paeth_predictor_def spec_paeth_def Let_def min_def algebra_simps)

text \<open>The row above as the decoder and as the specification see it.\<close>

definition same_prior :: "nat \<Rightarrow> bytes option \<Rightarrow> bytes \<Rightarrow> bool" where
  "same_prior n over prior = (\<forall>c < n. prior ! c = (case over of Some a \<Rightarrow> a ! c | None \<Rightarrow> 0))"

lemma predict_spec:
  assumes "f \<le> 4" and "k < length raw" and "0 < bpp" and "same_prior (length raw) over prior"
  shows "[0, if k < bpp then 0 else raw ! (k - bpp), prior ! k,
      ((if k < bpp then 0 else raw ! (k - bpp)) + prior ! k) div 2,
      spec_paeth (if k < bpp then 0 else raw ! (k - bpp)) (prior ! k) (if k < bpp then 0 else prior ! (k - bpp))] ! f
    = predict_at bpp f over (take k raw)"
proof -
  have f: "f = 0 \<or> f = 1 \<or> f = 2 \<or> f = 3 \<or> f = 4" using assms(1) by auto
  have "prior ! k = (case over of Some a \<Rightarrow> a ! k | None \<Rightarrow> 0)"
    "prior ! (k - bpp) = (case over of Some a \<Rightarrow> a ! (k - bpp) | None \<Rightarrow> 0)"
    using assms(2,4) by (simp_all add: same_prior_def)
  moreover have "min (length raw) k = k" using assms(2) by simp
  moreover have "take k raw ! (k - bpp) = raw ! (k - bpp)" if "\<not> k < bpp" using assms(3) that by simp
  ultimately show ?thesis
    using f by (cases over; cases "k < bpp") (auto simp: predict_at_def predictor_def Let_def paeth_spec)
qed

lemma unfilter_byte: "x < 256 \<Longrightarrow> (nat ((int x - int p) mod 256) + p) mod 256 = x"
proof -
  assume "x < 256"
  have "int ((nat ((int x - int p) mod 256) + p) mod 256) = ((int x - int p) mod 256 + int p) mod 256"
    by (simp add: zmod_int)
  also have "\<dots> = int x mod 256" by (simp add: mod_simps)
  also have "\<dots> = int x" using \<open>x < 256\<close> by simp
  finally show ?thesis by simp
qed

lemma reconstruct_spec_row:
  assumes "list_all (\<lambda>b. b < 256) raw" and "f \<le> 4" and "0 < bpp" and "same_prior (length raw) over prior"
  shows "k \<le> length raw \<Longrightarrow>
    reconstruct_row bpp f over (map (spec_byte bpp f prior raw) [k..<length raw]) (take k raw) = raw"
proof (induction "length raw - k" arbitrary: k)
  case 0
  then show ?case by simp
next
  case (Suc m)
  then have k: "k < length raw" by simp
  have "raw ! k < 256" using assms(1) k by (simp add: list_all_length)
  then have "(spec_byte bpp f prior raw k + predict_at bpp f over (take k raw)) mod 256 = raw ! k"
    unfolding spec_byte_def Let_def predict_spec [OF assms(2) k assms(3,4)] by (rule unfilter_byte)
  moreover have "[k..<length raw] = k # [Suc k..<length raw]" using k by (rule upt_conv_Cons)
  ultimately show ?case using Suc k by (simp flip: take_Suc_conv_app_nth)
qed

lemma reconstruct_filter_rows:
  "list_all (\<lambda>(f, row). f \<le> 4 \<and> length row = n \<and> list_all (\<lambda>b. b < 256) row) rs \<Longrightarrow> 0 < bpp \<Longrightarrow>
     same_prior n over prior \<Longrightarrow>
     reconstruct_rows bpp n (length rs) over (filter_rows bpp prior rs) = Inr (concat (map snd rs))"
proof (induction rs arbitrary: over prior)
  case Nil
  then show ?case by simp
next
  case (Cons x rs)
  obtain f row where x: "x = (f, row)" by (rule prod.exhaust)
  have "reconstruct_row bpp f over (spec_row bpp f prior row) [] = row"
    using reconstruct_spec_row [of row f bpp over prior 0] Cons.prems by (simp add: x spec_row_def)
  moreover have "same_prior n (Some row) row" by (simp add: same_prior_def)
  ultimately show ?case using Cons by (simp add: x spec_row_def)
qed

lemma length_filter_rows:
  "list_all (\<lambda>(f, row). length row = n) rs \<Longrightarrow> length (filter_rows bpp prior rs) = (n + 1) * length rs"
  by (induction bpp prior rs rule: filter_rows.induct) (auto simp: spec_row_def)

definition uint32_bytes :: "nat \<Rightarrow> bytes" where
  "uint32_bytes n = [n div 16777216, n div 65536 mod 256, n div 256 mod 256, n mod 256]"

lemma uint32_of_bytes: "uint32 (uint32_bytes n @ bs) = n"
proof -
  have "n div 65536 = n div 256 div 256" "n div 16777216 = n div 256 div 256 div 256"
    by (simp_all flip: div_mult2_eq)
  then show ?thesis
    by (simp add: uint32_def uint32_bytes_def div_mult_mod_eq del: div_mult2_eq)
qed

text \<open>A chunk is its type, its data and a checksum, which the decoder does not look at.\<close>

type_synonym png_chunk = "jsstring \<times> bytes \<times> bytes"

fun chunk_bytes :: "png_chunk \<Rightarrow> bytes" where
  "chunk_bytes (ty, data, crc) = uint32_bytes (length data) @ ty @ data @ crc"

fun chunk_ok :: "png_chunk \<Rightarrow> bool" where
  "chunk_ok (ty, data, crc) = (length ty = 4 \<and> list_all (\<lambda>b. b < 128) ty \<and> length crc = 4)"

lemma length_uint32_bytes [simp]: "length (uint32_bytes n) = 4"
  by (simp add: uint32_bytes_def)

lemma read_chunks_first:
  assumes "12 + n \<le> length bs" and "uint32 bs = n" and "\<not> k_saw_iend k"
  shows "read_chunks offset bs k = (case read_chunk offset (map (\<lambda>b. b mod 128) (take 4 (drop 4 bs)))
       (take n (drop 8 bs)) k of
     Inl e \<Rightarrow> Inl e | Inr k' \<Rightarrow> read_chunks (offset + 12 + n) (drop (12 + n) bs) k')"
  using assms by (subst read_chunks.simps) auto

lemma read_chunks_step:
  assumes "chunk_ok (ty, data, crc)" and "\<not> k_saw_iend k"
  shows "read_chunks offset (chunk_bytes (ty, data, crc) @ bs) k = (case read_chunk offset ty data k of
     Inl e \<Rightarrow> Inl e | Inr k' \<Rightarrow> read_chunks (offset + 12 + length data) bs k')"
proof -
  let ?f = "chunk_bytes (ty, data, crc) @ bs"
  have ascii: "map (\<lambda>b. b mod 128) ty = ty" using assms(1) by (intro map_idI) (auto simp: list_all_iff)
  have parts: "take 4 (drop 4 ?f) = ty" "take (length data) (drop 8 ?f) = data" "drop (12 + length data) ?f = bs"
    using assms(1) by simp_all
  have "12 + length data \<le> length ?f" using assms(1) by simp
  moreover have "uint32 ?f = length data" by (simp add: uint32_of_bytes)
  ultimately show ?thesis
    using read_chunks_first [OF _ _ assms(2), where bs = ?f and n = "length data" and offset = offset]
    by (simp only: parts ascii)
qed

text \<open>Between header and end: data chunks and chunks the decoder skips.\<close>

definition body_ok :: "png_chunk list \<Rightarrow> bool" where
  "body_ok cs = list_all (\<lambda>c. chunk_ok c \<and> fst c \<noteq> js ''IHDR'' \<and> fst c \<noteq> js ''IEND'') cs"

definition idat_data :: "png_chunk list \<Rightarrow> bytes list" where
  "idat_data cs = map (\<lambda>c. fst (snd c)) (filter (\<lambda>c. fst c = js ''IDAT'') cs)"

lemma read_chunks_body:
  assumes "body_ok cs" and "k_header k \<noteq> None" and "\<not> k_saw_iend k"
    and "k_idat_bytes k + length (concat (idat_data cs)) \<le> visual_artifact_max_bytes"
  shows "\<exists>o'. read_chunks offset (concat (map chunk_bytes cs) @ bs) k = read_chunks o' bs
     (k\<lparr>k_saw_idat := (k_saw_idat k \<or> idat_data cs \<noteq> []), k_parts := k_parts k @ idat_data cs,
        k_idat_bytes := k_idat_bytes k + length (concat (idat_data cs))\<rparr>)"
  using assms
proof (induction cs arbitrary: offset k)
  case Nil
  then show ?case by (intro exI [of _ offset]) (simp add: idat_data_def)
next
  case (Cons c cs)
  obtain ty data crc where c: "c = (ty, data, crc)" by (metis prod.exhaust)
  have ok: "chunk_ok (ty, data, crc)" "ty \<noteq> js ''IHDR''" "ty \<noteq> js ''IEND''" "body_ok cs"
    using Cons.prems(1) by (simp_all add: c body_ok_def)
  let ?k = "if ty = js ''IDAT'' then k\<lparr>k_saw_idat := True, k_idat_bytes := k_idat_bytes k + length data,
    k_parts := k_parts k @ [data]\<rparr> else k"
  have "read_chunk offset ty data k = Inr ?k"
    using ok Cons.prems(2,4) by (auto simp: read_chunk_def idat_data_def c Let_def)
  then have step: "read_chunks offset (concat (map chunk_bytes (c # cs)) @ bs) k
      = read_chunks (offset + 12 + length data) (concat (map chunk_bytes cs) @ bs) ?k"
    using read_chunks_step [OF ok(1) Cons.prems(3), of offset "concat (map chunk_bytes cs) @ bs"] by (simp add: c)
  have k: "k_header ?k \<noteq> None" "\<not> k_saw_iend ?k"
    "k_idat_bytes ?k + length (concat (idat_data cs)) \<le> visual_artifact_max_bytes"
    using Cons.prems by (auto simp: c idat_data_def)
  obtain o' where "read_chunks (offset + 12 + length data) (concat (map chunk_bytes cs) @ bs) ?k = read_chunks o' bs
     (?k\<lparr>k_saw_idat := (k_saw_idat ?k \<or> idat_data cs \<noteq> []), k_parts := k_parts ?k @ idat_data cs,
        k_idat_bytes := k_idat_bytes ?k + length (concat (idat_data cs))\<rparr>)"
    using Cons.IH [OF ok(4) k, of "offset + 12 + length data"] by blast
  then show ?case unfolding step by (intro exI [of _ o']) (simp add: c idat_data_def add.assoc)
qed

definition header_bytes_of :: "nat \<Rightarrow> nat \<Rightarrow> nat \<Rightarrow> bytes" where
  "header_bytes_of w h color = uint32_bytes w @ uint32_bytes h @ [8, color, 0, 0, 0]"

definition png_file :: "nat \<Rightarrow> nat \<Rightarrow> nat \<Rightarrow> bytes \<Rightarrow> png_chunk list \<Rightarrow> bytes \<Rightarrow> bytes" where
  "png_file w h color crc cs crc' = png_signature @ chunk_bytes (js ''IHDR'', header_bytes_of w h color, crc)
     @ concat (map chunk_bytes cs) @ chunk_bytes (js ''IEND'', [], crc')"

lemma parse_header_of:
  assumes "0 < w" and "0 < h" and "w * h \<le> visual_max_pixels" and "color = 2 \<or> color = 6"
  shows "parse_header (header_bytes_of w h color) = Inr \<lparr>ph_width = w, ph_height = h, ph_color_type = color,
     ph_bpp = (if color = 2 then 3 else 4)\<rparr>"
proof -
  have "uint32 (header_bytes_of w h color) = w" "uint32 (drop 4 (header_bytes_of w h color)) = h"
    by (simp_all add: header_bytes_of_def uint32_of_bytes)
  moreover have "length (header_bytes_of w h color) = 13" "header_bytes_of w h color ! 8 = 8"
    "header_bytes_of w h color ! 9 = color" "header_bytes_of w h color ! 10 = 0"
    "header_bytes_of w h color ! 11 = 0" "header_bytes_of w h color ! 12 = 0"
    by (simp_all add: header_bytes_of_def uint32_bytes_def)
  ultimately show ?thesis using assms by (auto simp: parse_header_def Let_def not_less)
qed

lemma idat_le_file: "length (concat (idat_data cs)) \<le> length (concat (map chunk_bytes cs))"
  by (induction cs) (auto simp: idat_data_def)

lemma read_chunks_file:
  assumes "0 < w" "0 < h" "w * h \<le> visual_max_pixels" "color = 2 \<or> color = 6" "length crc = 4" "length crc' = 4"
    and "body_ok cs" and "idat_data cs \<noteq> []"
    and "length (png_file w h color crc cs crc') \<le> visual_artifact_max_bytes"
  shows "\<exists>k. read_chunks 8 (drop 8 (png_file w h color crc cs crc')) no_chunks = Inr k
    \<and> k_header k = Some \<lparr>ph_width = w, ph_height = h, ph_color_type = color, ph_bpp = (if color = 2 then 3 else 4)\<rparr>
    \<and> k_saw_idat k \<and> k_saw_iend k \<and> k_parts k = idat_data cs"
proof -
  let ?h = "\<lparr>ph_width = w, ph_height = h, ph_color_type = color, ph_bpp = (if color = 2 then 3 else 4)\<rparr>"
  let ?k1 = "no_chunks\<lparr>k_header := Some ?h\<rparr>"
  let ?iend = "chunk_bytes (js ''IEND'', [], crc')"
  have ok: "chunk_ok (js ''IHDR'', header_bytes_of w h color, crc)" "chunk_ok (js ''IEND'', [], crc')"
    using assms(5,6) by (simp_all) (simp_all add: js_def)
  have dr: "drop 8 (png_file w h color crc cs crc') = chunk_bytes (js ''IHDR'', header_bytes_of w h color, crc)
      @ concat (map chunk_bytes cs) @ ?iend"
    by (simp add: png_file_def png_signature_def)
  have first: "read_chunk 8 (js ''IHDR'') (header_bytes_of w h color) no_chunks = Inr ?k1"
    by (simp add: read_chunk_def no_chunks_def parse_header_of [OF assms(1-4)] png_signature_def)
  have small: "length (concat (idat_data cs)) \<le> visual_artifact_max_bytes"
    using assms(9) idat_le_file [of cs] by (simp add: png_file_def)
  obtain o' where body: "read_chunks (8 + 12 + length (header_bytes_of w h color)) (concat (map chunk_bytes cs) @ ?iend) ?k1
      = read_chunks o' ?iend (?k1\<lparr>k_saw_idat := True, k_parts := idat_data cs,
          k_idat_bytes := length (concat (idat_data cs))\<rparr>)"
    using read_chunks_body [OF assms(7), of ?k1] assms(8) small by (auto simp: no_chunks_def)
  have last: "read_chunks o' ?iend k = Inr (k\<lparr>k_saw_iend := True\<rparr>)"
    if "k_header k \<noteq> None" "k_saw_idat k" "\<not> k_saw_iend k" for k
    using read_chunks_step [OF ok(2) that(3), of o' "[]"] that
    by (simp add: read_chunk_def) (simp add: read_chunks.simps)
  show ?thesis unfolding dr
    using read_chunks_step [OF ok(1), of no_chunks 8] first body
    by (simp add: last no_chunks_def del: chunk_bytes.simps)
qed

section \<open>Comparing images\<close>

definition image_ok :: "visual_png \<Rightarrow> bool" where
  "image_ok v = (0 < vp_width v \<and> 0 < vp_height v \<and> length (vp_rgba v) = vp_height v * vp_width v * 4)"

lemma pixel_index:
  assumes "i < h * w * (4 :: nat)"
  shows "i div 4 div w < h" "i div 4 mod w < w" "(i div 4 div w * w + i div 4 mod w) * 4 + i mod 4 = i"
proof -
  have "i div 4 < h * w" using assms by auto
  then show "i div 4 div w < h" "i div 4 mod w < w"
    by (auto simp: less_mult_imp_div_less) (metis mod_less_divisor mult_0_right neq0_conv not_less_zero)
  show "(i div 4 div w * w + i div 4 mod w) * 4 + i mod 4 = i"
    by (simp only: div_mult_mod_eq)
qed

lemma unchanged_pixel:
  assumes "vp_width c = vp_width r" "vp_height c = vp_height r" "x < vp_width r" "y < vp_height r"
    and "\<not> pixel_changed c r x y" and "k < 4"
  shows "vp_rgba c ! ((y * vp_width r + x) * 4 + k) = vp_rgba r ! ((y * vp_width r + x) * 4 + k)"
proof -
  have "k = 0 \<or> k = 1 \<or> k = 2 \<or> k = 3" using assms(6) by auto
  then show ?thesis using assms by (auto simp: pixel_changed_def pixel_offset_def)
qed

lemma no_pixel_changed:
  assumes "image_ok c" and "image_ok r"
    and all: "\<And>x y. x < max (vp_width c) (vp_width r) \<Longrightarrow> y < max (vp_height c) (vp_height r) \<Longrightarrow> \<not> pixel_changed c r x y"
  shows "c = r"
proof -
  have "pixel_offset c (max (vp_width c) (vp_width r) - 1) (max (vp_height c) (vp_height r) - 1) \<noteq> None
      \<and> pixel_offset r (max (vp_width c) (vp_width r) - 1) (max (vp_height c) (vp_height r) - 1) \<noteq> None"
    using all [of "max (vp_width c) (vp_width r) - 1" "max (vp_height c) (vp_height r) - 1"] assms(1,2)
    by (auto simp: pixel_changed_def image_ok_def split: option.splits)
  then have dims: "vp_width c = vp_width r" "vp_height c = vp_height r"
    using assms(1,2) by (auto simp: pixel_offset_def image_ok_def max_def split: if_splits)
  have "vp_rgba c = vp_rgba r"
  proof (rule nth_equalityI)
    show "length (vp_rgba c) = length (vp_rgba r)" using assms(1,2) dims by (simp add: image_ok_def)
    fix i assume "i < length (vp_rgba c)"
    then have i: "i < vp_height r * vp_width r * 4" using assms(1) dims by (simp add: image_ok_def)
    have "\<not> pixel_changed c r (i div 4 mod vp_width r) (i div 4 div vp_width r)"
      using all pixel_index(1,2) [OF i] dims by simp
    from unchanged_pixel [OF dims pixel_index(2,1) [OF i] this, of "i mod 4"]
    show "vp_rgba c ! i = vp_rgba r ! i" by (simp only: pixel_index(3) [OF i])
  qed
  with dims show ?thesis by simp
qed

lemma pixel_changed_self: "\<not> pixel_changed v v x y" if "x < vp_width v" "y < vp_height v"
  using that by (simp add: pixel_changed_def pixel_offset_def)

section \<open>Properties\<close>

text \<open>
  C32. The decoder inverts the format: for any 8-bit truecolor image within the limits, with or
  without alpha, any choice of a filter per row, any split of the compressed data over IDAT chunks
  and any other chunks between, decoding the file gives back the dimensions and exactly the pixels.
  The premise on \<open>inflate\<close> is that it inverts the compression of this image.
\<close>

theorem decode_inverts_format:
  assumes "0 < w" and "0 < h" and "w * h \<le> visual_max_pixels" and "color = 2 \<or> color = 6"
    and "length crc = 4" and "length crc' = 4" and "body_ok cs" and "idat_data cs \<noteq> []"
    and "length (png_file w h color crc cs crc') \<le> visual_artifact_max_bytes"
    and "bpp = (if color = 2 then 3 else 4)" and "length rs = h"
    and "list_all (\<lambda>(f, row). f \<le> 4 \<and> length row = w * bpp \<and> list_all (\<lambda>b. b < 256) row) rs"
    and "inflate (concat (idat_data cs)) ((w * bpp + 1) * h) = Some (filter_rows bpp (replicate (w * bpp) 0) rs)"
  shows "decode_visual_png inflate (png_file w h color crc cs crc') = Inr \<lparr>vp_width = w, vp_height = h,
    vp_rgba = (if color = 6 then concat (map snd rs) else opaque (concat (map snd rs)))\<rparr>"
proof -
  let ?h = "\<lparr>ph_width = w, ph_height = h, ph_color_type = color, ph_bpp = (if color = 2 then 3 else 4)\<rparr>"
  obtain k where k: "read_chunks 8 (drop 8 (png_file w h color crc cs crc')) no_chunks = Inr k"
    "k_header k = Some ?h" "k_saw_idat k" "k_saw_iend k" "k_parts k = idat_data cs"
    using read_chunks_file [OF assms(1-9)] by blast
  have sig: "take 8 (png_file w h color crc cs crc') = png_signature"
    by (simp add: png_file_def png_signature_def)
  have len: "length (filter_rows bpp (replicate (w * bpp) 0) rs) = (w * bpp + 1) * h"
  proof -
    have "list_all (\<lambda>(f, row). length row = w * bpp) rs"
      using assms(12) by (auto simp: list_all_iff)
    from length_filter_rows [OF this, of bpp "replicate (w * bpp) 0"] show ?thesis using assms(11) by simp
  qed
  have rec: "reconstruct_rows bpp (w * bpp) h None (filter_rows bpp (replicate (w * bpp) 0) rs) = Inr (concat (map snd rs))"
    using reconstruct_filter_rows [OF assms(12), of bpp None "replicate (w * bpp) 0"] assms(10,11)
    by (simp add: same_prior_def)
  have "ph_bpp ?h = bpp" using assms(10) by simp
  then show ?thesis
    using k sig len rec assms(9,13) by (simp add: decode_visual_png_def Let_def to_rgba_def)
qed

text \<open>Two rows of one pixel, filtered by Sub and Paeth, with a text chunk and two data chunks.\<close>

theorem decode_inverts_format_witness:
  "\<exists>inflate cs. decode_visual_png inflate (png_file 1 2 2 [0, 0, 0, 0] cs [0, 0, 0, 0])
     = Inr \<lparr>vp_width = 1, vp_height = 2, vp_rgba = [10, 20, 30, 255, 5, 6, 7, 255]\<rparr>"
proof -
  let ?rs = "[(1, [10, 20, 30]), (4, [5, 6, 7])] :: (nat \<times> bytes) list"
  let ?cs = "[(js ''tEXt'', [1, 2], [0, 0, 0, 0]), (js ''IDAT'', [9], [0, 0, 0, 0]), (js ''IDAT'', [8], [0, 0, 0, 0])]"
  let ?inflate = "\<lambda>bs n. if bs = [9, 8] then Some (filter_rows 3 [0, 0, 0] ?rs) else (None :: bytes option)"
  have idat: "idat_data ?cs = [[9], [8]]" "concat (idat_data ?cs) = [9, 8]" by (simp_all add: idat_data_def)
  have ok: "body_ok ?cs" by (simp add: body_ok_def) (simp add: js_def)
  have "decode_visual_png ?inflate (png_file 1 2 2 [0, 0, 0, 0] ?cs [0, 0, 0, 0])
      = Inr \<lparr>vp_width = 1, vp_height = 2, vp_rgba = (if (2 :: nat) = 6 then concat (map snd ?rs) else opaque (concat (map snd ?rs)))\<rparr>"
    by (rule decode_inverts_format [where bpp = 3])
      (simp_all only: idat ok, simp_all add: numeral_3_eq_3 visual_max_pixels_def visual_artifact_max_bytes_def png_file_def
        png_signature_def header_bytes_of_def)
  then show ?thesis by (intro exI [of _ ?inflate] exI [of _ ?cs]) simp
qed

text \<open>
  The comparison finds every difference and invents none: the number of changed pixels is
  zero exactly for identical images, never exceeds the total, and does not depend on the order.
\<close>

lemma comparison_exact:
  assumes "image_ok c" and "image_ok r" and "compare_visual_pixels c r = Inr p"
  shows "(px_changed p = 0 \<longleftrightarrow> c = r) \<and> px_changed p \<le> px_total p
    \<and> (\<exists>q. compare_visual_pixels r c = Inr q \<and> px_changed q = px_changed p)"
proof -
  let ?w = "max (vp_width c) (vp_width r)" and ?h = "max (vp_height c) (vp_height r)"
  let ?all = "List.product [0..<?w] [0..<?h]"
  have small: "?w * ?h \<le> visual_max_pixels"
    and p: "px_changed p = length (filter (\<lambda>(x, y). pixel_changed c r x y) ?all)" "px_total p = ?w * ?h"
    using assms(3) by (auto simp: compare_visual_pixels_def Let_def split: if_splits)
  have zero: "px_changed p = 0 \<longleftrightarrow> (\<forall>x < ?w. \<forall>y < ?h. \<not> pixel_changed c r x y)"
    unfolding p by (auto simp: filter_empty_conv)
  have "px_changed p = 0 \<longleftrightarrow> c = r"
    unfolding zero using no_pixel_changed [OF assms(1,2)] by (auto simp: pixel_changed_self)
  moreover have "px_changed p \<le> px_total p"
    unfolding p using length_filter_le [of _ ?all] by (metis (no_types, lifting) diff_zero length_product length_upt)
  moreover have "\<exists>q. compare_visual_pixels r c = Inr q \<and> px_changed q = px_changed p"
  proof -
    have "pixel_changed r c = pixel_changed c r"
      by (intro ext) (auto simp: pixel_changed_def split: option.splits)
    moreover have "max (vp_width r) (vp_width c) = ?w" "max (vp_height r) (vp_height c) = ?h"
      by (simp_all only: max.commute)
    ultimately show ?thesis using small p(1) by (simp add: compare_visual_pixels_def Let_def)
  qed
  ultimately show ?thesis by blast
qed

end
