(* ===== verification/Dev_Env_Store.thy ===== *)
theory Dev_Env_Store
  imports Trust_Store "HOL-Library.Word"
begin

text \<open>
  \<open>packages/core/src/developer-environment-store.ts\<close>: the registry of developer environments, the
  directories of toolchains the kernel may mount into sandboxes. The file system is an argument, as
  a call sees it; \<open>join\<close> and \<open>resolve\<close> of \<open>node:path\<close> are part of it.
\<close>

unbundle bit_operations_syntax

section \<open>Data\<close>

datatype environment_source = Bootstrap | Operator | Synced_Shell

record environment_entry =
  ev_id :: jsstring
  ev_label :: jsstring
  ev_source :: environment_source
  ev_root :: jsstring
  ev_dirs :: "jsstring list"
  ev_identity :: filesystem_identity

datatype environment_error =
    Env_Registry_Invalid
  | Env_Schema_Unsupported
  | Env_Limit_Exceeded
  | Env_Root_Not_Found
  | Env_Root_Untrusted
  | Env_Root_Inside_State
  | Env_Root_Inside_Workspace
  | Env_Root_Changed
  | Env_Root_Conflict
  | Env_Io

definition max_developer_environments :: nat where "max_developer_environments = 32"

definition max_developer_executable_dirs :: nat where "max_developer_executable_dirs = 4"

definition max_developer_environment_label_bytes :: nat where "max_developer_environment_label_bytes = 120"

datatype 'a io = Io_Ok 'a | Io_Missing | Io_Failed

record metadata =
  md_mode :: "64 word"
  md_uid :: nat
  md_gid :: nat
  md_dev :: "64 word"
  md_ino :: nat
  md_is_dir :: bool
  md_is_file :: bool

record filesystem =
  fs_realpath :: "jsstring \<Rightarrow> jsstring io"
  fs_stat :: "jsstring \<Rightarrow> metadata io"
  fs_opens_dir :: "jsstring \<Rightarrow> bool"
  fs_join :: "jsstring \<Rightarrow> jsstring \<Rightarrow> jsstring"
  fs_resolve :: "jsstring \<Rightarrow> jsstring"

section \<open>Validators\<close>

definition validate_label :: "jsstring \<Rightarrow> environment_error + unit" where
  "validate_label l = ensure (1 \<le> byte_length l \<and> byte_length l \<le> max_developer_environment_label_bytes
     \<and> 0 \<notin> set l) Env_Registry_Invalid"

definition source_names :: "(jsstring \<times> environment_source) list" where
  "source_names = [(js ''bootstrap'', Bootstrap), (js ''operator'', Operator), (js ''synced-shell'', Synced_Shell)]"

definition parse_source :: "jsstring \<Rightarrow> environment_error + environment_source" where
  "parse_source s = (case map_of source_names s of None \<Rightarrow> Inl Env_Registry_Invalid | Some v \<Rightarrow> Inr v)"

fun source_text :: "environment_source \<Rightarrow> string" where
  "source_text Bootstrap = ''bootstrap''"
| "source_text Operator = ''operator''"
| "source_text Synced_Shell = ''synced-shell''"

definition is_absolute :: "jsstring \<Rightarrow> bool" where
  "is_absolute p = starts_with p [47]"

text \<open>\<open>value.split(/[\\/]/)\<close>.\<close>

definition path_components :: "jsstring \<Rightarrow> jsstring list" where
  "path_components p = split_on 47 (map (\<lambda>u. if u = 92 then 47 else u) p)"

definition normalize_dir :: "jsstring \<Rightarrow> jsstring" where
  "normalize_dir v = (if v = [46] then [46]
     else let w = (if starts_with v [46, 47] then drop 2 v else v) in
       if ends_with w [47] then butlast w else w)"

definition dir_acceptable :: "jsstring \<Rightarrow> bool" where
  "dir_acceptable v = (v \<noteq> [] \<and> length v \<le> 4096 \<and> 0 \<notin> set v \<and> 58 \<notin> set v \<and> \<not> is_absolute v
     \<and> [46, 46] \<notin> set (path_components v))"

fun normalize_dirs :: "jsstring list \<Rightarrow> jsstring list \<Rightarrow> environment_error + jsstring list" where
  "normalize_dirs [] normalized = Inr normalized"
| "normalize_dirs (v # vs) normalized =
     (if \<not> dir_acceptable v then Inl Env_Registry_Invalid
      else let c = normalize_dir v in
        if c = [] \<or> c \<in> set normalized then Inl Env_Registry_Invalid
        else normalize_dirs vs (normalized @ [c]))"

definition validate_executable_dirs :: "jsstring list \<Rightarrow> environment_error + jsstring list" where
  "validate_executable_dirs vs =
     (if vs = [] \<or> max_developer_executable_dirs < length vs then Inl Env_Limit_Exceeded
      else normalize_dirs vs [])"

definition parse_environment_identity :: "json option \<Rightarrow> environment_error + filesystem_identity" where
  "parse_environment_identity v = (case as_record v of
     None \<Rightarrow> Inl Env_Registry_Invalid
   | Some fs \<Rightarrow>
       if \<not> same_keys fs [''deviceMajor'', ''deviceMinor'', ''inode''] then Inl Env_Registry_Invalid
       else (case parse_identity fs of Inl _ \<Rightarrow> Inl Env_Registry_Invalid | Inr i \<Rightarrow> Inr i))"

definition all_strings :: "json list \<Rightarrow> jsstring list option" where
  "all_strings xs = (if list_all (\<lambda>x. as_str (Some x) \<noteq> None) xs then Some (map (\<lambda>x. the (as_str (Some x))) xs) else None)"

definition parse_environment :: "json \<Rightarrow> environment_error + environment_entry" where
  "parse_environment v = (case as_record (Some v) of
     None \<Rightarrow> Inl Env_Registry_Invalid
   | Some fs \<Rightarrow>
       if \<not> same_keys fs [''id'', ''label'', ''source'', ''canonicalRoot'', ''executableDirs'', ''identity'']
       then Inl Env_Registry_Invalid
       else (case (as_str (get fs ''id''), as_str (get fs ''label''), as_str (get fs ''source''),
              as_str (get fs ''canonicalRoot''), Option.bind (as_arr (get fs ''executableDirs'')) all_strings) of
          (Some i, Some l, Some s, Some r, Some ds) \<Rightarrow>
            if \<not> tagged_hex32 ''denv_'' i then Inl Env_Registry_Invalid
            else bind_res (validate_label l) (\<lambda>_.
              bind_res (parse_source s) (\<lambda>src.
              if \<not> is_absolute r \<or> 0 \<in> set r then Inl Env_Registry_Invalid
              else bind_res (validate_executable_dirs ds) (\<lambda>dirs.
              bind_res (parse_environment_identity (get fs ''identity'')) (\<lambda>idn.
              Inr \<lparr>ev_id = i, ev_label = l, ev_source = src, ev_root = r, ev_dirs = dirs, ev_identity = idn\<rparr>))))
        | _ \<Rightarrow> Inl Env_Registry_Invalid))"

definition parse_environments :: "json option \<Rightarrow> environment_error + environment_entry list" where
  "parse_environments t = (case as_record t of
     None \<Rightarrow> Inl Env_Registry_Invalid
   | Some fs \<Rightarrow>
       if \<not> same_keys fs [''schemaVersion'', ''entries''] then Inl Env_Registry_Invalid
       else if \<not> schema_one fs then Inl Env_Schema_Unsupported
       else (case as_arr (get fs ''entries'') of
          None \<Rightarrow> Inl Env_Registry_Invalid
        | Some xs \<Rightarrow>
            if max_developer_environments < length xs then Inl Env_Limit_Exceeded
            else bind_res (map_res parse_environment xs) (\<lambda>es.
              if has_dup (map ev_id es) \<or> has_dup (map ev_root es) then Inl Env_Registry_Invalid
              else Inr es)))"

section \<open>The file\<close>

definition environment_json :: "environment_entry \<Rightarrow> json" where
  "environment_json e = JObj [fld ''id'' (JStr (ev_id e)), fld ''label'' (JStr (ev_label e)),
     fld ''source'' (JStr (js (source_text (ev_source e)))), fld ''canonicalRoot'' (JStr (ev_root e)),
     fld ''executableDirs'' (JArr (map JStr (ev_dirs e))), fld ''identity'' (identity_json (ev_identity e))]"

definition environments_json :: "environment_entry list \<Rightarrow> json" where
  "environments_json es = JObj [fld ''schemaVersion'' (JNum 1), fld ''entries'' (JArr (map environment_json es))]"

type_synonym environment_file = "json option state_file"

definition read_environments :: "environment_file \<Rightarrow> environment_error + environment_entry list" where
  "read_environments f = read_file Env_Io [] parse_environments f"

definition write_environments :: "write_fault \<Rightarrow> environment_entry list \<Rightarrow> environment_file \<Rightarrow>
    (environment_error + unit) \<times> environment_file" where
  "write_environments fault es f =
     (if max_developer_environments < length es then (Inl Env_Limit_Exceeded, f)
      else write_file Env_Io fault (Some (environments_json es)) f)"

section \<open>Directories\<close>

definition explicit_root_mode_is_safe :: "64 word \<Rightarrow> nat \<Rightarrow> nat \<Rightarrow> bool" where
  "explicit_root_mode_is_safe mode uid gid =
     (let bits = mode AND 0xFFF in
      bits AND 0xC00 = 0 \<and> bits AND 2 = 0 \<and> \<not> (bits AND 0x10 \<noteq> 0 \<and> gid \<noteq> uid))"

definition device_major_of :: "64 word \<Rightarrow> 64 word" where
  "device_major_of device =
     (drop_bit 8 (device AND 0xFFF00)) OR (drop_bit 32 (device AND 0xFFFFF00000000000))"

definition device_minor_of :: "64 word \<Rightarrow> 64 word" where
  "device_minor_of device = (device AND 0xFF) OR (drop_bit 12 (device AND 0x00000FFFFFF00000))"

definition filesystem_identity_of :: "64 word \<Rightarrow> nat \<Rightarrow> environment_error + filesystem_identity" where
  "filesystem_identity_of device ino =
     (let major = uint (device_major_of device); minor = uint (device_minor_of device) in
      if major \<le> max_safe \<and> minor \<le> max_safe
      then Inr \<lparr>device_major = major, device_minor = minor, inode = decimal ino\<rparr>
      else Inl Env_Root_Untrusted)"

definition safe_stat :: "filesystem \<Rightarrow> jsstring \<Rightarrow> environment_error + metadata" where
  "safe_stat fs p = (case fs_stat fs p of
     Io_Ok m \<Rightarrow> Inr m | Io_Missing \<Rightarrow> Inl Env_Root_Not_Found | Io_Failed \<Rightarrow> Inl Env_Root_Untrusted)"

text \<open>\<open>isBeneathOrEqual\<close> on canonical absolute paths, where \<open>relative\<close> is what is left of the prefix.\<close>

definition is_beneath_or_equal :: "jsstring \<Rightarrow> jsstring \<Rightarrow> bool" where
  "is_beneath_or_equal candidate root =
     (candidate = root \<or> starts_with candidate (if root = [47] then [47] else root @ [47]))"

definition paths_overlap :: "jsstring \<Rightarrow> jsstring \<Rightarrow> bool" where
  "paths_overlap l r = (is_beneath_or_equal l r \<or> is_beneath_or_equal r l)"

definition canonicalize_existing_or_resolve :: "filesystem \<Rightarrow> jsstring \<Rightarrow> environment_error + jsstring" where
  "canonicalize_existing_or_resolve fs p = (case fs_realpath fs p of
     Io_Ok c \<Rightarrow> Inr c | Io_Missing \<Rightarrow> Inr (fs_resolve fs p) | Io_Failed \<Rightarrow> Inl Env_Io)"

fun check_workspaces :: "filesystem \<Rightarrow> jsstring \<Rightarrow> jsstring list \<Rightarrow> environment_error + unit" where
  "check_workspaces fs root [] = Inr ()"
| "check_workspaces fs root (w # ws) = bind_res (canonicalize_existing_or_resolve fs w) (\<lambda>c.
     if paths_overlap root c then Inl Env_Root_Inside_Workspace else check_workspaces fs root ws)"

definition safe_directory :: "filesystem \<Rightarrow> jsstring \<Rightarrow> environment_error + metadata" where
  "safe_directory fs p = bind_res (safe_stat fs p) (\<lambda>m.
     if \<not> md_is_dir m \<or> \<not> explicit_root_mode_is_safe (md_mode m) (md_uid m) (md_gid m)
     then Inl Env_Root_Untrusted else Inr m)"

definition realpath_of :: "filesystem \<Rightarrow> jsstring \<Rightarrow> environment_error + jsstring" where
  "realpath_of fs p = (case fs_realpath fs p of
     Io_Ok c \<Rightarrow> Inr c | Io_Missing \<Rightarrow> Inl Env_Root_Not_Found | Io_Failed \<Rightarrow> Inl Env_Root_Untrusted)"

fun check_dirs :: "filesystem \<Rightarrow> jsstring \<Rightarrow> jsstring list \<Rightarrow> environment_error + unit" where
  "check_dirs fs root [] = Inr ()"
| "check_dirs fs root (d # ds) =
     bind_res (realpath_of fs (if d = [46] then root else fs_join fs root d)) (\<lambda>c.
     if \<not> is_beneath_or_equal c root then Inl Env_Root_Untrusted
     else bind_res (safe_directory fs c) (\<lambda>_. check_dirs fs root ds))"

definition inspect_candidate :: "filesystem \<Rightarrow> jsstring \<Rightarrow> jsstring \<Rightarrow> jsstring list \<Rightarrow> jsstring list \<Rightarrow>
    environment_error + jsstring \<times> filesystem_identity" where
  "inspect_candidate fs state_root root dirs workspaces =
     (if root = [] \<or> 0 \<in> set root then Inl Env_Root_Untrusted
      else bind_res (realpath_of fs root) (\<lambda>c.
      bind_res (case fs_realpath fs state_root of Io_Ok s \<Rightarrow> Inr s | _ \<Rightarrow> Inl Env_Io) (\<lambda>s.
      if paths_overlap c s then Inl Env_Root_Inside_State
      else bind_res (check_workspaces fs c workspaces) (\<lambda>_.
      bind_res (safe_directory fs c) (\<lambda>m.
      bind_res (check_dirs fs c dirs) (\<lambda>_.
      bind_res (filesystem_identity_of (md_dev m) (md_ino m)) (\<lambda>i. Inr (c, i))))))))"

definition revalidate_entry :: "filesystem \<Rightarrow> environment_entry \<Rightarrow> environment_error + unit" where
  "revalidate_entry fs e = (case fs_realpath fs (ev_root e) of
     Io_Missing \<Rightarrow> Inl Env_Root_Not_Found
   | Io_Failed \<Rightarrow> Inl Env_Io
   | Io_Ok c \<Rightarrow> bind_res (safe_directory fs c) (\<lambda>m.
       bind_res (filesystem_identity_of (md_dev m) (md_ino m)) (\<lambda>i.
       ensure (c = ev_root e \<and> same_identity i (ev_identity e)) Env_Root_Changed)))"

section \<open>Operations\<close>

fun revalidate_all :: "filesystem \<Rightarrow> environment_entry list \<Rightarrow> environment_error + environment_entry list" where
  "revalidate_all fs [] = Inr []"
| "revalidate_all fs (e # es) = bind_res (revalidate_entry fs e) (\<lambda>_.
     bind_res (revalidate_all fs es) (\<lambda>out. Inr (e # out)))"

definition list_environments :: "filesystem \<Rightarrow> environment_file \<Rightarrow> environment_error + environment_entry list" where
  "list_environments fs f = bind_res (read_environments f) (revalidate_all fs)"

text \<open>\<open>fresh n\<close> is the identifier generated when the registry holds \<open>n\<close> entries.\<close>

definition add_environment :: "filesystem \<Rightarrow> jsstring \<Rightarrow> (nat \<Rightarrow> jsstring) \<Rightarrow> write_fault \<Rightarrow> jsstring \<Rightarrow>
    jsstring list \<Rightarrow> jsstring \<Rightarrow> environment_source \<Rightarrow> jsstring list \<Rightarrow> environment_file \<Rightarrow>
    (environment_error + environment_entry) \<times> environment_file" where
  "add_environment fs state_root fresh fault root dirs label src workspaces f =
     (case bind_res (validate_label label) (\<lambda>_.
           bind_res (validate_executable_dirs dirs) (\<lambda>ds.
           bind_res (read_environments f) (\<lambda>es.
           if max_developer_environments \<le> length es then Inl Env_Limit_Exceeded
           else bind_res (inspect_candidate fs state_root root ds workspaces) (\<lambda>(c, i).
             if c \<in> ev_root ` set es then Inl Env_Root_Conflict
             else Inr (es, \<lparr>ev_id = fresh (length es), ev_label = label, ev_source = src, ev_root = c,
               ev_dirs = ds, ev_identity = i\<rparr>))))) of
        Inl e \<Rightarrow> (Inl e, f)
      | Inr (es, entry) \<Rightarrow> (case write_environments fault (es @ [entry]) f of
            (Inl e, f') \<Rightarrow> (Inl e, f') | (Inr _, f') \<Rightarrow> (Inr entry, f')))"

definition system_executable_dirs :: "jsstring list" where
  "system_executable_dirs = [js ''/usr/local/bin'', js ''/usr/bin'', js ''/bin'']"

text \<open>
  The loop of \<open>syncPath\<close>, with the document, the known roots, the new entries and the roots seen so
  far. Errors of the inspection skip the candidate, other errors end the call.
\<close>

fun sync_loop :: "filesystem \<Rightarrow> jsstring \<Rightarrow> (nat \<Rightarrow> jsstring) \<Rightarrow> jsstring list \<Rightarrow> jsstring list \<Rightarrow>
    environment_entry list \<Rightarrow> jsstring list \<Rightarrow> environment_entry list \<Rightarrow> jsstring list \<Rightarrow>
    environment_error + environment_entry list \<times> environment_entry list" where
  "sync_loop fs state_root fresh workspaces [] es known synced seen = Inr (es, synced)"
| "sync_loop fs state_root fresh workspaces (raw # raws) es known synced seen =
     (if raw = [] \<or> fs_resolve fs raw \<in> set system_executable_dirs
      then sync_loop fs state_root fresh workspaces raws es known synced seen
      else (case inspect_candidate fs state_root (fs_resolve fs raw) [[46]] workspaces of
          Inl e \<Rightarrow> if e = Env_Io then Inl Env_Io
                   else sync_loop fs state_root fresh workspaces raws es known synced seen
        | Inr (c, i) \<Rightarrow>
            if c \<in> set seen \<or> c \<in> set known
            then sync_loop fs state_root fresh workspaces raws es known synced seen
            else if max_developer_environments \<le> length es then Inl Env_Limit_Exceeded
            else
              let entry = \<lparr>ev_id = fresh (length es), ev_label = js ''PATH entry '' @ decimal (length es + 1),
                ev_source = Synced_Shell, ev_root = c, ev_dirs = [[46]], ev_identity = i\<rparr> in
              sync_loop fs state_root fresh workspaces raws (es @ [entry]) (known @ [c]) (synced @ [entry]) (seen @ [c])))"

definition sync_path :: "filesystem \<Rightarrow> jsstring \<Rightarrow> (nat \<Rightarrow> jsstring) \<Rightarrow> write_fault \<Rightarrow> jsstring \<Rightarrow>
    jsstring list \<Rightarrow> environment_file \<Rightarrow> (environment_error + environment_entry list) \<times> environment_file" where
  "sync_path fs state_root fresh fault path_value workspaces f =
     (case bind_res (read_environments f) (\<lambda>es.
         sync_loop fs state_root fresh workspaces (split_on 58 path_value) es (map ev_root es) [] []) of
        Inl e \<Rightarrow> (Inl e, f)
      | Inr (es, synced) \<Rightarrow>
          if synced = [] then (Inr [], f)
          else (case write_environments fault es f of
              (Inl e, f') \<Rightarrow> (Inl e, f') | (Inr _, f') \<Rightarrow> (Inr synced, f')))"

definition remove_environment :: "write_fault \<Rightarrow> jsstring \<Rightarrow> environment_file \<Rightarrow>
    (environment_error + bool) \<times> environment_file" where
  "remove_environment fault i f =
     (if \<not> tagged_hex32 ''denv_'' i then (Inl Env_Registry_Invalid, f)
      else (case read_environments f of
          Inl e \<Rightarrow> (Inl e, f)
        | Inr es \<Rightarrow>
            let rest = filter (\<lambda>e. ev_id e \<noteq> i) es in
            if length rest = length es then (Inr False, f)
            else (case write_environments fault rest f of
                (Inl e, f') \<Rightarrow> (Inl e, f') | (Inr _, f') \<Rightarrow> (Inr True, f'))))"

definition same_environment :: "environment_entry \<Rightarrow> environment_entry \<Rightarrow> bool" where
  "same_environment l r = (ev_id l = ev_id r \<and> ev_label l = ev_label r \<and> ev_source l = ev_source r
     \<and> ev_root l = ev_root r \<and> ev_dirs l = ev_dirs r \<and> same_identity (ev_identity l) (ev_identity r))"

text \<open>One candidate of \<open>ensureBootstrap\<close>, with its label and its root.\<close>

definition bootstrap_candidate :: "filesystem \<Rightarrow> jsstring \<Rightarrow> (nat \<Rightarrow> jsstring) \<Rightarrow> jsstring list \<Rightarrow>
    jsstring \<times> jsstring \<Rightarrow> environment_entry list \<times> bool \<Rightarrow> environment_error + environment_entry list \<times> bool" where
  "bootstrap_candidate fs state_root fresh workspaces cand st =
     (case (cand, st) of ((label, root), (es, changed)) \<Rightarrow>
       (case inspect_candidate fs state_root root [js ''bin''] workspaces of
          Inl e \<Rightarrow> if e = Env_Io then Inl Env_Io else Inr (es, changed)
        | Inr (c, i) \<Rightarrow>
            if (case find (\<lambda>e. ev_root e = c) es of Some e \<Rightarrow> ev_source e \<noteq> Bootstrap | None \<Rightarrow> False)
            then Inr (es, changed)
            else
              let k = find_index (\<lambda>e. ev_source e = Bootstrap \<and> ev_label e = label) es;
                  entry = \<lparr>ev_id = (case k of Some n \<Rightarrow> ev_id (es ! n) | None \<Rightarrow> fresh (length es)),
                    ev_label = label, ev_source = Bootstrap, ev_root = c, ev_dirs = [js ''bin''], ev_identity = i\<rparr> in
              (case k of
                 Some n \<Rightarrow> if same_environment (es ! n) entry then Inr (es, changed) else Inr (es[n := entry], True)
               | None \<Rightarrow>
                   if max_developer_environments \<le> length es then Inl Env_Limit_Exceeded
                   else Inr (es @ [entry], True))))"

definition ensure_bootstrap :: "filesystem \<Rightarrow> jsstring \<Rightarrow> (nat \<Rightarrow> jsstring) \<Rightarrow> write_fault \<Rightarrow>
    jsstring option \<Rightarrow> jsstring option \<Rightarrow> jsstring list \<Rightarrow> environment_file \<Rightarrow>
    (environment_error + unit) \<times> environment_file" where
  "ensure_bootstrap fs state_root fresh fault node_root rust_root workspaces f =
     (let step = (\<lambda>label root st. case root of None \<Rightarrow> Inr st
          | Some r \<Rightarrow> bootstrap_candidate fs state_root fresh workspaces (js label, r) st) in
      case bind_res (read_environments f) (\<lambda>es.
           bind_res (step ''Node runtime'' node_root (es, False)) (step ''Rust stable toolchain'' rust_root)) of
        Inl e \<Rightarrow> (Inl e, f)
      | Inr (es, changed) \<Rightarrow> if changed then write_environments fault es f else (Inr (), f))"

section \<open>Diagnosis\<close>

datatype diagnostic_status = Diag_Available | Diag_Missing | Diag_Changed | Diag_Unsafe

datatype executable_status = Exe_Available | Exe_Absent | Exe_Unavailable

definition diagnostic_status_for :: "environment_error \<Rightarrow> environment_error + diagnostic_status" where
  "diagnostic_status_for e = (case e of
     Env_Root_Not_Found \<Rightarrow> Inr Diag_Missing
   | Env_Root_Changed \<Rightarrow> Inr Diag_Changed
   | Env_Root_Untrusted \<Rightarrow> Inr Diag_Unsafe
   | _ \<Rightarrow> Inl e)"

definition is_simple_logical_executable_name :: "jsstring \<Rightarrow> bool" where
  "is_simple_logical_executable_name v = (v \<noteq> [] \<and> v \<noteq> [46] \<and> v \<noteq> [46, 46] \<and> 47 \<notin> set v \<and> 0 \<notin> set v
     \<and> list_all (\<lambda>u. is_alnum u \<or> u = 46 \<or> u = 95 \<or> u = 45) v)"

text \<open>An executable the root's owner or the superuser owns, with no special bits and not writable by others.\<close>

definition executable_safe :: "metadata \<Rightarrow> metadata \<Rightarrow> bool" where
  "executable_safe root m =
     (let mode = md_mode m AND 0xFFF in
      md_is_file m \<and> (md_uid m = md_uid root \<or> md_uid m = 0) \<and> mode AND 0xC00 = 0
        \<and> mode AND 0x12 = 0 \<and> mode AND 0x49 \<noteq> 0)"

fun search_executable :: "filesystem \<Rightarrow> metadata \<Rightarrow> jsstring \<Rightarrow> jsstring \<Rightarrow> bool \<Rightarrow> jsstring list \<Rightarrow>
    environment_error + executable_status" where
  "search_executable fs rm root x unsafe [] = Inr (if unsafe then Exe_Unavailable else Exe_Absent)"
| "search_executable fs rm root x unsafe (d # ds) =
     (case fs_realpath fs (if d = [46] then fs_join fs root x else fs_join fs (fs_join fs root d) x) of
        Io_Missing \<Rightarrow> search_executable fs rm root x unsafe ds
      | Io_Failed \<Rightarrow> search_executable fs rm root x True ds
      | Io_Ok c \<Rightarrow>
          if \<not> is_beneath_or_equal c root \<or> c = root then search_executable fs rm root x True ds
          else bind_res (safe_stat fs c) (\<lambda>m.
            if executable_safe rm m then Inr Exe_Available else search_executable fs rm root x True ds))"

definition diagnose_executable :: "filesystem \<Rightarrow> environment_entry \<Rightarrow> jsstring \<Rightarrow> environment_error + executable_status" where
  "diagnose_executable fs e x = bind_res (safe_stat fs (ev_root e)) (\<lambda>rm.
     search_executable fs rm (ev_root e) x False (ev_dirs e))"

record diagnostic =
  dg_entry :: environment_entry
  dg_status :: diagnostic_status
  dg_mount :: bool
  dg_executable :: "(jsstring \<times> executable_status) option"

definition diagnose_entry :: "filesystem \<Rightarrow> jsstring option \<Rightarrow> environment_entry \<Rightarrow> environment_error + diagnostic" where
  "diagnose_entry fs x e =
     bind_res (case revalidate_entry fs e of
         Inr _ \<Rightarrow> Inr Diag_Available
       | Inl err \<Rightarrow> if err = Env_Io then Inl Env_Io else diagnostic_status_for err) (\<lambda>status.
     bind_res (case x of
         None \<Rightarrow> Inr None
       | Some n \<Rightarrow>
           if status = Diag_Available then bind_res (diagnose_executable fs e n) (\<lambda>r. Inr (Some (n, r)))
           else Inr (Some (n, Exe_Unavailable))) (\<lambda>exe.
     Inr \<lparr>dg_entry = e, dg_status = status,
       dg_mount = (status = Diag_Available \<and> fs_opens_dir fs (ev_root e)), dg_executable = exe\<rparr>))"

definition diagnose :: "filesystem \<Rightarrow> jsstring option \<Rightarrow> environment_file \<Rightarrow> environment_error + diagnostic list" where
  "diagnose fs x f =
     (if \<not> pred_option is_simple_logical_executable_name x then Inl Env_Registry_Invalid
      else bind_res (read_environments f) (map_res (diagnose_entry fs x)))"

section \<open>Device numbers\<close>

lemma device_masks:
  "(0xFFF00 :: 64 word) = push_bit 8 (mask 12)" "(0xFFFFF00000000000 :: 64 word) = push_bit 44 (mask 20)"
  "(0xFF :: 64 word) = mask 8" "(0x00000FFFFFF00000 :: 64 word) = push_bit 20 (mask 24)"
  by (simp_all add: mask_eq_exp_minus_1 push_bit_eq_mult)

lemma bit_major: "bit (device_major_of d) n \<longleftrightarrow> n < 12 \<and> bit d (n + 8) \<or> 12 \<le> n \<and> n < 32 \<and> bit d (n + 32)"
  unfolding device_major_of_def device_masks by (auto simp: bit_simps add.commute)

lemma bit_minor: "bit (device_minor_of d) n \<longleftrightarrow> n < 8 \<and> bit d n \<or> 8 \<le> n \<and> n < 32 \<and> bit d (n + 12)"
  unfolding device_minor_of_def device_masks by (auto simp: bit_simps add.commute)

text \<open>Every bit of the device number ends up in one of the two numbers.\<close>

lemma device_bits:
  "n < 8 \<Longrightarrow> bit d n = bit (device_minor_of d) n"
  "8 \<le> n \<Longrightarrow> n < 20 \<Longrightarrow> bit d n = bit (device_major_of d) (n - 8)"
  "20 \<le> n \<Longrightarrow> n < 44 \<Longrightarrow> bit d n = bit (device_minor_of d) (n - 12)"
  "44 \<le> n \<Longrightarrow> n < 64 \<Longrightarrow> bit d n = bit (device_major_of d) (n - 32)"
proof -
  show "n < 8 \<Longrightarrow> bit d n = bit (device_minor_of d) n" by (simp add: bit_minor)
  show "bit d n = bit (device_major_of d) (n - 8)" if "8 \<le> n" "n < 20"
  proof -
    have "n - 8 < 12" "n - 8 + 8 = n" using that by arith+
    then show ?thesis by (simp add: bit_major)
  qed
  show "bit d n = bit (device_minor_of d) (n - 12)" if "20 \<le> n" "n < 44"
  proof -
    have "8 \<le> n - 12" "n - 12 < 32" "n - 12 + 12 = n" using that by arith+
    then show ?thesis by (simp add: bit_minor)
  qed
  show "bit d n = bit (device_major_of d) (n - 32)" if "44 \<le> n" "n < 64"
  proof -
    have "12 \<le> n - 32" "n - 32 < 32" "n - 32 + 32 = n" using that by arith+
    then show ?thesis by (simp add: bit_major)
  qed
qed

lemma device_numbers_inj:
  assumes "device_major_of d = device_major_of d'" and "device_minor_of d = device_minor_of d'"
  shows "d = d'"
proof (rule bit_word_eqI)
  fix n :: nat
  assume "n < LENGTH(64)"
  then consider "n < 8" | "8 \<le> n" "n < 20" | "20 \<le> n" "n < 44" | "44 \<le> n" "n < 64" by force
  then show "bit d n = bit d' n"
  proof cases
    case 1
    then show ?thesis using assms(2) by (metis device_bits(1))
  next
    case 2
    then show ?thesis using assms(1) by (metis device_bits(2))
  next
    case 3
    then show ?thesis using assms(2) by (metis device_bits(3))
  next
    case 4
    then show ?thesis using assms(1) by (metis device_bits(4))
  qed
qed

lemma word_low_bits: "(\<And>n. bit w n \<Longrightarrow> n < 32) \<Longrightarrow> uint (w :: 64 word) < 2 ^ 32"
proof -
  assume "\<And>n. bit w n \<Longrightarrow> n < 32"
  then have "take_bit 32 w = w" by (intro bit_word_eqI) (auto simp: bit_simps)
  then have "uint w = uint (take_bit 32 w)" by simp
  also have "\<dots> = take_bit 32 (uint w)" by (simp add: unsigned_take_bit_eq)
  also have "\<dots> < 2 ^ 32" by (rule take_bit_int_less_exp)
  finally show ?thesis .
qed

lemma device_numbers_small: "uint (device_major_of d) < 2 ^ 32" "uint (device_minor_of d) < 2 ^ 32"
proof -
  show "uint (device_major_of d) < 2 ^ 32" by (rule word_low_bits) (auto simp: bit_major)
  show "uint (device_minor_of d) < 2 ^ 32" by (rule word_low_bits) (auto simp: bit_minor)
qed

lemma filesystem_identity_total:
  "filesystem_identity_of d ino = Inr \<lparr>device_major = uint (device_major_of d),
     device_minor = uint (device_minor_of d), inode = decimal ino\<rparr>"
  using device_numbers_small [of d] by (simp add: filesystem_identity_of_def Let_def)

lemma same_identity_iff:
  assumes "filesystem_identity_of d ino = Inr i" and "filesystem_identity_of d' ino' = Inr i'"
  shows "same_identity i i' \<longleftrightarrow> d = d' \<and> ino = ino'"
proof -
  have "decimal ino = decimal ino' \<longleftrightarrow> ino = ino'" by (metis digits_value_decimal)
  then show ?thesis
    using assms device_numbers_inj [of d d'] word_uint_eq_iff [of "device_major_of d" "device_major_of d'"]
      word_uint_eq_iff [of "device_minor_of d" "device_minor_of d'"]
    by (auto simp: filesystem_identity_total same_identity_def)
qed

section \<open>What the file keeps\<close>

text \<open>
  Normalising once does not always settle a path: \<open>.//bin\<close> becomes \<open>/bin\<close>, which is not relative, and
  \<open>././bin\<close> becomes \<open>./bin\<close>. An entry is settled when its directories are their own normal form.
\<close>

definition settled :: "jsstring list \<Rightarrow> bool" where
  "settled ds \<longleftrightarrow> validate_executable_dirs ds = Inr ds"

definition environment_ok :: "environment_entry \<Rightarrow> bool" where
  "environment_ok e \<longleftrightarrow> tagged_hex32 ''denv_'' (ev_id e) \<and> is_ok (validate_label (ev_label e))
     \<and> is_absolute (ev_root e) \<and> 0 \<notin> set (ev_root e) \<and> identity_ok (ev_identity e)"

definition registry_ok :: "environment_entry list \<Rightarrow> bool" where
  "registry_ok es \<longleftrightarrow> list_all environment_ok es \<and> distinct (map ev_id es) \<and> distinct (map ev_root es)
     \<and> length es \<le> max_developer_environments"

definition registry_settled :: "environment_entry list \<Rightarrow> bool" where
  "registry_settled es \<longleftrightarrow> registry_ok es \<and> list_all (\<lambda>e. settled (ev_dirs e)) es"

lemma all_strings_JStr [simp]: "all_strings (map JStr ds) = Some ds"
  by (simp add: all_strings_def list_all_iff comp_def)

lemma parse_source_text [simp]: "parse_source (js (source_text s)) = Inr s"
  by (cases s) (simp_all add: parse_source_def source_names_def)

lemma parse_environment_identity_json [simp]:
  "identity_ok i \<Longrightarrow> parse_environment_identity (Some (identity_json i)) = Inr i"
  using parse_identity_json [of i]
  by (simp add: parse_environment_identity_def identity_json_def same_keys_def)

lemma parse_environment_json:
  "environment_ok e \<Longrightarrow> settled (ev_dirs e) \<Longrightarrow> parse_environment (environment_json e) = Inr e"
  by (auto simp: parse_environment_def environment_json_def environment_ok_def settled_def same_keys_def is_ok_iff)

lemma parse_environment_identity_ok: "parse_environment_identity v = Inr i \<Longrightarrow> identity_ok i"
  by (auto simp: parse_environment_identity_def dest: parse_identity_ok split: option.splits if_splits sum.splits)

lemma parse_environment_ok: "parse_environment v = Inr e \<Longrightarrow> environment_ok e"
  by (auto simp: parse_environment_def environment_ok_def guard_eq_Inr
      dest: parse_environment_identity_ok split: option.splits if_splits)

lemma parse_environments_ok: "parse_environments t = Inr es \<Longrightarrow> registry_ok es"
  by (auto simp: parse_environments_def registry_ok_def guard_eq_Inr has_dup_iff
      intro: map_res_all parse_environment_ok dest: map_res_length split: option.splits if_splits)

lemma read_environments_ok: "read_environments f = Inr es \<Longrightarrow> registry_ok es"
  by (auto simp: read_environments_def read_file_def registry_ok_def dest: parse_environments_ok
      split: state_file.splits)

interpretation environment_doc: document_printer "\<lambda>es. Some (environments_json es)" parse_environments
    registry_settled
  by unfold_locales
    (simp add: parse_environments_def environments_json_def registry_settled_def registry_ok_def
      schema_one_def same_keys_def map_res_inverse parse_environment_json list_all_iff has_dup_iff)

lemma write_environments_read:
  assumes "registry_settled es" and "write_environments fault es f = (r, f')"
  shows "read_environments f' \<in> {read_environments f, Inr es}" and "r = Inr u \<Longrightarrow> read_environments f' = Inr es"
proof -
  have w: "write_file Env_Io fault (Some (environments_json es)) f = (r, f')"
    using assms by (simp add: write_environments_def registry_settled_def registry_ok_def split: if_splits)
  show "read_environments f' \<in> {read_environments f, Inr es}" "r = Inr u \<Longrightarrow> read_environments f' = Inr es"
    using environment_doc.printed_then_read [OF assms(1) w] by (simp_all add: read_environments_def)
qed

lemma write_environments_failed:
  "write_environments fault es f = (Inl err, f') \<Longrightarrow> fault \<noteq> After_Rename \<Longrightarrow> f' = f"
  by (cases fault) (auto simp: write_environments_def write_file_def split: if_splits)

section \<open>What an inspection establishes\<close>

lemma check_workspaces_ok:
  assumes "check_workspaces fs c ws = Inr ()" and "w \<in> set ws"
  shows "\<exists>r. canonicalize_existing_or_resolve fs w = Inr r \<and> \<not> paths_overlap c r"
  using assms by (induction ws) (auto simp: guard_eq_Inr split: if_splits)

text \<open>A directory that only its owner, or a group with the owner's number, can change.\<close>

definition private_directory :: "metadata \<Rightarrow> bool" where
  "private_directory m \<longleftrightarrow> md_is_dir m \<and> explicit_root_mode_is_safe (md_mode m) (md_uid m) (md_gid m)"

lemma safe_directory_ok: "safe_directory fs p = Inr m \<longleftrightarrow> fs_stat fs p = Io_Ok m \<and> private_directory m"
  by (auto simp: safe_directory_def safe_stat_def private_directory_def guard_eq_Inr split: io.splits)

lemma check_dirs_ok:
  assumes "check_dirs fs c ds = Inr ()" and "d \<in> set ds"
  shows "\<exists>p m. fs_realpath fs (if d = [46] then c else fs_join fs c d) = Io_Ok p
    \<and> is_beneath_or_equal p c \<and> fs_stat fs p = Io_Ok m \<and> private_directory m"
  using assms
  by (induction ds) (auto simp: guard_eq_Inr realpath_of_def safe_directory_ok split: if_splits io.splits)

definition clear_of :: "filesystem \<Rightarrow> jsstring \<Rightarrow> jsstring list \<Rightarrow> jsstring \<Rightarrow> bool" where
  "clear_of fs state_root ws c \<longleftrightarrow>
     (\<exists>s. fs_realpath fs state_root = Io_Ok s \<and> \<not> paths_overlap c s)
     \<and> list_all (\<lambda>w. \<exists>r. canonicalize_existing_or_resolve fs w = Inr r \<and> \<not> paths_overlap c r) ws"

lemma inspect_candidate_ok:
  assumes "inspect_candidate fs state_root root ds ws = Inr (c, i)"
  shows "fs_realpath fs root = Io_Ok c" and "clear_of fs state_root ws c"
    and "\<exists>m. fs_stat fs c = Io_Ok m \<and> private_directory m \<and> filesystem_identity_of (md_dev m) (md_ino m) = Inr i"
    and "check_dirs fs c ds = Inr ()"
  using assms check_workspaces_ok
  by (auto simp: inspect_candidate_def clear_of_def guard_eq_Inr realpath_of_def safe_directory_ok
      list_all_iff split: io.splits if_splits)

lemma filesystem_identity_ok: "filesystem_identity_of d n = Inr i \<Longrightarrow> identity_ok i"
  using device_numbers_small [of d] decimal_digits [of n] decimal_shape [of n]
  by (auto simp: filesystem_identity_total identity_ok_def validate_identity_def ensure_def)

lemma revalidate_entry_ok:
  "revalidate_entry fs e = Inr () \<longleftrightarrow> fs_realpath fs (ev_root e) = Io_Ok (ev_root e)
     \<and> (\<exists>m i. fs_stat fs (ev_root e) = Io_Ok m \<and> private_directory m
          \<and> filesystem_identity_of (md_dev m) (md_ino m) = Inr i \<and> same_identity i (ev_identity e))"
  by (auto simp: revalidate_entry_def guard_eq_Inr safe_directory_ok split: io.splits)

lemma revalidate_all_ok: "revalidate_all fs es = Inr out \<longleftrightarrow> out = es \<and> list_all (\<lambda>e. revalidate_entry fs e = Inr ()) es"
  by (induction es arbitrary: out) (auto simp: guard_eq_Inr)

section \<open>Adding a directory and listing it again\<close>

lemma add_environment_written:
  assumes "add_environment fs state_root fresh fault root dirs label src ws f = (r, f')"
  shows "(\<exists>err. r = Inl err \<and> f' = f) \<or> (\<exists>es ds c i e. read_environments f = Inr es
     \<and> is_ok (validate_label label) \<and> validate_executable_dirs dirs = Inr ds
     \<and> length es < max_developer_environments \<and> inspect_candidate fs state_root root ds ws = Inr (c, i)
     \<and> c \<notin> ev_root ` set es
     \<and> e = \<lparr>ev_id = fresh (length es), ev_label = label, ev_source = src, ev_root = c, ev_dirs = ds, ev_identity = i\<rparr>
     \<and> (\<exists>u. write_environments fault (es @ [e]) f = (u, f') \<and> r = map_sum id (\<lambda>_. e) u))"
proof -
  let ?m = "bind_res (validate_label label) (\<lambda>_. bind_res (validate_executable_dirs dirs) (\<lambda>ds.
     bind_res (read_environments f) (\<lambda>es.
     if max_developer_environments \<le> length es then Inl Env_Limit_Exceeded
     else bind_res (inspect_candidate fs state_root root ds ws) (\<lambda>(c, i).
       if c \<in> ev_root ` set es then Inl Env_Root_Conflict
       else Inr (es, \<lparr>ev_id = fresh (length es), ev_label = label, ev_source = src, ev_root = c,
         ev_dirs = ds, ev_identity = i\<rparr>)))))"
  show ?thesis
  proof (cases ?m)
    case (Inl err)
    then show ?thesis using assms by (auto simp: add_environment_def)
  next
    case (Inr p)
    obtain es e where p: "p = (es, e)" by (cases p)
    obtain u f'' where w: "write_environments fault (es @ [e]) f = (u, f'')" by fastforce
    have "r = map_sum id (\<lambda>_. e) u" "f' = f''"
      using assms Inr p w by (auto simp: add_environment_def split: sum.splits)
    moreover have "\<exists>ds c i. read_environments f = Inr es
     \<and> is_ok (validate_label label) \<and> validate_executable_dirs dirs = Inr ds
     \<and> length es < max_developer_environments \<and> inspect_candidate fs state_root root ds ws = Inr (c, i)
     \<and> c \<notin> ev_root ` set es
     \<and> e = \<lparr>ev_id = fresh (length es), ev_label = label, ev_source = src, ev_root = c, ev_dirs = ds, ev_identity = i\<rparr>"
      using Inr p by (force simp: guard_eq_Inr is_ok_iff split: prod.splits)
    ultimately show ?thesis using w by blast
  qed
qed

lemma add_environment_inspected:
  assumes "add_environment fs state_root fresh fault root dirs label src ws f = (Inr e, f')"
  shows "\<exists>ds. inspect_candidate fs state_root root ds ws = Inr (ev_root e, ev_identity e)"
  using add_environment_written [OF assms]
proof (elim disjE exE conjE)
  fix es ds c i e' u
  assume "inspect_candidate fs state_root root ds ws = Inr (c, i)" "Inr e = map_sum id (\<lambda>_. e') u"
    "e' = \<lparr>ev_id = fresh (length es), ev_label = label, ev_source = src, ev_root = c, ev_dirs = ds, ev_identity = i\<rparr>"
  then show ?thesis by (cases u) auto
qed simp

lemma add_settled:
  assumes "registry_settled es" and "settled ds" and "is_ok (validate_label label)"
    and "inspect_candidate fs state_root root ds ws = Inr (c, i)" and "is_absolute c" and "0 \<notin> set c"
    and "tagged_hex32 ''denv_'' x" and "x \<notin> ev_id ` set es" and "c \<notin> ev_root ` set es"
    and "length es < max_developer_environments"
  shows "registry_settled (es @ [\<lparr>ev_id = x, ev_label = label, ev_source = src, ev_root = c, ev_dirs = ds, ev_identity = i\<rparr>])"
  using assms inspect_candidate_ok(3) [OF assms(4)]
  by (auto simp: registry_settled_def registry_ok_def environment_ok_def filesystem_identity_ok)

lemma listed_entry_checked:
  assumes "list_environments fs f = Inr es" and "e \<in> set es"
  shows "fs_realpath fs (ev_root e) = Io_Ok (ev_root e) \<and> (\<exists>m i. fs_stat fs (ev_root e) = Io_Ok m
    \<and> private_directory m \<and> filesystem_identity_of (md_dev m) (md_ino m) = Inr i \<and> same_identity i (ev_identity e))"
  using assms by (auto simp: list_environments_def guard_eq_Inr revalidate_all_ok list_all_iff revalidate_entry_ok)

definition absolute_realpaths :: "filesystem \<Rightarrow> bool" where
  "absolute_realpaths fs \<longleftrightarrow> (\<forall>p c. fs_realpath fs p = Io_Ok c \<longrightarrow> is_absolute c \<and> 0 \<notin> set c)"

text \<open>What the files of a registry can be after a write of \<open>es @ [e]\<close> over \<open>es\<close>.\<close>

lemma add_environment_read:
  assumes "add_environment fs state_root fresh fault root dirs label src ws f = (r, f')"
    and "read_environments f = Inr es" and "registry_settled es" and "settled dirs" and "absolute_realpaths fs"
    and "tagged_hex32 ''denv_'' (fresh (length es))" and "fresh (length es) \<notin> ev_id ` set es"
  shows "(\<exists>err. r = Inl err \<and> read_environments f' = Inr es) \<or> (\<exists>e. registry_settled (es @ [e])
     \<and> fs_realpath fs root = Io_Ok (ev_root e) \<and> clear_of fs state_root ws (ev_root e) \<and> ev_dirs e = dirs \<and> ev_label e = label
     \<and> ((r = Inr e \<and> read_environments f' = Inr (es @ [e])) \<or> (\<exists>err. r = Inl err \<and> fault = After_Rename \<and> read_environments f' = Inr (es @ [e]))))"
  using add_environment_written [OF assms(1)]
proof (elim disjE exE conjE)
  fix err assume "r = Inl err" "f' = f"
  then show ?thesis using assms(2) by blast
next
  fix es' ds c i e u
  assume rd: "read_environments f = Inr es'" and l: "is_ok (validate_label label)"
    and v: "validate_executable_dirs dirs = Inr ds" and n: "length es' < max_developer_environments"
    and ic: "inspect_candidate fs state_root root ds ws = Inr (c, i)" and c: "c \<notin> ev_root ` set es'"
    and e: "e = \<lparr>ev_id = fresh (length es'), ev_label = label, ev_source = src, ev_root = c, ev_dirs = ds, ev_identity = i\<rparr>"
    and w: "write_environments fault (es' @ [e]) f = (u, f')" and r: "r = map_sum id (\<lambda>_. e) u"
  have es: "es' = es" and ds: "ds = dirs" using rd v assms(2,4) by (simp_all add: settled_def)
  have "is_absolute c" "0 \<notin> set c"
    using inspect_candidate_ok(1) [OF ic] assms(5) by (auto simp: absolute_realpaths_def)
  then have ok: "registry_settled (es @ [e])"
    using add_settled [OF assms(3,4) l ic [unfolded ds] _ _ assms(6,7) c [unfolded es] n [unfolded es]] e es ds by simp
  have "read_environments f' \<in> {Inr es, Inr (es @ [e])}" "u = Inr () \<Longrightarrow> read_environments f' = Inr (es @ [e])"
    using write_environments_read [OF ok w [unfolded es]] assms(2) by auto
  moreover have "fault \<noteq> After_Rename \<Longrightarrow> u = Inl err \<Longrightarrow> read_environments f' = Inr es" for err
    using write_environments_failed w assms(2) by metis
  ultimately show ?thesis
    using ok e r ds inspect_candidate_ok(1,2) [OF ic] by (cases u) auto
qed

section \<open>A sample file system\<close>

definition sample_tools :: filesystem where
  "sample_tools = \<lparr>fs_realpath = (\<lambda>p. if starts_with p [47] \<and> 0 \<notin> set p then Io_Ok p else Io_Missing),
     fs_stat = (\<lambda>_. Io_Ok \<lparr>md_mode = 0x41ED, md_uid = 1000, md_gid = 1000, md_dev = 0x802, md_ino = 7,
       md_is_dir = True, md_is_file = False\<rparr>),
     fs_opens_dir = (\<lambda>_. True), fs_join = (\<lambda>a b. a @ (if starts_with b [47] then b else 47 # b)),
     fs_resolve = (\<lambda>p. p)\<rparr>"

definition sample_denv_id :: "nat \<Rightarrow> jsstring" where
  "sample_denv_id n = js ''denv_'' @ replicate 32 97"

definition sample_environment :: environment_entry where
  "sample_environment = \<lparr>ev_id = sample_denv_id 0, ev_label = [84], ev_source = Operator, ev_root = [47, 116],
     ev_dirs = [[98]], ev_identity = \<lparr>device_major = 8, device_minor = 2, inode = decimal 7\<rparr>\<rparr>"

lemma sample_paths: "absolute_realpaths sample_tools"
  by (auto simp: absolute_realpaths_def sample_tools_def is_absolute_def split: if_splits)

lemma sample_dirs_settled: "settled [[98]]"
  by (simp add: settled_def validate_executable_dirs_def max_developer_executable_dirs_def dir_acceptable_def
      is_absolute_def starts_with_def path_components_def normalize_dir_def ends_with_def)

lemma sample_denv_id_ok: "tagged_hex32 ''denv_'' (sample_denv_id n)"
  by (simp add: tagged_hex32_def sample_denv_id_def exactly_def list_all_iff is_lower_hex_def)

lemma sample_add: "add_environment sample_tools [47, 115] sample_denv_id No_Fault [47, 116] [[98]] [84] Operator [[47, 119]] Absent
  = (Inr sample_environment, Content (Some (environments_json [sample_environment])))"
proof -
  have "inspect_candidate sample_tools [47, 115] [47, 116] [[98]] [[47, 119]]
      = Inr ([47, 116], \<lparr>device_major = 8, device_minor = 2, inode = decimal 7\<rparr>)"
    by (simp add: inspect_candidate_def realpath_of_def sample_tools_def starts_with_def paths_overlap_def
        is_beneath_or_equal_def canonicalize_existing_or_resolve_def safe_directory_def safe_stat_def
        explicit_root_mode_is_safe_def filesystem_identity_total device_major_of_def device_minor_of_def)
  moreover have "validate_label [84] = Inr ()"
    by (simp add: validate_label_def byte_length_ascii max_developer_environment_label_bytes_def)
  ultimately show ?thesis
    using sample_dirs_settled
    by (simp add: add_environment_def settled_def read_environments_def read_file_def max_developer_environments_def write_environments_def
        write_file_def sample_environment_def)
qed

text \<open>
  C37. A directory is registered under exactly the conditions \<open>add\<close> checks. Let the registry file be
  readable and settled, that is, the directory lists of its entries are their own normal form, and let
  the directories asked for be settled too (without this a later read of the file can fail, as
  \<open>unsettled_add_loses_registry\<close> shows); let canonical paths be absolute and the identifier well-formed
  and fresh. Then, after \<open>add\<close> returned an entry, the file reads as before with that entry appended,
  which has the label and directories asked for; its root is the canonical path of the requested
  directory and overlaps neither the private state nor any trusted workspace, no two
  entries share an identifier or a root and there are at most 32. When \<open>add\<close> fails, the file still
  reads, and holds the old entries or, if the failure came after the rename, the new one as well.
\<close>

theorem add_environment_outcome:
  assumes "add_environment fs state_root fresh fault root dirs label src ws f = (r, f')"
    and "read_environments f = Inr es" and "registry_settled es" and "settled dirs" and "absolute_realpaths fs"
    and "tagged_hex32 ''denv_'' (fresh (length es))" and "fresh (length es) \<notin> ev_id ` set es"
  shows "case r of
      Inr e \<Rightarrow> read_environments f' = Inr (es @ [e]) \<and> registry_settled (es @ [e])
        \<and> fs_realpath fs root = Io_Ok (ev_root e) \<and> clear_of fs state_root ws (ev_root e)
        \<and> ev_dirs e = dirs \<and> ev_label e = label
    | Inl _ \<Rightarrow> (\<exists>es'. read_environments f' = Inr es' \<and> registry_settled es'
        \<and> (es' = es \<or> fault = After_Rename \<and> butlast es' = es))"
  using add_environment_read [OF assms] assms(3) by fastforce

theorem add_environment_outcome_witness:
  "read_environments (Content (Some (environments_json [sample_environment]))) = Inr ([] @ [sample_environment])
    \<and> registry_settled ([] @ [sample_environment])
    \<and> fs_realpath sample_tools [47, 116] = Io_Ok (ev_root sample_environment)
    \<and> clear_of sample_tools [47, 115] [[47, 119]] (ev_root sample_environment)"
  using add_environment_outcome [OF sample_add _ _ sample_dirs_settled sample_paths sample_denv_id_ok, of "[]"]
  by (simp add: read_environments_def read_file_def registry_settled_def registry_ok_def sample_dirs_settled)

text \<open>
  C36. A listed environment is the directory that was registered: if \<open>list\<close> answers with an entry \<open>add\<close>
  returned, however many changes of the file system lie between, its path is still canonical, it is
  still a directory only its owner can change, and it lies on the same device with the same inode
  number. The numbers the registry keeps lose nothing of the 64-bit device number.
\<close>

theorem listed_environment_is_the_added_one:
  assumes "add_environment fs state_root fresh fault root dirs label src ws f = (Inr e, f')"
    and "list_environments fs' g = Inr es" and "e \<in> set es"
  shows "\<exists>m m'. fs_stat fs (ev_root e) = Io_Ok m \<and> fs_stat fs' (ev_root e) = Io_Ok m'
    \<and> md_dev m' = md_dev m \<and> md_ino m' = md_ino m \<and> private_directory m'
    \<and> fs_realpath fs' (ev_root e) = Io_Ok (ev_root e)"
proof -
  obtain m where m: "fs_stat fs (ev_root e) = Io_Ok m" "filesystem_identity_of (md_dev m) (md_ino m) = Inr (ev_identity e)"
  proof -
    assume *: "\<And>m. fs_stat fs (ev_root e) = Io_Ok m \<Longrightarrow>
      filesystem_identity_of (md_dev m) (md_ino m) = Inr (ev_identity e) \<Longrightarrow> thesis"
    obtain ds where "inspect_candidate fs state_root root ds ws = Inr (ev_root e, ev_identity e)"
      using add_environment_inspected [OF assms(1)] by blast
    from inspect_candidate_ok(3) [OF this] * show thesis by blast
  qed
  obtain m' i where m': "fs_stat fs' (ev_root e) = Io_Ok m'" "private_directory m'"
      "filesystem_identity_of (md_dev m') (md_ino m') = Inr i" "same_identity i (ev_identity e)"
    using listed_entry_checked [OF assms(2,3)] by blast
  then show ?thesis
    using m listed_entry_checked [OF assms(2,3)] same_identity_iff [OF m'(3) m(2)] by blast
qed

theorem listed_environment_is_the_added_one_witness:
  "\<exists>m m'. fs_stat sample_tools (ev_root sample_environment) = Io_Ok m
    \<and> fs_stat sample_tools (ev_root sample_environment) = Io_Ok m'
    \<and> md_dev m' = md_dev m \<and> md_ino m' = md_ino m \<and> private_directory m'
    \<and> fs_realpath sample_tools (ev_root sample_environment) = Io_Ok (ev_root sample_environment)"
proof (rule listed_environment_is_the_added_one [OF sample_add])
  have "registry_settled [sample_environment]"
    using add_environment_read [OF sample_add _ _ sample_dirs_settled sample_paths sample_denv_id_ok, of "[]"]
    by (auto simp: read_environments_def read_file_def registry_settled_def registry_ok_def)
  then have "read_environments (Content (Some (environments_json [sample_environment]))) = Inr [sample_environment]"
    by (simp add: read_environments_def read_file_def environment_doc.parse_to_content)
  moreover have "revalidate_entry sample_tools sample_environment = Inr ()"
    by (simp add: revalidate_entry_ok sample_tools_def sample_environment_def starts_with_def private_directory_def
        explicit_root_mode_is_safe_def filesystem_identity_total device_major_of_def device_minor_of_def same_identity_def)
  ultimately show "list_environments sample_tools (Content (Some (environments_json [sample_environment])))
      = Inr [sample_environment]"
    by (simp add: list_environments_def)
qed simp

section \<open>Registries that cannot be read again\<close>

text \<open>An entry whose directories are not settled is written but not read back as it was.\<close>

lemma parse_unsettled:
  "environment_ok e \<Longrightarrow> validate_executable_dirs (ev_dirs e) = Inl err \<Longrightarrow> parse_environment (environment_json e) = Inl err"
  by (auto simp: parse_environment_def environment_json_def environment_ok_def same_keys_def is_ok_iff)

lemma slashed_directory_is_unsettled:
  "validate_executable_dirs [js ''.//bin''] = Inr [js ''/bin'']"
  "validate_executable_dirs [js ''/bin''] = Inl Env_Registry_Invalid"
  by (simp_all add: js_def validate_executable_dirs_def max_developer_executable_dirs_def dir_acceptable_def
      is_absolute_def starts_with_def path_components_def normalize_dir_def ends_with_def)

lemma unsettled_add_loses_registry:
  assumes "add_environment fs state_root fresh No_Fault root dirs label src ws Absent = (Inr e, f')"
    and "validate_executable_dirs dirs = Inr ds" and "validate_executable_dirs ds = Inl err"
    and "absolute_realpaths fs" and "tagged_hex32 ''denv_'' (fresh 0)"
  shows "read_environments f' = Inl err"
  using add_environment_written [OF assms(1)]
proof (elim disjE exE conjE)
  fix es ds' c i e' u
  assume rd: "read_environments Absent = Inr es" and l: "is_ok (validate_label label)"
    and v: "validate_executable_dirs dirs = Inr ds'" and ic: "inspect_candidate fs state_root root ds' ws = Inr (c, i)"
    and e: "e' = \<lparr>ev_id = fresh (length es), ev_label = label, ev_source = src, ev_root = c, ev_dirs = ds', ev_identity = i\<rparr>"
    and w: "write_environments No_Fault (es @ [e']) Absent = (u, f')"
  have es: "es = []" using rd by (simp add: read_environments_def read_file_def)
  have "environment_ok e'"
    using l e es ic inspect_candidate_ok(1,3) [OF ic] assms(4,5)
    by (auto simp: environment_ok_def absolute_realpaths_def filesystem_identity_ok)
  then have "parse_environment (environment_json e') = Inl err"
    using parse_unsettled v e assms(2,3) by simp
  then show ?thesis
    using w es
    by (auto simp: write_environments_def write_file_def read_environments_def read_file_def
        parse_environments_def environments_json_def schema_one_def same_keys_def max_developer_environments_def)
qed simp

lemma twin_bootstrap_loses_registry:
  assumes "\<And>r. r \<in> {n, q} \<Longrightarrow> inspect_candidate fs state_root r [js ''bin''] ws = Inr (c, i)"
    and "ensure_bootstrap fs state_root fresh No_Fault (Some n) (Some q) ws Absent = (r, f')"
  shows "r = Inr () \<and> \<not> is_ok (read_environments f')"
proof -
  let ?e = "\<lambda>l k. \<lparr>ev_id = fresh k, ev_label = js l, ev_source = Bootstrap, ev_root = c, ev_dirs = [js ''bin''], ev_identity = i\<rparr>"
  have "js ''Node runtime'' \<noteq> js ''Rust stable toolchain''" by (simp add: js_def)
  then have "(r, f') = (Inr (), Content (Some (environments_json [?e ''Node runtime'' 0, ?e ''Rust stable toolchain'' 1])))"
    using assms by (simp add: ensure_bootstrap_def bootstrap_candidate_def read_environments_def read_file_def
        max_developer_environments_def write_environments_def write_file_def)
  moreover have "\<not> is_ok (parse_environments (Some (environments_json es)))" if "\<not> distinct (map ev_root es)" for es
  proof
    assume "is_ok (parse_environments (Some (environments_json es)))"
    then obtain out where out: "map_res parse_environment (map environment_json es) = Inr out" "distinct (map ev_root out)"
      by (auto simp: is_ok_iff parse_environments_def environments_json_def schema_one_def same_keys_def
          guard_eq_Inr has_dup_iff split: if_splits)
    have "map ev_root out = map ev_root es"
      using out(1)
    proof (induction es arbitrary: out)
      case (Cons e es)
      then show ?case
        by (auto simp: guard_eq_Inr parse_environment_def environment_json_def split: option.splits if_splits)
    qed simp
    then show False using that out(2) by simp
  qed
  ultimately show ?thesis by (simp add: read_environments_def read_file_def)
qed

end
