(* ===== verification/Provider_Address.thy ===== *)
theory Provider_Address
  imports Json
begin

text \<open>
  \<open>packages/capabilities/src/provider-gateway/network-policy.ts\<close>: which of the addresses a name
  resolves to a provider may be reached at. \<open>isIP\<close> and \<open>BlockList\<close> of \<open>node:net\<close> are modelled: an
  address text is read to the 128-bit number \<open>BlockList\<close> compares, an IPv4 address as the
  IPv4-mapped IPv6 address of the same number, so that a subnet of \<open>p\<close> IPv4 bits fixes \<open>p + 96\<close> bits.
\<close>

section \<open>Errors of the gateway\<close>

text \<open>\<open>Other_Failure\<close> stands for every thrown value that is no \<open>CapabilityError\<close> with a provider code.\<close>

datatype provider_error =
    Input_Invalid
  | State_Invalid
  | Not_Admitted
  | Provider_Disabled
  | Identity_Changed
  | Credential_Unavailable
  | Credential_Rejected
  | Network_Denied
  | Provider_Unavailable
  | Provider_Timeout
  | Provider_Cancelled
  | Rate_Limited
  | Response_Invalid
  | Output_Limit_Exceeded
  | Tool_Unavailable
  | Inventory_Changed
  | Request_Failed
  | Mutation_Outcome_Unknown
  | Audit_Unavailable
  | Other_Failure

section \<open>Address texts\<close>

text \<open>One to three digits without a leading zero, at most 255.\<close>

definition octet_value :: "jsstring \<Rightarrow> nat option" where
  "octet_value s =
     (if s \<noteq> [] \<and> length s \<le> 3 \<and> list_all is_digit s \<and> (hd s = 48 \<longrightarrow> length s = 1) \<and> digits_value s \<le> 255
      then Some (digits_value s) else None)"

definition parse_ipv4 :: "jsstring \<Rightarrow> nat list option" where
  "parse_ipv4 s = (let os = map octet_value (split_on 46 s) in
     if length os = 4 \<and> None \<notin> set os then Some (map the os) else None)"

definition hex_value :: "nat \<Rightarrow> nat" where
  "hex_value u = (if is_digit u then u - 48 else if is_lower u then u - 87 else u - 55)"

definition hextet_value :: "jsstring \<Rightarrow> nat option" where
  "hextet_value s =
     (if s \<noteq> [] \<and> length s \<le> 4 \<and> list_all is_hex s then Some (foldl (\<lambda>a u. 16 * a + hex_value u) 0 s) else None)"

text \<open>The groups between colons; the last one may be an IPv4 address, which stands for two.\<close>

fun groups_value :: "bool \<Rightarrow> jsstring list \<Rightarrow> nat list option" where
  "groups_value v4 [] = Some []"
| "groups_value v4 [g] =
     (if v4 \<and> 46 \<in> set g
      then (case parse_ipv4 g of Some [a, b, c, d] \<Rightarrow> Some [256 * a + b, 256 * c + d] | _ \<Rightarrow> None)
      else map_option (\<lambda>v. [v]) (hextet_value g))"
| "groups_value v4 (g # h # gs) =
     (case (hextet_value g, groups_value v4 (h # gs)) of (Some v, Some vs) \<Rightarrow> Some (v # vs) | _ \<Rightarrow> None)"

text \<open>The first \<open>::\<close> of a text, with what stands before and after it.\<close>

fun split_gap :: "jsstring \<Rightarrow> (jsstring \<times> jsstring) option" where
  "split_gap (u # v # s) =
     (if u = 58 \<and> v = 58 then Some ([], s) else map_option (\<lambda>(l, r). (u # l, r)) (split_gap (v # s)))"
| "split_gap s = None"

definition side_groups :: "bool \<Rightarrow> jsstring \<Rightarrow> nat list option" where
  "side_groups v4 s = (if s = [] then Some [] else groups_value v4 (split_on 58 s))"

definition parse_ipv6_body :: "jsstring \<Rightarrow> nat list option" where
  "parse_ipv6_body s = (case split_gap s of
     None \<Rightarrow> (case groups_value True (split_on 58 s) of
         Some gs \<Rightarrow> if length gs = 8 then Some gs else None | None \<Rightarrow> None)
   | Some (l, r) \<Rightarrow> (case (side_groups False l, side_groups True r) of
         (Some xs, Some ys) \<Rightarrow>
           if length xs + length ys \<le> 7 then Some (xs @ replicate (8 - length xs - length ys) 0 @ ys) else None
       | _ \<Rightarrow> None))"

text \<open>A zone after \<open>%\<close> is part of the text of an address and not of its number.\<close>

definition parse_ipv6 :: "jsstring \<Rightarrow> nat list option" where
  "parse_ipv6 s = (case index_of 37 0 s of
     None \<Rightarrow> parse_ipv6_body s
   | Some i \<Rightarrow>
       if drop (i + 1) s \<noteq> [] \<and> list_all (\<lambda>u. is_alnum u \<or> u = 45 \<or> u = 46 \<or> u = 58) (drop (i + 1) s)
       then parse_ipv6_body (take i s) else None)"

definition is_ip :: "jsstring \<Rightarrow> nat" where
  "is_ip s = (if parse_ipv4 s \<noteq> None then 4 else if parse_ipv6 s \<noteq> None then 6 else 0)"

definition number_of_digits :: "nat \<Rightarrow> nat list \<Rightarrow> nat" where
  "number_of_digits b = foldl (\<lambda>a d. b * a + d) 0"

definition ipv4_number :: "nat list \<Rightarrow> nat" where
  "ipv4_number os = 0xFFFF * 2 ^ 32 + number_of_digits 256 os"

definition ipv6_number :: "nat list \<Rightarrow> nat" where
  "ipv6_number gs = number_of_digits 65536 gs"

section \<open>The policy\<close>

definition denied_v4_subnets :: "(nat list \<times> nat) list" where
  "denied_v4_subnets = [([0, 0, 0, 0], 8), ([10, 0, 0, 0], 8), ([100, 64, 0, 0], 10), ([127, 0, 0, 0], 8),
     ([169, 254, 0, 0], 16), ([172, 16, 0, 0], 12), ([192, 0, 0, 0], 24), ([192, 168, 0, 0], 16),
     ([198, 18, 0, 0], 15), ([224, 0, 0, 0], 4), ([240, 0, 0, 0], 4)]"

definition denied_v6_subnets :: "(nat list \<times> nat) list" where
  "denied_v6_subnets = [([0, 0, 0, 0, 0, 0, 0, 0], 128), ([0, 0, 0, 0, 0, 0, 0, 1], 128),
     ([0xFC00, 0, 0, 0, 0, 0, 0, 0], 7), ([0xFE80, 0, 0, 0, 0, 0, 0, 0], 10), ([0xFF00, 0, 0, 0, 0, 0, 0, 0], 8)]"

definition denied_provider_addresses :: "(nat \<times> nat) list" where
  "denied_provider_addresses = map (\<lambda>(os, p). (ipv4_number os, p + 96)) denied_v4_subnets
     @ map (\<lambda>(gs, p). (ipv6_number gs, p)) denied_v6_subnets"

definition in_subnet :: "nat \<Rightarrow> nat \<times> nat \<Rightarrow> bool" where
  "in_subnet a net = (case net of (n, p) \<Rightarrow> a div 2 ^ (128 - p) = n div 2 ^ (128 - p))"

definition blocked :: "nat \<Rightarrow> bool" where
  "blocked a = list_ex (in_subnet a) denied_provider_addresses"

record resolved_address =
  ra_address :: jsstring
  ra_family :: nat

definition address_number :: "jsstring \<Rightarrow> nat option" where
  "address_number s = (case parse_ipv4 s of
     Some os \<Rightarrow> Some (ipv4_number os) | None \<Rightarrow> map_option ipv6_number (parse_ipv6 s))"

definition assert_provider_internet_address_allowed :: "resolved_address \<Rightarrow> provider_error + unit" where
  "assert_provider_internet_address_allowed a =
     (if is_ip (ra_address a) \<noteq> ra_family a then Inl Network_Denied
      else if ra_family a = 6 \<and> starts_with (to_lower (ra_address a)) (js ''::ffff:'') then Inl Network_Denied
      else (case address_number (ra_address a) of
          None \<Rightarrow> Inl Other_Failure
        | Some n \<Rightarrow> ensure (\<not> blocked n) Network_Denied))"

fun assert_all_allowed :: "resolved_address list \<Rightarrow> provider_error + unit" where
  "assert_all_allowed [] = Inr ()"
| "assert_all_allowed (a # as) = bind_res (assert_provider_internet_address_allowed a) (\<lambda>_. assert_all_allowed as)"

definition select_provider_internet_address :: "resolved_address list \<Rightarrow> provider_error + resolved_address" where
  "select_provider_internet_address as =
     (if as = [] then Inl Network_Denied
      else bind_res (assert_all_allowed as) (\<lambda>_.
        case find (\<lambda>a. ra_family a = 4) as of Some a \<Rightarrow> Inr a | None \<Rightarrow> Inr (hd as)))"

section \<open>Public addresses\<close>

text \<open>The special ranges of IPv4, by the octets of the address.\<close>

fun special_v4 :: "nat list \<Rightarrow> bool" where
  "special_v4 [a, b, c, d] = (a = 0 \<or> a = 10 \<or> a = 127 \<or> 224 \<le> a \<or> (a = 100 \<and> 64 \<le> b \<and> b < 128)
     \<or> (a = 169 \<and> b = 254) \<or> (a = 172 \<and> 16 \<le> b \<and> b < 32) \<or> (a = 192 \<and> (b = 168 \<or> (b = 0 \<and> c = 0)))
     \<or> (a = 198 \<and> (b = 18 \<or> b = 19)))"
| "special_v4 _ = True"

text \<open>
  The special ranges of IPv6, by the groups of the address: unspecified, loopback, unique local,
  link local, multicast, and the IPv4-mapped form of a special IPv4 address.
\<close>

fun special_v6 :: "nat list \<Rightarrow> bool" where
  "special_v6 [a, b, c, d, e, f, g, h] = (a div 512 = 0xFC00 div 512 \<or> a div 64 = 0xFE80 div 64 \<or> a div 256 = 0xFF
     \<or> (a = 0 \<and> b = 0 \<and> c = 0 \<and> d = 0 \<and> e = 0 \<and> (f = 0 \<and> g = 0 \<and> h \<le> 1
        \<or> f = 0xFFFF \<and> special_v4 [g div 256, g mod 256, h div 256, h mod 256])))"
| "special_v6 _ = True"

definition public_address :: "jsstring \<Rightarrow> bool" where
  "public_address s = (case parse_ipv4 s of
     Some os \<Rightarrow> \<not> special_v4 os
   | None \<Rightarrow> (case parse_ipv6 s of Some gs \<Rightarrow> \<not> special_v6 gs | None \<Rightarrow> False))"

lemma octet_value_bound: "octet_value s = Some n \<Longrightarrow> n < 256"
  by (auto simp: octet_value_def split: if_splits)

lemma four_elements: "length xs = 4 \<Longrightarrow> \<exists>a b c d. xs = [a, b, c, d]"
  by (auto simp: length_Suc_conv numeral_eq_Suc)

lemma parse_ipv4_shape:
  assumes "parse_ipv4 s = Some os"
  shows "\<exists>a b c d. os = [a, b, c, d] \<and> a < 256 \<and> b < 256 \<and> c < 256 \<and> d < 256"
proof -
  have "length (split_on 46 s) = 4" "None \<notin> set (map octet_value (split_on 46 s))"
    and os: "os = map the (map octet_value (split_on 46 s))"
    using assms by (auto simp: parse_ipv4_def Let_def split: if_splits)
  moreover from this(1) obtain p q r t where "split_on 46 s = [p, q, r, t]"
    using four_elements by blast
  moreover have "the (octet_value u) < 256" if "None \<noteq> octet_value u" for u
    using that octet_value_bound [of u] by force
  ultimately show ?thesis by simp
qed

lemma hex_value_bound: "is_hex u \<Longrightarrow> hex_value u < 16"
  by (auto simp: is_hex_def is_lower_hex_def is_digit_def hex_value_def is_lower_def)

lemma hextet_bound: "hextet_value s = Some v \<Longrightarrow> v < 65536"
proof -
  have step: "list_all is_hex t \<Longrightarrow> foldl (\<lambda>a u. 16 * a + hex_value u) x t < (x + 1) * 16 ^ length t" for t x
  proof (induction t arbitrary: x)
    case (Cons u t)
    have "foldl (\<lambda>a u. 16 * a + hex_value u) (16 * x + hex_value u) t < (16 * x + hex_value u + 1) * 16 ^ length t"
      using Cons by simp
    also have "\<dots> \<le> (16 * (x + 1)) * 16 ^ length t"
      using Cons.prems hex_value_bound [of u] by (intro mult_right_mono) auto
    finally show ?case by (simp add: algebra_simps)
  qed simp
  assume "hextet_value s = Some v"
  then have "v < 16 ^ length s" "length s \<le> 4"
    using step [of s 0] by (auto simp: hextet_value_def split: if_splits)
  then have "v < 16 ^ 4" using power_increasing [of "length s" 4 "16 :: nat"] by simp
  then show "v < 65536" by simp
qed

lemma groups_value_bound: "groups_value v4 gs = Some vs \<Longrightarrow> list_all (\<lambda>v. v < 65536) vs"
proof (induction v4 gs arbitrary: vs rule: groups_value.induct)
  case (2 v4 g)
  show ?case
  proof (cases "v4 \<and> 46 \<in> set g")
    case True
    then obtain os where os: "parse_ipv4 g = Some os" using 2 by (auto split: option.splits)
    then obtain a b c d where "os = [a, b, c, d]" "a < 256" "b < 256" "c < 256" "d < 256"
      using parse_ipv4_shape by blast
    then show ?thesis using 2 True os by auto
  next
    case False
    then show ?thesis using 2 hextet_bound [of g] by auto
  qed
qed (auto dest: hextet_bound split: option.splits)

lemma parse_ipv6_shape: "parse_ipv6 s = Some gs \<Longrightarrow> length gs = 8 \<and> list_all (\<lambda>v. v < 65536) gs"
proof -
  have "parse_ipv6_body t = Some gs \<Longrightarrow> length gs = 8 \<and> list_all (\<lambda>v. v < 65536) gs" for t
    by (auto simp: parse_ipv6_body_def side_groups_def list_all_iff
        dest!: groups_value_bound split: option.splits if_splits prod.splits)
  then show "parse_ipv6 s = Some gs \<Longrightarrow> ?thesis"
    by (auto simp: parse_ipv6_def split: option.splits if_splits)
qed

lemma eight_elements: "length xs = 8 \<Longrightarrow> \<exists>a b c d e f g h. xs = [a, b, c, d, e, f, g, h]"
  by (auto simp: length_Suc_conv numeral_eq_Suc)

text \<open>A subnet that ends inside the upper digits of a number does not look at the lower ones.\<close>

lemma div_drops_digit: "d < 256 \<Longrightarrow> (256 * x + d) div 2 ^ (8 + k) = x div (2 :: nat) ^ k"
  by (simp add: power_add div_mult2_eq)

lemma upper_digits:
  fixes a b c d n :: nat
  assumes "b < 256" and "c < 256" and "d < 256"
  defines "n \<equiv> 0xFFFF * 2 ^ 32 + (((a * 256 + b) * 256 + c) * 256 + d)"
  shows "n div 2 ^ (24 + k) = (0xFFFF * 256 + a) div 2 ^ k"
    and "n div 2 ^ (16 + k) = ((0xFFFF * 256 + a) * 256 + b) div 2 ^ k"
    and "n div 2 ^ (8 + k) = (((0xFFFF * 256 + a) * 256 + b) * 256 + c) div 2 ^ k"
proof -
  let ?x = "0xFFFF * 256 + a"
  have n: "n = 256 * (256 * (256 * ?x + b) + c) + d" by (simp add: n_def)
  have c: "n div 2 ^ (8 + j) = (256 * (256 * ?x + b) + c) div 2 ^ j" for j
    unfolding n by (rule div_drops_digit [OF assms(3)])
  have b: "n div 2 ^ (16 + j) = (256 * ?x + b) div 2 ^ j" for j
    using c [of "8 + j"] unfolding div_drops_digit [OF assms(2)] by simp
  have a: "n div 2 ^ (24 + j) = ?x div 2 ^ j" for j
    using b [of "8 + j"] unfolding div_drops_digit [OF assms(1)] by simp
  show "n div 2 ^ (24 + k) = ?x div 2 ^ k" by (rule a)
  show "n div 2 ^ (16 + k) = (?x * 256 + b) div 2 ^ k" using b [of k] by (simp add: mult.commute)
  show "n div 2 ^ (8 + k) = ((?x * 256 + b) * 256 + c) div 2 ^ k" using c [of k] by (simp add: mult.commute)
qed

definition mapped_blocked :: "nat \<Rightarrow> bool" where
  "mapped_blocked n \<longleftrightarrow> list_ex (\<lambda>(os, p). in_subnet n (ipv4_number os, p + 96)) denied_v4_subnets"

definition plain_blocked :: "nat \<Rightarrow> bool" where
  "plain_blocked n \<longleftrightarrow> list_ex (\<lambda>(gs, p). in_subnet n (ipv6_number gs, p)) denied_v6_subnets"

lemma blocked_parts: "blocked n \<longleftrightarrow> mapped_blocked n \<or> plain_blocked n"
  by (auto simp: blocked_def denied_provider_addresses_def mapped_blocked_def plain_blocked_def list_ex_iff
      bex_Un case_prod_unfold)

lemma quotient_iff: "0 < m \<Longrightarrow> b div m = k \<longleftrightarrow> m * k \<le> b \<and> b < m * Suc k" for b :: nat
  using div_nat_eqI [of m k b] times_div_less_eq_dividend [of m b] dividend_less_times_div [of m b] by auto

lemma octet_ranges:
  fixes a b c :: nat
  assumes "a < 256" and "b < 256" and "c < 256"
  shows "4 * a + b div 64 = 401 \<longleftrightarrow> a = 100 \<and> 64 \<le> b \<and> b < 128"
    and "256 * a + b = 43518 \<longleftrightarrow> a = 169 \<and> b = 254"
    and "16 * a + b div 16 = 2753 \<longleftrightarrow> a = 172 \<and> 16 \<le> b \<and> b < 32"
    and "256 * a + b = 49320 \<longleftrightarrow> a = 192 \<and> b = 168"
    and "65536 * a + (256 * b + c) = 12582912 \<longleftrightarrow> a = 192 \<and> b = 0 \<and> c = 0"
    and "128 * a + b div 2 = 25353 \<longleftrightarrow> a = 198 \<and> (b = 18 \<or> b = 19)"
    and "a div 16 = 14 \<or> a div 16 = 15 \<longleftrightarrow> 224 \<le> a"
proof -
  have "4 * a + q = 401 \<longleftrightarrow> a = 100 \<and> q = 1" if "q < 4" for q using that by presburger
  from this [of "b div 64"] have "4 * a + b div 64 = 401 \<longleftrightarrow> a = 100 \<and> b div 64 = 1" using assms by simp
  also have "b div 64 = 1 \<longleftrightarrow> 64 \<le> b \<and> b < 128" by (simp add: quotient_iff)
  finally show "4 * a + b div 64 = 401 \<longleftrightarrow> a = 100 \<and> 64 \<le> b \<and> b < 128" .
  show "256 * a + b = 43518 \<longleftrightarrow> a = 169 \<and> b = 254" using assms(2) by presburger
  have "16 * a + q = 2753 \<longleftrightarrow> a = 172 \<and> q = 1" if "q < 16" for q using that by presburger
  from this [of "b div 16"] have "16 * a + b div 16 = 2753 \<longleftrightarrow> a = 172 \<and> b div 16 = 1" using assms by simp
  also have "b div 16 = 1 \<longleftrightarrow> 16 \<le> b \<and> b < 32" by (simp add: quotient_iff)
  finally show "16 * a + b div 16 = 2753 \<longleftrightarrow> a = 172 \<and> 16 \<le> b \<and> b < 32" .
  show "256 * a + b = 49320 \<longleftrightarrow> a = 192 \<and> b = 168" using assms(2) by presburger
  have "256 * x + c = 12582912 \<longleftrightarrow> x = 49152 \<and> c = 0" for x
  proof
    assume eq: "256 * x + c = 12582912"
    have "x = (256 * x + c) div 256" using assms(3) by simp
    then show "x = 49152 \<and> c = 0" using eq by simp
  qed simp
  from this [of "256 * a + b"] have "65536 * a + (256 * b + c) = 12582912 \<longleftrightarrow> 256 * a + b = 49152 \<and> c = 0"
    by (simp add: add.assoc)
  also have "256 * a + b = 49152 \<longleftrightarrow> a = 192 \<and> b = 0" using assms(2) by presburger
  finally show "65536 * a + (256 * b + c) = 12582912 \<longleftrightarrow> a = 192 \<and> b = 0 \<and> c = 0" by simp
  have "128 * a + q = 25353 \<longleftrightarrow> a = 198 \<and> q = 9" if "q < 128" for q using that by presburger
  from this [of "b div 2"] have "128 * a + b div 2 = 25353 \<longleftrightarrow> a = 198 \<and> b div 2 = 9" using assms by simp
  also have "b div 2 = 9 \<longleftrightarrow> b = 18 \<or> b = 19" by (auto simp: quotient_iff)
  finally show "128 * a + b div 2 = 25353 \<longleftrightarrow> a = 198 \<and> (b = 18 \<or> b = 19)" .
  show "a div 16 = 14 \<or> a div 16 = 15 \<longleftrightarrow> 224 \<le> a" using assms(1) by (auto simp: quotient_iff)
qed

lemma mapped_blocked_v4:
  assumes "a < 256" and "b < 256" and "c < 256" and "d < 256"
  shows "mapped_blocked (ipv4_number [a, b, c, d]) \<longleftrightarrow> special_v4 [a, b, c, d]"
proof -
  define n where "n = ipv4_number [a, b, c, d]"
  have n: "n = 0xFFFF * 2 ^ 32 + (((a * 256 + b) * 256 + c) * 256 + d)"
    by (simp add: n_def ipv4_number_def number_of_digits_def)
  note u = upper_digits [OF assms(2-4), of a, folded n]
  have d0: "n div 2 ^ 24 = 16776960 + a" using u(1) [of 0] by simp
  have d4: "n div 2 ^ 28 = 1048560 + a div 16" using u(1) [of 4] by simp
  have e0: "n div 2 ^ 16 = 4294901760 + 256 * a + b" using u(2) [of 0] by (simp add: algebra_simps)
  have e1: "n div 2 ^ 17 = 2147450880 + 128 * a + b div 2" using u(2) [of 1] by simp
  have e4: "n div 2 ^ 20 = 268431360 + 16 * a + b div 16" using u(2) [of 4] by (simp add: algebra_simps)
  have e6: "n div 2 ^ 22 = 67107840 + 4 * a + b div 64" using u(2) [of 6] by (simp add: algebra_simps)
  have f0: "n div 2 ^ 8 = 1099494850560 + 65536 * a + 256 * b + c" using u(3) [of 0] by (simp add: algebra_simps)
  have v4: "in_subnet n (ipv4_number os, p + 96) \<longleftrightarrow> n div 2 ^ (32 - p) = ipv4_number os div 2 ^ (32 - p)" for os p
    by (simp add: in_subnet_def)
  have "list_ex (\<lambda>(os, p). n div 2 ^ (32 - p) = ipv4_number os div 2 ^ (32 - p)) denied_v4_subnets \<longleftrightarrow>
      special_v4 [a, b, c, d]"
    by (simp add: denied_v4_subnets_def ipv4_number_def number_of_digits_def d0 [simplified] d4 [simplified]
        e0 [simplified] e1 [simplified] e4 [simplified] e6 [simplified] f0 [simplified]
        octet_ranges [OF assms(1-3)]) blast
  then show ?thesis unfolding mapped_blocked_def n_def [symmetric] v4 .
qed

lemma blocked_v4:
  assumes "a < 256" and "b < 256" and "c < 256" and "d < 256"
  shows "blocked (ipv4_number [a, b, c, d]) \<longleftrightarrow> special_v4 [a, b, c, d]"
proof -
  have "2 ^ 47 \<le> ipv4_number [a, b, c, d]" "ipv4_number [a, b, c, d] < 2 ^ 48"
    using assms by (simp_all add: ipv4_number_def number_of_digits_def)
  then have "\<not> plain_blocked (ipv4_number [a, b, c, d])"
    by (auto simp: plain_blocked_def denied_v6_subnets_def in_subnet_def ipv6_number_def number_of_digits_def)
  then show ?thesis by (simp add: blocked_parts mapped_blocked_v4 [OF assms])
qed

lemma mapped_blocked_prefix:
  assumes "mapped_blocked n"
  shows "n div 2 ^ 32 = 0xFFFF"
proof -
  obtain os p where net: "(os, p) \<in> set denied_v4_subnets" and eq: "n div 2 ^ (32 - p) = ipv4_number os div 2 ^ (32 - p)"
    using assms by (auto simp: mapped_blocked_def list_ex_iff in_subnet_def)
  then have p: "p \<le> 32" and os: "ipv4_number os div 2 ^ 32 = 0xFFFF"
    by (auto simp: denied_v4_subnets_def ipv4_number_def number_of_digits_def)
  have "m div 2 ^ 32 = m div 2 ^ (32 - p) div 2 ^ p" for m :: nat
    using p by (simp add: div_mult2_eq [symmetric] power_add [symmetric])
  then show ?thesis using eq os by metis
qed

lemma blocked_v6:
  assumes "list_all (\<lambda>v. v < 65536) [a, b, c, d, e, f, g, h]"
  shows "blocked (ipv6_number [a, b, c, d, e, f, g, h]) \<longleftrightarrow> special_v6 [a, b, c, d, e, f, g, h]"
proof -
  define l where "l = ((((((b * 65536 + c) * 65536 + d) * 65536 + e) * 65536 + f) * 65536 + g) * 65536 + h)"
  define n where "n = ipv6_number [a, b, c, d, e, f, g, h]"
  have n: "n = a * 2 ^ 112 + l" by (simp add: n_def l_def ipv6_number_def number_of_digits_def algebra_simps)
  have l: "l < 2 ^ 112" using assms by (simp add: l_def)
  have top: "n div 2 ^ (112 + k) = a div 2 ^ k" for k
    using l by (simp add: n power_add div_mult2_eq)
  have "in_subnet n (ipv6_number [0xFC00, 0, 0, 0, 0, 0, 0, 0], 7) \<longleftrightarrow> a div 512 = 0xFC00 div 512"
    "in_subnet n (ipv6_number [0xFE80, 0, 0, 0, 0, 0, 0, 0], 10) \<longleftrightarrow> a div 64 = 0xFE80 div 64"
    "in_subnet n (ipv6_number [0xFF00, 0, 0, 0, 0, 0, 0, 0], 8) \<longleftrightarrow> a div 256 = 0xFF"
    using top [of 9] top [of 6] top [of 8] by (simp_all add: in_subnet_def ipv6_number_def number_of_digits_def)
  moreover have "in_subnet n (ipv6_number [0, 0, 0, 0, 0, 0, 0, 0], 128) \<longleftrightarrow> n = 0"
    "in_subnet n (ipv6_number [0, 0, 0, 0, 0, 0, 0, 1], 128) \<longleftrightarrow> n = 1"
    by (simp_all add: in_subnet_def ipv6_number_def number_of_digits_def)
  ultimately have v6: "plain_blocked n \<longleftrightarrow>
      a div 512 = 0xFC00 div 512 \<or> a div 64 = 0xFE80 div 64 \<or> a div 256 = 0xFF \<or> n = 0 \<or> n = 1"
    by (auto simp: plain_blocked_def denied_v6_subnets_def)
  have small: "n = 0 \<or> n = 1 \<longleftrightarrow> a = 0 \<and> b = 0 \<and> c = 0 \<and> d = 0 \<and> e = 0 \<and> f = 0 \<and> g = 0 \<and> h \<le> 1"
    by (auto simp: n l_def)
  have "n div 2 ^ 32 = ((((a * 65536 + b) * 65536 + c) * 65536 + d) * 65536 + e) * 65536 + f"
  proof -
    have "n = (((((a * 65536 + b) * 65536 + c) * 65536 + d) * 65536 + e) * 65536 + f) * 2 ^ 32 + (g * 65536 + h)"
      by (simp add: n l_def)
    moreover have "g * 65536 + h < 2 ^ 32" using assms by simp
    ultimately show ?thesis by simp
  qed
  moreover have "x * 65536 + f = 65535 \<longleftrightarrow> x = 0 \<and> f = 65535" for x :: nat
    by (cases x) auto
  ultimately have mapped: "n div 2 ^ 32 = 0xFFFF \<longleftrightarrow> a = 0 \<and> b = 0 \<and> c = 0 \<and> d = 0 \<and> e = 0 \<and> f = 0xFFFF"
    by (simp only: add_is_0 mult_is_0) simp
  have "n = ipv4_number [g div 256, g mod 256, h div 256, h mod 256]" if "n div 2 ^ 32 = 0xFFFF"
    using that unfolding mapped by (simp add: n l_def ipv4_number_def number_of_digits_def)
  moreover have "g div 256 < 256" "g mod 256 < 256" "h div 256 < 256" "h mod 256 < 256" using assms by auto
  note mapped_blocked_v4 [OF this]
  ultimately have "mapped_blocked n \<longleftrightarrow> n div 2 ^ 32 = 0xFFFF \<and> special_v4 [g div 256, g mod 256, h div 256, h mod 256]"
    using mapped_blocked_prefix [of n] by metis
  then show ?thesis
    unfolding n_def [symmetric] blocked_parts v6 mapped small by (simp only: special_v6.simps) blast
qed

section \<open>What a selected address is\<close>

lemma allowed_address:
  assumes "assert_provider_internet_address_allowed a = Inr ()"
  shows "public_address (ra_address a) \<and> is_ip (ra_address a) = ra_family a \<and> ra_family a \<in> {4, 6}"
proof -
  have ip: "is_ip (ra_address a) = ra_family a" and "\<exists>n. address_number (ra_address a) = Some n \<and> \<not> blocked n"
    using assms by (auto simp: assert_provider_internet_address_allowed_def split: if_splits option.splits)
  then obtain n where n: "address_number (ra_address a) = Some n" "\<not> blocked n" by blast
  show ?thesis
  proof (cases "parse_ipv4 (ra_address a)")
    case (Some os)
    then obtain w x y z where "os = [w, x, y, z]" "w < 256" "x < 256" "y < 256" "z < 256"
      using parse_ipv4_shape by blast
    then show ?thesis using n Some ip blocked_v4 [of w x y z]
      by (auto simp: address_number_def public_address_def is_ip_def)
  next
    case None
    then obtain gs where gs: "parse_ipv6 (ra_address a) = Some gs" "n = ipv6_number gs"
      using n by (auto simp: address_number_def)
    then obtain b c d e f g h k where "gs = [b, c, d, e, f, g, h, k]" "list_all (\<lambda>v. v < 65536) gs"
      using parse_ipv6_shape eight_elements by metis
    then show ?thesis using n None ip gs blocked_v6 [of b c d e f g h k]
      by (auto simp: public_address_def is_ip_def)
  qed
qed

lemma assert_all_allowed_iff:
  "assert_all_allowed as = Inr () \<longleftrightarrow> list_all (\<lambda>a. assert_provider_internet_address_allowed a = Inr ()) as"
  by (induction as) (auto simp: bind_res_eq_Inr)

lemma selected_public:
  assumes "select_provider_internet_address as = Inr a"
  shows "a \<in> set as \<and> list_all (\<lambda>b. public_address (ra_address b) \<and> is_ip (ra_address b) = ra_family b) as
    \<and> (\<exists>others rest. as = others @ a # rest \<and> (if ra_family a = 4 then list_all (\<lambda>b. ra_family b \<noteq> 4) others
         else others = [] \<and> list_all (\<lambda>b. ra_family b \<noteq> 4) rest))"
proof -
  have as: "as \<noteq> []" and "assert_all_allowed as = Inr ()"
    and a: "(case find (\<lambda>a. ra_family a = 4) as of Some a \<Rightarrow> a | None \<Rightarrow> hd as) = a"
    using assms by (auto simp: select_provider_internet_address_def bind_res_eq_Inr split: if_splits option.splits)
  then have "list_all (\<lambda>b. public_address (ra_address b) \<and> is_ip (ra_address b) = ra_family b) as"
    using allowed_address by (auto simp: assert_all_allowed_iff list_all_iff)
  moreover have "\<exists>others rest. as = others @ a # rest \<and> (if ra_family a = 4 then list_all (\<lambda>b. ra_family b \<noteq> 4) others
      else others = [] \<and> list_all (\<lambda>b. ra_family b \<noteq> 4) rest)"
  proof (cases "find (\<lambda>a. ra_family a = 4) as")
    case None
    then show ?thesis using as a
      by (intro exI [of _ "[]"] exI [of _ "tl as"]) (cases as; auto simp: find_None_iff list_all_iff)
  next
    case (Some b)
    then have "b = a" using a by simp
    with Some have four: "find (\<lambda>a. ra_family a = 4) as = Some a" by simp
    then obtain n where n: "n < length as" "ra_family (as ! n) = 4" "as ! n = a" "\<forall>k < n. ra_family (as ! k) \<noteq> 4"
      by (auto simp: find_Some_iff)
    then show ?thesis
      by (intro exI [of _ "take n as"] exI [of _ "drop (Suc n) as"])
        (auto simp: id_take_nth_drop [symmetric] list_all_length)
  qed
  moreover from this have "a \<in> set as" by auto
  ultimately show ?thesis by blast
qed

text \<open>
  C16. The gateway only connects to public addresses. An address selected from the answers of a
  lookup is one of them, its text is an IPv4 or IPv6 address of the announced family, and it lies
  in none of the special ranges, given here by octets and groups; the same holds of every other
  answer, so that one private answer rejects the whole lookup. An IPv6 text of a special IPv4
  address is special whatever its notation. IPv4 is preferred: the selected address is the first
  IPv4 answer, or, when no answer is one, the first answer.
\<close>

theorem selected_address_is_public:
  assumes "select_provider_internet_address as = Inr a"
  shows "a \<in> set as \<and> list_all (\<lambda>b. public_address (ra_address b) \<and> is_ip (ra_address b) = ra_family b) as
    \<and> (\<exists>others rest. as = others @ a # rest \<and> (if ra_family a = 4 then list_all (\<lambda>b. ra_family b \<noteq> 4) others
         else others = [] \<and> list_all (\<lambda>b. ra_family b \<noteq> 4) rest))"
  using assms by (rule selected_public)

theorem selected_address_is_public_witness:
  "public_address (js ''8.8.4.4'') \<and> \<not> public_address (js ''10.0.0.1'') \<and> \<not> public_address (js ''fe80::1'')"
proof -
  have "select_provider_internet_address [\<lparr>ra_address = js ''8.8.4.4'', ra_family = 4\<rparr>]
      = Inr \<lparr>ra_address = js ''8.8.4.4'', ra_family = 4\<rparr>"
    by (simp add: select_provider_internet_address_def assert_provider_internet_address_allowed_def is_ip_def
        address_number_def parse_ipv4_def octet_value_def js_def is_digit_def digits_value_def blocked_v4)
  moreover have "replicate 6 (0 :: nat) = [0, 0, 0, 0, 0, 0]" by (simp add: numeral_eq_Suc)
  ultimately show ?thesis
    using selected_address_is_public [of "[\<lparr>ra_address = js ''8.8.4.4'', ra_family = 4\<rparr>]"]
    by (simp add: public_address_def parse_ipv4_def octet_value_def js_def is_digit_def digits_value_def
        parse_ipv6_def index_of_def parse_ipv6_body_def side_groups_def hextet_value_def is_hex_def is_lower_hex_def
        hex_value_def is_lower_def)
qed

end
