(* ===== verification/Provider_Adapter.thy ===== *)
theory Provider_Adapter
  imports Provider_Address
begin

text \<open>
  \<open>packages/capabilities/src/provider-gateway/adapter-registry.ts\<close>: the manifests of provider
  adapters and their compilation into the registry the gateway asks. A manifest is a typed value, so
  the tests of its JavaScript shape (a plain object, an array, a function, no unknown key) are those
  that a value of the record types below always passes; every other test is kept. Schemas are
  functions from a value to the parsed value, the URL parser is an argument.
\<close>

section \<open>Manifests\<close>

type_synonym schema = "json \<Rightarrow> json option"

datatype http_method = Method_Get | Method_Post | Method_Put

record provider_operation =
  op_id :: jsstring
  op_method :: http_method
  op_origin :: jsstring
  op_path_template :: jsstring
  op_query_keys :: "jsstring list"
  op_fixed_headers :: "(jsstring \<times> jsstring) list"
  op_input_schema :: schema
  op_encode :: schema

datatype effect_class = Remote_Read | Remote_Mutation

datatype workspace_binding = Binding_Required | Binding_Optional | Binding_None

datatype retry_policy = Retry_None | Retry_One_Idempotent_Read

record semantic_mapping =
  sm_capability :: jsstring
  sm_adapter :: jsstring
  sm_operation :: jsstring
  sm_effect :: effect_class
  sm_binding :: workspace_binding
  sm_input_schema :: "json option \<Rightarrow> json option"
  sm_output_schema :: schema
  sm_map_output :: "(json \<Rightarrow> json \<Rightarrow> json option) option"
  sm_max_requests :: int
  sm_retry :: retry_policy
  sm_audit_fields :: "jsstring list"

datatype inventory_mode = Inventory_Static | Inventory_Dynamic

datatype credential_kind = Kind_Bearer | Kind_Opaque

datatype broker_policy =
    Policy_None
  | Policy_Helper credential_kind "jsstring list" "(jsstring \<times> jsstring) list"

record redirect_policy =
  rp_from :: jsstring
  rp_to :: jsstring

record adapter_manifest =
  am_adapter :: jsstring
  am_version :: jsstring
  am_digest :: jsstring
  am_inventory :: inventory_mode
  am_origins :: "jsstring list"
  am_redirect :: "redirect_policy option"
  am_broker :: broker_policy
  am_operations :: "provider_operation list"
  am_mappings :: "semantic_mapping list"

definition provider_max_requests :: int where "provider_max_requests = 8"

text \<open>A parsed URL; the text of its query is kept apart from what \<open>searchParams.append\<close> added.\<close>

record provider_url =
  pu_protocol :: jsstring
  pu_origin :: jsstring
  pu_username :: jsstring
  pu_password :: jsstring
  pu_hostname :: jsstring
  pu_port :: jsstring
  pu_pathname :: jsstring
  pu_search :: jsstring
  pu_hash :: jsstring
  pu_appended :: "(jsstring \<times> jsstring) list"

text \<open>\<open>new URL(text, base)\<close>, \<open>None\<close> when it throws.\<close>

type_synonym url_parser = "jsstring \<Rightarrow> provider_url option \<Rightarrow> provider_url option"

section \<open>Validation\<close>

definition is_authority_unit :: "nat \<Rightarrow> bool" where
  "is_authority_unit u = (is_alnum u \<or> u \<in> {46, 95, 58, 43, 45})"

definition require_authority_id :: "nat \<Rightarrow> jsstring \<Rightarrow> provider_error + unit" where
  "require_authority_id max_length v =
     ensure (v \<noteq> [] \<and> is_alnum (hd v) \<and> list_all is_authority_unit (tl v) \<and> length v \<le> max_length) Input_Invalid"

definition fixed_name :: "nat list \<Rightarrow> jsstring \<Rightarrow> bool" where
  "fixed_name extra s = (s \<noteq> [] \<and> length s \<le> 128 \<and> list_all (\<lambda>u. is_alnum u \<or> u \<in> set extra) s)"

definition bare_hostname :: "jsstring \<Rightarrow> jsstring" where
  "bare_hostname h = (if starts_with h [91] \<and> ends_with h [93] then butlast (tl h) else h)"

definition validate_exact_https_origin :: "url_parser \<Rightarrow> jsstring \<Rightarrow> provider_error + unit" where
  "validate_exact_https_origin parse o1 = (case parse o1 None of
     None \<Rightarrow> Inl Input_Invalid
   | Some u \<Rightarrow>
       if pu_protocol u \<noteq> js ''https:'' \<or> pu_origin u \<noteq> o1 \<or> pu_username u \<noteq> [] \<or> pu_password u \<noteq> []
          \<or> pu_pathname u \<noteq> js ''/'' \<or> pu_search u \<noteq> [] \<or> pu_hash u \<noteq> []
       then Inl Input_Invalid
       else ensure (is_ip (bare_hostname (pu_hostname u)) = 0) Input_Invalid)"

fun validate_origins :: "url_parser \<Rightarrow> jsstring list \<Rightarrow> jsstring list \<Rightarrow> provider_error + unit" where
  "validate_origins parse [] seen = Inr ()"
| "validate_origins parse (o1 # os) seen = bind_res (validate_exact_https_origin parse o1) (\<lambda>_.
     if o1 \<in> set seen then Inl Input_Invalid else validate_origins parse os (seen @ [o1]))"

definition validate_network_policy :: "url_parser \<Rightarrow> jsstring list \<Rightarrow> redirect_policy option \<Rightarrow>
    provider_error + unit" where
  "validate_network_policy parse origins redirect =
     (if origins = [] then Inl Input_Invalid
      else bind_res (validate_origins parse origins []) (\<lambda>_. case redirect of
          None \<Rightarrow> Inr ()
        | Some r \<Rightarrow>
            bind_res (validate_exact_https_origin parse (rp_from r)) (\<lambda>_.
            bind_res (validate_exact_https_origin parse (rp_to r)) (\<lambda>_.
            if rp_from r \<notin> set origins \<or> rp_to r \<notin> set origins then Inl Input_Invalid
            else ensure (rp_from r \<noteq> rp_to r) Input_Invalid))))"

definition unfixed_units :: "nat list" where
  "unfixed_units = [123, 125, 0]"

definition environment_key :: "jsstring \<Rightarrow> bool" where
  "environment_key k = (k \<noteq> [] \<and> length k \<le> 64 \<and> is_upper (hd k)
     \<and> list_all (\<lambda>u. is_upper u \<or> is_digit u \<or> u = 95) (tl k))"

definition validate_credential_policy :: "broker_policy \<Rightarrow> provider_error + unit" where
  "validate_credential_policy p = (case p of
     Policy_None \<Rightarrow> Inr ()
   | Policy_Helper k argv env \<Rightarrow>
       if argv = [] then Inl Input_Invalid
       else if \<not> list_all (\<lambda>a. a \<noteq> [] \<and> length a \<le> 4096 \<and> set a \<inter> set unfixed_units = {}) argv then Inl Input_Invalid
       else ensure (list_all (\<lambda>(k, v). environment_key k \<and> length v \<le> 4096 \<and> set v \<inter> set unfixed_units = {}) env)
         Input_Invalid)"

text \<open>\<open>/https?:|\{(?:url|uri|host|hostname|origin|method|headers?)\}/i\<close>.\<close>

definition forbidden_in_template :: "jsstring list" where
  "forbidden_in_template = map js [''http:'', ''https:'', ''{url}'', ''{uri}'', ''{host}'', ''{hostname}'', ''{origin}'',
     ''{method}'', ''{header}'', ''{headers}'']"

definition credential_headers :: "jsstring list" where
  "credential_headers = map js [''authorization'', ''proxy-authorization'', ''cookie'', ''set-cookie'']"

definition header_fixed :: "jsstring \<times> jsstring \<Rightarrow> bool" where
  "header_fixed nv = (case nv of (n, v) \<Rightarrow> fixed_name [45] n \<and> set v \<inter> {123, 125, 13, 10, 0} = {}
     \<and> to_lower n \<notin> set credential_headers)"

definition validate_operation :: "jsstring list \<Rightarrow> provider_operation \<Rightarrow> provider_error + unit" where
  "validate_operation origins p =
     bind_res (require_authority_id 128 (op_id p)) (\<lambda>_.
     if op_origin p \<notin> set origins then Inl Input_Invalid
     else let t = op_path_template p in
       if \<not> starts_with t [47] \<or> starts_with t [47, 47] \<or> 2048 < length t
          \<or> list_ex (includes_str (to_lower t)) forbidden_in_template \<or> 0 \<in> set t
       then Inl Input_Invalid
       else if \<not> list_all (fixed_name [46, 95, 45]) (op_query_keys p) then Inl Input_Invalid
       else ensure (list_all header_fixed (op_fixed_headers p)) Input_Invalid)"

fun validate_operations :: "jsstring list \<Rightarrow> provider_operation list \<Rightarrow> jsstring list \<Rightarrow> provider_error + unit" where
  "validate_operations origins [] seen = Inr ()"
| "validate_operations origins (p # ps) seen = bind_res (validate_operation origins p) (\<lambda>_.
     if op_id p \<in> set seen then Inl Input_Invalid else validate_operations origins ps (seen @ [op_id p]))"

definition validate_manifest_shape :: "url_parser \<Rightarrow> adapter_manifest \<Rightarrow> provider_error + unit" where
  "validate_manifest_shape parse m =
     bind_res (require_authority_id 128 (am_adapter m)) (\<lambda>_.
     bind_res (require_authority_id 64 (am_version m)) (\<lambda>_.
     if \<not> exactly is_lower_hex 64 (am_digest m) then Inl Input_Invalid
     else bind_res (validate_network_policy parse (am_origins m) (am_redirect m)) (\<lambda>_.
       bind_res (validate_credential_policy (am_broker m)) (\<lambda>_.
       validate_operations (am_origins m) (am_operations m) []))))"

definition validate_mapping :: "jsstring \<Rightarrow> jsstring list \<Rightarrow> semantic_mapping \<Rightarrow> provider_error + unit" where
  "validate_mapping adapter owned m =
     bind_res (require_authority_id 128 (sm_capability m)) (\<lambda>_.
     if sm_adapter m \<noteq> adapter then Inl Input_Invalid
     else if sm_operation m \<notin> set owned then Inl Input_Invalid
     else if sm_max_requests m < 1 \<or> provider_max_requests < sm_max_requests m then Inl Input_Invalid
     else if sm_effect m = Remote_Mutation \<and> sm_retry m \<noteq> Retry_None then Inl Input_Invalid
     else if sm_effect m = Remote_Mutation \<and> sm_max_requests m \<noteq> 1 then Inl Input_Invalid
     else ensure (list_all (fixed_name [46, 95, 45]) (sm_audit_fields m) \<and> \<not> has_dup (sm_audit_fields m)) Input_Invalid)"

fun validate_mappings :: "jsstring \<Rightarrow> jsstring list \<Rightarrow> semantic_mapping list \<Rightarrow> provider_error + unit" where
  "validate_mappings adapter owned [] = Inr ()"
| "validate_mappings adapter owned (m # ms) =
     bind_res (validate_mapping adapter owned m) (\<lambda>_. validate_mappings adapter owned ms)"

section \<open>The registry\<close>

record adapter_registry =
  ar_manifests :: "(jsstring \<times> adapter_manifest) list"
  ar_mappings :: "(jsstring \<times> semantic_mapping) list"

fun add_mappings :: "semantic_mapping list \<Rightarrow> (jsstring \<times> semantic_mapping) list \<Rightarrow>
    provider_error + (jsstring \<times> semantic_mapping) list" where
  "add_mappings [] acc = Inr acc"
| "add_mappings (m # ms) acc =
     (if map_of acc (sm_capability m) \<noteq> None then Inl Input_Invalid
      else add_mappings ms (AList.update (sm_capability m) m acc))"

fun compile_manifests :: "url_parser \<Rightarrow> adapter_manifest list \<Rightarrow> adapter_registry \<Rightarrow>
    provider_error + adapter_registry" where
  "compile_manifests parse [] r = Inr r"
| "compile_manifests parse (m # ms) r =
     bind_res (validate_manifest_shape parse m) (\<lambda>_.
     if map_of (ar_manifests r) (am_adapter m) \<noteq> None then Inl Input_Invalid
     else bind_res (validate_mappings (am_adapter m) (map op_id (am_operations m)) (am_mappings m)) (\<lambda>_.
       bind_res (add_mappings (am_mappings m) (ar_mappings r)) (\<lambda>mps.
       compile_manifests parse ms
         \<lparr>ar_manifests = AList.update (am_adapter m) m (ar_manifests r), ar_mappings = mps\<rparr>)))"

definition new_registry :: "url_parser \<Rightarrow> adapter_manifest list \<Rightarrow> provider_error + adapter_registry" where
  "new_registry parse ms = compile_manifests parse ms \<lparr>ar_manifests = [], ar_mappings = []\<rparr>"

definition list_manifests :: "(jsstring \<Rightarrow> jsstring \<Rightarrow> bool) \<Rightarrow> adapter_registry \<Rightarrow> adapter_manifest list" where
  "list_manifests locale_le r =
     sort_by (\<lambda>a b. locale_le (am_adapter a) (am_adapter b)) (map snd (ar_manifests r))"

definition require_manifest :: "adapter_registry \<Rightarrow> jsstring \<Rightarrow> provider_error + adapter_manifest" where
  "require_manifest r i = (case map_of (ar_manifests r) i of None \<Rightarrow> Inl Input_Invalid | Some m \<Rightarrow> Inr m)"

definition require_mapping :: "adapter_registry \<Rightarrow> jsstring \<Rightarrow> provider_error + semantic_mapping" where
  "require_mapping r i = (case map_of (ar_mappings r) i of None \<Rightarrow> Inl Tool_Unavailable | Some m \<Rightarrow> Inr m)"

section \<open>What a compiled registry guarantees\<close>

text \<open>What a gateway relies on in an operation, a mapping and a manifest.\<close>

definition operation_ok :: "adapter_manifest \<Rightarrow> provider_operation \<Rightarrow> bool" where
  "operation_ok m p \<longleftrightarrow> op_origin p \<in> set (am_origins m) \<and> starts_with (op_path_template p) [47]
     \<and> (\<forall>(n, v) \<in> set (op_fixed_headers p). to_lower n \<notin> set credential_headers \<and> 13 \<notin> set v \<and> 10 \<notin> set v)"

definition mapping_ok :: "adapter_manifest \<Rightarrow> semantic_mapping \<Rightarrow> bool" where
  "mapping_ok m s \<longleftrightarrow> sm_adapter s = am_adapter m \<and> sm_operation s \<in> op_id ` set (am_operations m)
     \<and> 1 \<le> sm_max_requests s \<and> sm_max_requests s \<le> 8
     \<and> (sm_effect s = Remote_Mutation \<longrightarrow> sm_retry s = Retry_None \<and> sm_max_requests s = 1)"

definition origin_ok :: "url_parser \<Rightarrow> jsstring \<Rightarrow> bool" where
  "origin_ok parse o1 \<longleftrightarrow> (\<exists>u. parse o1 None = Some u \<and> pu_protocol u = js ''https:'' \<and> pu_origin u = o1
     \<and> is_ip (bare_hostname (pu_hostname u)) = 0)"

definition manifest_ok :: "url_parser \<Rightarrow> adapter_manifest \<Rightarrow> bool" where
  "manifest_ok parse m \<longleftrightarrow> list_all (origin_ok parse) (am_origins m)
     \<and> (\<forall>r. am_redirect m = Some r \<longrightarrow> rp_from r \<in> set (am_origins m) \<and> rp_to r \<in> set (am_origins m) \<and> rp_from r \<noteq> rp_to r)
     \<and> list_all (operation_ok m) (am_operations m) \<and> distinct (map op_id (am_operations m))
     \<and> list_all (mapping_ok m) (am_mappings m)"

definition registry_inv :: "url_parser \<Rightarrow> adapter_registry \<Rightarrow> bool" where
  "registry_inv parse r \<longleftrightarrow>
     (\<forall>i m. map_of (ar_manifests r) i = Some m \<longrightarrow> am_adapter m = i \<and> manifest_ok parse m)
     \<and> (\<forall>i s. map_of (ar_mappings r) i = Some s \<longrightarrow> sm_capability s = i
          \<and> (\<exists>m. map_of (ar_manifests r) (sm_adapter s) = Some m \<and> s \<in> set (am_mappings m)))"

lemma validate_origins_ok: "validate_origins parse os seen = Inr () \<Longrightarrow> list_all (origin_ok parse) os"
  by (induction parse os seen rule: validate_origins.induct)
    (auto simp: guard_eq_Inr validate_exact_https_origin_def origin_ok_def split: option.splits if_splits)

lemma validate_network_policy_ok:
  assumes "validate_network_policy parse os red = Inr ()"
  shows "list_all (origin_ok parse) os"
    and "red = Some r \<Longrightarrow> rp_from r \<in> set os \<and> rp_to r \<in> set os \<and> rp_from r \<noteq> rp_to r"
  using assms by (auto simp: validate_network_policy_def guard_eq_Inr intro: validate_origins_ok split: if_splits)

lemma validate_operation_ok:
  assumes "validate_operation (am_origins m) p = Inr ()"
  shows "operation_ok m p"
proof -
  have "list_all header_fixed (op_fixed_headers p)" "op_origin p \<in> set (am_origins m)" "starts_with (op_path_template p) [47]"
    using assms by (auto simp: validate_operation_def guard_eq_Inr Let_def split: if_splits)
  then show ?thesis by (auto simp: operation_ok_def list_all_iff header_fixed_def)
qed

lemma validate_operations_ok:
  "validate_operations (am_origins m) ps seen = Inr () \<Longrightarrow>
     list_all (operation_ok m) ps \<and> distinct (map op_id ps) \<and> set (map op_id ps) \<inter> set seen = {}"
  by (induction "am_origins m" ps seen rule: validate_operations.induct)
    (auto simp: guard_eq_Inr validate_operation_ok split: if_splits)

lemma validate_mapping_ok:
  "validate_mapping (am_adapter m) (map op_id (am_operations m)) s = Inr () \<Longrightarrow> mapping_ok m s"
  by (auto simp: validate_mapping_def mapping_ok_def guard_eq_Inr provider_max_requests_def split: if_splits)

lemma validate_mappings_ok:
  "validate_mappings (am_adapter m) (map op_id (am_operations m)) ss = Inr () \<Longrightarrow> list_all (mapping_ok m) ss"
  by (induction ss) (auto simp: guard_eq_Inr validate_mapping_ok)

lemma manifest_valid:
  assumes "validate_manifest_shape parse m = Inr ()"
    and "validate_mappings (am_adapter m) (map op_id (am_operations m)) (am_mappings m) = Inr ()"
  shows "manifest_ok parse m"
proof -
  have n: "validate_network_policy parse (am_origins m) (am_redirect m) = Inr ()"
    and "validate_operations (am_origins m) (am_operations m) [] = Inr ()"
    using assms(1) by (auto simp: validate_manifest_shape_def guard_eq_Inr split: if_splits)
  then show ?thesis
    using validate_network_policy_ok [OF n] validate_operations_ok [of m "am_operations m" "[]"]
      validate_mappings_ok [OF assms(2)]
    by (auto simp: manifest_ok_def)
qed

lemma add_mappings_ok:
  "add_mappings ss acc = Inr out \<Longrightarrow> map_of out i = Some s \<Longrightarrow>
     map_of acc i = Some s \<or> (s \<in> set ss \<and> sm_capability s = i)"
  by (induction ss acc rule: add_mappings.induct) (auto split: if_splits)

lemma registry_inv_empty: "registry_inv parse \<lparr>ar_manifests = [], ar_mappings = []\<rparr>"
  by (simp add: registry_inv_def)

lemma registry_inv_manifest:
  "registry_inv parse r \<Longrightarrow> map_of (ar_manifests r) i = Some m \<Longrightarrow> am_adapter m = i \<and> manifest_ok parse m"
  unfolding registry_inv_def by blast

lemma registry_inv_mapping:
  "registry_inv parse r \<Longrightarrow> map_of (ar_mappings r) i = Some s \<Longrightarrow> sm_capability s = i
     \<and> (\<exists>m. map_of (ar_manifests r) (sm_adapter s) = Some m \<and> s \<in> set (am_mappings m))"
  unfolding registry_inv_def by blast

lemma compile_manifests_inv:
  "compile_manifests parse ms r = Inr r' \<Longrightarrow> registry_inv parse r \<Longrightarrow> registry_inv parse r'"
proof (induction parse ms r rule: compile_manifests.induct)
  case (2 parse m ms r)
  then obtain mps where v: "validate_manifest_shape parse m = Inr ()" "map_of (ar_manifests r) (am_adapter m) = None"
      "validate_mappings (am_adapter m) (map op_id (am_operations m)) (am_mappings m) = Inr ()"
      "add_mappings (am_mappings m) (ar_mappings r) = Inr mps"
    and rest: "compile_manifests parse ms \<lparr>ar_manifests = AList.update (am_adapter m) m (ar_manifests r),
      ar_mappings = mps\<rparr> = Inr r'"
    by (auto simp: guard_eq_Inr split: if_splits)
  have ok: "manifest_ok parse m" by (rule manifest_valid [OF v(1,3)])
  have "registry_inv parse \<lparr>ar_manifests = AList.update (am_adapter m) m (ar_manifests r), ar_mappings = mps\<rparr>"
    unfolding registry_inv_def
  proof (rule conjI; rule allI; rule allI; rule impI)
    fix i n
    assume "map_of (ar_manifests \<lparr>ar_manifests = AList.update (am_adapter m) m (ar_manifests r), ar_mappings = mps\<rparr>) i = Some n"
    then show "am_adapter n = i \<and> manifest_ok parse n"
      using ok registry_inv_manifest [OF 2(3)] by (auto split: if_splits)
  next
    fix i s
    assume "map_of (ar_mappings \<lparr>ar_manifests = AList.update (am_adapter m) m (ar_manifests r), ar_mappings = mps\<rparr>) i = Some s"
    then have "map_of mps i = Some s" by simp
    from add_mappings_ok [OF v(4) this]
    show "sm_capability s = i \<and> (\<exists>n. map_of (ar_manifests \<lparr>ar_manifests = AList.update (am_adapter m) m (ar_manifests r),
        ar_mappings = mps\<rparr>) (sm_adapter s) = Some n \<and> s \<in> set (am_mappings n))"
    proof
      assume "map_of (ar_mappings r) i = Some s"
      then show ?thesis using registry_inv_mapping [OF 2(3)] v(2) by fastforce
    next
      assume s: "s \<in> set (am_mappings m) \<and> sm_capability s = i"
      then have "sm_adapter s = am_adapter m" using ok by (auto simp: manifest_ok_def list_all_iff mapping_ok_def)
      then show ?thesis using s by simp
    qed
  qed
  with 2(1) [OF _ _ _ _] v rest show ?case by simp
qed simp

lemma new_registry_inv: "new_registry parse ms = Inr r \<Longrightarrow> registry_inv parse r"
  unfolding new_registry_def by (rule compile_manifests_inv [OF _ registry_inv_empty])

lemma registered_operation:
  assumes "new_registry parse ms = Inr r" and "require_mapping r i = Inr s"
  shows "\<exists>m p. require_manifest r (sm_adapter s) = Inr m \<and> find (\<lambda>p. op_id p = sm_operation s) (am_operations m) = Some p
    \<and> sm_capability s = i \<and> mapping_ok m s \<and> manifest_ok parse m \<and> operation_ok m p \<and> origin_ok parse (op_origin p)"
proof -
  have inv: "registry_inv parse r" by (rule new_registry_inv [OF assms(1)])
  have "map_of (ar_mappings r) i = Some s" using assms(2) by (auto simp: require_mapping_def split: option.splits)
  then obtain m where m: "map_of (ar_manifests r) (sm_adapter s) = Some m" "s \<in> set (am_mappings m)" "sm_capability s = i"
    using registry_inv_mapping [OF inv] by blast
  then have ok: "manifest_ok parse m" using registry_inv_manifest [OF inv] by blast
  then have "mapping_ok m s" using m by (simp add: manifest_ok_def list_all_iff)
  then obtain p where p: "find (\<lambda>p. op_id p = sm_operation s) (am_operations m) = Some p"
    by (cases "find (\<lambda>p. op_id p = sm_operation s) (am_operations m)") (auto simp: mapping_ok_def find_None_iff)
  then have "p \<in> set (am_operations m)" by (auto simp: find_Some_iff)
  then have "operation_ok m p" using ok by (simp add: manifest_ok_def list_all_iff)
  moreover from this have "origin_ok parse (op_origin p)"
    using ok by (auto simp: manifest_ok_def list_all_iff operation_ok_def)
  ultimately show ?thesis using p m ok \<open>mapping_ok m s\<close> by (auto simp: require_manifest_def)
qed

section \<open>Property\<close>

text \<open>
  C28. Whatever manifests the registry was compiled from, a mapping it answers with belongs to a
  registered adapter that owns the mapped operation, and the operation's origin is one of the
  adapter's reviewed origins, an HTTPS origin whose host is a name and no address. A mapping that
  changes remote state sends exactly one request and is never retried, and no header of a
  manifest carries a credential.
\<close>

theorem compiled_registry_sound:
  assumes "new_registry parse ms = Inr r" and "require_mapping r i = Inr s"
  shows "\<exists>m p. require_manifest r (sm_adapter s) = Inr m \<and> find (\<lambda>p. op_id p = sm_operation s) (am_operations m) = Some p
    \<and> sm_capability s = i \<and> mapping_ok m s \<and> manifest_ok parse m \<and> operation_ok m p \<and> origin_ok parse (op_origin p)"
  by (rule registered_operation [OF assms])

section \<open>A demonstration\<close>

definition demo_origin :: jsstring where "demo_origin = js ''https://h''"

definition demo_parse :: url_parser where
  "demo_parse t b = Some \<lparr>pu_protocol = js ''https:'', pu_origin = demo_origin, pu_username = [], pu_password = [],
     pu_hostname = js ''h'', pu_port = [], pu_pathname = js ''/'', pu_search = [], pu_hash = [], pu_appended = []\<rparr>"

definition demo_operation :: provider_operation where
  "demo_operation = \<lparr>op_id = js ''op'', op_method = Method_Post, op_origin = demo_origin,
     op_path_template = js ''/'', op_query_keys = [], op_fixed_headers = [(js ''a'', js ''b'')],
     op_input_schema = Some, op_encode = (\<lambda>v. Some (JObj []))\<rparr>"

definition demo_mapping :: semantic_mapping where
  "demo_mapping = \<lparr>sm_capability = js ''c'', sm_adapter = js ''api'', sm_operation = js ''op'',
     sm_effect = Remote_Mutation, sm_binding = Binding_None, sm_input_schema = (\<lambda>v. Some JNull), sm_output_schema = Some,
     sm_map_output = None, sm_max_requests = 1, sm_retry = Retry_None, sm_audit_fields = []\<rparr>"

definition demo_manifest :: adapter_manifest where
  "demo_manifest = \<lparr>am_adapter = js ''api'', am_version = js ''1'', am_digest = replicate 64 48,
     am_inventory = Inventory_Static, am_origins = [demo_origin], am_redirect = None, am_broker = Policy_None,
     am_operations = [demo_operation], am_mappings = [demo_mapping]\<rparr>"

definition demo_registry :: adapter_registry where
  "demo_registry = \<lparr>ar_manifests = [(js ''api'', demo_manifest)], ar_mappings = [(js ''c'', demo_mapping)]\<rparr>"

text \<open>What evaluates the validators on short texts.\<close>

lemmas text_checks = js_def starts_with_def ends_with_def is_alnum_def is_digit_def is_lower_def is_upper_def
  is_lower_hex_def exactly_def

lemma demo_validates:
  "validate_exact_https_origin demo_parse demo_origin = Inr ()"
  "validate_operation [demo_origin] demo_operation = Inr ()"
  "validate_mapping (js ''api'') [js ''op''] demo_mapping = Inr ()"
proof -
  show "validate_exact_https_origin demo_parse demo_origin = Inr ()"
    by (simp add: validate_exact_https_origin_def demo_parse_def is_ip_def bare_hostname_def guard_eq_Inr
        parse_ipv4_def octet_value_def parse_ipv6_def index_of_def parse_ipv6_body_def hextet_value_def is_hex_def text_checks)
  show "validate_operation [demo_origin] demo_operation = Inr ()"
    by (simp add: validate_operation_def demo_operation_def require_authority_id_def is_authority_unit_def
        forbidden_in_template_def header_fixed_def fixed_name_def credential_headers_def to_lower_def lower_unit_def text_checks)
  show "validate_mapping (js ''api'') [js ''op''] demo_mapping = Inr ()"
    by (simp add: validate_mapping_def demo_mapping_def require_authority_id_def is_authority_unit_def
        provider_max_requests_def text_checks)
qed

lemma demo_new_registry: "new_registry demo_parse [demo_manifest] = Inr demo_registry"
proof -
  have "op_id demo_operation = js ''op''" "sm_capability demo_mapping = js ''c''"
    by (simp_all add: demo_operation_def demo_mapping_def)
  moreover have "list_all is_lower_hex (replicate 64 48)" by (simp add: list_all_iff is_lower_hex_def is_digit_def)
  ultimately show ?thesis
    using demo_validates
    by (simp add: new_registry_def demo_manifest_def demo_registry_def validate_manifest_shape_def
        validate_network_policy_def validate_credential_policy_def require_authority_id_def is_authority_unit_def text_checks)
qed

theorem compiled_registry_sound_witness:
  "\<exists>m p. require_manifest demo_registry (sm_adapter demo_mapping) = Inr m
    \<and> find (\<lambda>p. op_id p = sm_operation demo_mapping) (am_operations m) = Some p \<and> mapping_ok m demo_mapping"
proof -
  have "require_mapping demo_registry (js ''c'') = Inr demo_mapping"
    by (simp add: require_mapping_def demo_registry_def)
  from compiled_registry_sound [OF demo_new_registry this] show ?thesis by blast
qed

end
