(* ===== verification/Provider_Output.thy ===== *)
theory Provider_Output
  imports Provider_Adapter
begin

text \<open>
  \<open>packages/capabilities/src/provider-gateway/output.ts\<close>: what the gateway makes of the bytes a
  provider answers with. \<open>JSON.parse\<close> and the NFC normalisation of strings are arguments. Values come
  from \<open>JSON.parse\<close> or a mapper over its results, so they are JSON trees without cycles, but for the
  prototype of an object: normalisation copies the fields by assignment, and assigning to
  \<open>__proto__\<close> sets the prototype of the copy instead of a field.
\<close>

definition provider_max_structural_depth :: nat where "provider_max_structural_depth = 16"

definition provider_max_result_elements :: nat where "provider_max_result_elements = 1000"

definition provider_max_semantic_result_bytes :: nat where "provider_max_semantic_result_bytes = 524288"

definition decode_provider_utf8 :: "bytes \<Rightarrow> provider_error + jsstring" where
  "decode_provider_utf8 b = (case utf8_decode b of
     None \<Rightarrow> Inl Response_Invalid
   | Some t \<Rightarrow> if 0 \<in> set t then Inl Response_Invalid else Inr t)"

text \<open>\<open>value.replace(/\r\n?/g, "\n")\<close>.\<close>

fun normalize_newlines :: "jsstring \<Rightarrow> jsstring" where
  "normalize_newlines [] = []"
| "normalize_newlines [u] = [if u = 13 then 10 else u]"
| "normalize_newlines (u # v # s) =
     (if u = 13 then 10 # normalize_newlines (if v = 10 then s else v # s) else u # normalize_newlines (v # s))"

definition normalize_string :: "(jsstring \<Rightarrow> jsstring) \<Rightarrow> jsstring \<Rightarrow> provider_error + json" where
  "normalize_string nfc s = (if 0 \<in> set s then Inl Response_Invalid else Inr (JStr (nfc (normalize_newlines s))))"

definition proto_key :: jsstring where "proto_key = js ''__proto__''"

text \<open>
  An object whose prototype is neither \<open>Object.prototype\<close> nor null carries it in the slot
  \<open>[[Prototype]]\<close>, here a field under a key that is no string, as its only unit is above 65535. What
  an assignment to \<open>__proto__\<close> does depends on the value: an object or array becomes the prototype,
  null makes it null, and anything else is ignored.
\<close>

definition proto_slot :: jsstring where "proto_slot = [65536]"

definition is_reference :: "json \<Rightarrow> bool" where
  "is_reference v = (case v of JArr xs \<Rightarrow> True | JObj fs \<Rightarrow> True | _ \<Rightarrow> False)"

definition is_plain_record :: "fields \<Rightarrow> bool" where
  "is_plain_record fs = (proto_slot \<notin> fst ` set fs)"

definition assign_field :: "jsstring \<Rightarrow> json \<Rightarrow> fields \<Rightarrow> fields" where
  "assign_field k v fs = (if k \<noteq> proto_key then (k, v) # fs else if is_reference v then (proto_slot, v) # fs else fs)"

text \<open>What \<open>JSON.stringify\<close> sees of a value: own fields only.\<close>

fun own_value :: "json \<Rightarrow> json" and own_items :: "json list \<Rightarrow> json list" and own_members :: "fields \<Rightarrow> fields" where
  "own_value (JArr xs) = JArr (own_items xs)"
| "own_value (JObj fs) = JObj (own_members fs)"
| "own_value v = v"
| "own_items [] = []"
| "own_items (x # xs) = own_value x # own_items xs"
| "own_members [] = []"
| "own_members ((k, x) # fs) = (if k = proto_slot then own_members fs else (k, own_value x) # own_members fs)"

text \<open>The recursion of \<open>normalizeValue\<close>, with the number of elements counted so far.\<close>

fun normalize_value :: "(jsstring \<Rightarrow> jsstring) \<Rightarrow> nat \<Rightarrow> json \<Rightarrow> nat \<Rightarrow> provider_error + json \<times> nat"
  and normalize_items :: "(jsstring \<Rightarrow> jsstring) \<Rightarrow> nat \<Rightarrow> json list \<Rightarrow> nat \<Rightarrow> provider_error + json list \<times> nat"
  and normalize_fields :: "(jsstring \<Rightarrow> jsstring) \<Rightarrow> nat \<Rightarrow> fields \<Rightarrow> nat \<Rightarrow> provider_error + fields \<times> nat" where
  "normalize_value nfc d v n =
     (if provider_max_structural_depth < d \<or> provider_max_result_elements < n + 1 then Inl Response_Invalid
      else (case v of
          JNull \<Rightarrow> Inr (JNull, n + 1)
        | JBool b \<Rightarrow> Inr (JBool b, n + 1)
        | JStr s \<Rightarrow> bind_res (normalize_string nfc s) (\<lambda>w. Inr (w, n + 1))
        | JNum k \<Rightarrow> if \<bar>k\<bar> \<le> max_safe then Inr (JNum k, n + 1) else Inl Response_Invalid
        | JFrac t \<Rightarrow> Inr (JFrac t, n + 1)
        | JArr xs \<Rightarrow> bind_res (normalize_items nfc (d + 1) xs (n + 1)) (\<lambda>(ys, m). Inr (JArr ys, m))
        | JObj fs \<Rightarrow> if \<not> is_plain_record fs then Inl Response_Invalid
            else bind_res (normalize_fields nfc (d + 1) fs (n + 1)) (\<lambda>(gs, m). Inr (JObj gs, m))))"
| "normalize_items nfc d [] n = Inr ([], n)"
| "normalize_items nfc d (x # xs) n = bind_res (normalize_value nfc d x n) (\<lambda>(y, m).
     bind_res (normalize_items nfc d xs m) (\<lambda>(ys, k). Inr (y # ys, k)))"
| "normalize_fields nfc d [] n = Inr ([], n)"
| "normalize_fields nfc d ((k, x) # fs) n =
     (if 0 \<in> set k then Inl Response_Invalid
      else bind_res (normalize_value nfc d x n) (\<lambda>(y, m).
        bind_res (normalize_fields nfc d fs m) (\<lambda>(gs, j). Inr (assign_field k y gs, j))))"

declare normalize_value.simps [simp del]

definition normalize_provider_value :: "(jsstring \<Rightarrow> jsstring) \<Rightarrow> json \<Rightarrow> provider_error + json" where
  "normalize_provider_value nfc v = map_sum id fst (normalize_value nfc 0 v 0)"

definition parse_provider_semantic_output :: "(jsstring \<Rightarrow> jsstring) \<Rightarrow> (jsstring \<Rightarrow> json option) \<Rightarrow> bytes \<Rightarrow>
    schema \<Rightarrow> (json \<Rightarrow> json \<Rightarrow> json option) option \<Rightarrow> json \<Rightarrow> provider_error + json" where
  "parse_provider_semantic_output nfc parse b schema map_output input =
     bind_res (decode_provider_utf8 b) (\<lambda>t. case parse t of
       None \<Rightarrow> Inl Response_Invalid
     | Some j \<Rightarrow>
         bind_res (case map_output of
             None \<Rightarrow> normalize_provider_value nfc j
           | Some g \<Rightarrow> (case g j input of None \<Rightarrow> Inl Response_Invalid | Some v \<Rightarrow> Inr v)) (\<lambda>v.
         bind_res (normalize_provider_value nfc v) (\<lambda>mapped.
         case schema mapped of None \<Rightarrow> Inl Response_Invalid | Some r \<Rightarrow> Inr r)))"

record fitted_result =
  fr_value :: json
  fr_truncated :: bool
  fr_reasons :: "jsstring list"

definition fitted_json :: "fitted_result \<Rightarrow> json" where
  "fitted_json r = JObj [fld ''value'' (own_value (fr_value r)), fld ''truncated'' (JBool (fr_truncated r)),
     fld ''truncationReasons'' (JArr (map JStr (fr_reasons r)))]"

definition fit_provider_semantic_result :: "(jsstring \<Rightarrow> jsstring) \<Rightarrow> json \<Rightarrow> provider_error + fitted_result" where
  "fit_provider_semantic_result nfc v = bind_res (normalize_provider_value nfc v) (\<lambda>w.
     let r = \<lparr>fr_value = w, fr_truncated = False, fr_reasons = []\<rparr> in
     if provider_max_semantic_result_bytes < byte_length (stringify (fitted_json r))
     then Inl Output_Limit_Exceeded else Inr r)"

section \<open>The specification of normalisation\<close>

text \<open>How deep a value is nested, and how many values it consists of.\<close>

fun value_depth :: "json \<Rightarrow> nat" and items_depth :: "json list \<Rightarrow> nat" and fields_depth :: "fields \<Rightarrow> nat" where
  "value_depth (JArr xs) = items_depth xs"
| "value_depth (JObj fs) = fields_depth fs"
| "value_depth _ = 0"
| "items_depth [] = 0"
| "items_depth (x # xs) = max (Suc (value_depth x)) (items_depth xs)"
| "fields_depth [] = 0"
| "fields_depth ((k, x) # fs) = max (Suc (value_depth x)) (fields_depth fs)"

fun value_count :: "json \<Rightarrow> nat" and items_count :: "json list \<Rightarrow> nat" and fields_count :: "fields \<Rightarrow> nat" where
  "value_count (JArr xs) = Suc (items_count xs)"
| "value_count (JObj fs) = Suc (fields_count fs)"
| "value_count _ = 1"
| "items_count [] = 0"
| "items_count (x # xs) = value_count x + items_count xs"
| "fields_count [] = 0"
| "fields_count ((k, x) # fs) = value_count x + fields_count fs"

text \<open>No NUL in a string or a key, no integer a number cannot hold, and only plain objects.\<close>

fun value_clean :: "json \<Rightarrow> bool" and items_clean :: "json list \<Rightarrow> bool" and fields_clean :: "fields \<Rightarrow> bool" where
  "value_clean (JStr s) \<longleftrightarrow> 0 \<notin> set s"
| "value_clean (JNum n) \<longleftrightarrow> \<bar>n\<bar> \<le> max_safe"
| "value_clean (JArr xs) \<longleftrightarrow> items_clean xs"
| "value_clean (JObj fs) \<longleftrightarrow> proto_slot \<notin> fst ` set fs \<and> fields_clean fs"
| "value_clean _ \<longleftrightarrow> True"
| "items_clean [] \<longleftrightarrow> True"
| "items_clean (x # xs) \<longleftrightarrow> value_clean x \<and> items_clean xs"
| "fields_clean [] \<longleftrightarrow> True"
| "fields_clean ((k, x) # fs) \<longleftrightarrow> 0 \<notin> set k \<and> value_clean x \<and> fields_clean fs"

text \<open>Somewhere an own field \<open>__proto__\<close> holds an object or an array.\<close>

fun sets_proto :: "json \<Rightarrow> bool" and items_set_proto :: "json list \<Rightarrow> bool" and fields_set_proto :: "fields \<Rightarrow> bool" where
  "sets_proto (JArr xs) \<longleftrightarrow> items_set_proto xs"
| "sets_proto (JObj fs) \<longleftrightarrow> fields_set_proto fs"
| "sets_proto _ \<longleftrightarrow> False"
| "items_set_proto [] \<longleftrightarrow> False"
| "items_set_proto (x # xs) \<longleftrightarrow> sets_proto x \<or> items_set_proto xs"
| "fields_set_proto [] \<longleftrightarrow> False"
| "fields_set_proto ((k, x) # fs) \<longleftrightarrow> k = js ''__proto__'' \<and> is_reference x \<or> sets_proto x \<or> fields_set_proto fs"

text \<open>The value with every string normalised, and every such field made the prototype.\<close>

fun normal_value :: "(jsstring \<Rightarrow> jsstring) \<Rightarrow> json \<Rightarrow> json" and normal_items :: "(jsstring \<Rightarrow> jsstring) \<Rightarrow> json list \<Rightarrow> json list"
  and normal_fields :: "(jsstring \<Rightarrow> jsstring) \<Rightarrow> fields \<Rightarrow> fields" where
  "normal_value f (JStr s) = JStr (f (normalize_newlines s))"
| "normal_value f (JArr xs) = JArr (normal_items f xs)"
| "normal_value f (JObj fs) = JObj (normal_fields f fs)"
| "normal_value f JNull = JNull"
| "normal_value f (JBool b) = JBool b"
| "normal_value f (JNum n) = JNum n"
| "normal_value f (JFrac t) = JFrac t"
| "normal_items f [] = []"
| "normal_items f (x # xs) = normal_value f x # normal_items f xs"
| "normal_fields f [] = []"
| "normal_fields f ((k, x) # fs) =
     (if k \<noteq> js ''__proto__'' then (k, normal_value f x) # normal_fields f fs
      else if is_reference x then (proto_slot, normal_value f x) # normal_fields f fs else normal_fields f fs)"

lemma value_count_pos: "0 < value_count v"
  by (cases v) auto

lemma normal_reference [simp]: "is_reference (normal_value f v) = is_reference v"
  by (cases v) (simp_all add: is_reference_def)

lemma normal_assign:
  "normal_fields f ((k, x) # fs) = assign_field k (normal_value f x) (normal_fields f fs)"
  by (simp add: assign_field_def proto_key_def)

lemma slot_no_key: "proto_slot \<noteq> js ''__proto__''"
  by (simp add: proto_slot_def js_def)

lemma normalize_exact:
  shows "normalize_value f d v n = (if d + value_depth v \<le> provider_max_structural_depth
      \<and> n + value_count v \<le> provider_max_result_elements \<and> value_clean v
    then Inr (normal_value f v, n + value_count v) else Inl Response_Invalid)"
    and "normalize_items f d xs n = (if xs = [] \<or> (d + items_depth xs \<le> Suc provider_max_structural_depth
      \<and> n + items_count xs \<le> provider_max_result_elements \<and> items_clean xs)
    then Inr (normal_items f xs, n + items_count xs) else Inl Response_Invalid)"
    and "normalize_fields f d fs n = (if fs = [] \<or> (d + fields_depth fs \<le> Suc provider_max_structural_depth
      \<and> n + fields_count fs \<le> provider_max_result_elements \<and> fields_clean fs)
    then Inr (normal_fields f fs, n + fields_count fs) else Inl Response_Invalid)"
proof (induction f d v n and f d xs n and f d fs n rule: normalize_value_normalize_items_normalize_fields.induct)
  case (1 nfc d v n)
  show ?case
  proof (cases v)
    case (JArr xs)
    then show ?thesis using 1 by (cases xs) (auto simp: normalize_value.simps split: if_splits)
  next
    case (JObj fs)
    then show ?thesis using 1 by (cases fs) (auto simp: normalize_value.simps is_plain_record_def split: if_splits)
  qed (auto simp: normalize_string_def normalize_value.simps)
next
  case (3 nfc d x xs n)
  then show ?case using value_count_pos [of x] by (cases xs) (auto split: if_splits)
next
  case (5 nfc d k x fs n)
  then show ?case using value_count_pos [of x]
    by (cases fs) (auto simp: assign_field_def proto_key_def split: if_splits)
qed simp_all

text \<open>What NFC does not do: it is a normal form, and it makes no carriage return and no NUL.\<close>

definition nfc_like :: "(jsstring \<Rightarrow> jsstring) \<Rightarrow> bool" where
  "nfc_like f \<longleftrightarrow> (\<forall>s. f (f s) = f s \<and> (13 \<notin> set s \<longrightarrow> 13 \<notin> set (f s)) \<and> (0 \<notin> set s \<longrightarrow> 0 \<notin> set (f s)))"

lemma newlines_gone: "13 \<notin> set (normalize_newlines s)"
  by (induction s rule: normalize_newlines.induct) auto

lemma newlines_id: "13 \<notin> set s \<Longrightarrow> normalize_newlines s = s"
  by (induction s rule: normalize_newlines.induct) auto

lemma newlines_no_nul: "0 \<notin> set s \<Longrightarrow> 0 \<notin> set (normalize_newlines s)"
  by (induction s rule: normalize_newlines.induct) auto

lemma normal_string:
  assumes "nfc_like f"
  shows "f (normalize_newlines (f (normalize_newlines s))) = f (normalize_newlines s)"
    and "0 \<notin> set s \<Longrightarrow> 0 \<notin> set (f (normalize_newlines s))"
proof -
  have "13 \<notin> set (f (normalize_newlines s))" using assms newlines_gone unfolding nfc_like_def by blast
  then show "f (normalize_newlines (f (normalize_newlines s))) = f (normalize_newlines s)"
    using assms by (simp add: newlines_id nfc_like_def)
  show "0 \<notin> set s \<Longrightarrow> 0 \<notin> set (f (normalize_newlines s))"
    using assms newlines_no_nul unfolding nfc_like_def by blast
qed

lemma normal_idem:
  "nfc_like f \<Longrightarrow> \<not> sets_proto v \<Longrightarrow> normal_value f (normal_value f v) = normal_value f v"
  "nfc_like f \<Longrightarrow> \<not> items_set_proto xs \<Longrightarrow> normal_items f (normal_items f xs) = normal_items f xs"
  "nfc_like f \<Longrightarrow> \<not> fields_set_proto fs \<Longrightarrow> normal_fields f (normal_fields f fs) = normal_fields f fs"
  by (induction f v and f xs and f fs rule: normal_value_normal_items_normal_fields.induct)
    (simp_all add: normal_string)

lemma normal_depth:
  "value_depth (normal_value f v) \<le> value_depth v"
  "items_depth (normal_items f xs) \<le> items_depth xs"
  "fields_depth (normal_fields f fs) \<le> fields_depth fs"
  by (induction f v and f xs and f fs rule: normal_value_normal_items_normal_fields.induct) auto

lemma normal_count:
  "value_count (normal_value f v) \<le> value_count v"
  "items_count (normal_items f xs) \<le> items_count xs"
  "fields_count (normal_fields f fs) \<le> fields_count fs"
  by (induction f v and f xs and f fs rule: normal_value_normal_items_normal_fields.induct) auto

lemma normal_keys: "\<not> fields_set_proto fs \<Longrightarrow> fst ` set (normal_fields f fs) \<subseteq> fst ` set fs"
proof (induction fs)
  case (Cons kx fs)
  then show ?case by (cases kx) (auto simp: image_iff split: if_splits)
qed simp

lemma normal_clean:
  "nfc_like f \<Longrightarrow> value_clean v \<Longrightarrow> \<not> sets_proto v \<Longrightarrow> value_clean (normal_value f v)"
  "nfc_like f \<Longrightarrow> items_clean xs \<Longrightarrow> \<not> items_set_proto xs \<Longrightarrow> items_clean (normal_items f xs)"
  "nfc_like f \<Longrightarrow> fields_clean fs \<Longrightarrow> \<not> fields_set_proto fs \<Longrightarrow> fields_clean (normal_fields f fs)"
proof (induction f v and f xs and f fs rule: normal_value_normal_items_normal_fields.induct)
  case (3 f fs)
  then show ?case using normal_keys [of fs f] by auto
qed (simp_all add: normal_string)

lemma sets_proto_reference: "sets_proto v \<Longrightarrow> is_reference v"
  by (cases v) (simp_all add: is_reference_def)

text \<open>A value that sets a prototype is no longer made of plain objects after it was normalised.\<close>

lemma normal_unclean:
  "sets_proto v \<Longrightarrow> \<not> value_clean (normal_value f v)"
  "items_set_proto xs \<Longrightarrow> \<not> items_clean (normal_items f xs)"
  "fields_set_proto fs \<Longrightarrow> proto_slot \<in> fst ` set (normal_fields f fs) \<or> \<not> fields_clean (normal_fields f fs)"
proof (induction f v and f xs and f fs rule: normal_value_normal_items_normal_fields.induct)
  case (11 f k x fs)
  then show ?case using sets_proto_reference [of x] by auto
qed auto

definition within_bounds :: "json \<Rightarrow> bool" where
  "within_bounds v \<longleftrightarrow> value_depth v \<le> 16 \<and> value_count v \<le> 1000 \<and> value_clean v"

lemma normalize_provider_value_eq:
  "normalize_provider_value f v = (if within_bounds v then Inr (normal_value f v) else Inl Response_Invalid)"
  by (simp add: normalize_provider_value_def normalize_exact(1) within_bounds_def
      provider_max_structural_depth_def provider_max_result_elements_def)

lemma normal_within:
  assumes "nfc_like f" and "within_bounds v"
  shows "within_bounds (normal_value f v) \<longleftrightarrow> \<not> sets_proto v"
  using normal_depth(1) [of f v] normal_count(1) [of f v] normal_clean(1) [of f v] normal_unclean(1) [of v f] assms
  by (auto simp: within_bounds_def)

lemma normalized_again:
  assumes "nfc_like f" and "within_bounds v"
  shows "normalize_provider_value f (normal_value f v)
    = (if sets_proto v then Inl Response_Invalid else Inr (normal_value f v))"
  using normal_within [OF assms] normal_idem(1) [OF assms(1), of v] by (simp add: normalize_provider_value_eq)

section \<open>Property\<close>

text \<open>
  C35. Whatever a provider sends and a mapper makes of it, the value handed on is within the bounds
  (at most 16 levels, 1000 values and 512 KiB of JSON, no NUL, no integer a number cannot hold, only
  plain objects) and in normal form; it is refused as invalid exactly when it breaks a structural
  bound, and else only for its size. Normalising once more changes nothing, unless an own field
  \<open>__proto__\<close> somewhere holds an object or an array: it became a prototype, and the second time the value
  is refused. Without a mapper an answer is normalised twice, so that such an answer is
  refused, and every other one within the bounds reaches the schema in normal form.
\<close>

theorem semantic_result_bounded:
  assumes "nfc_like f"
  shows "(case fit_provider_semantic_result f v of
      Inr r \<Rightarrow> within_bounds v \<and> fr_value r = normal_value f v
        \<and> normalize_provider_value f (fr_value r) = (if sets_proto v then Inl Response_Invalid else Inr (fr_value r))
        \<and> value_depth (fr_value r) \<le> 16 \<and> value_count (fr_value r) \<le> 1000 \<and> (value_clean (fr_value r) \<or> sets_proto v)
        \<and> byte_length (stringify (fitted_json r)) \<le> 524288
    | Inl e \<Rightarrow> e = (if within_bounds v then Output_Limit_Exceeded else Response_Invalid))
    \<and> parse_provider_semantic_output f parse b schema None input =
      bind_res (decode_provider_utf8 b) (\<lambda>t. case parse t of
          None \<Rightarrow> Inl Response_Invalid
        | Some j \<Rightarrow> if within_bounds j \<and> \<not> sets_proto j
            then (case schema (normal_value f j) of None \<Rightarrow> Inl Response_Invalid | Some r \<Rightarrow> Inr r)
            else Inl Response_Invalid)"
proof
  have "normalize_provider_value f j = Inr (normal_value f j)" if "within_bounds j" for j
    using that by (simp add: normalize_provider_value_eq)
  then show "parse_provider_semantic_output f parse b schema None input =
      bind_res (decode_provider_utf8 b) (\<lambda>t. case parse t of
          None \<Rightarrow> Inl Response_Invalid
        | Some j \<Rightarrow> if within_bounds j \<and> \<not> sets_proto j
            then (case schema (normal_value f j) of None \<Rightarrow> Inl Response_Invalid | Some r \<Rightarrow> Inr r)
            else Inl Response_Invalid)"
    using normalized_again [OF assms]
    by (auto simp: parse_provider_semantic_output_def bind_res_def normalize_provider_value_eq
        split: option.splits sum.splits)
qed (use normalized_again [OF assms, of v] normal_depth(1) [of f v] normal_count(1) [of f v] normal_clean(1) [OF assms, of v]
    in \<open>auto simp: fit_provider_semantic_result_def normalize_provider_value_eq Let_def
      provider_max_semantic_result_bytes_def within_bounds_def\<close>)

text \<open>An object that sets a prototype: refused when it comes from the provider.\<close>

definition proto_answer :: json where
  "proto_answer = JObj [fld ''__proto__'' (JObj [fld ''admin'' (JBool True)])]"

theorem semantic_result_bounded_witness:
  "nfc_like id \<and> normal_value id proto_answer = JObj [(proto_slot, JObj [fld ''admin'' (JBool True)])]
    \<and> within_bounds proto_answer \<and> sets_proto proto_answer
    \<and> parse_provider_semantic_output id (\<lambda>t. Some proto_answer) [123, 125] Some None JNull = Inl Response_Invalid
    \<and> parse_provider_semantic_output id (\<lambda>t. Some (JArr [JNum 1])) [123, 125] Some None JNull = Inr (JArr [JNum 1])"
proof -
  have id: "nfc_like id" by (simp add: nfc_like_def)
  have t: "decode_provider_utf8 [123, 125] = Inr [123, 125]"
    by (simp add: decode_provider_utf8_def utf8_decode_def strip_bom_def utf16_point_def)
  have "normal_value id proto_answer = JObj [(proto_slot, JObj [fld ''admin'' (JBool True)])]"
    "within_bounds proto_answer" "sets_proto proto_answer"
    by (auto simp: proto_answer_def is_reference_def within_bounds_def proto_slot_def js_def)
  moreover have "within_bounds (JArr [JNum 1])" "\<not> sets_proto (JArr [JNum 1])"
    by (simp_all add: within_bounds_def)
  ultimately show ?thesis
    using id semantic_result_bounded [OF id, of JNull "\<lambda>t. Some proto_answer" "[123, 125]" Some JNull]
      semantic_result_bounded [OF id, of JNull "\<lambda>t. Some (JArr [JNum 1])" "[123, 125]" Some JNull]
    by (simp add: t)
qed

end
