(* ===== verification/Provider_Identity.thy ===== *)
theory Provider_Identity
  imports Provider_Adapter Effects
begin

text \<open>
  \<open>packages/capabilities/src/provider-gateway/identity.ts\<close> and \<open>credential-broker.ts\<close>: the pinned
  credential helper of a provider, and the credential it prints. The file system, \<open>resolve\<close> and
  SHA-256 (as lower-case hex) are arguments; one call sees one state of the file system. A helper
  process is the list of its events and the way it ended; a killed process ends too.
\<close>

section \<open>Identity\<close>

datatype broker_descriptor = Broker_None | Broker_Helper jsstring jsstring

record helper_files =
  hf_realpath :: "jsstring \<Rightarrow> jsstring option"
  hf_resolve :: "jsstring \<Rightarrow> jsstring"
  hf_is_file :: "jsstring \<Rightarrow> bool option"
  hf_executable :: "jsstring \<Rightarrow> bool"
  hf_read :: "jsstring \<Rightarrow> bytes option"
  hf_sha_hex :: "bytes \<Rightarrow> jsstring"

definition absolute_path :: "jsstring \<Rightarrow> bool" where
  "absolute_path p = starts_with p [47]"

text \<open>
  \<open>isWithin\<close> on canonical paths: \<open>relative\<close> is empty for equal paths, the rest of the candidate below
  the root, and begins with \<open>..\<close> everywhere else.
\<close>

definition below :: "jsstring \<Rightarrow> jsstring" where
  "below root = (if root = [47] then [47] else root @ [47])"

definition is_within :: "jsstring \<Rightarrow> jsstring \<Rightarrow> bool" where
  "is_within root candidate = (candidate = root \<or>
     (starts_with candidate (below root) \<and> \<not> starts_with (drop (length (below root)) candidate) [46, 46]))"

definition canonicalize_existing_or_lexical :: "helper_files \<Rightarrow> jsstring \<Rightarrow> jsstring" where
  "canonicalize_existing_or_lexical fs p = (case hf_realpath fs p of Some c \<Rightarrow> c | None \<Rightarrow> hf_resolve fs p)"

fun outside_workspaces :: "helper_files \<Rightarrow> jsstring \<Rightarrow> jsstring list \<Rightarrow> provider_error + unit" where
  "outside_workspaces fs c [] = Inr ()"
| "outside_workspaces fs c (w # ws) =
     (if \<not> absolute_path w then Inl Input_Invalid
      else if is_within (canonicalize_existing_or_lexical fs w) c then Inl Input_Invalid
      else outside_workspaces fs c ws)"

record helper_identity =
  hi_path :: jsstring
  hi_sha256 :: jsstring

definition resolve_helper_identity :: "helper_files \<Rightarrow> jsstring \<Rightarrow> jsstring \<Rightarrow> jsstring list \<Rightarrow>
    provider_error + helper_identity" where
  "resolve_helper_identity fs path expected roots =
     (if \<not> absolute_path path then Inl Input_Invalid
      else if \<not> exactly is_lower_hex 64 expected then Inl Input_Invalid
      else (case hf_realpath fs path of
          None \<Rightarrow> Inl Input_Invalid
        | Some c \<Rightarrow>
            if \<not> absolute_path c then Inl Input_Invalid
            else bind_res (outside_workspaces fs c roots) (\<lambda>_.
              if hf_is_file fs c \<noteq> Some True \<or> \<not> hf_executable fs c then Inl Input_Invalid
              else (case hf_read fs c of
                  None \<Rightarrow> Inl Input_Invalid
                | Some b \<Rightarrow>
                    if hf_sha_hex fs b \<noteq> expected then Inl Identity_Changed
                    else Inr \<lparr>hi_path = c, hi_sha256 = hf_sha_hex fs b\<rparr>))))"

definition revalidate_provider_helper_identity :: "helper_files \<Rightarrow> jsstring \<Rightarrow> jsstring \<Rightarrow> jsstring list \<Rightarrow>
    provider_error + helper_identity" where
  "revalidate_provider_helper_identity fs path expected roots =
     bind_res (resolve_helper_identity fs path expected roots) (\<lambda>i.
       if hi_path i \<noteq> path then Inl Identity_Changed else Inr i)"

record implementation_identity =
  ii_fingerprint :: jsstring
  ii_helper :: "helper_identity option"

definition canonical_identity_json :: "adapter_manifest \<Rightarrow> helper_identity option \<Rightarrow> json" where
  "canonical_identity_json m i = JObj [fld ''adapterId'' (JStr (am_adapter m)),
     fld ''adapterContractVersion'' (JStr (am_version m)), fld ''implementationDigest'' (JStr (am_digest m)),
     fld ''helperSha256'' (case i of None \<Rightarrow> JNull | Some x \<Rightarrow> JStr (hi_sha256 x))]"

definition resolve_provider_implementation_identity :: "helper_files \<Rightarrow> adapter_manifest \<Rightarrow> broker_descriptor \<Rightarrow>
    jsstring list \<Rightarrow> provider_error + implementation_identity" where
  "resolve_provider_implementation_identity fs m broker roots =
     (if \<not> exactly is_lower_hex 64 (am_digest m) then Inl Input_Invalid
      else if \<not> list_all absolute_path roots then Inl Input_Invalid
      else bind_res (case broker of
          Broker_None \<Rightarrow> Inr None
        | Broker_Helper p sha \<Rightarrow> map_sum id Some (resolve_helper_identity fs p sha (map (hf_resolve fs) roots))) (\<lambda>i.
        Inr \<lparr>ii_fingerprint = hf_sha_hex fs (utf8_encode (stringify (canonical_identity_json m i))), ii_helper = i\<rparr>))"

section \<open>The credential helper\<close>

definition provider_max_helper_stdout_bytes :: nat where "provider_max_helper_stdout_bytes = 65536"

definition provider_max_helper_stderr_bytes :: nat where "provider_max_helper_stderr_bytes = 65536"

record provider_credential =
  pc_value :: jsstring
  pc_kind :: credential_kind

datatype helper_event = Helper_Stdout bytes | Helper_Stderr nat | Helper_Abort | Helper_Timer | Helper_Error

record helper_state =
  hs_stdout :: bytes
  hs_stdout_bytes :: nat
  hs_stderr_bytes :: nat
  hs_terminal :: "provider_error option"

definition no_output :: helper_state where
  "no_output = \<lparr>hs_stdout = [], hs_stdout_bytes = 0, hs_stderr_bytes = 0, hs_terminal = None\<rparr>"

text \<open>\<open>failAndKill\<close>, and the same assignment in \<open>onError\<close>: the first error is the one reported at the end.\<close>

definition first_error :: "provider_error \<Rightarrow> helper_state \<Rightarrow> helper_state" where
  "first_error e s = (if hs_terminal s = None then s\<lparr>hs_terminal := Some e\<rparr> else s)"

fun helper_step :: "helper_event \<Rightarrow> helper_state \<Rightarrow> helper_state" where
  "helper_step (Helper_Stdout chunk) s =
     (let n = hs_stdout_bytes s + length chunk; s' = s\<lparr>hs_stdout_bytes := n\<rparr> in
      if provider_max_helper_stdout_bytes < n then first_error Credential_Rejected s'
      else s'\<lparr>hs_stdout := hs_stdout s @ chunk\<rparr>)"
| "helper_step (Helper_Stderr k) s =
     (let n = hs_stderr_bytes s + k; s' = s\<lparr>hs_stderr_bytes := n\<rparr> in
      if provider_max_helper_stderr_bytes < n then first_error Credential_Rejected s' else s')"
| "helper_step Helper_Abort s = first_error Provider_Cancelled s"
| "helper_step Helper_Timer s = first_error Provider_Timeout s"
| "helper_step Helper_Error s = first_error Credential_Unavailable s"

definition decode_single_line_credential :: "bytes \<Rightarrow> provider_error + jsstring" where
  "decode_single_line_credential b = (case utf8_decode b of
     None \<Rightarrow> Inl Credential_Rejected
   | Some t \<Rightarrow>
       let s = (if ends_with t [13, 10] then take (length t - 2) t
                else if ends_with t [10] then butlast t else t) in
       if s = [] then Inl Credential_Unavailable
       else if set s \<inter> {10, 13, 0} \<noteq> {} then Inl Credential_Rejected
       else Inr s)"

definition helper_close :: "credential_kind \<Rightarrow> helper_state \<Rightarrow> int option \<times> bool \<Rightarrow> provider_error + provider_credential" where
  "helper_close k s ending = (case hs_terminal s of
     Some e \<Rightarrow> Inl e
   | None \<Rightarrow>
       if fst ending \<noteq> Some 0 \<or> snd ending then Inl Credential_Unavailable
       else map_sum id (\<lambda>v. \<lparr>pc_value = v, pc_kind = k\<rparr>) (decode_single_line_credential (hs_stdout s)))"

text \<open>A process that could not be spawned is \<open>None\<close>.\<close>

definition run_credential_helper :: "credential_kind \<Rightarrow> (helper_event list \<times> int option \<times> bool) option \<Rightarrow>
    provider_error + provider_credential" where
  "run_credential_helper k p = (case p of
     None \<Rightarrow> Inl Credential_Unavailable
   | Some (es, ending) \<Rightarrow> helper_close k (fold helper_step es no_output) ending)"

definition acquire_credential :: "helper_files \<Rightarrow> jsstring list \<Rightarrow> bool \<Rightarrow> broker_policy \<Rightarrow> broker_descriptor \<Rightarrow>
    (jsstring \<Rightarrow> jsstring list \<Rightarrow> (jsstring \<times> jsstring) list \<Rightarrow> (helper_event list \<times> int option \<times> bool) option) \<Rightarrow>
    provider_error + provider_credential option" where
  "acquire_credential fs roots aborted policy descriptor spawn =
     (if aborted then Inl Provider_Cancelled
      else (case (policy, descriptor) of
          (Policy_None, Broker_None) \<Rightarrow> Inr None
        | (Policy_Helper k argv env, Broker_Helper p sha) \<Rightarrow>
            bind_res (map_sum (\<lambda>e. if e = Input_Invalid then Credential_Unavailable else e) id
                (revalidate_provider_helper_identity fs p sha roots)) (\<lambda>i.
              map_sum id Some (run_credential_helper k (spawn (hi_path i) argv env)))
        | _ \<Rightarrow> Inl State_Invalid))"

section \<open>What an acquired credential is\<close>

lemma map_sum_eq_Inr: "map_sum f g m = Inr y \<longleftrightarrow> (\<exists>x. m = Inr x \<and> y = g x)"
  by (cases m) auto

lemma outside_workspaces_ok:
  "outside_workspaces fs c ws = Inr () \<Longrightarrow> w \<in> set ws \<Longrightarrow> \<not> is_within (canonicalize_existing_or_lexical fs w) c"
  by (induction ws) (auto split: if_splits)

lemma resolve_helper_identity_ok:
  assumes "resolve_helper_identity fs p sha roots = Inr i"
  shows "hf_realpath fs p = Some (hi_path i) \<and> hf_is_file fs (hi_path i) = Some True \<and> hf_executable fs (hi_path i)
    \<and> (\<exists>b. hf_read fs (hi_path i) = Some b \<and> hf_sha_hex fs b = sha) \<and> hi_sha256 i = sha
    \<and> list_all (\<lambda>w. \<not> is_within (canonicalize_existing_or_lexical fs w) (hi_path i)) roots"
  using assms
  by (auto simp: resolve_helper_identity_def guard_eq_Inr list_all_iff dest: outside_workspaces_ok
      split: if_splits option.splits)

lemma helper_stdout_bound: "length (hs_stdout (fold helper_step es s)) \<le> 65536"
  if "length (hs_stdout s) \<le> hs_stdout_bytes s" "length (hs_stdout s) \<le> 65536"
proof -
  have "length (hs_stdout (helper_step e s)) \<le> hs_stdout_bytes (helper_step e s)
      \<and> length (hs_stdout (helper_step e s)) \<le> 65536"
    if "length (hs_stdout s) \<le> hs_stdout_bytes s" "length (hs_stdout s) \<le> 65536" for e s
    using that by (cases e) (auto simp: first_error_def Let_def provider_max_helper_stdout_bytes_def)
  then show ?thesis using that by (induction es arbitrary: s) auto
qed

text \<open>
  A credential handed to the transport was printed as one non-empty line of at most 64 KiB of valid
  UTF-8 by the helper the operator pinned: the file at its recorded canonical path, with the recorded
  SHA-256.
\<close>

lemma acquired_credential:
  assumes "acquire_credential fs roots aborted policy descriptor spawn = Inr (Some c)"
  shows "\<exists>p sha k argv env es b. descriptor = Broker_Helper p sha \<and> policy = Policy_Helper k argv env \<and> \<not> aborted
    \<and> hf_realpath fs p = Some p \<and> hf_read fs p = Some b \<and> hf_sha_hex fs b = sha
    \<and> list_all (\<lambda>w. \<not> is_within (canonicalize_existing_or_lexical fs w) p) roots
    \<and> spawn p argv env = Some (es, Some 0, False) \<and> pc_kind c = k
    \<and> pc_value c \<noteq> [] \<and> set (pc_value c) \<inter> {10, 13, 0} = {}"
proof -
  obtain k argv env p sha i where d: "descriptor = Broker_Helper p sha" "policy = Policy_Helper k argv env" "\<not> aborted"
    and i: "revalidate_provider_helper_identity fs p sha roots = Inr i"
    and r: "run_credential_helper k (spawn (hi_path i) argv env) = Inr c"
    using assms
    by (auto simp: acquire_credential_def guard_eq_Inr map_sum_eq_Inr
        split: if_splits broker_policy.splits broker_descriptor.splits)
  have "resolve_helper_identity fs p sha roots = Inr i" "hi_path i = p"
    using i by (auto simp: revalidate_provider_helper_identity_def guard_eq_Inr split: if_splits)
  moreover obtain es where "spawn (hi_path i) argv env = Some (es, Some 0, False)"
    and "decode_single_line_credential (hs_stdout (fold helper_step es no_output)) = Inr (pc_value c)" "pc_kind c = k"
    using r by (auto simp: run_credential_helper_def helper_close_def map_sum_eq_Inr split: option.splits if_splits prod.splits)
  moreover from this(2) have "pc_value c \<noteq> []" "set (pc_value c) \<inter> {10, 13, 0} = {}"
    by (auto simp: decode_single_line_credential_def Let_def split: option.splits if_splits)
  ultimately show ?thesis using d resolve_helper_identity_ok by metis
qed

text \<open>A path below a workspace whose first component begins with two dots counts as outside.\<close>

lemma dotted_helper_counts_as_outside: "\<not> is_within (js ''/ws'') (js ''/ws/..helper'')"
  by (simp add: is_within_def below_def starts_with_def js_def)

end
