(* ===== verification/Provider_Transport.thy ===== *)
theory Provider_Transport
  imports Provider_Output Provider_Identity
begin

text \<open>
  \<open>packages/capabilities/src/provider-gateway/lifecycle.ts\<close> and \<open>network-transport.ts\<close>: the budget of
  an operation, and the transport that turns a compiled operation into HTTPS requests. What happens
  outside the process is an argument: a function of the state of the world for the clock, for the
  signals that fire while a call is pending (the caller's, the total timer, the timer of an attempt),
  for DNS, and for the events of an HTTPS connection. A pending call that is aborted throws at once
  in the caller, as the listener of \<open>withAttemptTimeout\<close> settles its promise before any later result;
  the transport itself then stops at its next look at the signal, so it is cut at the same await.
\<close>

section \<open>The budget\<close>

datatype abort_reason = Abort_Caller | Abort_Total_Timeout | Abort_Close

record op_budget =
  ob_deadline :: int
  ob_max :: int
  ob_requests :: int
  ob_reason :: "abort_reason option"
  ob_closed :: bool

datatype header_value = Header_One jsstring | Header_Many "jsstring list"

record https_request =
  hq_address :: jsstring
  hq_family :: nat
  hq_hostname :: jsstring
  hq_port :: int
  hq_method :: http_method
  hq_path :: jsstring
  hq_headers :: "(jsstring \<times> jsstring) list"
  hq_body :: "bytes option"

record https_response =
  hr_status :: int
  hr_headers :: "(jsstring \<times> header_value) list"
  hr_body :: bytes

text \<open>What an HTTPS connection does, in order; \<open>Conn_Error\<close> tells whether the error is a timeout.\<close>

datatype connection_event = Conn_Data bytes | Conn_End int "(jsstring \<times> header_value) list" | Conn_Error bool

datatype requester_outcome = Req_Response https_response | Req_Rejected provider_error | Req_Fault bool | Req_Pending

text \<open>
  What the gateway did, in order: the audit records with whether they were accepted, the steps that
  reach outside, and the HTTPS requests with their URL and what came of them.
\<close>

datatype audit_phase_kind = Phase_Decision | Phase_Success | Phase_Failed

datatype gateway_event =
    Ev_Audit audit_phase_kind "provider_error option" bool
  | Ev_Credential
  | Ev_Inventory
  | Ev_Request provider_url https_request
  | Ev_Answer requester_outcome

record 'w gateway =
  gw_world :: 'w
  gw_budget :: op_budget
  gw_log :: "gateway_event list"

record 'w network_host =
  nh_now :: "'w \<Rightarrow> int"
  nh_abort :: "'w \<Rightarrow> abort_reason option"
  nh_attempt_over :: "'w \<Rightarrow> bool"
  nh_lookup :: "jsstring \<Rightarrow> 'w \<Rightarrow> (provider_error + resolved_address list) \<times> 'w"
  nh_connect :: "https_request \<Rightarrow> 'w \<Rightarrow> connection_event list \<times> 'w"
  nh_parse_url :: url_parser
  nh_query_text :: "jsstring \<Rightarrow> (jsstring \<times> jsstring) list \<Rightarrow> jsstring"

type_synonym ('w, 'a) gateway_act = "('w gateway, provider_error, 'a) action"

definition provider_operation_timeout_ms :: int where "provider_operation_timeout_ms = 30000"

definition provider_max_request_body_bytes :: nat where "provider_max_request_body_bytes = 262144"

definition provider_max_metadata_response_bytes :: nat where "provider_max_metadata_response_bytes = 2097152"

text \<open>\<open>#abort\<close>: the first reason stays. The signal is aborted exactly when there is a reason.\<close>

definition abort_budget :: "abort_reason \<Rightarrow> op_budget \<Rightarrow> op_budget" where
  "abort_budget r b = (if ob_reason b = None then b\<lparr>ob_reason := Some r\<rparr> else b)"

definition abort_error :: "op_budget \<Rightarrow> provider_error" where
  "abort_error b = (if ob_reason b = Some Abort_Total_Timeout then Provider_Timeout else Provider_Cancelled)"

definition new_budget :: "int \<Rightarrow> bool \<Rightarrow> int \<Rightarrow> provider_error + op_budget" where
  "new_budget now caller_aborted requested =
     (if requested < 1 \<or> provider_max_requests < requested then Inl Input_Invalid
      else Inr \<lparr>ob_deadline = now + provider_operation_timeout_ms, ob_max = requested, ob_requests = 0,
        ob_reason = (if caller_aborted then Some Abort_Caller else None), ob_closed = False\<rparr>)"

definition refresh_deadline :: "'w network_host \<Rightarrow> 'w gateway \<Rightarrow> 'w gateway" where
  "refresh_deadline h s =
     (if ob_reason (gw_budget s) = None \<and> ob_deadline (gw_budget s) \<le> nh_now h (gw_world s)
      then s\<lparr>gw_budget := abort_budget Abort_Total_Timeout (gw_budget s)\<rparr> else s)"

definition assert_active :: "'w network_host \<Rightarrow> ('w, unit) gateway_act" where
  "assert_active h =
     bind_act (write_act (refresh_deadline h)) (\<lambda>_.
     bind_act (read_act gw_budget) (\<lambda>b.
     guard_act (\<not> ob_closed b \<and> ob_reason b = None) (abort_error b)))"

definition claim_request :: "'w network_host \<Rightarrow> ('w, unit) gateway_act" where
  "claim_request h =
     bind_act (assert_active h) (\<lambda>_.
     bind_act (read_act gw_budget) (\<lambda>b.
     bind_act (guard_act (ob_requests b < ob_max b) Request_Failed) (\<lambda>_.
     write_act (\<lambda>s. s\<lparr>gw_budget := (gw_budget s)\<lparr>ob_requests := ob_requests (gw_budget s) + 1\<rparr>\<rparr>))))"

definition can_retry :: "'w network_host \<Rightarrow> semantic_mapping \<Rightarrow> nat \<Rightarrow> ('w, bool) gateway_act" where
  "can_retry h m attempt =
     bind_act (write_act (refresh_deadline h)) (\<lambda>_.
     read_act (\<lambda>s. let b = gw_budget s in
       \<not> ob_closed b \<and> ob_reason b = None
         \<and> sm_retry m = Retry_One_Idempotent_Read \<and> sm_effect m = Remote_Read \<and> attempt = 0
         \<and> ob_requests b < min provider_max_requests (min (sm_max_requests m) (ob_max b))))"

definition close_budget :: "op_budget \<Rightarrow> op_budget" where
  "close_budget b = (if ob_closed b then b else abort_budget Abort_Close (b\<lparr>ob_closed := True\<rparr>))"

section \<open>Pending calls\<close>

text \<open>A call to the outside, after which the signals that fired meanwhile are seen.\<close>

definition pending :: "'w network_host \<Rightarrow> ('w \<Rightarrow> 'a \<times> 'w) \<Rightarrow> ('w, 'a) gateway_act" where
  "pending h f s = (case f (gw_world s) of (x, w) \<Rightarrow>
     (Inr x, s\<lparr>gw_world := w, gw_budget :=
        (case nh_abort h w of None \<Rightarrow> gw_budget s | Some r \<Rightarrow> abort_budget r (gw_budget s))\<rparr>))"

text \<open>The same inside an attempt, where an abort or the attempt's timer ends the attempt.\<close>

definition attempt_call :: "'w network_host \<Rightarrow> ('w \<Rightarrow> 'a \<times> 'w) \<Rightarrow> ('w, 'a) gateway_act" where
  "attempt_call h f =
     bind_act (pending h f) (\<lambda>x.
     bind_act (read_act gw_budget) (\<lambda>b.
     bind_act (guard_act (ob_reason b = None) (abort_error b)) (\<lambda>_.
     bind_act (read_act (\<lambda>s. nh_attempt_over h (gw_world s))) (\<lambda>over.
     bind_act (guard_act (\<not> over) Provider_Timeout) (\<lambda>_. ret_act x)))))"

definition with_attempt_timeout :: "'w network_host \<Rightarrow> ('w, 'a) gateway_act \<Rightarrow> ('w, 'a) gateway_act" where
  "with_attempt_timeout h run = bind_act (assert_active h) (\<lambda>_. run)"

definition log_event :: "gateway_event \<Rightarrow> ('w, unit) gateway_act" where
  "log_event e = write_act (\<lambda>s. s\<lparr>gw_log := gw_log s @ [e]\<rparr>)"

section \<open>Building a request\<close>

definition has_control :: "jsstring \<Rightarrow> bool" where
  "has_control s = list_ex is_control s"

definition hex_upper :: "nat \<Rightarrow> nat" where
  "hex_upper d = (if d < 10 then 48 + d else 55 + d)"

text \<open>\<open>encodeURIComponent\<close>, which throws on a lone surrogate.\<close>

definition encode_uri_component :: "jsstring \<Rightarrow> jsstring option" where
  "encode_uri_component s =
     (if well_formed s
      then Some (concat (map (\<lambda>b. if is_alnum b \<or> b \<in> {45, 95, 46, 33, 126, 42, 39, 40, 41} then [b]
        else [37, hex_upper (b div 16), hex_upper (b mod 16)]) (utf8_encode s)))
      else None)"

definition is_placeholder_unit :: "nat \<Rightarrow> bool" where
  "is_placeholder_unit u = (is_alnum u \<or> u = 46 \<or> u = 95 \<or> u = 45)"

text \<open>\<open>template.matchAll(/\{([A-Za-z0-9._-]+)\}/g)\<close>.\<close>

function placeholders :: "jsstring \<Rightarrow> jsstring list" where
  "placeholders [] = []"
| "placeholders (u # s) =
     (let name = takeWhile is_placeholder_unit s; rest = dropWhile is_placeholder_unit s in
      if u = 123 \<and> name \<noteq> [] \<and> rest \<noteq> [] \<and> hd rest = 125 then name # placeholders (tl rest) else placeholders s)"
  by pat_completeness auto

termination
  by (relation "measure length") (auto simp: less_Suc_eq_le intro: order_trans [OF diff_le_self length_dropWhile_le])

text \<open>\<open>text.replaceAll(pattern, by)\<close> for a pattern of at least one unit.\<close>

function replace_all :: "jsstring \<Rightarrow> jsstring \<Rightarrow> jsstring \<Rightarrow> jsstring" where
  "replace_all p r [] = []"
| "replace_all p r (u # s) =
     (if p \<noteq> [] \<and> starts_with (u # s) p then r @ replace_all p r (drop (length p - 1) s) else u # replace_all p r s)"
  by pat_completeness auto

termination
  by (relation "measure (\<lambda>(p, r, s). length s)") auto

text \<open>\<open>/\{[^}]+\}/\<close> and \<open>/[\u0000-\u001f\u007f]/\<close>.\<close>

fun has_brace_group :: "jsstring \<Rightarrow> bool" where
  "has_brace_group [] = False"
| "has_brace_group (u # s) = (u = 123 \<and> s \<noteq> [] \<and> hd s \<noteq> 125 \<and> 125 \<in> set s \<or> has_brace_group s)"

definition safe_parameter :: "jsstring \<Rightarrow> bool" where
  "safe_parameter v = (\<not> has_control v \<and> v \<noteq> [46] \<and> v \<noteq> [46, 46] \<and> 47 \<notin> set v \<and> 92 \<notin> set v)"

fun substitute :: "fields \<Rightarrow> jsstring list \<Rightarrow> jsstring \<Rightarrow> provider_error + jsstring" where
  "substitute ps [] out = Inr out"
| "substitute ps (k # ks) out = (case as_str (map_of ps k) of
     None \<Rightarrow> Inl Input_Invalid
   | Some v \<Rightarrow>
       if \<not> safe_parameter v then Inl Input_Invalid
       else (case encode_uri_component v of
           None \<Rightarrow> Inl Other_Failure
         | Some e \<Rightarrow> substitute ps ks (replace_all (123 # k @ [125]) e out)))"

text \<open>The keys of a \<open>Set\<close> filled in this order.\<close>

definition first_occurrences :: "'a list \<Rightarrow> 'a list" where
  "first_occurrences xs = rev (remdups (rev xs))"

definition substitute_path_parameters :: "jsstring \<Rightarrow> json \<Rightarrow> provider_error + jsstring" where
  "substitute_path_parameters template params = (case as_record (Some params) of
     None \<Rightarrow> Inl Input_Invalid
   | Some ps \<Rightarrow>
       let expected = first_occurrences (placeholders template) in
       if \<not> list_all (\<lambda>f. fst f \<in> set expected) ps then Inl Input_Invalid
       else bind_res (substitute ps expected template) (\<lambda>out.
         if has_control out \<or> has_brace_group out then Inl Input_Invalid else Inr out))"

definition assert_safe_https_url :: "provider_url \<Rightarrow> provider_error + unit" where
  "assert_safe_https_url u =
     ensure (pu_protocol u = js ''https:'' \<and> pu_username u = [] \<and> pu_password u = [] \<and> pu_hash u = []) Network_Denied"

text \<open>\<open>new URL(path, origin)\<close>.\<close>

definition parse_against :: "url_parser \<Rightarrow> jsstring \<Rightarrow> jsstring \<Rightarrow> provider_error + provider_url" where
  "parse_against parse path base = (case parse base None of
     None \<Rightarrow> Inl Other_Failure
   | Some b \<Rightarrow> (case parse path (Some b) of None \<Rightarrow> Inl Other_Failure | Some u \<Rightarrow> Inr u))"

definition query_scalar :: "json \<Rightarrow> jsstring option" where
  "query_scalar v = (case v of
     JStr s \<Rightarrow> Some s
   | JNum n \<Rightarrow> Some (int_text n)
   | JFrac t \<Rightarrow> Some t
   | JBool b \<Rightarrow> Some (if b then js ''true'' else js ''false'')
   | _ \<Rightarrow> None)"

definition append_scalar_query_value :: "jsstring \<Rightarrow> json \<Rightarrow> provider_url \<Rightarrow> provider_error + provider_url" where
  "append_scalar_query_value k v u = (case query_scalar v of
     None \<Rightarrow> Inl Input_Invalid
   | Some t \<Rightarrow> if has_control t then Inl Input_Invalid else Inr (u\<lparr>pu_appended := pu_appended u @ [(k, t)]\<rparr>))"

fun append_query_items :: "jsstring \<Rightarrow> json list \<Rightarrow> provider_url \<Rightarrow> provider_error + provider_url" where
  "append_query_items k [] u = Inr u"
| "append_query_items k (v # vs) u = bind_res (append_scalar_query_value k v u) (append_query_items k vs)"

definition append_query_value :: "jsstring \<Rightarrow> json \<Rightarrow> provider_url \<Rightarrow> provider_error + provider_url" where
  "append_query_value k v u = (case v of
     JArr xs \<Rightarrow> if 1000 < length xs then Inl Input_Invalid else append_query_items k xs u
   | _ \<Rightarrow> append_scalar_query_value k v u)"

fun append_query :: "jsstring list \<Rightarrow> fields \<Rightarrow> provider_url \<Rightarrow> provider_error + provider_url" where
  "append_query allowed [] u = Inr u"
| "append_query allowed ((k, v) # fs) u =
     (if k \<notin> set allowed then Inl Input_Invalid
      else bind_res (append_query_value k v u) (append_query allowed fs))"

text \<open>\<open>encoded.x ?? {}\<close>.\<close>

definition object_or_empty :: "json option \<Rightarrow> json" where
  "object_or_empty v = (case v of None \<Rightarrow> JObj [] | Some JNull \<Rightarrow> JObj [] | Some j \<Rightarrow> j)"

definition content_length_header :: jsstring where "content_length_header = js ''content-length''"

definition authorization_header :: jsstring where "authorization_header = js ''authorization''"

definition credential_headers_for :: "provider_credential option \<Rightarrow> (jsstring \<times> jsstring) list \<Rightarrow>
    provider_error + (jsstring \<times> jsstring) list" where
  "credential_headers_for cred hs = (case cred of
     None \<Rightarrow> Inr hs
   | Some c \<Rightarrow>
       if set (pc_value c) \<inter> {13, 10, 0} \<noteq> {} then Inl Credential_Rejected
       else Inr (AList.update authorization_header
         (if pc_kind c = Kind_Bearer then js ''Bearer '' @ pc_value c else pc_value c) hs))"

definition build_compiled_request :: "url_parser \<Rightarrow> provider_operation \<Rightarrow> json \<Rightarrow> provider_credential option \<Rightarrow>
    provider_error + provider_url \<times> (jsstring \<times> jsstring) list \<times> bytes option" where
  "build_compiled_request parse p encoded cred = (case as_record (Some encoded) of
     None \<Rightarrow> Inl Input_Invalid
   | Some fs \<Rightarrow>
       if \<not> only_keys fs [''pathParameters'', ''query'', ''body''] then Inl Input_Invalid
       else
         bind_res (substitute_path_parameters (op_path_template p) (object_or_empty (get fs ''pathParameters''))) (\<lambda>path.
         bind_res (parse_against parse path (op_origin p)) (\<lambda>u.
         bind_res (assert_safe_https_url u) (\<lambda>_.
         if pu_origin u \<noteq> op_origin p then Inl Input_Invalid
         else (case as_record (Some (object_or_empty (get fs ''query''))) of
             None \<Rightarrow> Inl Input_Invalid
           | Some qs \<Rightarrow>
               bind_res (append_query (op_query_keys p) qs u) (\<lambda>url.
               let body = map_option (\<lambda>j. utf8_encode (stringify j)) (get fs ''body'') in
               if (case body of Some b \<Rightarrow> provider_max_request_body_bytes < length b | None \<Rightarrow> False)
               then Inl Input_Invalid
               else bind_res (credential_headers_for cred (case body of
                     None \<Rightarrow> op_fixed_headers p
                   | Some b \<Rightarrow> AList.update content_length_header (decimal (length b)) (op_fixed_headers p))) (\<lambda>hs.
                 Inr (url, hs, body))))))))"

section \<open>The HTTPS requester\<close>

text \<open>
  The listeners of \<open>NodeProviderHttpsRequester\<close> over the events of one connection: the first of
  an oversized body, the end and an error settles. Events that settle nothing leave the request pending,
  and only the attempt's timer or an abort ends it.
\<close>

definition normalize_headers :: "(jsstring \<times> header_value) list \<Rightarrow> (jsstring \<times> header_value) list" where
  "normalize_headers hs = foldl (\<lambda>out (k, v). AList.update (to_lower k) v out) [] hs"

fun requester_run :: "nat \<Rightarrow> bytes \<Rightarrow> connection_event list \<Rightarrow> requester_outcome" where
  "requester_run limit acc [] = Req_Pending"
| "requester_run limit acc (Conn_Data chunk # es) =
     (if limit < length acc + length chunk then Req_Rejected Response_Invalid
      else requester_run limit (acc @ chunk) es)"
| "requester_run limit acc (Conn_End status hs # es) =
     Req_Response \<lparr>hr_status = status, hr_headers = normalize_headers hs, hr_body = acc\<rparr>"
| "requester_run limit acc (Conn_Error timeout # es) = Req_Fault timeout"

definition provider_dns_answers :: "resolved_address list \<Rightarrow> resolved_address list" where
  "provider_dns_answers = filter (\<lambda>a. ra_family a = 4 \<or> ra_family a = 6)"

definition normalized_port :: "provider_url \<Rightarrow> provider_error + int" where
  "normalized_port u =
     (if pu_port u = [] then Inr 443
      else let n = int (digits_value (pu_port u)) in
        if list_all is_digit (pu_port u) \<and> 1 \<le> n \<and> n \<le> 65535 then Inr n else Inl Network_Denied)"

section \<open>One request\<close>

definition not_aborted :: "('w, unit) gateway_act" where
  "not_aborted = bind_act (read_act (\<lambda>s. ob_reason (gw_budget s) = None)) (\<lambda>ok. guard_act ok Provider_Cancelled)"

definition checked_response :: "https_response \<Rightarrow> provider_error + https_response" where
  "checked_response r =
     (if provider_max_metadata_response_bytes < length (hr_body r) then Inl Response_Invalid
      else if hr_status r < 100 \<or> 599 < hr_status r then Inl Response_Invalid
      else Inr r)"

definition https_outcome :: "requester_outcome \<Rightarrow> provider_error + https_response" where
  "https_outcome r = (case r of
     Req_Response x \<Rightarrow> checked_response x
   | Req_Rejected e \<Rightarrow> Inl e
   | Req_Fault timeout \<Rightarrow> Inl (if timeout then Provider_Timeout else Provider_Unavailable)
   | Req_Pending \<Rightarrow> Inl Provider_Timeout)"

text \<open>\<open>#requestOnce\<close>, up to the call of the requester and from there on.\<close>

definition prepare_request :: "'w network_host \<Rightarrow> provider_url \<Rightarrow> http_method \<Rightarrow> (jsstring \<times> jsstring) list \<Rightarrow>
    bytes option \<Rightarrow> ('w, https_request) gateway_act" where
  "prepare_request h u meth headers body =
     bind_act not_aborted (\<lambda>_.
     bind_act (claim_request h) (\<lambda>_.
     bind_act (attempt_call h (nh_lookup h (pu_hostname u))) (\<lambda>found.
     bind_act (lift_act (case found of
         Inr answers \<Rightarrow> Inr (provider_dns_answers answers)
       | Inl e \<Rightarrow> Inl (if e = Other_Failure then Provider_Unavailable else e))) (\<lambda>answers.
     bind_act not_aborted (\<lambda>_.
     bind_act (lift_act (select_provider_internet_address answers)) (\<lambda>a.
     bind_act (lift_act (normalized_port u)) (\<lambda>port.
     ret_act \<lparr>hq_address = ra_address a, hq_family = ra_family a, hq_hostname = pu_hostname u, hq_port = port,
       hq_method = meth, hq_path = pu_pathname u @ nh_query_text h (pu_search u) (pu_appended u),
       hq_headers = headers, hq_body = body\<rparr>)))))))"

definition exchange_request :: "'w network_host \<Rightarrow> provider_url \<Rightarrow> https_request \<Rightarrow> ('w, https_response) gateway_act" where
  "exchange_request h u rq =
     bind_act (log_event (Ev_Request u rq)) (\<lambda>_.
     bind_act (attempt_call h (nh_connect h rq)) (\<lambda>events.
     let r = requester_run provider_max_metadata_response_bytes [] events in
     bind_act (log_event (Ev_Answer r)) (\<lambda>_. lift_act (https_outcome r))))"

definition request_once :: "'w network_host \<Rightarrow> provider_url \<Rightarrow> http_method \<Rightarrow> (jsstring \<times> jsstring) list \<Rightarrow>
    bytes option \<Rightarrow> ('w, https_response) gateway_act" where
  "request_once h u meth headers body =
     bind_act (prepare_request h u meth headers body) (exchange_request h u)"

definition is_redirect :: "int \<Rightarrow> bool" where
  "is_redirect status = (status \<in> {301, 302, 303, 307, 308})"

definition single_header :: "(jsstring \<times> header_value) list \<Rightarrow> jsstring \<Rightarrow> jsstring option" where
  "single_header hs n = (case (case map_of hs n of None \<Rightarrow> map_of hs (to_lower n) | v \<Rightarrow> v) of
     Some (Header_One s) \<Rightarrow> Some s | Some (Header_Many [s]) \<Rightarrow> Some s | _ \<Rightarrow> None)"

record raw_response =
  rw_status :: int
  rw_body :: bytes
  rw_origin :: jsstring

definition normalize_status :: "https_response \<Rightarrow> jsstring \<Rightarrow> bool \<Rightarrow> provider_error + raw_response" where
  "normalize_status r final had_credential =
     (if hr_status r = 429 then Inl Rate_Limited
      else if (hr_status r = 401 \<or> hr_status r = 403) \<and> had_credential then Inl Credential_Rejected
      else if hr_status r = 408 \<or> hr_status r = 504 then Inl Provider_Timeout
      else if 500 \<le> hr_status r then Inl Provider_Unavailable
      else if hr_status r < 200 \<or> 400 \<le> hr_status r then Inl Request_Failed
      else Inr \<lparr>rw_status = hr_status r, rw_body = hr_body r, rw_origin = final\<rparr>)"

definition redirect_target :: "url_parser \<Rightarrow> redirect_policy option \<Rightarrow> provider_url \<Rightarrow> https_response \<Rightarrow>
    provider_error + provider_url" where
  "redirect_target parse policy u r = (case policy of
     None \<Rightarrow> Inl Network_Denied
   | Some p \<Rightarrow>
       if rp_from p \<noteq> pu_origin u then Inl Network_Denied
       else (case single_header (hr_headers r) (js ''location'') of
           None \<Rightarrow> Inl Response_Invalid
         | Some l \<Rightarrow> (case parse l (Some u) of
               None \<Rightarrow> Inl Response_Invalid
             | Some t \<Rightarrow> bind_res (assert_safe_https_url t) (\<lambda>_.
                 if pu_origin t \<noteq> rp_to p then Inl Network_Denied else Inr t))))"

text \<open>\<open>request\<close>, from the first request on: a redirect is followed once, without the credential.\<close>

definition follow_redirect :: "'w network_host \<Rightarrow> adapter_manifest \<Rightarrow> provider_operation \<Rightarrow> bool \<Rightarrow> provider_url \<Rightarrow>
    (jsstring \<times> jsstring) list \<Rightarrow> bytes option \<Rightarrow> https_response \<Rightarrow> ('w, raw_response) gateway_act" where
  "follow_redirect h m p had_credential u headers body first =
     bind_act (lift_act (redirect_target (nh_parse_url h) (am_redirect m) u first)) (\<lambda>t.
     bind_act (request_once h t (op_method p) (AList.delete authorization_header headers) body) (\<lambda>second.
     lift_act (if is_redirect (hr_status second) then Inl Network_Denied
       else normalize_status second (pu_origin t) had_credential)))"

definition send_request :: "'w network_host \<Rightarrow> adapter_manifest \<Rightarrow> provider_operation \<Rightarrow> bool \<Rightarrow> provider_url \<Rightarrow>
    (jsstring \<times> jsstring) list \<Rightarrow> bytes option \<Rightarrow> ('w, raw_response) gateway_act" where
  "send_request h m p had_credential u headers body =
     bind_act (request_once h u (op_method p) headers body) (\<lambda>first.
     if is_redirect (hr_status first) then follow_redirect h m p had_credential u headers body first
     else lift_act (normalize_status first (pu_origin u) had_credential))"

definition transport_request :: "'w network_host \<Rightarrow> adapter_manifest \<Rightarrow> jsstring \<Rightarrow> json \<Rightarrow>
    provider_credential option \<Rightarrow> ('w, raw_response) gateway_act" where
  "transport_request h m operation_id input cred =
     bind_act not_aborted (\<lambda>_.
     case find (\<lambda>p. op_id p = operation_id) (am_operations m) of
       None \<Rightarrow> throw_act Tool_Unavailable
     | Some p \<Rightarrow> (case Option.bind (op_input_schema p input) (op_encode p) of
         None \<Rightarrow> throw_act Input_Invalid
       | Some encoded \<Rightarrow>
           bind_act (lift_act (build_compiled_request (nh_parse_url h) p encoded cred)) (\<lambda>(u, headers, body).
           send_request h m p (cred \<noteq> None) u headers body)))"

section \<open>What the transport sends\<close>

definition is_request :: "gateway_event \<Rightarrow> bool" where
  "is_request e \<longleftrightarrow> (case e of Ev_Request u q \<Rightarrow> True | _ \<Rightarrow> False)"

definition is_answer :: "gateway_event \<Rightarrow> bool" where
  "is_answer e \<longleftrightarrow> (case e of Ev_Answer r \<Rightarrow> True | _ \<Rightarrow> False)"

lemma is_request_simps [simp]:
  "is_request (Ev_Request u q)" "\<not> is_request (Ev_Answer r)" "\<not> is_request (Ev_Audit p e b)"
  "\<not> is_request Ev_Credential" "\<not> is_request Ev_Inventory"
  by (simp_all add: is_request_def)

text \<open>Steps that neither send nor pay.\<close>

definition quiet :: "'w gateway \<Rightarrow> 'w gateway \<Rightarrow> bool" where
  "quiet s s' \<longleftrightarrow> gw_log s' = gw_log s \<and> ob_max (gw_budget s') = ob_max (gw_budget s)
     \<and> ob_requests (gw_budget s') = ob_requests (gw_budget s)"

interpretation quieting: run_relation quiet
  by unfold_locales (auto simp: quiet_def)

lemma pending_quiet:
  "obeys quiet (pending h f)" "obeys quiet (write_act (refresh_deadline h))"
proof -
  show "obeys quiet (pending h f)"
    by (auto simp: obeys_def pending_def quiet_def abort_budget_def split: prod.splits option.splits)
  show "obeys quiet (write_act (refresh_deadline h))"
    by (auto simp: obeys_def act_simps refresh_deadline_def quiet_def abort_budget_def)
qed

lemma quiet_calls:
  "obeys quiet (attempt_call h f)" "obeys quiet (assert_active h)" "obeys quiet (not_aborted :: ('w, unit) gateway_act)"
  "obeys quiet (can_retry h m a)"
  unfolding attempt_call_def assert_active_def not_aborted_def can_retry_def
  by (intro quieting.obeys_intros pending_quiet)+

lemma wp_quiet:
  assumes "obeys quiet m" and "\<And>x s'. quiet s s' \<Longrightarrow> Q x s'" and "\<And>e s'. quiet s s' \<Longrightarrow> E e s'"
  shows "wp m Q E s"
  using assms by (auto simp: wp_def obeys_def split: prod.splits sum.splits) (metis snd_conv)+

text \<open>A claimed request.\<close>

definition claimed :: "'w gateway \<Rightarrow> 'w gateway \<Rightarrow> bool" where
  "claimed s s' \<longleftrightarrow> gw_log s' = gw_log s \<and> ob_max (gw_budget s') = ob_max (gw_budget s)
     \<and> ob_requests (gw_budget s') = ob_requests (gw_budget s) + 1 \<and> ob_requests (gw_budget s) < ob_max (gw_budget s)"

lemma wp_claim:
  assumes "\<And>s'. claimed s s' \<Longrightarrow> Q () s'" and "\<And>e s'. quiet s s' \<Longrightarrow> E e s'"
  shows "wp (claim_request h) Q E s"
  unfolding claim_request_def
  by (intro wp_intros; rule wp_quiet [OF quiet_calls(2)]; (intro wp_intros)?;
      (rule assms)?) (auto simp: quiet_def claimed_def intro: assms)

text \<open>From \<open>s\<close> to \<open>s'\<close> the log grew by \<open>evs\<close> and \<open>k\<close> requests were paid for.\<close>

definition stepped :: "int \<Rightarrow> gateway_event list \<Rightarrow> 'w gateway \<Rightarrow> 'w gateway \<Rightarrow> bool" where
  "stepped k evs s s' \<longleftrightarrow> gw_log s' = gw_log s @ evs \<and> ob_max (gw_budget s') = ob_max (gw_budget s)
     \<and> ob_requests (gw_budget s') = ob_requests (gw_budget s) + k
     \<and> (0 < k \<longrightarrow> ob_requests (gw_budget s') \<le> ob_max (gw_budget s))"

definition sends :: "http_method \<Rightarrow> (jsstring \<times> jsstring) list \<Rightarrow> bytes option \<Rightarrow> provider_url \<Rightarrow> https_request \<Rightarrow> bool" where
  "sends meth headers body u q \<longleftrightarrow> public_address (hq_address q) \<and> hq_hostname q = pu_hostname u
     \<and> hq_method q = meth \<and> hq_headers q = headers \<and> hq_body q = body"

text \<open>The ways a request can end: not sent, sent and interrupted, or answered.\<close>

definition request_failed :: "(https_request \<Rightarrow> bool) \<Rightarrow> provider_url \<Rightarrow> provider_error \<Rightarrow> 'w gateway \<Rightarrow> 'w gateway \<Rightarrow> bool" where
  "request_failed G u e s s' \<longleftrightarrow> stepped 0 [] s s' \<or> stepped 1 [] s s'
     \<or> (\<exists>q. G q \<and> e \<in> {Provider_Timeout, Provider_Cancelled} \<and> stepped 1 [Ev_Request u q] s s')
     \<or> (\<exists>q r. G q \<and> https_outcome r = Inl e \<and> stepped 1 [Ev_Request u q, Ev_Answer r] s s')"

lemma quiet_stepped: "quiet s s' \<Longrightarrow> stepped 0 [] s s'" "claimed s s' \<Longrightarrow> quiet s' t \<Longrightarrow> stepped 1 [] s t"
  by (auto simp: quiet_def claimed_def stepped_def)

lemma quiet_trans: "quiet s t \<Longrightarrow> quiet t u \<Longrightarrow> quiet s u"
  by (rule quieting.R_trans)

lemma attempt_call_error:
  "attempt_call h f s = (Inl e, s') \<Longrightarrow> e \<in> {Provider_Timeout, Provider_Cancelled} \<and> quiet s s'"
proof -
  assume a: "attempt_call h f s = (Inl e, s')"
  then have "quiet s s'" using quiet_calls(1) [of h f] unfolding obeys_def by (metis snd_conv)
  moreover have "e \<in> {Provider_Timeout, Provider_Cancelled}"
    using a by (auto simp: attempt_call_def bind_act_eq_Inl act_simps abort_error_def pending_def split: prod.splits if_splits)
  ultimately show ?thesis by simp
qed

lemma wp_attempt:
  assumes "\<And>x s'. quiet s s' \<Longrightarrow> Q x s'"
    and "\<And>e s'. quiet s s' \<Longrightarrow> e \<in> {Provider_Timeout, Provider_Cancelled} \<Longrightarrow> E e s'"
  shows "wp (attempt_call h f) Q E s"
proof (rule wpI)
  fix x s'
  assume "attempt_call h f s = (Inr x, s')"
  then have "quiet s s'" using quiet_calls(1) [of h f] unfolding obeys_def by (metis snd_conv)
  then show "Q x s'" by (rule assms(1))
next
  fix e s'
  assume "attempt_call h f s = (Inl e, s')"
  then show "E e s'" using attempt_call_error assms(2) by blast
qed

lemma stepped_trans: "stepped k evs s t \<Longrightarrow> stepped 0 evs' t u \<Longrightarrow> stepped k (evs @ evs') s u"
  by (auto simp: stepped_def)

lemma stepped_quiet: "stepped k evs s t \<Longrightarrow> quiet t u \<Longrightarrow> stepped k evs s u"
  by (auto simp: stepped_def quiet_def)

lemma prepare_request_wp:
  "wp (prepare_request h u meth headers body) (\<lambda>q s'. sends meth headers body u q \<and> stepped 1 [] s s')
     (\<lambda>e s'. stepped 0 [] s s' \<or> stepped 1 [] s s') s"
  unfolding prepare_request_def
  by (rule wp_bind wp_quiet [OF quiet_calls(3)] wp_claim wp_attempt wp_lift wp_ret)+
    (auto simp: quiet_def claimed_def stepped_def sends_def list_all_iff dest: selected_public)

lemma exchange_request_wp:
  "wp (exchange_request h u q)
     (\<lambda>x s'. \<exists>r. https_outcome r = Inr x \<and> stepped 0 [Ev_Request u q, Ev_Answer r] s s')
     (\<lambda>e s'. (e \<in> {Provider_Timeout, Provider_Cancelled} \<and> stepped 0 [Ev_Request u q] s s')
        \<or> (\<exists>r. https_outcome r = Inl e \<and> stepped 0 [Ev_Request u q, Ev_Answer r] s s')) s"
  unfolding exchange_request_def log_event_def
  by (rule wp_bind wp_let wp_write wp_attempt wp_lift)+ (auto simp: quiet_def stepped_def)

lemma request_once_wp:
  "wp (request_once h u meth headers body)
     (\<lambda>x s'. \<exists>q r. sends meth headers body u q \<and> https_outcome r = Inr x \<and> stepped 1 [Ev_Request u q, Ev_Answer r] s s')
     (\<lambda>e. request_failed (sends meth headers body u) u e s) s"
  unfolding request_once_def
proof (rule wp_bind, rule wp_mono [OF prepare_request_wp])
  fix q t
  assume q: "sends meth headers body u q \<and> stepped 1 [] s t"
  show "wp (exchange_request h u q)
     (\<lambda>x s'. \<exists>q r. sends meth headers body u q \<and> https_outcome r = Inr x \<and> stepped 1 [Ev_Request u q, Ev_Answer r] s s')
     (\<lambda>e. request_failed (sends meth headers body u) u e s) t"
    by (rule wp_mono [OF exchange_request_wp]) (use q stepped_trans [of 1 "[]" s t] in \<open>fastforce simp: request_failed_def\<close>)+
qed (auto simp: request_failed_def)

section \<open>Requests stay within the compiled authority\<close>

text \<open>
  A request of an operation goes to a public address over HTTPS, to the origin of the operation or,
  without the credential, to the one origin the manifest allows a redirect to.
\<close>

definition request_within :: "adapter_manifest \<Rightarrow> provider_operation \<Rightarrow> provider_url \<Rightarrow> https_request \<Rightarrow> bool" where
  "request_within m p u q \<longleftrightarrow> public_address (hq_address q) \<and> hq_hostname q = pu_hostname u \<and> hq_method q = op_method p
     \<and> pu_protocol u = js ''https:'' \<and> pu_username u = [] \<and> pu_password u = []
     \<and> (case hq_body q of None \<Rightarrow> True | Some b \<Rightarrow> length b \<le> 262144)
     \<and> (pu_origin u = op_origin p \<or> (\<exists>r. am_redirect m = Some r \<and> rp_from r = op_origin p \<and> pu_origin u = rp_to r
          \<and> authorization_header \<notin> fst ` set (hq_headers q)))"

definition event_within :: "adapter_manifest \<Rightarrow> provider_operation \<Rightarrow> gateway_event \<Rightarrow> bool" where
  "event_within m p e \<longleftrightarrow> (case e of Ev_Request u q \<Rightarrow> request_within m p u q | _ \<Rightarrow> True)"

lemma event_within_simps [simp]:
  "event_within m p (Ev_Request u q) = request_within m p u q" "event_within m p (Ev_Answer r)"
  "event_within m p (Ev_Audit f e b)" "event_within m p Ev_Credential" "event_within m p Ev_Inventory"
  by (simp_all add: event_within_def)

text \<open>An answer that says no, and one that was cut off for its size.\<close>

definition refused :: "requester_outcome \<Rightarrow> bool" where
  "refused r \<longleftrightarrow> (case r of Req_Response x \<Rightarrow> \<not> (200 \<le> hr_status x \<and> hr_status x \<le> 299) | _ \<Rightarrow> False)"

definition oversized :: "requester_outcome \<Rightarrow> bool" where
  "oversized r \<longleftrightarrow> (case r of Req_Response x \<Rightarrow> provider_max_metadata_response_bytes < length (hr_body x)
     | Req_Rejected e \<Rightarrow> True | _ \<Rightarrow> False)"

definition ambiguous :: "provider_error \<Rightarrow> bool" where
  "ambiguous e \<longleftrightarrow> e \<in> {Provider_Unavailable, Provider_Timeout, Provider_Cancelled}"

definition definite :: "gateway_event list \<Rightarrow> bool" where
  "definite evs \<longleftrightarrow> (\<exists>r. Ev_Answer r \<in> set evs \<and> (refused r \<or> oversized r))"

text \<open>
  A request to another origin than the one of the operation is sent only directly after a request
  to the origin of the operation that was answered with a redirect, and so once for each such answer.
\<close>

definition redirects_led :: "provider_operation \<Rightarrow> gateway_event list \<Rightarrow> bool" where
  "redirects_led p evs \<longleftrightarrow> (\<forall>before t q after. evs = before @ Ev_Request t q # after \<longrightarrow> pu_origin t \<noteq> op_origin p \<longrightarrow>
     (\<exists>earlier u q' x. before = earlier @ [Ev_Request u q', Ev_Answer (Req_Response x)]
        \<and> pu_origin u = op_origin p \<and> hr_status x \<in> {301, 302, 303, 307, 308}))"

lemma led_silent: "\<not> list_ex is_request evs \<Longrightarrow> redirects_led p evs"
  by (auto simp: redirects_led_def)

lemma led_append:
  assumes "redirects_led p evs" and "redirects_led p evs'"
  shows "redirects_led p (evs @ evs')"
  unfolding redirects_led_def
proof (intro allI impI)
  fix before t q after
  assume eq: "evs @ evs' = before @ Ev_Request t q # after" and t: "pu_origin t \<noteq> op_origin p"
  from eq consider (right) mid where "before = evs @ mid" "evs' = mid @ Ev_Request t q # after"
    | (left) mid where "evs = before @ Ev_Request t q # mid" "mid @ evs' = after"
    by (auto simp: append_eq_append_conv2 Cons_eq_append_conv append_eq_Cons_conv)
  then show "\<exists>earlier u q' x. before = earlier @ [Ev_Request u q', Ev_Answer (Req_Response x)]
      \<and> pu_origin u = op_origin p \<and> hr_status x \<in> {301, 302, 303, 307, 308}"
  proof cases
    case right
    with assms(2) t obtain earlier u q' x where "mid = earlier @ [Ev_Request u q', Ev_Answer (Req_Response x)]"
        "pu_origin u = op_origin p" "hr_status x \<in> {301, 302, 303, 307, 308}"
      unfolding redirects_led_def by blast
    with right(1) show ?thesis by (intro exI [of _ "evs @ earlier"] exI) simp
  next
    case left
    with assms(1) t show ?thesis unfolding redirects_led_def by blast
  qed
qed

text \<open>One request to a target and what came of it.\<close>

definition exchange_with :: "provider_url \<Rightarrow> gateway_event list \<Rightarrow> bool" where
  "exchange_with u evs \<longleftrightarrow> evs = [] \<or> (\<exists>q. evs = [Ev_Request u q]) \<or> (\<exists>q r. evs = [Ev_Request u q, Ev_Answer r])"

lemma led_exchange: "exchange_with u evs \<Longrightarrow> pu_origin u = op_origin p \<Longrightarrow> redirects_led p evs"
  by (auto simp: exchange_with_def redirects_led_def append_eq_Cons_conv Cons_eq_append_conv)

lemma led_redirect:
  assumes "exchange_with t evs" and "pu_origin u = op_origin p" and "is_redirect (hr_status x)"
  shows "redirects_led p ([Ev_Request u q, Ev_Answer (Req_Response x)] @ evs)"
  using assms by (auto simp: exchange_with_def redirects_led_def append_eq_Cons_conv Cons_eq_append_conv is_redirect_def)

text \<open>What a part of an operation sent: requests within authority, each paid for.\<close>

definition paid :: "adapter_manifest \<Rightarrow> provider_operation \<Rightarrow> gateway_event list \<Rightarrow> 'w gateway \<Rightarrow> 'w gateway \<Rightarrow> bool" where
  "paid m p evs s s' \<longleftrightarrow> (\<exists>k. stepped k evs s s' \<and> int (length (filter is_request evs)) \<le> k) \<and> list_all (event_within m p) evs"

definition traced :: "adapter_manifest \<Rightarrow> provider_operation \<Rightarrow> gateway_event list \<Rightarrow> 'w gateway \<Rightarrow> 'w gateway \<Rightarrow> bool" where
  "traced m p evs s s' \<longleftrightarrow> paid m p evs s s' \<and> redirects_led p evs"

lemma paid_trans: "paid m p evs s t \<Longrightarrow> paid m p evs' t u \<Longrightarrow> paid m p (evs @ evs') s u"
  unfolding paid_def stepped_def by (auto 4 4 intro: exI [of _ "_ + _"])

lemma traced_trans: "traced m p evs s t \<Longrightarrow> traced m p evs' t u \<Longrightarrow> traced m p (evs @ evs') s u"
  by (auto simp: traced_def intro: led_append paid_trans)

lemma traced_steps:
  "stepped k evs s s' \<Longrightarrow> 0 \<le> k \<Longrightarrow> \<not> list_ex is_request evs \<Longrightarrow> traced m p evs s s'"
proof -
  assume step: "stepped k evs s s'" "0 \<le> k" and silent: "\<not> list_ex is_request evs"
  have "filter is_request evs = []" using silent by (auto simp: list_ex_iff filter_empty_conv)
  moreover have "list_all (event_within m p) evs"
    using silent by (auto simp: list_ex_iff list_all_iff event_within_def split: gateway_event.splits)
  ultimately show ?thesis using step led_silent [OF silent] by (auto simp: traced_def paid_def)
qed

lemma traced_quiet: "quiet s s' \<Longrightarrow> traced m p [] s s'"
  by (rule traced_steps [OF quiet_stepped(1)]) simp_all

lemma traced_refl: "traced m p [] s s"
  by (rule traced_quiet) (simp add: quiet_def)

lemma traced_then_quiet: "traced m p evs s t \<Longrightarrow> quiet t u \<Longrightarrow> traced m p evs s u"
  using traced_trans [OF _ traced_quiet] by fastforce

lemma https_outcome_error: "https_outcome r = Inl e \<Longrightarrow> ambiguous e \<or> refused r \<or> oversized r"
  by (auto simp: https_outcome_def checked_response_def ambiguous_def refused_def oversized_def
      split: requester_outcome.splits if_splits)

lemma https_outcome_response: "https_outcome r = Inr x \<Longrightarrow> r = Req_Response x"
  by (auto simp: https_outcome_def checked_response_def split: requester_outcome.splits if_splits)

lemma normalize_status_error:
  "normalize_status x fin c = Inl e \<Longrightarrow> ambiguous e \<or> refused (Req_Response x)"
  by (auto simp: normalize_status_def ambiguous_def refused_def split: if_splits)

text \<open>One request of an operation, seen from the trace.\<close>

lemma request_once_paid:
  assumes "\<And>q. sends meth headers body u q \<Longrightarrow> request_within m p u q"
  shows "wp (request_once h u meth headers body)
     (\<lambda>x s'. \<exists>q. paid m p [Ev_Request u q, Ev_Answer (Req_Response x)] s s')
     (\<lambda>e s'. \<exists>evs. paid m p evs s s' \<and> exchange_with u evs \<and> (list_ex is_request evs \<longrightarrow> ambiguous e \<or> definite evs)) s"
proof (rule wp_mono [OF request_once_wp])
  fix x s'
  assume "\<exists>q r. sends meth headers body u q \<and> https_outcome r = Inr x \<and> stepped 1 [Ev_Request u q, Ev_Answer r] s s'"
  then show "\<exists>q. paid m p [Ev_Request u q, Ev_Answer (Req_Response x)] s s'"
    using assms by (force simp: paid_def dest: https_outcome_response)
next
  fix e s'
  assume "request_failed (sends meth headers body u) u e s s'"
  then consider (none) k where "stepped k [] s s'" "0 \<le> k"
    | (cut) q where "request_within m p u q" "ambiguous e" "stepped 1 [Ev_Request u q] s s'"
    | (answered) q r where "request_within m p u q" "https_outcome r = Inl e" "stepped 1 [Ev_Request u q, Ev_Answer r] s s'"
    using assms by (force simp: request_failed_def ambiguous_def)
  then show "\<exists>evs. paid m p evs s s' \<and> exchange_with u evs \<and> (list_ex is_request evs \<longrightarrow> ambiguous e \<or> definite evs)"
  proof cases
    case none
    then show ?thesis by (intro exI [of _ "[]"]) (auto simp: paid_def exchange_with_def)
  next
    case (cut q)
    then show ?thesis by (intro exI [of _ "[Ev_Request u q]"]) (auto simp: paid_def exchange_with_def)
  next
    case (answered q r)
    then show ?thesis
      using https_outcome_error [OF answered(2)]
      by (intro exI [of _ "[Ev_Request u q, Ev_Answer r]"]) (auto simp: paid_def definite_def exchange_with_def)
  qed
qed

text \<open>Appending to the query leaves the rest of a URL alone.\<close>

definition same_target :: "provider_url \<Rightarrow> provider_url \<Rightarrow> bool" where
  "same_target u v \<longleftrightarrow> pu_protocol v = pu_protocol u \<and> pu_origin v = pu_origin u \<and> pu_username v = pu_username u
     \<and> pu_password v = pu_password u \<and> pu_hostname v = pu_hostname u \<and> pu_port v = pu_port u"

lemma append_scalar_target: "append_scalar_query_value k v u = Inr u' \<Longrightarrow> same_target u u'"
  by (auto simp: append_scalar_query_value_def same_target_def split: option.splits if_splits)

lemma same_target_trans: "same_target u v \<Longrightarrow> same_target v w \<Longrightarrow> same_target u w"
  by (simp add: same_target_def)

lemma append_items_target: "append_query_items k vs u = Inr u' \<Longrightarrow> same_target u u'"
  by (induction vs arbitrary: u)
    (auto simp: bind_res_eq_Inr same_target_def dest!: append_scalar_target)

lemma append_query_target: "append_query allowed fs u = Inr u' \<Longrightarrow> same_target u u'"
proof (induction allowed fs u rule: append_query.induct)
  case (2 allowed k v fs u)
  then obtain w where w: "append_query_value k v u = Inr w" "append_query allowed fs w = Inr u'" "k \<in> set allowed"
    by (auto simp: bind_res_eq_Inr split: if_splits)
  then have "same_target u w"
    by (auto simp: append_query_value_def dest: append_scalar_target append_items_target split: json.splits if_splits)
  then show ?case using 2 w same_target_trans by blast
qed (simp add: same_target_def)

lemma build_compiled_request_ok:
  assumes "build_compiled_request parse p encoded cred = Inr (u, hs, body)"
  shows "pu_origin u = op_origin p \<and> pu_protocol u = js ''https:'' \<and> pu_username u = [] \<and> pu_password u = []"
    and "case body of None \<Rightarrow> True | Some b \<Rightarrow> length b \<le> 262144"
proof -
  obtain v qs where "assert_safe_https_url v = Inr ()" "pu_origin v = op_origin p" "append_query (op_query_keys p) qs v = Inr u"
    and b: "\<not> (case body of Some b \<Rightarrow> provider_max_request_body_bytes < length b | None \<Rightarrow> False)"
    using assms by (auto simp: build_compiled_request_def guard_eq_Inr Let_def split: if_splits option.splits)
  then show "pu_origin u = op_origin p \<and> pu_protocol u = js ''https:'' \<and> pu_username u = [] \<and> pu_password u = []"
    using append_query_target by (auto simp: assert_safe_https_url_def same_target_def)
  show "case body of None \<Rightarrow> True | Some b \<Rightarrow> length b \<le> 262144"
    using b by (auto simp: provider_max_request_body_bytes_def split: option.splits)
qed

lemma redirect_target_ok:
  assumes "redirect_target parse policy u r = Inr t"
  shows "\<exists>p. policy = Some p \<and> rp_from p = pu_origin u \<and> pu_origin t = rp_to p
    \<and> pu_protocol t = js ''https:'' \<and> pu_username t = [] \<and> pu_password t = []"
  using assms by (auto simp: redirect_target_def guard_eq_Inr assert_safe_https_url_def split: option.splits if_splits)

lemma delete_no_key: "k \<notin> fst ` set (AList.delete k hs)"
  by (induction hs) auto

lemma is_redirect_refused: "is_redirect (hr_status x) \<Longrightarrow> refused (Req_Response x)"
  by (auto simp: is_redirect_def refused_def)

text \<open>What a part of the transport sent, after what was sent before it, and how it failed.\<close>

definition explained :: "provider_error \<Rightarrow> gateway_event list \<Rightarrow> bool" where
  "explained e evs \<longleftrightarrow> (list_ex is_request evs \<longrightarrow> ambiguous e \<or> definite evs)"

lemma definite_append: "definite (evs @ evs') \<longleftrightarrow> definite evs \<or> definite evs'"
  by (auto simp: definite_def)

lemma definite_redirect: "is_redirect (hr_status x) \<Longrightarrow> definite [Ev_Request u q, Ev_Answer (Req_Response x)]"
  by (auto simp: definite_def dest: is_redirect_refused)

lemma follow_redirect_wp:
  assumes "pu_origin u = op_origin p" and "case body of None \<Rightarrow> True | Some b \<Rightarrow> length b \<le> 262144"
  shows "wp (follow_redirect h m p c u headers body first)
     (\<lambda>x s'. \<exists>t evs. paid m p evs s s' \<and> exchange_with t evs)
     (\<lambda>e s'. \<exists>t evs. paid m p evs s s' \<and> exchange_with t evs) s"
  (is "wp _ (\<lambda>x. ?P) _ s")
  unfolding follow_redirect_def
proof (rule wp_bind, rule wp_lift, rule wp_bind)
  fix t
  assume t: "redirect_target (nh_parse_url h) (am_redirect m) u first = Inr t"
  have within: "request_within m p t q" if "sends (op_method p) (AList.delete authorization_header headers) body t q" for q
    using that redirect_target_ok [OF t] assms by (auto simp: sends_def request_within_def delete_no_key)
  show "wp (request_once h t (op_method p) (AList.delete authorization_header headers) body)
     (\<lambda>second. wp (lift_act (if is_redirect (hr_status second) then Inl Network_Denied
         else normalize_status second (pu_origin t) c)) (\<lambda>x. ?P) (\<lambda>e. ?P))
     (\<lambda>e. ?P) s"
  proof (rule wp_mono [OF request_once_paid], erule within)
    fix second s'
    assume "\<exists>q. paid m p [Ev_Request t q, Ev_Answer (Req_Response second)] s s'"
    moreover have "exchange_with t [Ev_Request t q, Ev_Answer (Req_Response second)]" for q
      by (simp add: exchange_with_def)
    ultimately have "?P s'" by blast
    then show "wp (lift_act (if is_redirect (hr_status second) then Inl Network_Denied
        else normalize_status second (pu_origin t) c)) (\<lambda>x. ?P) (\<lambda>e. ?P) s'"
      by (intro wp_lift)
  qed blast
next
  have "paid m p [] s s" using traced_refl [of m p s] by (simp add: traced_def)
  moreover have "exchange_with u []" by (simp add: exchange_with_def)
  ultimately show "?P s" by blast
qed

lemma send_request_wp:
  assumes "pu_origin u = op_origin p" and "pu_protocol u = js ''https:''" and "pu_username u = []" and "pu_password u = []"
    and "case body of None \<Rightarrow> True | Some b \<Rightarrow> length b \<le> 262144"
  shows "wp (send_request h m p c u headers body)
     (\<lambda>x s'. \<exists>evs. traced m p evs s s' \<and> list_ex is_request evs)
     (\<lambda>e s'. \<exists>evs. traced m p evs s s' \<and> explained e evs) s"
  unfolding send_request_def
proof (rule wp_bind, rule wp_mono [OF request_once_paid])
  show "request_within m p u q" if "sends (op_method p) headers body u q" for q
    using that assms by (auto simp: sends_def request_within_def)
  show "\<exists>evs. traced m p evs s s' \<and> explained e evs"
    if "\<exists>evs. paid m p evs s s' \<and> exchange_with u evs \<and> (list_ex is_request evs \<longrightarrow> ambiguous e \<or> definite evs)" for e s'
    using that led_exchange [OF _ assms(1)] by (auto simp: explained_def traced_def)
  fix first t
  assume "\<exists>q. paid m p [Ev_Request u q, Ev_Answer (Req_Response first)] s t"
  then obtain q where q: "paid m p [Ev_Request u q, Ev_Answer (Req_Response first)] s t" by blast
  let ?es = "[Ev_Request u q, Ev_Answer (Req_Response first)]"
  show "wp (if is_redirect (hr_status first) then follow_redirect h m p c u headers body first
      else lift_act (normalize_status first (pu_origin u) c))
     (\<lambda>x s'. \<exists>evs. traced m p evs s s' \<and> list_ex is_request evs)
     (\<lambda>e s'. \<exists>evs. traced m p evs s s' \<and> explained e evs) t"
  proof (cases "is_redirect (hr_status first)")
    case True
    have trace: "traced m p (?es @ evs) s s' \<and> definite (?es @ evs) \<and> list_ex is_request (?es @ evs)"
      if "paid m p evs t s'" "exchange_with v evs" for v evs s'
      using paid_trans [OF q that(1)] led_redirect [OF that(2) assms(1) True] definite_redirect [OF True, of u q]
      by (auto simp: definite_def traced_def)
    have "wp (follow_redirect h m p c u headers body first)
       (\<lambda>x s'. \<exists>evs. traced m p evs s s' \<and> list_ex is_request evs)
       (\<lambda>e s'. \<exists>evs. traced m p evs s s' \<and> explained e evs) t"
      by (rule wp_mono [OF follow_redirect_wp [OF assms(1,5)]]; elim exE conjE; drule (1) trace)
        (auto simp: explained_def)
    then show ?thesis using True by simp
  next
    case False
    have "traced m p ?es s t"
      using q led_exchange [of u ?es p] assms(1) by (auto simp: traced_def exchange_with_def)
    moreover have "definite ?es \<or> ambiguous e" if "normalize_status first (pu_origin u) c = Inl e" for e
      using normalize_status_error [OF that] by (auto simp: definite_def)
    ultimately show ?thesis using False by (auto simp: explained_def intro!: wp_lift)
  qed
qed

lemma transport_request_wp:
  assumes "find (\<lambda>p. op_id p = i) (am_operations m) = Some p"
  shows "wp (transport_request h m i input cred)
     (\<lambda>x s'. \<exists>evs. traced m p evs s s' \<and> list_ex is_request evs)
     (\<lambda>e s'. \<exists>evs. traced m p evs s s' \<and> explained e evs) s"
proof -
  have quiet: "\<exists>evs. traced m p evs s s' \<and> explained e evs" if "quiet s s'" for e s'
    using that by (intro exI [of _ "[]"]) (simp add: traced_quiet explained_def)
  have from_quiet: "wp n (\<lambda>x s'. \<exists>evs. traced m p evs s s' \<and> list_ex is_request evs)
      (\<lambda>e s'. \<exists>evs. traced m p evs s s' \<and> explained e evs) t"
    if "quiet s t" and "wp n (\<lambda>x s'. \<exists>evs. traced m p evs t s' \<and> list_ex is_request evs)
      (\<lambda>e s'. \<exists>evs. traced m p evs t s' \<and> explained e evs) t" for t and n :: "('a, raw_response) gateway_act"
  proof (rule wp_mono [OF that(2)])
    have "traced m p [] s t" using that(1) by (rule traced_quiet)
    then show "\<exists>evs. traced m p evs s s' \<and> list_ex is_request evs" if "\<exists>evs. traced m p evs t s' \<and> list_ex is_request evs"
      for s' using that traced_trans by fastforce
    show "\<exists>evs. traced m p evs s s' \<and> explained e evs" if "\<exists>evs. traced m p evs t s' \<and> explained e evs" for e s'
      using that traced_trans [OF \<open>traced m p [] s t\<close>] by fastforce
  qed
  show ?thesis
    unfolding transport_request_def assms option.case
  proof (rule wp_bind, rule wp_quiet [OF quiet_calls(3)])
    fix t :: "'a gateway"
    assume t: "quiet s t"
    show "wp (case Option.bind (op_input_schema p input) (op_encode p) of None \<Rightarrow> throw_act Input_Invalid
      | Some encoded \<Rightarrow> bind_act (lift_act (build_compiled_request (nh_parse_url h) p encoded cred))
          (\<lambda>(u, headers, body). send_request h m p (cred \<noteq> None) u headers body))
      (\<lambda>x s'. \<exists>evs. traced m p evs s s' \<and> list_ex is_request evs)
      (\<lambda>e s'. \<exists>evs. traced m p evs s s' \<and> explained e evs) t"
    proof (intro wp_option wp_throw wp_bind wp_lift wp_prod)
      fix encoded x u y headers body
      assume "build_compiled_request (nh_parse_url h) p encoded cred = Inr x" "x = (u, y)" "y = (headers, body)"
      then have "build_compiled_request (nh_parse_url h) p encoded cred = Inr (u, headers, body)" by simp
      from build_compiled_request_ok [OF this]
      show "wp (send_request h m p (cred \<noteq> None) u headers body)
        (\<lambda>x s'. \<exists>evs. traced m p evs s s' \<and> list_ex is_request evs)
        (\<lambda>e s'. \<exists>evs. traced m p evs s s' \<and> explained e evs) t"
        by (intro from_quiet [OF t] send_request_wp) auto
    qed (use quiet t in blast)+
  qed (use quiet in blast)
qed

end
