(* ===== verification/Provider_Inventory.thy ===== *)
theory Provider_Inventory
  imports Provider_Output
begin

text \<open>
  \<open>packages/capabilities/src/provider-gateway/inventory.ts\<close>: the canonical form of the tools a dynamic
  provider offers, and its fingerprint. NFC and SHA-256 (as lower-case hex) are arguments.
\<close>

definition provider_max_tools :: nat where "provider_max_tools = 128"

definition provider_max_tool_schema_bytes :: nat where "provider_max_tool_schema_bytes = 32768"

definition provider_max_canonical_inventory_bytes :: nat where "provider_max_canonical_inventory_bytes = 524288"

definition prose_fields :: "jsstring list" where
  "prose_fields = map js [''description'', ''displayName'', ''examples'', ''instructions'', ''prompt'', ''prompts'',
     ''summary'', ''title'']"

definition inventory_fields :: "jsstring list" where
  "inventory_fields = map js [''adapterContractVersion'', ''providerContractVersion'', ''tools'']"

definition tool_fields :: "jsstring list" where
  "tool_fields = map js [''id'', ''inputSchema'', ''outputSchema'']"

section \<open>Canonical JSON\<close>

text \<open>\<open>Buffer.compare\<close> of the UTF-8 bytes of two strings, as \<open>\<le>\<close>.\<close>

fun byte_list_le :: "nat list \<Rightarrow> nat list \<Rightarrow> bool" where
  "byte_list_le [] ys = True"
| "byte_list_le (x # xs) [] = False"
| "byte_list_le (x # xs) (y # ys) = (x < y \<or> x = y \<and> byte_list_le xs ys)"

definition utf8_le :: "jsstring \<Rightarrow> jsstring \<Rightarrow> bool" where
  "utf8_le a b = byte_list_le (utf8_encode a) (utf8_encode b)"

text \<open>
  The own fields of an object whose fields were assigned in this order: array indices come first, in
  ascending order, and \<open>__proto__\<close> is no field.
\<close>

definition is_array_index :: "jsstring \<Rightarrow> bool" where
  "is_array_index k = (k \<noteq> [] \<and> list_all is_digit k \<and> (hd k = 48 \<longrightarrow> length k = 1) \<and> digits_value k < 2 ^ 32 - 1)"

definition own_fields :: "fields \<Rightarrow> fields" where
  "own_fields fs = (let gs = filter (\<lambda>f. fst f \<noteq> proto_key) fs in
     sort_by (\<lambda>a b. digits_value (fst a) \<le> digits_value (fst b)) (filter (\<lambda>f. is_array_index (fst f)) gs)
       @ filter (\<lambda>f. \<not> is_array_index (fst f)) gs)"

fun canonical_value :: "(jsstring \<Rightarrow> jsstring) \<Rightarrow> nat \<Rightarrow> json \<Rightarrow> provider_error + json"
  and canonical_items :: "(jsstring \<Rightarrow> jsstring) \<Rightarrow> nat \<Rightarrow> json list \<Rightarrow> provider_error + json list"
  and canonical_fields :: "(jsstring \<Rightarrow> jsstring) \<Rightarrow> nat \<Rightarrow> fields \<Rightarrow> fields \<Rightarrow> provider_error + fields" where
  "canonical_value nfc d v =
     (if provider_max_structural_depth < d then Inl Response_Invalid
      else (case v of
          JNull \<Rightarrow> Inr JNull
        | JBool b \<Rightarrow> Inr (JBool b)
        | JStr s \<Rightarrow> if 0 \<in> set s then Inl Response_Invalid else Inr (JStr (nfc s))
        | JNum k \<Rightarrow> if \<bar>k\<bar> \<le> max_safe then Inr (JNum k) else Inl Response_Invalid
        | JFrac t \<Rightarrow> Inr (JFrac t)
        | JArr xs \<Rightarrow> bind_res (canonical_items nfc (d + 1) xs) (\<lambda>ys. Inr (JArr ys))
        | JObj fs \<Rightarrow> bind_res (canonical_fields nfc (d + 1) fs []) (\<lambda>gs.
            Inr (JObj (own_fields (sort_by (\<lambda>a b. utf8_le (fst a) (fst b)) gs))))))"
| "canonical_items nfc d [] = Inr []"
| "canonical_items nfc d (x # xs) = bind_res (canonical_value nfc d x) (\<lambda>y.
     bind_res (canonical_items nfc d xs) (\<lambda>ys. Inr (y # ys)))"
| "canonical_fields nfc d [] acc = Inr acc"
| "canonical_fields nfc d ((k, x) # fs) acc =
     (let key = nfc k in
      if 0 \<in> set key \<or> map_of acc key \<noteq> None then Inl Response_Invalid
      else bind_res (canonical_value nfc d x) (\<lambda>y. canonical_fields nfc d fs (acc @ [(key, y)])))"

declare canonical_value.simps [simp del]

section \<open>The inventory\<close>

record structural_tool =
  st_id :: jsstring
  st_input :: json
  st_output :: json

record structural_inventory =
  si_adapter_version :: jsstring
  si_provider_version :: "jsstring option"
  si_tools :: "structural_tool list"

definition tool_json :: "structural_tool \<Rightarrow> json" where
  "tool_json t = JObj [fld ''id'' (JStr (st_id t)), fld ''inputSchema'' (st_input t), fld ''outputSchema'' (st_output t)]"

definition inventory_json :: "structural_inventory \<Rightarrow> json" where
  "inventory_json i = JObj [fld ''adapterContractVersion'' (JStr (si_adapter_version i)),
     fld ''providerContractVersion'' (case si_provider_version i of None \<Rightarrow> JNull | Some v \<Rightarrow> JStr v),
     fld ''tools'' (JArr (map tool_json (si_tools i)))]"

definition reject_unknown_authority_fields :: "fields \<Rightarrow> jsstring list \<Rightarrow> provider_error + unit" where
  "reject_unknown_authority_fields fs structural =
     ensure (list_all (\<lambda>f. fst f \<in> set structural \<union> set prose_fields) fs
       \<and> list_all (\<lambda>k. map_of fs k \<noteq> None) structural) Response_Invalid"

definition normalize_version :: "(jsstring \<Rightarrow> jsstring) \<Rightarrow> json option \<Rightarrow> provider_error + jsstring" where
  "normalize_version nfc v = (case as_str v of
     None \<Rightarrow> Inl Response_Invalid
   | Some s \<Rightarrow> let n = nfc s in
       if n = [] \<or> 128 < byte_length n \<or> list_ex is_control n then Inl Response_Invalid else Inr n)"

definition normalize_tool_id :: "json option \<Rightarrow> provider_error + jsstring" where
  "normalize_tool_id v = (case as_str v of
     None \<Rightarrow> Inl Response_Invalid
   | Some s \<Rightarrow> if is_ok (require_authority_id 128 s) then Inr s else Inl Response_Invalid)"

definition enforce_schema_bytes :: "json \<Rightarrow> provider_error + unit" where
  "enforce_schema_bytes v = ensure (byte_length (stringify v) \<le> provider_max_tool_schema_bytes) Response_Invalid"

definition normalize_tool :: "(jsstring \<Rightarrow> jsstring) \<Rightarrow> json \<Rightarrow> provider_error + structural_tool" where
  "normalize_tool nfc v = (case as_record (Some v) of
     None \<Rightarrow> Inl Response_Invalid
   | Some fs \<Rightarrow>
       bind_res (reject_unknown_authority_fields fs tool_fields) (\<lambda>_.
       bind_res (normalize_tool_id (get fs ''id'')) (\<lambda>i.
       bind_res (canonical_value nfc 0 (the (get fs ''inputSchema''))) (\<lambda>a.
       bind_res (canonical_value nfc 0 (the (get fs ''outputSchema''))) (\<lambda>b.
       bind_res (enforce_schema_bytes a) (\<lambda>_.
       bind_res (enforce_schema_bytes b) (\<lambda>_. Inr \<lparr>st_id = i, st_input = a, st_output = b\<rparr>)))))))"

definition normalize_provider_inventory :: "(jsstring \<Rightarrow> jsstring) \<Rightarrow> json \<Rightarrow> provider_error + structural_inventory" where
  "normalize_provider_inventory nfc v = (case as_record (Some v) of
     None \<Rightarrow> Inl Response_Invalid
   | Some fs \<Rightarrow>
       bind_res (reject_unknown_authority_fields fs inventory_fields) (\<lambda>_.
       bind_res (normalize_version nfc (get fs ''adapterContractVersion'')) (\<lambda>av.
       bind_res (if get fs ''providerContractVersion'' = Some JNull then Inr None
                 else map_sum id Some (normalize_version nfc (get fs ''providerContractVersion''))) (\<lambda>pv.
       case as_arr (get fs ''tools'') of
         None \<Rightarrow> Inl Response_Invalid
       | Some xs \<Rightarrow>
           if provider_max_tools < length xs then Inl Response_Invalid
           else bind_res (map_res (normalize_tool nfc) xs) (\<lambda>ts.
             let tools = sort_by (\<lambda>a b. utf8_le (st_id a) (st_id b)) ts;
                 inv = \<lparr>si_adapter_version = av, si_provider_version = pv, si_tools = tools\<rparr> in
             if has_dup (map st_id tools) then Inl Response_Invalid
             else if provider_max_canonical_inventory_bytes < byte_length (stringify (inventory_json inv))
             then Inl Response_Invalid else Inr inv)))))"

text \<open>The inventory is normalised once more before it is hashed.\<close>

definition fingerprint_provider_inventory :: "(jsstring \<Rightarrow> jsstring) \<Rightarrow> (bytes \<Rightarrow> jsstring) \<Rightarrow> structural_inventory \<Rightarrow>
    provider_error + jsstring" where
  "fingerprint_provider_inventory nfc sha i =
     map_sum id (\<lambda>n. sha (utf8_encode (stringify (inventory_json n)))) (normalize_provider_inventory nfc (inventory_json i))"

end
