(* ===== verification/Provider_Gateway.thy ===== *)
theory Provider_Gateway
  imports Provider_Transport Provider_Inventory
begin

text \<open>
  \<open>packages/capabilities/src/provider-gateway/service.ts\<close>: \<open>execute\<close>, which runs a reviewed semantic
  mapping against an admitted provider. The registry of admitted providers, the audit log, the
  helper processes, the inventory source and the workspace authority are asked through functions
  of the world, as the source asks them through its dependencies.
\<close>

section \<open>Dependencies\<close>

record provider_record =
  pr_instance :: jsstring
  pr_operator :: jsstring
  pr_adapter :: jsstring
  pr_version :: jsstring
  pr_enabled :: bool
  pr_fingerprint :: jsstring
  pr_inventory :: inventory_mode
  pr_approved :: "jsstring option"
  pr_broker :: broker_descriptor
  pr_config :: json
  pr_created :: jsstring
  pr_updated :: jsstring

record audit_metadata =
  ax_operation :: jsstring
  ax_phase :: audit_phase_kind
  ax_provider :: jsstring
  ax_adapter :: jsstring
  ax_capability :: jsstring
  ax_error :: "provider_error option"
  ax_inventory_changed :: bool
  ax_truncated :: "bool option"

record 'w gateway_host =
  gh_net :: "'w network_host"
  gh_registry_get :: "jsstring \<Rightarrow> 'w \<Rightarrow> (provider_error + provider_record option) \<times> 'w"
  gh_audit :: "audit_metadata \<Rightarrow> 'w \<Rightarrow> (provider_error + unit) \<times> 'w"
  gh_workspace :: "jsstring \<Rightarrow> 'w \<Rightarrow> (jsstring \<times> bool) option \<times> 'w"
  gh_fetch_inventory :: "(provider_record \<Rightarrow> provider_credential option \<Rightarrow> 'w \<Rightarrow> (provider_error + json) \<times> 'w) option"
  gh_files :: "'w \<Rightarrow> helper_files"
  gh_roots :: "'w \<Rightarrow> jsstring list"
  gh_spawn :: "'w \<Rightarrow> jsstring \<Rightarrow> jsstring list \<Rightarrow> (jsstring \<times> jsstring) list \<Rightarrow>
     (helper_event list \<times> int option \<times> bool) option"
  gh_elapse :: "'w \<Rightarrow> 'w"
  gh_caller_aborted :: "'w \<Rightarrow> bool"
  gh_operation_id :: "'w \<Rightarrow> jsstring"
  gh_nfc :: "jsstring \<Rightarrow> jsstring"
  gh_sha_hex :: "bytes \<Rightarrow> jsstring"
  gh_parse_json :: "jsstring \<Rightarrow> json option"

section \<open>The input\<close>

record semantic_input =
  se_capability :: jsstring
  se_provider :: jsstring
  se_workspace :: "jsstring option"
  se_input :: "json option"

definition provider_max_semantic_input_bytes :: nat where "provider_max_semantic_input_bytes = 65536"

definition semantic_input_json :: "semantic_input \<Rightarrow> json" where
  "semantic_input_json i = JObj ([fld ''semanticCapabilityId'' (JStr (se_capability i)),
     fld ''providerInstanceId'' (JStr (se_provider i))] @ opt_field ''workspaceId'' JStr (se_workspace i)
     @ opt_field ''input'' id (se_input i))"

definition parse_input_schema :: "json \<Rightarrow> semantic_input option" where
  "parse_input_schema v = (case as_record (Some v) of
     None \<Rightarrow> None
   | Some fs \<Rightarrow>
       if \<not> only_keys fs [''semanticCapabilityId'', ''providerInstanceId'', ''workspaceId'', ''input''] then None
       else (case (as_str (get fs ''semanticCapabilityId''), as_str (get fs ''providerInstanceId'')) of
          (Some c, Some p) \<Rightarrow>
            if \<not> is_ok (require_authority_id 128 c) \<or> \<not> tagged_hex32 ''prv_'' p then None
            else (case get fs ''workspaceId'' of
                None \<Rightarrow> Some \<lparr>se_capability = c, se_provider = p, se_workspace = None, se_input = get fs ''input''\<rparr>
              | Some w \<Rightarrow> (case as_str (Some w) of
                    None \<Rightarrow> None
                  | Some i \<Rightarrow>
                      if i = [] \<or> 256 < length i then None
                      else Some \<lparr>se_capability = c, se_provider = p, se_workspace = Some i, se_input = get fs ''input''\<rparr>))
        | _ \<Rightarrow> None))"

definition parse_semantic_input :: "json \<Rightarrow> provider_error + semantic_input" where
  "parse_semantic_input v = (case parse_input_schema v of
     None \<Rightarrow> Inl Input_Invalid
   | Some i \<Rightarrow>
       if provider_max_semantic_input_bytes < byte_length (stringify (semantic_input_json i))
       then Inl Input_Invalid else Inr i)"

section \<open>Admission\<close>

text \<open>A call before the budget of the operation exists.\<close>

definition ask :: "('w \<Rightarrow> 'a \<times> 'w) \<Rightarrow> ('w, 'a) gateway_act" where
  "ask f s = (case f (gw_world s) of (x, w) \<Rightarrow> (Inr x, s\<lparr>gw_world := w\<rparr>))"

definition require_provider :: "'w gateway_host \<Rightarrow> jsstring \<Rightarrow> ('w, provider_record) gateway_act" where
  "require_provider h i = bind_act (ask (gh_registry_get h i)) (\<lambda>r. lift_act (case r of
     Inl e \<Rightarrow> Inl e | Inr None \<Rightarrow> Inl Not_Admitted | Inr (Some p) \<Rightarrow> Inr p))"

definition resolve_identity :: "'w gateway_host \<Rightarrow> adapter_manifest \<Rightarrow> provider_record \<Rightarrow>
    ('w, implementation_identity) gateway_act" where
  "resolve_identity h m p =
     bind_act (ask (\<lambda>w. (resolve_provider_implementation_identity (gh_files h w) m (pr_broker p) (gh_roots h w),
       gh_elapse h w))) lift_act"

definition enforce_workspace :: "'w gateway_host \<Rightarrow> semantic_mapping \<Rightarrow> jsstring option \<Rightarrow> ('w, unit) gateway_act" where
  "enforce_workspace h m ws =
     (if sm_binding m = Binding_None then ret_act ()
      else (case ws of
          None \<Rightarrow> if sm_binding m = Binding_Required then throw_act Input_Invalid else ret_act ()
        | Some w \<Rightarrow> bind_act (ask (gh_workspace h w)) (\<lambda>r. lift_act (case r of
              None \<Rightarrow> Inl Network_Denied
            | Some (i, unrestricted) \<Rightarrow> ensure (i = w \<and> unrestricted) Network_Denied))))"

record admission =
  ad_mapping :: semantic_mapping
  ad_input :: json
  ad_provider :: provider_record
  ad_manifest :: adapter_manifest

text \<open>\<open>execute\<close> up to the generation of the operation identifier.\<close>

definition admit :: "'w gateway_host \<Rightarrow> adapter_registry \<Rightarrow> json \<Rightarrow> ('w, admission) gateway_act" where
  "admit h reg input =
     bind_act (lift_act (parse_semantic_input input)) (\<lambda>i.
     bind_act (lift_act (require_mapping reg (se_capability i))) (\<lambda>m.
     case sm_input_schema m (se_input i) of
       None \<Rightarrow> throw_act Input_Invalid
     | Some data \<Rightarrow>
         bind_act (require_provider h (se_provider i)) (\<lambda>p.
         bind_act (guard_act (pr_enabled p) Provider_Disabled) (\<lambda>_.
         bind_act (guard_act (pr_adapter p = sm_adapter m) Tool_Unavailable) (\<lambda>_.
         bind_act (lift_act (require_manifest reg (pr_adapter p))) (\<lambda>am.
         bind_act (guard_act (pr_version p = am_version am \<and> pr_inventory p = am_inventory am) Identity_Changed) (\<lambda>_.
         bind_act (resolve_identity h am p) (\<lambda>ident.
         bind_act (guard_act (ii_fingerprint ident = pr_fingerprint p) Identity_Changed) (\<lambda>_.
         bind_act (guard_act (am_inventory am = Inventory_Dynamic \<longrightarrow> pr_approved p \<noteq> None) Inventory_Changed) (\<lambda>_.
         bind_act (enforce_workspace h m (se_workspace i)) (\<lambda>_.
         ret_act \<lparr>ad_mapping = m, ad_input = data, ad_provider = p, ad_manifest = am\<rparr>)))))))))))"

section \<open>The operation\<close>

definition as_provider_failure :: "provider_error \<Rightarrow> provider_error" where
  "as_provider_failure e = (if e = Other_Failure then Request_Failed else e)"

definition is_retryable :: "provider_error \<Rightarrow> bool" where
  "is_retryable e = (e = Provider_Unavailable \<or> e = Provider_Timeout)"

definition is_ambiguous_mutation_failure :: "provider_error \<Rightarrow> bool" where
  "is_ambiguous_mutation_failure e = (e = Provider_Unavailable \<or> e = Provider_Timeout \<or> e = Provider_Cancelled)"

definition execution_audit :: "jsstring \<Rightarrow> admission \<Rightarrow> audit_phase_kind \<Rightarrow> provider_error option \<Rightarrow> bool option \<Rightarrow> audit_metadata" where
  "execution_audit oid a phase err truncated =
     \<lparr>ax_operation = oid, ax_phase = phase, ax_provider = pr_instance (ad_provider a),
      ax_adapter = pr_adapter (ad_provider a), ax_capability = sm_capability (ad_mapping a), ax_error = err,
      ax_inventory_changed = (err = Some Inventory_Changed), ax_truncated = truncated\<rparr>"

definition audit_record :: "'w gateway_host \<Rightarrow> audit_metadata \<Rightarrow> ('w, unit) gateway_act" where
  "audit_record h x =
     bind_act (pending (gh_net h) (gh_audit h x)) (\<lambda>r.
     bind_act (log_event (Ev_Audit (ax_phase x) (ax_error x) (is_ok r))) (\<lambda>_. lift_act r))"

definition acquire :: "'w gateway_host \<Rightarrow> admission \<Rightarrow> ('w, provider_credential option) gateway_act" where
  "acquire h a =
     bind_act (write_act (refresh_deadline (gh_net h))) (\<lambda>_.
     bind_act (log_event Ev_Credential) (\<lambda>_.
     bind_act (read_act (\<lambda>s. ob_reason (gw_budget s) \<noteq> None)) (\<lambda>aborted.
     bind_act (pending (gh_net h) (\<lambda>w. (acquire_credential (gh_files h w) (gh_roots h w) aborted
        (am_broker (ad_manifest a)) (pr_broker (ad_provider a)) (gh_spawn h w), gh_elapse h w))) lift_act)))"

definition verify_dynamic_inventory :: "'w gateway_host \<Rightarrow> admission \<Rightarrow> provider_credential option \<Rightarrow> ('w, unit) gateway_act" where
  "verify_dynamic_inventory h a c = (case pr_approved (ad_provider a) of
     None \<Rightarrow> throw_act Inventory_Changed
   | Some approved \<Rightarrow> (case gh_fetch_inventory h of
       None \<Rightarrow> throw_act Tool_Unavailable
     | Some fetch \<Rightarrow>
         bind_act (write_act (refresh_deadline (gh_net h))) (\<lambda>_.
         bind_act (log_event Ev_Inventory) (\<lambda>_.
         bind_act (pending (gh_net h) (fetch (ad_provider a) c)) (\<lambda>r.
         bind_act (lift_act r) (\<lambda>v.
         bind_act (lift_act (normalize_provider_inventory (gh_nfc h) v)) (\<lambda>n.
         bind_act (guard_act (si_adapter_version n = am_version (ad_manifest a)) Inventory_Changed) (\<lambda>_.
         bind_act (lift_act (fingerprint_provider_inventory (gh_nfc h) (gh_sha_hex h) n)) (\<lambda>fp.
         guard_act (fp = approved) Inventory_Changed)))))))))"

text \<open>\<open>#request\<close>: the loop runs at most twice, as a retry needs \<open>attempt\<close> to be 0.\<close>

definition request_attempt :: "'w gateway_host \<Rightarrow> admission \<Rightarrow> provider_credential option \<Rightarrow> ('w, raw_response) gateway_act" where
  "request_attempt h a c = with_attempt_timeout (gh_net h)
     (transport_request (gh_net h) (ad_manifest a) (sm_operation (ad_mapping a)) (ad_input a) c)"

function request_loop :: "'w gateway_host \<Rightarrow> admission \<Rightarrow> provider_credential option \<Rightarrow> nat \<Rightarrow> ('w, raw_response) gateway_act" where
  "request_loop h a c attempt s = (case request_attempt h a c s of
     (Inr x, s') \<Rightarrow> (Inr x, s')
   | (Inl e, s') \<Rightarrow> (case can_retry (gh_net h) (ad_mapping a) attempt s' of
         (Inr again, s'') \<Rightarrow>
           if again \<and> is_retryable e \<and> attempt = 0 then request_loop h a c (attempt + 1) s'' else (Inl e, s'')
       | (Inl e', s'') \<Rightarrow> (Inl e', s'')))"
  by pat_completeness auto

termination
  by (relation "measure (\<lambda>(h, a, c, attempt, s). 1 - attempt)") auto

declare request_loop.simps [simp del]

text \<open>The \<open>catch\<close> of \<open>execute\<close> after the decision is recorded, and its two ways out.\<close>

definition record_failure :: "'w gateway_host \<Rightarrow> jsstring \<Rightarrow> admission \<Rightarrow> provider_error \<Rightarrow> ('w, 'b) gateway_act" where
  "record_failure h i a e =
     bind_act (catch_act (audit_record h (execution_audit i a Phase_Failed (Some (as_provider_failure e)) None))
       (\<lambda>_. throw_act Audit_Unavailable)) (\<lambda>_. throw_act (as_provider_failure e))"

definition record_mutation_outcome_unknown :: "'w gateway_host \<Rightarrow> jsstring \<Rightarrow> admission \<Rightarrow> ('w, 'b) gateway_act" where
  "record_mutation_outcome_unknown h i a =
     bind_act (catch_act (audit_record h (execution_audit i a Phase_Failed (Some Mutation_Outcome_Unknown) None))
       (\<lambda>_. ret_act ())) (\<lambda>_. throw_act Mutation_Outcome_Unknown)"

definition is_mutation :: "admission \<Rightarrow> bool" where
  "is_mutation a = (sm_effect (ad_mapping a) = Remote_Mutation)"

text \<open>
  The flags \<open>mutationRequestStarted\<close> and \<open>mutationResponseReceived\<close> tell the \<open>catch\<close> how far the body had
  come. Here the body is in three parts, each with the \<open>catch\<close> as it acts for that part: before the
  request, during it, and after the response.
\<close>

definition catch_before :: "'w gateway_host \<Rightarrow> jsstring \<Rightarrow> admission \<Rightarrow> ('w, 'b) gateway_act \<Rightarrow> ('w, 'b) gateway_act" where
  "catch_before h i a m = catch_act m (record_failure h i a)"

definition catch_during :: "'w gateway_host \<Rightarrow> jsstring \<Rightarrow> admission \<Rightarrow> ('w, 'b) gateway_act \<Rightarrow> ('w, 'b) gateway_act" where
  "catch_during h i a m = catch_act m (\<lambda>e.
     if is_mutation a \<and> is_ambiguous_mutation_failure (as_provider_failure e)
     then record_mutation_outcome_unknown h i a else record_failure h i a e)"

definition catch_after :: "'w gateway_host \<Rightarrow> jsstring \<Rightarrow> admission \<Rightarrow> ('w, 'b) gateway_act \<Rightarrow> ('w, 'b) gateway_act" where
  "catch_after h i a m = catch_act m (\<lambda>e.
     if is_mutation a then record_mutation_outcome_unknown h i a else record_failure h i a e)"

definition prepare_credential :: "'w gateway_host \<Rightarrow> admission \<Rightarrow> ('w, provider_credential option) gateway_act" where
  "prepare_credential h a =
     bind_act (acquire h a) (\<lambda>c.
     bind_act (if am_inventory (ad_manifest a) = Inventory_Dynamic then verify_dynamic_inventory h a c else ret_act ()) (\<lambda>_.
     ret_act c))"

record semantic_result =
  sr_capability :: jsstring
  sr_provider :: jsstring
  sr_fitted :: fitted_result

definition finish_response :: "'w gateway_host \<Rightarrow> jsstring \<Rightarrow> admission \<Rightarrow> raw_response \<Rightarrow> ('w, semantic_result) gateway_act" where
  "finish_response h i a r =
     bind_act (lift_act (parse_provider_semantic_output (gh_nfc h) (gh_parse_json h) (rw_body r)
       (sm_output_schema (ad_mapping a)) (sm_map_output (ad_mapping a)) (ad_input a))) (\<lambda>v.
     bind_act (lift_act (fit_provider_semantic_result (gh_nfc h) v)) (\<lambda>f.
     bind_act (audit_record h (execution_audit i a Phase_Success None (Some (fr_truncated f)))) (\<lambda>_.
     ret_act \<lparr>sr_capability = sm_capability (ad_mapping a), sr_provider = pr_instance (ad_provider a), sr_fitted = f\<rparr>)))"

definition operate :: "'w gateway_host \<Rightarrow> jsstring \<Rightarrow> admission \<Rightarrow> ('w, semantic_result) gateway_act" where
  "operate h i a =
     bind_act (catch_act (audit_record h (execution_audit i a Phase_Decision None None))
       (\<lambda>e. throw_act (as_provider_failure e))) (\<lambda>_.
     bind_act (catch_before h i a (prepare_credential h a)) (\<lambda>c.
     bind_act (catch_during h i a (request_loop h a c 0)) (\<lambda>r.
     catch_after h i a (finish_response h i a r))))"

definition operation_id_ok :: "jsstring \<Rightarrow> bool" where
  "operation_id_ok s = (take 3 s = js ''op_'' \<and> drop 3 s \<noteq> [] \<and> length (drop 3 s) \<le> 93
     \<and> list_all is_base64url (drop 3 s))"

text \<open>\<open>finally { budget.close(); }\<close>.\<close>

definition and_finally :: "('w, 'a) gateway_act \<Rightarrow> ('w gateway \<Rightarrow> 'w gateway) \<Rightarrow> ('w, 'a) gateway_act" where
  "and_finally m f s = (case m s of (r, s') \<Rightarrow> (r, f s'))"

definition execute :: "'w gateway_host \<Rightarrow> adapter_registry \<Rightarrow> json \<Rightarrow> ('w, semantic_result) gateway_act" where
  "execute h reg input =
     bind_act (admit h reg input) (\<lambda>a.
     bind_act (read_act (\<lambda>s. gh_operation_id h (gw_world s))) (\<lambda>i.
     bind_act (guard_act (operation_id_ok i) Input_Invalid) (\<lambda>_.
     bind_act (read_act (\<lambda>s. new_budget (nh_now (gh_net h) (gw_world s)) (gh_caller_aborted h (gw_world s))
       (sm_max_requests (ad_mapping a)))) (\<lambda>nb.
     bind_act (lift_act nb) (\<lambda>b.
     bind_act (write_act (\<lambda>s. s\<lparr>gw_budget := b\<rparr>)) (\<lambda>_.
     and_finally (operate h i a) (\<lambda>s. s\<lparr>gw_budget := close_budget (gw_budget s)\<rparr>)))))))"

section \<open>Steps that send nothing\<close>

definition silent :: "'w gateway \<Rightarrow> 'w gateway \<Rightarrow> bool" where
  "silent s s' \<longleftrightarrow> (\<exists>evs. stepped 0 evs s s' \<and> \<not> list_ex is_request evs)"

lemma silent_quiet: "quiet s s' \<Longrightarrow> silent s s'"
  unfolding silent_def by (intro exI [of _ "[]"]) (simp add: quiet_stepped)

lemma silent_trans: "silent s t \<Longrightarrow> silent t u \<Longrightarrow> silent s u"
  unfolding silent_def using stepped_trans by fastforce

interpretation silence: run_relation silent
  by unfold_locales (auto simp: silent_quiet quieting.R_refl intro: silent_trans)

lemma obeys_silent: "obeys quiet m \<Longrightarrow> obeys silent m"
  by (simp add: obeys_def silent_quiet)

lemma silent_steps:
  "obeys silent (pending h f)" "obeys silent (write_act (refresh_deadline h))"
  "obeys silent (log_event Ev_Credential)" "obeys silent (log_event Ev_Inventory)"
  by (rule obeys_silent, rule pending_quiet)+
    (auto simp: obeys_def silent_def log_event_def act_simps stepped_def)

lemma prepare_credential_silent: "obeys silent (prepare_credential h a)"
  unfolding prepare_credential_def acquire_def verify_dynamic_inventory_def
  by (intro silence.obeys_intros silent_steps)

lemma silent_traced:
  assumes "silent s s'"
  obtains evs where "traced m p evs s s'" and "\<not> list_ex is_request evs"
proof -
  obtain evs where evs: "stepped 0 evs s s'" "\<not> list_ex is_request evs" using assms by (auto simp: silent_def)
  then have "traced m p evs s s'" by (intro traced_steps) auto
  then show thesis using evs that by blast
qed

lemma wp_silent:
  assumes "obeys silent m" and "\<And>x s'. silent s s' \<Longrightarrow> Q x s'" and "\<And>e s'. silent s s' \<Longrightarrow> E e s'"
  shows "wp m Q E s"
  using assms by (auto simp: wp_def obeys_def split: prod.splits sum.splits) (metis snd_conv)+

section \<open>Audits\<close>

lemma pending_wp: "(\<And>x s'. quiet s s' \<Longrightarrow> Q x s') \<Longrightarrow> wp (pending h f) Q E s"
  using pending_quiet(1) [of h f] by (simp add: wp_def obeys_def pending_def split: prod.splits)

lemma audit_record_wp:
  "wp (audit_record h x) (\<lambda>_. traced m p [Ev_Audit (ax_phase x) (ax_error x) True] s)
     (\<lambda>_. traced m p [Ev_Audit (ax_phase x) (ax_error x) False] s) s"
  unfolding audit_record_def log_event_def
  by (intro wp_bind pending_wp wp_write wp_lift) (auto simp: quiet_def stepped_def intro!: traced_steps [where k = 0])

definition failure_recorded :: "provider_error \<Rightarrow> gateway_event \<Rightarrow> bool" where
  "failure_recorded e ev \<longleftrightarrow> (\<exists>e0 ok. ev = Ev_Audit Phase_Failed (Some e0) ok
     \<and> (if ok then e = e0 else e \<in> {Audit_Unavailable, Mutation_Outcome_Unknown}))"

lemma record_failure_wp:
  "wp (record_failure h i a e) Q (\<lambda>e' s'. \<exists>ev. traced m p [ev] s s' \<and> failure_recorded e' ev) s"
  unfolding record_failure_def
  by (intro wp_bind wp_catch wp_throw; rule wp_mono [OF audit_record_wp [of _ _ m p]]; intro wp_throw)
    (auto simp: failure_recorded_def execution_audit_def)

lemma record_mutation_outcome_unknown_wp:
  "wp (record_mutation_outcome_unknown h i a) Q
     (\<lambda>e' s'. e' = Mutation_Outcome_Unknown \<and> (\<exists>ev. traced m p [ev] s s' \<and> failure_recorded e' ev)) s"
  unfolding record_mutation_outcome_unknown_def
  by (intro wp_bind wp_catch; rule wp_mono [OF audit_record_wp [of _ _ m p]]; intro wp_throw wp_ret)
    (auto simp: failure_recorded_def execution_audit_def)

section \<open>The requests of an operation\<close>

lemma can_retry_wp:
  "wp (can_retry h m n) (\<lambda>again s'. quiet s s' \<and> (again \<longrightarrow> sm_effect m = Remote_Read)) (\<lambda>_ _. False) s"
  unfolding can_retry_def
  by (intro wp_intros) (auto simp: Let_def refresh_deadline_def quiet_def abort_budget_def)

definition sent :: "adapter_manifest \<Rightarrow> provider_operation \<Rightarrow> 'w gateway \<Rightarrow> 'w gateway \<Rightarrow> bool" where
  "sent m p s s' \<longleftrightarrow> (\<exists>evs. traced m p evs s s' \<and> list_ex is_request evs)"

definition stopped :: "adapter_manifest \<Rightarrow> provider_operation \<Rightarrow> bool \<Rightarrow> 'w gateway \<Rightarrow> provider_error \<Rightarrow> 'w gateway \<Rightarrow> bool" where
  "stopped m p once s e s' \<longleftrightarrow> (\<exists>evs. traced m p evs s s' \<and> (once \<longrightarrow> explained e evs))"

lemma stopped_silent: "silent s s' \<Longrightarrow> stopped m p once s e s'"
  by (erule silent_traced [of _ _ m p]) (auto simp: stopped_def explained_def)

lemma after_traced:
  assumes "traced m p evs s t"
  shows "sent m p t u \<Longrightarrow> sent m p s u" and "stopped m p False t e u \<Longrightarrow> stopped m p False s e u"
    and "\<not> list_ex is_request evs \<Longrightarrow> stopped m p once t e u \<Longrightarrow> stopped m p once s e u"
  using traced_trans [OF assms] definite_append
  by (auto simp: sent_def stopped_def explained_def) (metis list_ex_append definite_append)+

lemma after_silent:
  assumes "silent s t"
  shows "sent m p t u \<Longrightarrow> sent m p s u" and "stopped m p once t e u \<Longrightarrow> stopped m p once s e u"
  by (rule silent_traced [OF assms, of m p], erule (1) after_traced | erule (2) after_traced(3))+

lemma request_attempt_wp:
  assumes "find (\<lambda>p. op_id p = sm_operation (ad_mapping a)) (am_operations (ad_manifest a)) = Some p"
  shows "wp (request_attempt h a c) (\<lambda>_. sent (ad_manifest a) p s) (stopped (ad_manifest a) p once s) s"
  unfolding request_attempt_def with_attempt_timeout_def
proof (rule wp_bind, rule wp_quiet [OF quiet_calls(2)])
  fix t :: "'a gateway"
  assume "quiet s t"
  then have t: "silent s t" by (rule silent_quiet)
  show "wp (transport_request (gh_net h) (ad_manifest a) (sm_operation (ad_mapping a)) (ad_input a) c)
     (\<lambda>_. sent (ad_manifest a) p s) (stopped (ad_manifest a) p once s) t"
    by (rule wp_mono [OF transport_request_wp [OF assms]]; rule after_silent [OF t]) (auto simp: sent_def stopped_def)
qed (simp add: silent_quiet stopped_silent)

text \<open>Only a read is retried, so that only for a read an error need not tell what its requests did.\<close>

lemma request_loop_eq:
  "request_loop h a c n = catch_act (request_attempt h a c) (\<lambda>e.
     bind_act (can_retry (gh_net h) (ad_mapping a) n) (\<lambda>again.
     if again \<and> is_retryable e \<and> n = 0 then request_loop h a c (n + 1) else throw_act e))"
  by (rule ext, subst request_loop.simps) (simp add: catch_act_def bind_act_def act_simps split: prod.splits sum.splits)

lemma request_loop_step:
  assumes "find (\<lambda>p. op_id p = sm_operation (ad_mapping a)) (am_operations (ad_manifest a)) = Some p"
    and "\<And>t. n = 0 \<Longrightarrow> wp (request_loop h a c (n + 1)) (\<lambda>_. sent (ad_manifest a) p t) (stopped (ad_manifest a) p (is_mutation a) t) t"
  shows "wp (request_loop h a c n) (\<lambda>_. sent (ad_manifest a) p s) (stopped (ad_manifest a) p (is_mutation a) s) s"
  unfolding request_loop_eq [of h a c n]
proof (rule wp_catch, rule wp_mono [OF request_attempt_wp [OF assms(1), of h c s "is_mutation a"]])
  fix e t
  assume t: "stopped (ad_manifest a) p (is_mutation a) s e t"
  let ?rest = "\<lambda>again. if again \<and> is_retryable e \<and> n = 0 then request_loop h a c (n + 1) else throw_act e"
  show "wp (bind_act (can_retry (gh_net h) (ad_mapping a) n) ?rest) (\<lambda>_. sent (ad_manifest a) p s)
     (stopped (ad_manifest a) p (is_mutation a) s) t"
  proof (rule wp_bind, rule wp_mono [OF can_retry_wp])
    fix again u
    assume u: "quiet t u \<and> (again \<longrightarrow> sm_effect (ad_mapping a) = Remote_Read)"
    from t u obtain evs where evs: "traced (ad_manifest a) p evs s u" "is_mutation a \<longrightarrow> explained e evs"
      unfolding stopped_def using traced_then_quiet by blast
    show "wp (?rest again) (\<lambda>_. sent (ad_manifest a) p s) (stopped (ad_manifest a) p (is_mutation a) s) u"
    proof (cases "again \<and> is_retryable e \<and> n = 0")
      case True
      then have "\<not> is_mutation a" using u by (simp add: is_mutation_def)
      with True show ?thesis
        using wp_mono [OF assms(2) after_traced(1) [OF evs(1)] after_traced(2) [OF evs(1)]] by simp
    next
      case False
      then show ?thesis using evs by (auto simp: stopped_def intro!: wp_throw)
    qed
  qed simp
qed simp

lemma request_loop_wp:
  assumes "find (\<lambda>p. op_id p = sm_operation (ad_mapping a)) (am_operations (ad_manifest a)) = Some p"
  shows "wp (request_loop h a c n) (\<lambda>_. sent (ad_manifest a) p s) (stopped (ad_manifest a) p (is_mutation a) s) s"
  by (rule request_loop_step [OF assms], rule request_loop_step [OF assms]) simp

section \<open>Every way an operation ends\<close>

text \<open>
  An operation whose decision was recorded ends with the record of its success after a request,
  or with the record of its failure; \<open>once\<close> is for a mutation, whose error is an unknown outcome if it
  sent a request that was not definitely answered.
\<close>

definition succeeded :: "adapter_manifest \<Rightarrow> provider_operation \<Rightarrow> 'w gateway \<Rightarrow> 'w gateway \<Rightarrow> bool" where
  "succeeded m p s s' \<longleftrightarrow> (\<exists>evs. traced m p (Ev_Audit Phase_Decision None True # evs @ [Ev_Audit Phase_Success None True]) s s'
     \<and> list_ex is_request evs)"

definition gave_up :: "adapter_manifest \<Rightarrow> provider_operation \<Rightarrow> bool \<Rightarrow> 'w gateway \<Rightarrow> provider_error \<Rightarrow> 'w gateway \<Rightarrow> bool" where
  "gave_up m p once s e s' \<longleftrightarrow> (\<exists>evs ev. traced m p (Ev_Audit Phase_Decision None True # evs @ [ev]) s s'
     \<and> failure_recorded e ev \<and> (once \<longrightarrow> list_ex is_request evs \<longrightarrow> e = Mutation_Outcome_Unknown \<or> definite evs))"

text \<open>Not admitted into the audit log, an operation ends there.\<close>

definition ended :: "adapter_manifest \<Rightarrow> provider_operation \<Rightarrow> bool \<Rightarrow> 'w gateway \<Rightarrow> provider_error \<Rightarrow> 'w gateway \<Rightarrow> bool" where
  "ended m p once s e s' \<longleftrightarrow> gave_up m p once s e s' \<or> traced m p [Ev_Audit Phase_Decision None False] s s'"

lemma record_failure_ended:
  assumes "traced m p (Ev_Audit Phase_Decision None True # evs) s t"
    and "once \<longrightarrow> list_ex is_request evs \<longrightarrow> definite evs"
  shows "wp (record_failure h i a e) Q (ended m p once s) t"
  using traced_trans [OF assms(1)] assms(2)
  by (intro wp_mono [OF record_failure_wp [of h i a e _ m p]]) (auto simp: ended_def gave_up_def)

lemma record_unknown_ended:
  assumes "traced m p (Ev_Audit Phase_Decision None True # evs) s t"
  shows "wp (record_mutation_outcome_unknown h i a) Q (ended m p once s) t"
  using traced_trans [OF assms]
  by (intro wp_mono [OF record_mutation_outcome_unknown_wp [of h i a _ m p]]) (auto simp: ended_def gave_up_def)

lemma finish_response_wp:
  "wp (finish_response h i a r) (\<lambda>_. traced m p [Ev_Audit Phase_Success None True] s)
     (\<lambda>_ s'. \<exists>evs. traced m p evs s s') s"
proof -
  have none: "\<exists>evs. traced m p evs s s" using traced_refl by blast
  show ?thesis
    unfolding finish_response_def
    by (intro wp_bind wp_lift wp_mono [OF audit_record_wp [of _ _ m p]] wp_ret)
      (auto simp: execution_audit_def none)
qed

lemma ambiguous_failure: "is_ambiguous_mutation_failure (as_provider_failure e) \<longleftrightarrow> ambiguous e"
  by (auto simp: is_ambiguous_mutation_failure_def as_provider_failure_def ambiguous_def)

lemma catch_after_wp:
  assumes "traced m p (Ev_Audit Phase_Decision None True # evs) s t" and "list_ex is_request evs"
  shows "wp (catch_after h i a (finish_response h i a r)) (\<lambda>_. succeeded m p s) (ended m p (is_mutation a) s) t"
  unfolding catch_after_def
proof (rule wp_catch, rule wp_mono [OF finish_response_wp [of _ _ _ _ m p]])
  fix u
  assume "traced m p [Ev_Audit Phase_Success None True] t u"
  then show "succeeded m p s u" using traced_trans [OF assms(1)] assms(2) by (auto simp: succeeded_def)
next
  fix e u
  assume "\<exists>evs. traced m p evs t u"
  then obtain evs' where u: "traced m p (Ev_Audit Phase_Decision None True # evs @ evs') s u"
    using traced_trans [OF assms(1)] by fastforce
  show "wp (if is_mutation a then record_mutation_outcome_unknown h i a else record_failure h i a e)
     (\<lambda>_. succeeded m p s) (ended m p (is_mutation a) s) u"
    by (simp add: record_unknown_ended [OF u] record_failure_ended [OF u])
qed

lemma catch_during_wp:
  assumes "find (\<lambda>p. op_id p = sm_operation (ad_mapping a)) (am_operations (ad_manifest a)) = Some p"
    and "traced (ad_manifest a) p (Ev_Audit Phase_Decision None True # evs) s t" and "\<not> list_ex is_request evs"
  shows "wp (bind_act (catch_during h i a (request_loop h a c 0)) (\<lambda>r. catch_after h i a (finish_response h i a r)))
     (\<lambda>_. succeeded (ad_manifest a) p s) (ended (ad_manifest a) p (is_mutation a) s) t"
  unfolding catch_during_def
proof (rule wp_bind, rule wp_catch, rule wp_mono [OF request_loop_wp [OF assms(1)]])
  fix r u
  assume "sent (ad_manifest a) p t u"
  then obtain evs' where "traced (ad_manifest a) p (Ev_Audit Phase_Decision None True # evs @ evs') s u" "list_ex is_request (evs @ evs')"
    using traced_trans [OF assms(2)] by (fastforce simp: sent_def)
  then show "wp (catch_after h i a (finish_response h i a r)) (\<lambda>_. succeeded (ad_manifest a) p s)
      (ended (ad_manifest a) p (is_mutation a) s) u"
    by (rule catch_after_wp)
next
  fix e u
  assume "stopped (ad_manifest a) p (is_mutation a) t e u"
  then obtain evs' where v: "traced (ad_manifest a) p (Ev_Audit Phase_Decision None True # evs @ evs') s u"
      "is_mutation a \<longrightarrow> explained e evs'"
    using traced_trans [OF assms(2)] by (fastforce simp: stopped_def)
  have "is_mutation a \<and> \<not> ambiguous e \<longrightarrow> list_ex is_request (evs @ evs') \<longrightarrow> definite (evs @ evs')"
    using v(2) assms(3) by (auto simp: explained_def definite_append)
  then show "wp (if is_mutation a \<and> is_ambiguous_mutation_failure (as_provider_failure e)
      then record_mutation_outcome_unknown h i a else record_failure h i a e)
    (\<lambda>r. wp (catch_after h i a (finish_response h i a r)) (\<lambda>_. succeeded (ad_manifest a) p s)
      (ended (ad_manifest a) p (is_mutation a) s)) (ended (ad_manifest a) p (is_mutation a) s) u"
    by (auto simp: ambiguous_failure intro!: record_unknown_ended [OF v(1)] record_failure_ended [OF v(1)])
qed

lemma operate_wp:
  assumes "find (\<lambda>p. op_id p = sm_operation (ad_mapping a)) (am_operations (ad_manifest a)) = Some p"
  shows "wp (operate h i a) (\<lambda>_. succeeded (ad_manifest a) p s) (ended (ad_manifest a) p (is_mutation a) s) s"
proof -
  let ?m = "ad_manifest a" and ?D = "Ev_Audit Phase_Decision None True"
  let ?request = "\<lambda>c. bind_act (catch_during h i a (request_loop h a c 0)) (\<lambda>r. catch_after h i a (finish_response h i a r))"
  have run: "wp (bind_act (catch_before h i a (prepare_credential h a)) ?request)
      (\<lambda>_. succeeded ?m p s) (ended ?m p (is_mutation a) s) t"
    if t: "traced ?m p [?D] s t" for t
    unfolding catch_before_def
  proof (rule wp_bind, rule wp_catch, rule wp_silent [OF prepare_credential_silent])
    fix u
    assume "silent t u"
    then obtain evs where u: "traced ?m p (?D # evs) s u" "\<not> list_ex is_request evs"
      by (rule silent_traced [of _ _ ?m p]) (use traced_trans [OF t] in fastforce)
    show "wp (?request c) (\<lambda>_. succeeded ?m p s) (ended ?m p (is_mutation a) s) u" for c
      by (rule catch_during_wp [OF assms u])
    show "wp (record_failure h i a e) (\<lambda>c. wp (?request c) (\<lambda>_. succeeded ?m p s) (ended ?m p (is_mutation a) s))
        (ended ?m p (is_mutation a) s) u" for e
      using record_failure_ended [OF u(1)] u(2) by simp
  qed
  show ?thesis
    unfolding operate_def
    by (rule wp_bind, rule wp_catch, rule wp_mono [OF audit_record_wp [of _ _ ?m p]])
      (auto simp: execution_audit_def ended_def intro: run wp_throw)
qed

section \<open>The whole operation\<close>

text \<open>What \<open>execute\<close> has checked when it reaches the audit of its decision.\<close>

definition workspace_allowed :: "'w gateway_host \<Rightarrow> semantic_mapping \<Rightarrow> jsstring option \<Rightarrow> bool" where
  "workspace_allowed h m ws \<longleftrightarrow> (case ws of
     None \<Rightarrow> sm_binding m \<noteq> Binding_Required
   | Some i \<Rightarrow> sm_binding m = Binding_None \<or> (\<exists>w. fst (gh_workspace h i w) = Some (i, True)))"

definition implementation_approved :: "'w gateway_host \<Rightarrow> adapter_manifest \<Rightarrow> provider_record \<Rightarrow> bool" where
  "implementation_approved h m p \<longleftrightarrow> (\<exists>w d.
     resolve_provider_implementation_identity (gh_files h w) m (pr_broker p) (gh_roots h w) = Inr d
     \<and> ii_fingerprint d = pr_fingerprint p)"

definition admitted :: "'w gateway_host \<Rightarrow> adapter_registry \<Rightarrow> json \<Rightarrow> admission \<Rightarrow> bool" where
  "admitted h reg input a \<longleftrightarrow> (\<exists>i. parse_semantic_input input = Inr i
     \<and> require_mapping reg (se_capability i) = Inr (ad_mapping a)
     \<and> sm_input_schema (ad_mapping a) (se_input i) = Some (ad_input a)
     \<and> (\<exists>w. fst (gh_registry_get h (se_provider i) w) = Inr (Some (ad_provider a)))
     \<and> workspace_allowed h (ad_mapping a) (se_workspace i))
   \<and> pr_enabled (ad_provider a) \<and> pr_adapter (ad_provider a) = sm_adapter (ad_mapping a)
   \<and> require_manifest reg (pr_adapter (ad_provider a)) = Inr (ad_manifest a)
   \<and> pr_version (ad_provider a) = am_version (ad_manifest a) \<and> pr_inventory (ad_provider a) = am_inventory (ad_manifest a)
   \<and> implementation_approved h (ad_manifest a) (ad_provider a)
   \<and> (am_inventory (ad_manifest a) = Inventory_Dynamic \<longrightarrow> pr_approved (ad_provider a) \<noteq> None)"

definition unlogged :: "'w gateway \<Rightarrow> 'w gateway \<Rightarrow> bool" where
  "unlogged s s' \<longleftrightarrow> gw_log s' = gw_log s"

interpretation unlog: run_relation unlogged
  by unfold_locales (auto simp: unlogged_def)

lemma ask_unlogged: "obeys unlogged (ask f)"
  by (auto simp: obeys_def ask_def unlogged_def split: prod.splits)

lemma admit_unlogged: "obeys unlogged (admit h reg input)"
  unfolding admit_def require_provider_def resolve_identity_def enforce_workspace_def
  by (intro unlog.obeys_intros ask_unlogged)

lemma ask_eq: "ask f s = (Inr x, s') \<longleftrightarrow> x = fst (f (gw_world s)) \<and> s' = s\<lparr>gw_world := snd (f (gw_world s))\<rparr>"
  by (auto simp: ask_def split: prod.splits)

lemma require_provider_ok:
  "require_provider h i s = (Inr p, s') \<Longrightarrow> \<exists>w. fst (gh_registry_get h i w) = Inr (Some p)"
  by (auto simp: require_provider_def bind_act_eq_Inr act_simps ask_eq split: sum.splits option.splits)

lemma resolve_identity_ok:
  "resolve_identity h m p s = (Inr d, s') \<Longrightarrow> ii_fingerprint d = pr_fingerprint p \<Longrightarrow> implementation_approved h m p"
  by (auto simp: resolve_identity_def bind_act_eq_Inr act_simps ask_eq implementation_approved_def)

lemma enforce_workspace_ok:
  "enforce_workspace h m ws s = (Inr (), s') \<Longrightarrow> workspace_allowed h m ws"
  by (auto simp: enforce_workspace_def workspace_allowed_def bind_act_eq_Inr act_simps ask_eq guard_eq_Inr
      split: option.splits if_splits)

lemma admit_admitted:
  assumes "admit h reg input s = (Inr a, s')"
  shows "admitted h reg input a"
  using assms unfolding admit_def admitted_def
  by (auto simp: bind_act_eq_Inr act_simps dest!: require_provider_ok enforce_workspace_ok
      intro: resolve_identity_ok split: option.splits if_splits)

lemma admit_wp: "wp (admit h reg input) (\<lambda>a s'. gw_log s' = gw_log s \<and> admitted h reg input a) (\<lambda>_ s'. gw_log s' = gw_log s) s"
proof -
  have "gw_log (snd (admit h reg input s)) = gw_log s"
    using admit_unlogged [of h reg input] by (simp add: obeys_def unlogged_def)
  then show ?thesis by (auto simp: wp_def dest: admit_admitted split: prod.splits sum.splits)
qed

text \<open>The operation that an admitted mapping stands for.\<close>

definition operation_of :: "admission \<Rightarrow> provider_operation option" where
  "operation_of a = find (\<lambda>p. op_id p = sm_operation (ad_mapping a)) (am_operations (ad_manifest a))"

lemma admitted_registered:
  assumes "new_registry parse ms = Inr reg" and "admitted h reg input a"
  obtains p where "operation_of a = Some p" and "mapping_ok (ad_manifest a) (ad_mapping a)"
    and "operation_ok (ad_manifest a) p" and "origin_ok parse (op_origin p)"
proof -
  obtain i where i: "require_mapping reg i = Inr (ad_mapping a)"
    and m: "require_manifest reg (sm_adapter (ad_mapping a)) = Inr (ad_manifest a)"
    using assms(2) by (auto simp: admitted_def)
  from registered_operation [OF assms(1) i] m show thesis by (auto simp: operation_of_def intro: that)
qed

text \<open>The log of an operation from a fresh budget.\<close>

definition fresh_budget :: "admission \<Rightarrow> 'w gateway \<Rightarrow> bool" where
  "fresh_budget a s \<longleftrightarrow> ob_requests (gw_budget s) = 0 \<and> ob_max (gw_budget s) = sm_max_requests (ad_mapping a)"

lemma traced_budget:
  assumes "traced m p evs s s'" and "fresh_budget a s" and "1 \<le> sm_max_requests (ad_mapping a)"
  shows "gw_log s' = gw_log s @ evs" and "int (length (filter is_request evs)) \<le> sm_max_requests (ad_mapping a)"
    and "list_all (event_within m p) evs" and "redirects_led p evs"
  using assms by (auto simp: traced_def paid_def stepped_def fresh_budget_def)

lemma new_budget_fresh: "new_budget now ab n = Inr b \<Longrightarrow> ob_requests b = 0 \<and> ob_max b = n"
  by (auto simp: new_budget_def split: if_splits)

lemma wp_finally: "wp m (\<lambda>x s'. Q x (f s')) (\<lambda>e s'. E e (f s')) s \<Longrightarrow> wp (and_finally m f) Q E s"
  by (auto simp: wp_def and_finally_def split: prod.splits sum.splits)

text \<open>
  A run of \<open>execute\<close> on a compiled registry logs nothing, or it is admitted and logs what \<open>operate\<close>
  logs from a fresh budget.
\<close>

definition executed :: "'w gateway_host \<Rightarrow> adapter_registry \<Rightarrow> json \<Rightarrow> 'w gateway \<Rightarrow>
    (admission \<Rightarrow> provider_operation \<Rightarrow> 'w gateway \<Rightarrow> 'w gateway \<Rightarrow> bool) \<Rightarrow> 'w gateway \<Rightarrow> bool" where
  "executed h reg input s P s' \<longleftrightarrow> (\<exists>a p t u. admitted h reg input a \<and> operation_of a = Some p \<and> fresh_budget a t
     \<and> gw_log t = gw_log s \<and> gw_log s' = gw_log u \<and> P a p t u)"

lemma execute_wp:
  assumes "new_registry parse ms = Inr reg"
  shows "wp (execute h reg input) (\<lambda>_. executed h reg input s (\<lambda>a p. succeeded (ad_manifest a) p))
     (\<lambda>e s'. gw_log s' = gw_log s \<or> executed h reg input s (\<lambda>a p t. ended (ad_manifest a) p (is_mutation a) t e) s') s"
  unfolding execute_def
proof (rule wp_bind, rule wp_mono [OF admit_wp], intro wp_bind wp_read wp_guard wp_lift wp_write wp_finally; (elim conjE)?)
  fix a b and t :: "'a gateway"
  assume a: "admitted h reg input a" "gw_log t = gw_log s"
    and b: "new_budget (nh_now (gh_net h) (gw_world t)) (gh_caller_aborted h (gw_world t)) (sm_max_requests (ad_mapping a)) = Inr b"
  obtain p where p: "operation_of a = Some p" by (rule admitted_registered [OF assms a(1)])
  have start: "fresh_budget a (t\<lparr>gw_budget := b\<rparr>)" "gw_log (t\<lparr>gw_budget := b\<rparr>) = gw_log s"
    using new_budget_fresh [OF b] a(2) by (simp_all add: fresh_budget_def)
  show "wp (operate h (gh_operation_id h (gw_world t)) a)
     (\<lambda>x s'. executed h reg input s (\<lambda>a p. succeeded (ad_manifest a) p) (s'\<lparr>gw_budget := close_budget (gw_budget s')\<rparr>))
     (\<lambda>e s'. gw_log (s'\<lparr>gw_budget := close_budget (gw_budget s')\<rparr>) = gw_log s
        \<or> executed h reg input s (\<lambda>a p t. ended (ad_manifest a) p (is_mutation a) t e) (s'\<lparr>gw_budget := close_budget (gw_budget s')\<rparr>))
     (t\<lparr>gw_budget := b\<rparr>)"
    by (rule wp_mono [OF operate_wp [OF p [unfolded operation_of_def]]]; unfold executed_def)
      (use a(1) p start in fastforce)+
qed auto

definition outcome_logged :: "admission \<Rightarrow> provider_error + semantic_result \<Rightarrow> gateway_event list \<Rightarrow> bool" where
  "outcome_logged a r evs \<longleftrightarrow> (case r of
     Inr x \<Rightarrow> \<exists>es. evs = Ev_Audit Phase_Decision None True # es @ [Ev_Audit Phase_Success None True] \<and> list_ex is_request es
   | Inl e \<Rightarrow> evs = [Ev_Audit Phase_Decision None False]
       \<or> (\<exists>es ev. evs = Ev_Audit Phase_Decision None True # es @ [ev] \<and> failure_recorded e ev
            \<and> (is_mutation a \<and> list_ex is_request es \<longrightarrow> e = Mutation_Outcome_Unknown \<or> definite es)))"

text \<open>
  The requests of a log are those of the admitted operation, no more than its mapping allows, with
  at most one redirected request for each request that was answered with a redirect.
\<close>

definition within_authority :: "url_parser \<Rightarrow> admission \<Rightarrow> gateway_event list \<Rightarrow> bool" where
  "within_authority parse a evs \<longleftrightarrow> (\<exists>p. operation_of a = Some p \<and> mapping_ok (ad_manifest a) (ad_mapping a)
     \<and> operation_ok (ad_manifest a) p \<and> origin_ok parse (op_origin p) \<and> list_all (event_within (ad_manifest a) p) evs
     \<and> redirects_led p evs
     \<and> int (length (filter is_request evs)) \<le> sm_max_requests (ad_mapping a))"

lemma executed_log:
  assumes "new_registry parse ms = Inr reg" and "executed h reg input s P s'"
    and "\<And>a p t u. P a p t u \<Longrightarrow> \<exists>evs. traced (ad_manifest a) p evs t u \<and> outcome_logged a r evs"
  shows "\<exists>a evs. admitted h reg input a \<and> gw_log s' = gw_log s @ evs \<and> within_authority parse a evs \<and> outcome_logged a r evs"
proof -
  obtain a p t u where a: "admitted h reg input a" "operation_of a = Some p" "fresh_budget a t"
      "gw_log t = gw_log s" "gw_log s' = gw_log u" and "P a p t u"
    using assms(2) unfolding executed_def by blast
  from assms(3) [OF this(6)] obtain evs where evs: "traced (ad_manifest a) p evs t u" "outcome_logged a r evs"
    by blast
  obtain q where q: "operation_of a = Some q" "mapping_ok (ad_manifest a) (ad_mapping a)"
      "operation_ok (ad_manifest a) q" "origin_ok parse (op_origin q)"
    by (rule admitted_registered [OF assms(1) a(1)])
  then have "1 \<le> sm_max_requests (ad_mapping a)" by (simp add: mapping_ok_def)
  from traced_budget [OF evs(1) a(3) this] q a evs(2) show ?thesis
    by (intro exI [of _ a] exI [of _ evs]) (auto simp: within_authority_def)
qed

lemma execute_log:
  assumes "new_registry parse ms = Inr reg" and "execute h reg input s = (r, s')"
  shows "(gw_log s' = gw_log s \<and> \<not> is_ok r) \<or> (\<exists>a evs. admitted h reg input a \<and> gw_log s' = gw_log s @ evs
    \<and> within_authority parse a evs \<and> outcome_logged a r evs)"
proof (cases r)
  case (Inl e)
  have "gw_log s' = gw_log s \<or> executed h reg input s (\<lambda>a p t. ended (ad_manifest a) p (is_mutation a) t e) s'"
    using wpD [OF execute_wp [OF assms(1), of h input s] assms(2)] Inl by simp
  then show ?thesis
  proof
    assume "executed h reg input s (\<lambda>a p t. ended (ad_manifest a) p (is_mutation a) t e) s'"
    from executed_log [OF assms(1) this, of r] show ?thesis
      using Inl by (auto simp: ended_def gave_up_def outcome_logged_def)
  qed (simp add: Inl)
next
  case (Inr x)
  have "executed h reg input s (\<lambda>a p. succeeded (ad_manifest a) p) s'"
    using wpD [OF execute_wp [OF assms(1), of h input s] assms(2)] Inr by simp
  from executed_log [OF assms(1) this, of r] show ?thesis
    using Inr by (auto simp: succeeded_def outcome_logged_def)
qed

section \<open>A demonstration\<close>

definition demo_address :: resolved_address where
  "demo_address = \<lparr>ra_address = js ''8.8.4.4'', ra_family = 4\<rparr>"

definition demo_net :: "unit network_host" where
  "demo_net = \<lparr>nh_now = (\<lambda>w. 0), nh_abort = (\<lambda>w. None), nh_attempt_over = (\<lambda>w. False),
     nh_lookup = (\<lambda>n w. (Inr [demo_address], w)), nh_connect = (\<lambda>q w. ([Conn_Data [110, 117, 108, 108], Conn_End 200 []], w)),
     nh_parse_url = demo_parse, nh_query_text = (\<lambda>t q. t)\<rparr>"

definition demo_files :: helper_files where
  "demo_files = \<lparr>hf_realpath = Some, hf_resolve = id, hf_is_file = (\<lambda>p. Some True), hf_executable = (\<lambda>p. True),
     hf_read = (\<lambda>p. Some []), hf_sha_hex = (\<lambda>b. [])\<rparr>"

definition demo_provider :: provider_record where
  "demo_provider = \<lparr>pr_instance = js ''prv_'' @ replicate 32 48, pr_operator = [], pr_adapter = js ''api'', pr_version = js ''1'',
     pr_enabled = True, pr_fingerprint = [], pr_inventory = Inventory_Static, pr_approved = None, pr_broker = Broker_None,
     pr_config = JNull, pr_created = [], pr_updated = []\<rparr>"

definition demo_host :: "unit gateway_host" where
  "demo_host = \<lparr>gh_net = demo_net, gh_registry_get = (\<lambda>i w. (Inr (Some demo_provider), w)),
     gh_audit = (\<lambda>x w. (Inr (), w)), gh_workspace = (\<lambda>i w. (None, w)), gh_fetch_inventory = None,
     gh_files = (\<lambda>w. demo_files), gh_roots = (\<lambda>w. []), gh_spawn = (\<lambda>w p a e. None), gh_elapse = id,
     gh_caller_aborted = (\<lambda>w. False), gh_operation_id = (\<lambda>w. js ''op_a''), gh_nfc = id, gh_sha_hex = (\<lambda>b. []),
     gh_parse_json = (\<lambda>t. Some JNull)\<rparr>"

definition demo_input :: json where
  "demo_input = JObj [fld ''semanticCapabilityId'' (JStr (js ''c'')),
     fld ''providerInstanceId'' (JStr (js ''prv_'' @ replicate 32 48))]"

definition demo_start :: "unit gateway" where
  "demo_start = \<lparr>gw_world = (), gw_budget = \<lparr>ob_deadline = 0, ob_max = 0, ob_requests = 0, ob_reason = None, ob_closed = True\<rparr>,
     gw_log = []\<rparr>"

definition demo_parsed :: semantic_input where
  "demo_parsed = \<lparr>se_capability = js ''c'', se_provider = js ''prv_'' @ replicate 32 48, se_workspace = None, se_input = None\<rparr>"

lemma demo_id: "tagged_hex32 ''prv_'' (js ''prv_'' @ replicate 32 48)"
  by (simp add: tagged_hex32_def text_checks list_all_iff)

lemma demo_plain: "plain (js ''prv_'' @ replicate 32 48)"
  by (simp add: plain_def js_def list_all_iff)

lemma demo_parse_input: "parse_semantic_input demo_input = Inr demo_parsed"
proof -
  have "require_authority_id 128 (js ''c'') = Inr ()"
    by (simp add: require_authority_id_def is_authority_unit_def text_checks)
  then have "parse_input_schema demo_input = Some demo_parsed"
    by (simp add: parse_input_schema_def demo_input_def demo_parsed_def demo_id)
  moreover have t: "stringify (semantic_input_json demo_parsed) = 123 # 34 # js ''semanticCapabilityId'' @ [34, 58, 34] @ js ''c''
      @ [34, 44, 34] @ js ''providerInstanceId'' @ [34, 58, 34] @ js ''prv_'' @ replicate 32 48 @ [34, 125]"
    using demo_plain by (simp add: semantic_input_json_def demo_parsed_def opt_field_def quote_plain plain_js)
  moreover have "list_all (\<lambda>u. u < 128) (stringify (semantic_input_json demo_parsed))"
    by (simp add: t js_def list_all_iff)
  from byte_length_ascii [OF this] have "byte_length (stringify (semantic_input_json demo_parsed)) \<le> 65536"
    by (simp add: t)
  ultimately show ?thesis by (simp add: parse_semantic_input_def provider_max_semantic_input_bytes_def)
qed

definition demo_admission :: admission where
  "demo_admission = \<lparr>ad_mapping = demo_mapping, ad_input = JNull, ad_provider = demo_provider, ad_manifest = demo_manifest\<rparr>"

lemma demo_admit: "admit demo_host demo_registry demo_input demo_start = (Inr demo_admission, demo_start)"
proof -
  have d: "exactly is_lower_hex 64 (am_digest demo_manifest)" "am_version demo_manifest = js ''1''"
      "am_inventory demo_manifest = Inventory_Static"
    by (simp_all add: demo_manifest_def text_checks list_all_iff)
  have "require_mapping demo_registry (se_capability demo_parsed) = Inr demo_mapping"
      "require_manifest demo_registry (pr_adapter demo_provider) = Inr demo_manifest"
    by (simp_all add: require_mapping_def require_manifest_def demo_registry_def demo_parsed_def demo_provider_def)
  then show ?thesis
    by (simp add: admit_def act_simps bind_act_def demo_parse_input require_provider_def resolve_identity_def enforce_workspace_def
        ask_def demo_host_def resolve_provider_implementation_identity_def d demo_files_def demo_start_def
        demo_admission_def guard_act_def demo_provider_def demo_mapping_def)
qed

definition demo_url :: provider_url where
  "demo_url = \<lparr>pu_protocol = js ''https:'', pu_origin = demo_origin, pu_username = [], pu_password = [],
     pu_hostname = js ''h'', pu_port = [], pu_pathname = js ''/'', pu_search = [], pu_hash = [], pu_appended = []\<rparr>"

definition demo_request :: https_request where
  "demo_request = \<lparr>hq_address = js ''8.8.4.4'', hq_family = 4, hq_hostname = js ''h'', hq_port = 443, hq_method = Method_Post,
     hq_path = js ''/'', hq_headers = [(js ''a'', js ''b'')], hq_body = None\<rparr>"

definition demo_response :: https_response where
  "demo_response = \<lparr>hr_status = 200, hr_headers = [], hr_body = [110, 117, 108, 108]\<rparr>"

definition demo_log :: "gateway_event list" where
  "demo_log = [Ev_Request demo_url demo_request, Ev_Answer (Req_Response demo_response)]"

lemma demo_select: "select_provider_internet_address (provider_dns_answers [demo_address]) = Inr demo_address"
  by (simp add: select_provider_internet_address_def assert_provider_internet_address_allowed_def is_ip_def demo_address_def
      provider_dns_answers_def address_number_def parse_ipv4_def octet_value_def js_def is_digit_def digits_value_def blocked_v4)

lemma demo_build: "build_compiled_request demo_parse demo_operation (JObj []) None
    = Inr (demo_url, [(js ''a'', js ''b'')], None)"
  by (simp add: build_compiled_request_def demo_operation_def substitute_path_parameters_def object_or_empty_def js_def
      first_occurrences_def has_control_def is_control_def parse_against_def demo_parse_def demo_url_def demo_origin_def
      assert_safe_https_url_def guard_eq_Inr credential_headers_for_def Let_def)

definition demo_running :: "gateway_event list \<Rightarrow> int \<Rightarrow> unit gateway" where
  "demo_running evs n = \<lparr>gw_world = (),
     gw_budget = \<lparr>ob_deadline = 30000, ob_max = 1, ob_requests = n, ob_reason = None, ob_closed = False\<rparr>, gw_log = evs\<rparr>"

lemma demo_once: "request_once demo_net demo_url Method_Post [(js ''a'', js ''b'')] None (demo_running evs 0)
    = (Inr demo_response, demo_running (evs @ demo_log) 1)"
proof -
  have "prepare_request demo_net demo_url Method_Post [(js ''a'', js ''b'')] None (demo_running evs 0)
      = (Inr demo_request, demo_running evs 1)"
    using demo_select
    by (simp add: prepare_request_def not_aborted_def claim_request_def assert_active_def refresh_deadline_def attempt_call_def
        pending_def bind_act_def act_simps demo_running_def demo_net_def demo_url_def demo_request_def normalized_port_def
        demo_address_def)
  moreover have "exchange_request demo_net demo_url demo_request (demo_running evs 1)
      = (Inr demo_response, demo_running (evs @ demo_log) 1)"
    by (simp add: exchange_request_def log_event_def attempt_call_def pending_def bind_act_def act_simps demo_running_def
        demo_net_def demo_log_def demo_response_def provider_max_metadata_response_bytes_def https_outcome_def
        checked_response_def normalize_headers_def)
  ultimately show ?thesis by (simp add: request_once_def bind_act_def)
qed

lemma demo_attempt: "request_attempt demo_host demo_admission None (demo_running evs 0)
    = (Inr \<lparr>rw_status = 200, rw_body = [110, 117, 108, 108], rw_origin = demo_origin\<rparr>, demo_running (evs @ demo_log) 1)"
proof -
  have m: "find (\<lambda>p. op_id p = sm_operation demo_mapping) (am_operations demo_manifest) = Some demo_operation"
    by (simp add: demo_mapping_def demo_manifest_def demo_operation_def)
  have b: "Option.bind (op_input_schema demo_operation JNull) (op_encode demo_operation) = Some (JObj [])"
      "op_method demo_operation = Method_Post" "pu_origin demo_url = demo_origin"
    by (simp_all add: demo_operation_def demo_url_def)
  have "gh_net demo_host = demo_net" "nh_parse_url demo_net = demo_parse" "ad_mapping demo_admission = demo_mapping"
      "ad_manifest demo_admission = demo_manifest" "ad_input demo_admission = JNull"
    by (simp_all add: demo_host_def demo_net_def demo_admission_def)
  moreover have "assert_active demo_net (demo_running evs 0) = (Inr (), demo_running evs 0)"
      "not_aborted (demo_running evs 0) = (Inr (), demo_running evs 0)"
    by (simp_all add: assert_active_def not_aborted_def refresh_deadline_def bind_act_def act_simps demo_running_def demo_net_def)
  moreover have "hr_status demo_response = 200" "hr_body demo_response = [110, 117, 108, 108]" by (simp_all add: demo_response_def)
  ultimately show ?thesis
    by (simp add: request_attempt_def with_attempt_timeout_def transport_request_def bind_act_def m b act_simps demo_build
        send_request_def demo_once is_redirect_def normalize_status_def)
qed

definition demo_result :: semantic_result where
  "demo_result = \<lparr>sr_capability = js ''c'', sr_provider = js ''prv_'' @ replicate 32 48,
     sr_fitted = \<lparr>fr_value = JNull, fr_truncated = False, fr_reasons = []\<rparr>\<rparr>"

definition demo_events :: "gateway_event list" where
  "demo_events = Ev_Audit Phase_Decision None True # Ev_Credential # demo_log @ [Ev_Audit Phase_Success None True]"

lemma demo_audit:
  "audit_record demo_host x (demo_running evs n)
     = (Inr (), demo_running (evs @ [Ev_Audit (ax_phase x) (ax_error x) True]) n)"
  by (simp add: audit_record_def pending_def log_event_def bind_act_def act_simps demo_host_def demo_net_def demo_running_def)

lemma demo_credential:
  "prepare_credential demo_host demo_admission (demo_running evs n) = (Inr None, demo_running (evs @ [Ev_Credential]) n)"
  by (simp add: prepare_credential_def acquire_def pending_def log_event_def refresh_deadline_def bind_act_def act_simps
      demo_host_def demo_net_def demo_running_def demo_admission_def demo_manifest_def demo_provider_def
      acquire_credential_def)

lemma demo_finish:
  "finish_response demo_host i demo_admission \<lparr>rw_status = 200, rw_body = [110, 117, 108, 108], rw_origin = demo_origin\<rparr> (demo_running evs n)
     = (Inr demo_result, demo_running (evs @ [Ev_Audit Phase_Success None True]) n)"
proof -
  have n: "normalize_provider_value id JNull = Inr JNull"
    by (simp add: normalize_provider_value_def normalize_value.simps provider_max_structural_depth_def provider_max_result_elements_def)
  have t: "stringify (fitted_json \<lparr>fr_value = JNull, fr_truncated = False, fr_reasons = []\<rparr>)
      = 123 # 34 # js ''value'' @ [34, 58] @ js ''null'' @ [44, 34] @ js ''truncated'' @ [34, 58] @ js ''false''
        @ [44, 34] @ js ''truncationReasons'' @ [34, 58, 91, 93, 125]"
    by (simp add: fitted_json_def quote_plain plain_js)
  have "list_all (\<lambda>u. u < 128) (stringify (fitted_json \<lparr>fr_value = JNull, fr_truncated = False, fr_reasons = []\<rparr>))"
    by (simp add: t js_def)
  from byte_length_ascii [OF this]
  have size: "byte_length (stringify (fitted_json \<lparr>fr_value = JNull, fr_truncated = False, fr_reasons = []\<rparr>)) \<le> 524288"
    by (simp add: t)
  have p: "parse_provider_semantic_output id (\<lambda>t. Some JNull) [110, 117, 108, 108] Some None JNull = Inr JNull"
    by (simp add: parse_provider_semantic_output_def decode_provider_utf8_def utf8_decode_def strip_bom_def utf16_point_def n)
  have f: "fit_provider_semantic_result id JNull = Inr \<lparr>fr_value = JNull, fr_truncated = False, fr_reasons = []\<rparr>"
    by (simp add: fit_provider_semantic_result_def n size provider_max_semantic_result_bytes_def not_less Let_def)
  have h: "gh_nfc demo_host = id" "gh_parse_json demo_host = (\<lambda>t. Some JNull)" by (simp_all add: demo_host_def)
  have a: "sm_output_schema (ad_mapping demo_admission) = Some" "sm_map_output (ad_mapping demo_admission) = None"
      "ad_input demo_admission = JNull" "sm_capability (ad_mapping demo_admission) = js ''c''"
      "pr_instance (ad_provider demo_admission) = js ''prv_'' @ replicate 32 48"
    by (simp_all add: demo_admission_def demo_mapping_def demo_provider_def)
  show ?thesis
    by (simp add: finish_response_def bind_act_def act_simps h a p f demo_audit execution_audit_def demo_result_def)
qed

lemma demo_operate: "operate demo_host i demo_admission (demo_running [] 0) = (Inr demo_result, demo_running demo_events 1)"
proof -
  have "request_loop demo_host demo_admission None 0 (demo_running evs 0)
      = (Inr \<lparr>rw_status = 200, rw_body = [110, 117, 108, 108], rw_origin = demo_origin\<rparr>, demo_running (evs @ demo_log) 1)" for evs
    by (subst request_loop.simps) (simp add: demo_attempt)
  then show ?thesis
    by (simp add: operate_def catch_before_def catch_during_def catch_after_def bind_act_def catch_act_def demo_audit
        execution_audit_def demo_credential demo_finish demo_events_def)
qed

definition demo_final :: "unit gateway" where
  "demo_final = (demo_running demo_events 1)\<lparr>gw_budget := close_budget (gw_budget (demo_running demo_events 1))\<rparr>"

lemma demo_execute: "execute demo_host demo_registry demo_input demo_start = (Inr demo_result, demo_final)"
proof -
  have i: "operation_id_ok (js ''op_a'')"
    by (simp add: operation_id_ok_def is_base64url_def text_checks)
  have "new_budget 0 False 1 = Inr (gw_budget (demo_running [] 0))"
    by (simp add: new_budget_def provider_max_requests_def demo_running_def provider_operation_timeout_ms_def)
  moreover have "demo_start\<lparr>gw_budget := gw_budget (demo_running [] 0)\<rparr> = demo_running [] 0"
    by (simp add: demo_start_def demo_running_def)
  moreover have "gh_operation_id demo_host (gw_world demo_start) = js ''op_a''" "gh_caller_aborted demo_host (gw_world demo_start) = False"
      "nh_now (gh_net demo_host) (gw_world demo_start) = 0" "sm_max_requests (ad_mapping demo_admission) = 1"
    by (simp_all add: demo_host_def demo_net_def demo_admission_def demo_mapping_def)
  ultimately show ?thesis
    by (simp add: execute_def bind_act_def act_simps demo_admit i and_finally_def demo_operate demo_final_def)
qed

section \<open>Properties\<close>

text \<open>
  C4. Every effect of an execution is authorised. Either nothing was logged and there is an error, or
  the call was admitted: its input parsed, its capability is one of the compiled registry, the provider
  is registered, enabled, of the mapping's adapter at its contract version, its implementation has
  the approved fingerprint, and a workspace the mapping binds to has an unrestricted network. Then the
  log begins with the audit of the decision; if that was refused nothing follows. Every HTTPS request
  goes to a public address and to the origin of the mapped operation, one of the reviewed HTTPS origins
  of the adapter, or without the credential to the origin of its redirect policy, with at most 256 KiB
  of body. A request of the second kind comes directly after one of the first that was answered with
  a redirect, so that each such answer is followed once; there are at most as many requests in all as
  the mapping allows.
\<close>

theorem provider_effects_authorised:
  assumes "new_registry parse ms = Inr reg" and "execute h reg input s = (r, s')"
  shows "(gw_log s' = gw_log s \<and> \<not> is_ok r) \<or> (\<exists>a ok evs. admitted h reg input a
    \<and> gw_log s' = gw_log s @ Ev_Audit Phase_Decision None ok # evs \<and> (ok \<or> evs = [] \<and> \<not> is_ok r) \<and> within_authority parse a evs)"
proof -
  have outcome: "\<exists>ok es. evs = Ev_Audit Phase_Decision None ok # es \<and> (ok \<or> es = [] \<and> \<not> is_ok r)" if "outcome_logged a r evs" for a evs
    using that by (cases r) (auto simp: outcome_logged_def)
  have within: "within_authority parse a evs" if "within_authority parse a (Ev_Audit x y z # evs)" for a x y z evs
  proof -
    have "redirects_led p evs" if "redirects_led p (Ev_Audit x y z # evs)" for p
      unfolding redirects_led_def
    proof (intro allI impI)
      fix before t q after
      assume "evs = before @ Ev_Request t q # after" "pu_origin t \<noteq> op_origin p"
      then have "Ev_Audit x y z # evs = (Ev_Audit x y z # before) @ Ev_Request t q # after" by simp
      with that \<open>pu_origin t \<noteq> _\<close> obtain earlier u q' x' where
        "Ev_Audit x y z # before = earlier @ [Ev_Request u q', Ev_Answer (Req_Response x')]"
        "pu_origin u = op_origin p" "hr_status x' \<in> {301, 302, 303, 307, 308}"
        unfolding redirects_led_def by blast
      then show "\<exists>earlier u q' x. before = earlier @ [Ev_Request u q', Ev_Answer (Req_Response x)]
          \<and> pu_origin u = op_origin p \<and> hr_status x \<in> {301, 302, 303, 307, 308}"
        by (auto simp: Cons_eq_append_conv)
    qed
    with that show ?thesis by (auto simp: within_authority_def)
  qed
  show ?thesis
    using execute_log [OF assms]
  proof (elim disjE exE conjE)
    fix a evs
    assume a: "admitted h reg input a" "gw_log s' = gw_log s @ evs" "within_authority parse a evs" "outcome_logged a r evs"
    from outcome [OF a(4)] obtain ok es where "evs = Ev_Audit Phase_Decision None ok # es" "ok \<or> es = [] \<and> \<not> is_ok r"
      by blast
    with a within show ?thesis by blast
  qed simp
qed

theorem provider_effects_authorised_witness:
  "\<exists>a evs. admitted demo_host demo_registry demo_input a
    \<and> gw_log demo_final = gw_log demo_start @ Ev_Audit Phase_Decision None True # evs \<and> within_authority demo_parse a evs
    \<and> Ev_Request demo_url demo_request \<in> set evs"
proof -
  have log: "gw_log demo_final = demo_events" "gw_log demo_start = []"
    by (simp_all add: demo_final_def demo_running_def demo_start_def)
  from provider_effects_authorised [OF demo_new_registry demo_execute] show ?thesis
    by (auto simp: log demo_events_def demo_log_def)
qed

text \<open>
  C5. A mutation of a remote system is sent at most once, and when it was sent it never ends in an
  error that looks like a clean failure unless the provider definitely answered: the error is
  \<open>PROVIDER_MUTATION_OUTCOME_UNKNOWN\<close>, or an answer with a status outside 200 to 299 or over the size
  limit was received. A success was sent exactly once.
\<close>

theorem provider_mutation_sent_once:
  assumes "new_registry parse ms = Inr reg" and "parse_semantic_input input = Inr i"
    and "require_mapping reg (se_capability i) = Inr m" and "sm_effect m = Remote_Mutation"
    and "execute h reg input s = (r, s')"
  shows "\<exists>evs. gw_log s' = gw_log s @ evs \<and> length (filter is_request evs) \<le> 1
    \<and> (case r of Inr x \<Rightarrow> length (filter is_request evs) = 1
        | Inl e \<Rightarrow> e = Mutation_Outcome_Unknown \<or> filter is_request evs = [] \<or> definite evs)"
proof -
  have once: "sm_max_requests (ad_mapping a) = 1 \<and> is_mutation a" if "admitted h reg input a" for a
  proof -
    have "ad_mapping a = m" using that assms(2,3) by (auto simp: admitted_def)
    moreover have "mapping_ok (ad_manifest a) (ad_mapping a)" by (rule admitted_registered [OF assms(1) that])
    ultimately show ?thesis using assms(4) by (simp add: mapping_ok_def is_mutation_def)
  qed
  have one: "length (filter is_request evs) \<le> 1" if "admitted h reg input a" "within_authority parse a evs" for a evs
    using that once by (fastforce simp: within_authority_def)
  have outcome: "case r of Inr x \<Rightarrow> filter is_request evs \<noteq> []
      | Inl e \<Rightarrow> e = Mutation_Outcome_Unknown \<or> filter is_request evs = [] \<or> definite evs"
    if "admitted h reg input a" "outcome_logged a r evs" for a evs
    using that once by (fastforce simp: outcome_logged_def definite_def filter_empty_conv list_ex_iff failure_recorded_def split: sum.splits)
  show ?thesis
    using execute_log [OF assms(1,5)]
  proof (elim disjE exE conjE)
    fix a evs
    assume a: "admitted h reg input a" "gw_log s' = gw_log s @ evs" "within_authority parse a evs" "outcome_logged a r evs"
    then show ?thesis using one [OF a(1,3)] outcome [OF a(1,4)]
      by (intro exI [of _ evs]) (auto simp: le_Suc_eq split: sum.splits)
  qed (cases r, auto)
qed

theorem provider_mutation_sent_once_witness:
  "\<exists>evs. gw_log demo_final = gw_log demo_start @ evs \<and> length (filter is_request evs) = 1"
proof -
  have m: "require_mapping demo_registry (se_capability demo_parsed) = Inr demo_mapping" "sm_effect demo_mapping = Remote_Mutation"
    by (simp_all add: require_mapping_def demo_registry_def demo_parsed_def demo_mapping_def)
  from provider_mutation_sent_once [OF demo_new_registry demo_parse_input m demo_execute] show ?thesis by auto
qed

text \<open>
  C24. What was decided is settled in the audit log: after an accepted decision the last record of an
  execution is the success, and then the caller has the result after at least one request, or a
  failure. The caller of a failed execution sees the recorded error; if the failure could not be
  recorded the error is \<open>PROVIDER_AUDIT_UNAVAILABLE\<close>, or the unknown outcome of a mutation.
\<close>

theorem provider_outcome_audited:
  assumes "new_registry parse ms = Inr reg" and "execute h reg input s = (r, s')"
  shows "gw_log s' = gw_log s \<or> gw_log s' = gw_log s @ [Ev_Audit Phase_Decision None False]
    \<or> (\<exists>es ev. gw_log s' = gw_log s @ Ev_Audit Phase_Decision None True # es @ [ev]
        \<and> (case r of Inr x \<Rightarrow> ev = Ev_Audit Phase_Success None True \<and> list_ex is_request es
            | Inl e \<Rightarrow> ev = Ev_Audit Phase_Failed (Some e) True
                \<or> ((\<exists>e0. ev = Ev_Audit Phase_Failed (Some e0) False) \<and> (e = Audit_Unavailable \<or> e = Mutation_Outcome_Unknown))))"
  using execute_log [OF assms]
proof (elim disjE exE conjE)
  fix a evs
  assume "gw_log s' = gw_log s @ evs" "outcome_logged a r evs"
  then show ?thesis by (cases r) (fastforce simp: outcome_logged_def failure_recorded_def split: if_splits)+
qed simp

theorem provider_outcome_audited_witness:
  "last (gw_log demo_final) = Ev_Audit Phase_Success None True"
proof -
  have log: "gw_log demo_final = demo_events" "gw_log demo_start = []"
    by (simp_all add: demo_final_def demo_running_def demo_start_def)
  from provider_outcome_audited [OF demo_new_registry demo_execute] show ?thesis
    by (auto simp: log demo_events_def demo_log_def)
qed

text \<open>
  A response over the size limit is not one of the failures that make the outcome of a mutation
  unknown, although the provider answered and may have acted: the caller is told that the response
  is invalid, like after a failure before anything was sent.
\<close>

lemma oversized_mutation_answer_reported_invalid:
  assumes "request_loop h a c 0 s = (Inl Response_Invalid, t)"
  shows "catch_during h i a (request_loop h a c 0) s = record_failure h i a Response_Invalid t"
  using assms
  by (simp add: catch_during_def catch_act_def is_ambiguous_mutation_failure_def as_provider_failure_def)

end
