(* ===== verification/Provider_Registry.thy ===== *)
theory Provider_Registry
  imports Provider_Gateway Document_Store
begin

text \<open>
  \<open>packages/capabilities/src/provider-gateway/registry.ts\<close>: the file of admitted providers. The schema of
  a time stamp belongs to the validation library and is an argument. The theorem of the theory
  says that the store is a finite map from identifiers to records.
\<close>

section \<open>Records\<close>

definition proto_free :: "fields \<Rightarrow> fields" where
  "proto_free = filter (\<lambda>f. fst f \<noteq> proto_key)"

definition version_unit :: "nat \<Rightarrow> bool" where
  "version_unit u = (is_alnum u \<or> u \<in> {46, 95, 43, 45})"

definition bounded_version :: "jsstring \<Rightarrow> bool" where
  "bounded_version v = (v \<noteq> [] \<and> is_alnum (hd v) \<and> list_all version_unit (tl v) \<and> length v \<le> 64)"

definition bounded_authority_id :: "jsstring \<Rightarrow> bool" where
  "bounded_authority_id v = is_ok (require_authority_id 128 v)"

definition fingerprint_text :: "jsstring \<Rightarrow> bool" where
  "fingerprint_text = exactly is_lower_hex 64"

definition within_length :: "nat \<Rightarrow> jsstring \<Rightarrow> bool" where
  "within_length n s = (s \<noteq> [] \<and> length s \<le> n)"

text \<open>The words of \<open>looksSecretBearing\<close>.\<close>

definition secret_words :: "jsstring list" where
  "secret_words = map js [''password'', ''passwd'', ''secret'', ''token'', ''credential'', ''authorization'', ''apikey'',
     ''accesskey'', ''privatekey'']"

definition looks_secret_bearing :: "jsstring \<Rightarrow> bool" where
  "looks_secret_bearing k = list_ex (includes_str (to_lower (filter is_alnum k))) secret_words"

fun visit_json :: "json \<Rightarrow> provider_error + unit"
  and visit_items :: "json list \<Rightarrow> provider_error + unit"
  and visit_fields :: "fields \<Rightarrow> provider_error + unit" where
  "visit_json (JArr xs) = visit_items xs"
| "visit_json (JObj fs) = visit_fields fs"
| "visit_json v = Inr ()"
| "visit_items [] = Inr ()"
| "visit_items (x # xs) = bind_res (visit_json x) (\<lambda>_. visit_items xs)"
| "visit_fields [] = Inr ()"
| "visit_fields ((k, x) # fs) =
     (if looks_secret_bearing k then Inl State_Invalid else bind_res (visit_json x) (\<lambda>_. visit_fields fs))"

definition assert_provider_non_secret_config :: "json \<Rightarrow> provider_error + unit" where
  "assert_provider_non_secret_config v = visit_json v"

definition parse_broker_descriptor :: "json option \<Rightarrow> broker_descriptor option" where
  "parse_broker_descriptor v = (case as_record v of
     None \<Rightarrow> None
   | Some fs \<Rightarrow>
       if get fs ''kind'' = Some (JStr (js ''none'')) then (if only_keys fs [''kind''] then Some Broker_None else None)
       else if get fs ''kind'' = Some (JStr (js ''external-helper'')) \<and> only_keys fs [''kind'', ''helperPath'', ''helperSha256'']
       then (case (as_str (get fs ''helperPath''), as_str (get fs ''helperSha256'')) of
           (Some p, Some h) \<Rightarrow> if within_length 4096 p \<and> fingerprint_text h then Some (Broker_Helper p h) else None
         | _ \<Rightarrow> None)
       else None)"

definition parse_config :: "json option \<Rightarrow> json option" where
  "parse_config v = (case as_record v of
     None \<Rightarrow> None
   | Some fs \<Rightarrow> if list_all (\<lambda>f. within_length 128 (fst f)) (proto_free fs) then Some (JObj (proto_free fs)) else None)"

definition parse_inventory_mode :: "json option \<Rightarrow> inventory_mode option" where
  "parse_inventory_mode v = (case as_str v of
     None \<Rightarrow> None
   | Some s \<Rightarrow> if s = js ''STATIC'' then Some Inventory_Static else if s = js ''DYNAMIC'' then Some Inventory_Dynamic else None)"

definition parse_approved :: "json option \<Rightarrow> jsstring option option" where
  "parse_approved v = (case v of
     Some JNull \<Rightarrow> Some None
   | _ \<Rightarrow> (case as_str v of Some s \<Rightarrow> (if fingerprint_text s then Some (Some s) else None) | None \<Rightarrow> None))"

definition checked_str :: "(jsstring \<Rightarrow> bool) \<Rightarrow> json option \<Rightarrow> jsstring option" where
  "checked_str p v = (case as_str v of Some s \<Rightarrow> if p s then Some s else None | None \<Rightarrow> None)"

definition record_keys :: "string list" where
  "record_keys = [''schemaVersion'', ''providerInstanceId'', ''operatorName'', ''adapterId'', ''adapterContractVersion'', ''enabled'',
     ''implementationFingerprint'', ''inventoryMode'', ''approvedInventoryFingerprint'', ''credentialBroker'',
     ''nonSecretAdapterConfig'', ''createdAt'', ''updatedAt'']"

text \<open>\<open>ProviderRegistryRecordSchema\<close>, where \<open>ts\<close> accepts time stamps.\<close>

definition record_schema :: "(jsstring \<Rightarrow> bool) \<Rightarrow> json \<Rightarrow> provider_record option" where
  "record_schema ts v = (case as_record (Some v) of
     None \<Rightarrow> None
   | Some fs \<Rightarrow>
       if \<not> only_keys fs record_keys \<or> \<not> schema_one fs then None
       else Option.bind (checked_str (tagged_hex32 ''prv_'') (get fs ''providerInstanceId'')) (\<lambda>i.
         Option.bind (checked_str (within_length 256) (get fs ''operatorName'')) (\<lambda>name.
         Option.bind (checked_str bounded_authority_id (get fs ''adapterId'')) (\<lambda>adapter.
         Option.bind (checked_str bounded_version (get fs ''adapterContractVersion'')) (\<lambda>version.
         Option.bind (as_bool (get fs ''enabled'')) (\<lambda>enabled.
         Option.bind (checked_str fingerprint_text (get fs ''implementationFingerprint'')) (\<lambda>fp.
         Option.bind (parse_inventory_mode (get fs ''inventoryMode'')) (\<lambda>mode.
         Option.bind (parse_approved (get fs ''approvedInventoryFingerprint'')) (\<lambda>approved.
         Option.bind (parse_broker_descriptor (get fs ''credentialBroker'')) (\<lambda>broker.
         Option.bind (parse_config (get fs ''nonSecretAdapterConfig'')) (\<lambda>config.
         Option.bind (checked_str ts (get fs ''createdAt'')) (\<lambda>created.
         Option.bind (checked_str ts (get fs ''updatedAt'')) (\<lambda>updated.
         Some \<lparr>pr_instance = i, pr_operator = name, pr_adapter = adapter, pr_version = version, pr_enabled = enabled,
           pr_fingerprint = fp, pr_inventory = mode, pr_approved = approved, pr_broker = broker, pr_config = config,
           pr_created = created, pr_updated = updated\<rparr>)))))))))))))"

definition parse_record :: "(jsstring \<Rightarrow> bool) \<Rightarrow> json \<Rightarrow> provider_error + provider_record" where
  "parse_record ts v = (case record_schema ts v of
     None \<Rightarrow> Inl State_Invalid
   | Some r \<Rightarrow> bind_res (assert_provider_non_secret_config (pr_config r)) (\<lambda>_. Inr r))"

definition broker_json :: "broker_descriptor \<Rightarrow> json" where
  "broker_json b = (case b of
     Broker_None \<Rightarrow> JObj [fld ''kind'' (JStr (js ''none''))]
   | Broker_Helper p h \<Rightarrow> JObj [fld ''kind'' (JStr (js ''external-helper'')), fld ''helperPath'' (JStr p), fld ''helperSha256'' (JStr h)])"

definition mode_json :: "inventory_mode \<Rightarrow> json" where
  "mode_json m = JStr (case m of Inventory_Static \<Rightarrow> js ''STATIC'' | Inventory_Dynamic \<Rightarrow> js ''DYNAMIC'')"

definition record_json :: "provider_record \<Rightarrow> json" where
  "record_json r = JObj [fld ''schemaVersion'' (JNum 1), fld ''providerInstanceId'' (JStr (pr_instance r)),
     fld ''operatorName'' (JStr (pr_operator r)), fld ''adapterId'' (JStr (pr_adapter r)),
     fld ''adapterContractVersion'' (JStr (pr_version r)), fld ''enabled'' (JBool (pr_enabled r)),
     fld ''implementationFingerprint'' (JStr (pr_fingerprint r)), fld ''inventoryMode'' (mode_json (pr_inventory r)),
     fld ''approvedInventoryFingerprint'' (case pr_approved r of None \<Rightarrow> JNull | Some h \<Rightarrow> JStr h),
     fld ''credentialBroker'' (broker_json (pr_broker r)), fld ''nonSecretAdapterConfig'' (pr_config r),
     fld ''createdAt'' (JStr (pr_created r)), fld ''updatedAt'' (JStr (pr_updated r))]"

section \<open>The document\<close>

definition sort_entries :: "provider_record list \<Rightarrow> provider_record list" where
  "sort_entries = sort_by (\<lambda>a b. utf8_le (pr_instance a) (pr_instance b))"

text \<open>What \<open>#read\<close> and \<open>parseDocument\<close> do after the schema of the document.\<close>

definition checked_entries :: "provider_record list \<Rightarrow> provider_error + provider_record list" where
  "checked_entries es = (if has_dup (map pr_instance es) then Inl State_Invalid else Inr (sort_entries es))"

definition parse_registry :: "(jsstring \<Rightarrow> bool) \<Rightarrow> json option \<Rightarrow> provider_error + provider_record list" where
  "parse_registry ts t = (case as_record t of
     None \<Rightarrow> Inl State_Invalid
   | Some fs \<Rightarrow>
       if \<not> only_keys fs [''schemaVersion'', ''entries''] \<or> \<not> schema_one fs then Inl State_Invalid
       else (case as_arr (get fs ''entries'') of
           None \<Rightarrow> Inl State_Invalid
         | Some xs \<Rightarrow> bind_res (map_res (parse_record ts) xs) checked_entries))"

definition registry_json :: "provider_record list \<Rightarrow> json" where
  "registry_json es = JObj [fld ''schemaVersion'' (JNum 1), fld ''entries'' (JArr (map record_json es))]"

type_synonym registry_file = "json option state_file"

text \<open>Where a write fails: in \<open>mkdir\<close> or \<open>chmod\<close> of the directory, whose error is no \<open>CapabilityError\<close>, or later.\<close>

datatype registry_fault = Directory_Fault | File_Fault write_fault

definition read_registry :: "(jsstring \<Rightarrow> bool) \<Rightarrow> registry_file \<Rightarrow> provider_error + provider_record list" where
  "read_registry ts f = read_file State_Invalid [] (parse_registry ts) f"

definition write_registry :: "(jsstring \<Rightarrow> bool) \<Rightarrow> registry_fault \<Rightarrow> provider_record list \<Rightarrow> registry_file \<Rightarrow>
    (provider_error + unit) \<times> registry_file" where
  "write_registry ts fault es f = (case parse_registry ts (Some (registry_json es)) of
     Inl e \<Rightarrow> (Inl e, f)
   | Inr ds \<Rightarrow> (case fault of
       Directory_Fault \<Rightarrow> (Inl Other_Failure, f)
     | File_Fault w \<Rightarrow> write_file State_Invalid w (Some (registry_json ds)) f))"

section \<open>Operations\<close>

definition registry_list :: "(jsstring \<Rightarrow> bool) \<Rightarrow> registry_file \<Rightarrow> provider_error + provider_record list" where
  "registry_list = read_registry"

definition registry_get :: "(jsstring \<Rightarrow> bool) \<Rightarrow> jsstring \<Rightarrow> registry_file \<Rightarrow> provider_error + provider_record option" where
  "registry_get ts i f = bind_res (read_registry ts f) (\<lambda>es. Inr (find (\<lambda>e. pr_instance e = i) es))"

definition registry_insert :: "(jsstring \<Rightarrow> bool) \<Rightarrow> registry_fault \<Rightarrow> provider_record \<Rightarrow> registry_file \<Rightarrow>
    (provider_error + unit) \<times> registry_file" where
  "registry_insert ts fault r f = (case bind_res (parse_record ts (record_json r)) (\<lambda>p. bind_res (read_registry ts f) (\<lambda>es. Inr (p, es))) of
     Inl e \<Rightarrow> (Inl e, f)
   | Inr (p, es) \<Rightarrow>
       if list_ex (\<lambda>e. pr_instance e = pr_instance p) es then (Inl State_Invalid, f)
       else write_registry ts fault (sort_entries (es @ [p])) f)"

definition registry_replace :: "(jsstring \<Rightarrow> bool) \<Rightarrow> registry_fault \<Rightarrow> provider_record \<Rightarrow> registry_file \<Rightarrow>
    (provider_error + unit) \<times> registry_file" where
  "registry_replace ts fault r f = (case bind_res (parse_record ts (record_json r)) (\<lambda>p. bind_res (read_registry ts f) (\<lambda>es. Inr (p, es))) of
     Inl e \<Rightarrow> (Inl e, f)
   | Inr (p, es) \<Rightarrow> (case find_index (\<lambda>e. pr_instance e = pr_instance p) es of
       None \<Rightarrow> (Inl State_Invalid, f)
     | Some k \<Rightarrow> write_registry ts fault (sort_entries (es[k := p])) f))"

definition registry_remove :: "(jsstring \<Rightarrow> bool) \<Rightarrow> registry_fault \<Rightarrow> jsstring \<Rightarrow> registry_file \<Rightarrow>
    (provider_error + bool) \<times> registry_file" where
  "registry_remove ts fault i f = (case read_registry ts f of
     Inl e \<Rightarrow> (Inl e, f)
   | Inr es \<Rightarrow>
       let next = filter (\<lambda>e. pr_instance e \<noteq> i) es in
       if length next = length es then (Inr False, f)
       else (case write_registry ts fault next f of (Inl e, f') \<Rightarrow> (Inl e, f') | (Inr u, f') \<Rightarrow> (Inr True, f')))"

section \<open>The codec of the file\<close>

definition record_ok :: "(jsstring \<Rightarrow> bool) \<Rightarrow> provider_record \<Rightarrow> bool" where
  "record_ok ts r \<longleftrightarrow> tagged_hex32 ''prv_'' (pr_instance r) \<and> within_length 256 (pr_operator r) \<and> bounded_authority_id (pr_adapter r)
     \<and> bounded_version (pr_version r) \<and> fingerprint_text (pr_fingerprint r) \<and> (\<forall>h. pr_approved r = Some h \<longrightarrow> fingerprint_text h)
     \<and> (\<forall>p h. pr_broker r = Broker_Helper p h \<longrightarrow> within_length 4096 p \<and> fingerprint_text h)
     \<and> (\<exists>fs. pr_config r = JObj fs \<and> list_all (\<lambda>f. fst f \<noteq> proto_key \<and> within_length 128 (fst f)) fs \<and> visit_fields fs = Inr ())
     \<and> ts (pr_created r) \<and> ts (pr_updated r)"

lemma checked_str_eq: "checked_str p v = Some s \<longleftrightarrow> v = Some (JStr s) \<and> p s"
  by (auto simp: checked_str_def as_eq_Some split: option.splits if_splits)

lemma parse_approved_eq:
  "parse_approved v = Some a \<longleftrightarrow> v = Some (case a of None \<Rightarrow> JNull | Some h \<Rightarrow> JStr h) \<and> (\<forall>h. a = Some h \<longrightarrow> fingerprint_text h)"
  by (cases a) (auto simp: parse_approved_def as_eq_Some split: option.splits json.splits if_splits)

lemma parse_broker_json:
  "(\<forall>p h. b = Broker_Helper p h \<longrightarrow> within_length 4096 p \<and> fingerprint_text h) \<Longrightarrow> parse_broker_descriptor (Some (broker_json b)) = Some b"
  by (cases b) (simp_all add: parse_broker_descriptor_def broker_json_def)

lemma parse_broker_ok: "parse_broker_descriptor v = Some (Broker_Helper p h) \<Longrightarrow> within_length 4096 p \<and> fingerprint_text h"
  by (auto simp: parse_broker_descriptor_def split: option.splits if_splits)

lemma parse_mode_json: "parse_inventory_mode (Some (mode_json m)) = Some m"
  by (cases m) (simp_all add: parse_inventory_mode_def mode_json_def)

lemma parse_config_ok:
  "parse_config v = Some c \<Longrightarrow> \<exists>fs. c = JObj fs \<and> list_all (\<lambda>f. fst f \<noteq> proto_key \<and> within_length 128 (fst f)) fs"
  by (auto simp: parse_config_def proto_free_def list_all_iff split: option.splits if_splits)

lemma parse_config_json:
  "list_all (\<lambda>f. fst f \<noteq> proto_key \<and> within_length 128 (fst f)) fs \<Longrightarrow> parse_config (Some (JObj fs)) = Some (JObj fs)"
  by (auto simp: parse_config_def proto_free_def list_all_iff filter_id_conv)

lemma record_schema_ok:
  assumes "record_schema ts v = Some r"
  shows "(visit_json (pr_config r) = Inr ()) = record_ok ts r"
proof -
  obtain fs where fs: "as_record (Some v) = Some fs" "checked_str (tagged_hex32 ''prv_'') (get fs ''providerInstanceId'') = Some (pr_instance r)"
      "checked_str (within_length 256) (get fs ''operatorName'') = Some (pr_operator r)"
      "checked_str bounded_authority_id (get fs ''adapterId'') = Some (pr_adapter r)"
      "checked_str bounded_version (get fs ''adapterContractVersion'') = Some (pr_version r)"
      "checked_str fingerprint_text (get fs ''implementationFingerprint'') = Some (pr_fingerprint r)"
      "parse_approved (get fs ''approvedInventoryFingerprint'') = Some (pr_approved r)"
      "parse_broker_descriptor (get fs ''credentialBroker'') = Some (pr_broker r)"
      "parse_config (get fs ''nonSecretAdapterConfig'') = Some (pr_config r)"
      "checked_str ts (get fs ''createdAt'') = Some (pr_created r)" "checked_str ts (get fs ''updatedAt'') = Some (pr_updated r)"
    using assms unfolding record_schema_def
    by (cases "as_record (Some v)") (simp_all add: bind_eq_Some_conv split: if_splits, elim exE conjE, drule sym, simp)
  obtain cs where c: "pr_config r = JObj cs" "list_all (\<lambda>f. fst f \<noteq> proto_key \<and> within_length 128 (fst f)) cs"
    using parse_config_ok [OF fs(9)] by blast
  have "\<forall>p h. pr_broker r = Broker_Helper p h \<longrightarrow> within_length 4096 p \<and> fingerprint_text h"
    using parse_broker_ok [of "get fs ''credentialBroker''"] fs(8) by simp
  then show ?thesis using fs(2-7,10,11) c by (simp add: checked_str_eq parse_approved_eq record_ok_def)
qed

lemma parse_record_ok: "parse_record ts v = Inr r \<Longrightarrow> record_ok ts r"
  using record_schema_ok
  by (auto simp: parse_record_def assert_provider_non_secret_config_def bind_res_eq_Inr split: option.splits)

lemma parse_record_json:
  assumes "record_ok ts r"
  shows "parse_record ts (record_json r) = Inr r"
proof -
  obtain fs where c: "pr_config r = JObj fs" "list_all (\<lambda>f. fst f \<noteq> proto_key \<and> within_length 128 (fst f)) fs" "visit_fields fs = Inr ()"
    using assms by (auto simp: record_ok_def)
  have "record_schema ts (record_json r) = Some r"
    using assms parse_config_json [OF c(2)]
    by (auto simp: record_schema_def record_json_def record_keys_def schema_one_def bind_eq_Some_conv checked_str_eq
        parse_approved_eq parse_mode_json parse_broker_json c(1) record_ok_def)
  then show ?thesis by (simp add: parse_record_def assert_provider_non_secret_config_def c)
qed

lemma byte_list_le_refl: "byte_list_le xs xs"
  by (induction xs) auto

lemma byte_list_le_total: "byte_list_le xs ys \<or> byte_list_le ys xs"
  by (induction xs ys rule: byte_list_le.induct) auto

lemma byte_list_le_trans: "byte_list_le xs ys \<Longrightarrow> byte_list_le ys zs \<Longrightarrow> byte_list_le xs zs"
proof (induction xs ys arbitrary: zs rule: byte_list_le.induct)
  case (3 x xs y ys)
  then show ?case by (cases zs) auto
qed simp_all

lemma sort_by_sorted: "sorted_wrt le xs \<Longrightarrow> sort_by le xs = xs"
proof (induction xs)
  case (Cons x xs)
  then show ?case by (cases xs) (simp_all add: sort_by_Cons)
qed simp

definition registry_ok :: "(jsstring \<Rightarrow> bool) \<Rightarrow> provider_record list \<Rightarrow> bool" where
  "registry_ok ts es \<longleftrightarrow> list_all (record_ok ts) es \<and> distinct (map pr_instance es)
     \<and> sorted_wrt (\<lambda>a b. utf8_le (pr_instance a) (pr_instance b)) es"

lemma sort_entries_ok: "list_all (record_ok ts) es \<Longrightarrow> distinct (map pr_instance es) \<Longrightarrow> registry_ok ts (sort_entries es)"
  unfolding registry_ok_def sort_entries_def
  by (intro conjI sorted_sort_by) (auto simp: list_all_iff distinct_map_sort_by utf8_le_def byte_list_le_total intro: byte_list_le_trans)

interpretation registry_doc: document_store "\<lambda>es. Some (registry_json es)" "parse_registry ts" "registry_ok ts" "[]" State_Invalid
proof
  show "registry_ok ts es \<Longrightarrow> parse_registry ts (Some (registry_json es)) = Inr es" for es
    by (simp add: registry_ok_def parse_registry_def registry_json_def schema_one_def map_res_inverse parse_record_json
        list_all_iff checked_entries_def sort_entries_def sort_by_sorted has_dup_iff)
  show "parse_registry ts t = Inr es \<Longrightarrow> registry_ok ts es" for t es
    by (auto simp: parse_registry_def checked_entries_def guard_eq_Inr has_dup_iff
        intro!: sort_entries_ok map_res_all [where f = "parse_record ts"] parse_record_ok split: option.splits if_splits)
  show "registry_ok ts []" by (simp add: registry_ok_def)
qed

section \<open>The store is a map\<close>

definition entry_at :: "provider_record list \<Rightarrow> jsstring \<Rightarrow> provider_record option" where
  "entry_at es i = find (\<lambda>e. pr_instance e = i) es"

text \<open>What a reader of the file sees.\<close>

definition registry_map :: "(jsstring \<Rightarrow> bool) \<Rightarrow> registry_file \<Rightarrow> provider_error + (jsstring \<rightharpoonup> provider_record)" where
  "registry_map ts f = bind_res (read_registry ts f) (\<lambda>es. Inr (entry_at es))"

lemma entry_at_Some: "entry_at es i = Some e \<Longrightarrow> e \<in> set es \<and> pr_instance e = i"
  by (auto simp: entry_at_def find_Some_iff)

lemma entry_at_iff: "distinct (map pr_instance es) \<Longrightarrow> entry_at es i = Some e \<longleftrightarrow> e \<in> set es \<and> pr_instance e = i"
  by (induction es) (auto simp: entry_at_def)

lemma entry_at_None: "entry_at es i = None \<longleftrightarrow> i \<notin> pr_instance ` set es"
  by (auto simp: entry_at_def find_None_iff)

lemma entry_at_eqI:
  assumes "distinct (map pr_instance es)" and "distinct (map pr_instance ds)" and "set es = set ds"
  shows "entry_at es = entry_at ds"
proof
  show "entry_at es i = entry_at ds i" for i
    using entry_at_iff [OF assms(1), of i] entry_at_iff [OF assms(2), of i] assms(3)
    by (cases "entry_at es i"; cases "entry_at ds i") auto
qed

lemma entry_at_sort: "distinct (map pr_instance es) \<Longrightarrow> entry_at (sort_entries es) = entry_at es"
  by (rule entry_at_eqI) (simp_all add: sort_entries_def distinct_map_sort_by)

lemma entry_at_append: "entry_at es (pr_instance r) = None \<Longrightarrow> entry_at (es @ [r]) = (entry_at es)(pr_instance r \<mapsto> r)"
  by (rule ext) (induction es, auto simp: entry_at_def)

lemma entry_at_update:
  "find_index (\<lambda>e. pr_instance e = pr_instance r) es = Some k \<Longrightarrow> distinct (map pr_instance es) \<Longrightarrow>
     entry_at (es[k := r]) = (entry_at es)(pr_instance r \<mapsto> r)"
proof (induction es arbitrary: k)
  case (Cons e es)
  then show ?case by (cases k) (auto simp: entry_at_def fun_eq_iff split: if_splits option.splits)
qed simp

lemma entry_at_filter: "entry_at (filter (\<lambda>e. pr_instance e \<noteq> i) es) = (entry_at es)(i := None)"
  by (rule ext) (induction es, auto simp: entry_at_def)

lemma read_registry_ok: "read_registry ts f = Inr es \<Longrightarrow> registry_ok ts es"
  unfolding read_registry_def by (rule registry_doc.read_valid)

lemma write_registry_cases:
  assumes "registry_ok ts es" and "write_registry ts fault es f = (r, f')"
  shows "(r = Inr () \<and> read_registry ts f' = Inr es)
     \<or> (\<exists>e. r = Inl e \<and> fault \<noteq> File_Fault No_Fault \<and> read_registry ts f' \<in> {read_registry ts f, Inr es})"
proof -
  have p: "parse_registry ts (Some (registry_json es)) = Inr es" by (rule registry_doc.parse_to_content [OF assms(1)])
  show ?thesis
  proof (cases fault)
    case Directory_Fault
    then show ?thesis using assms(2) by (auto simp: write_registry_def p)
  next
    case (File_Fault w)
    then have w: "write_file State_Invalid w (Some (registry_json es)) f = (r, f')" using assms(2) by (simp add: write_registry_def p)
    then have "r = Inr () \<or> (\<exists>e. r = Inl e \<and> w \<noteq> No_Fault)" by (auto simp: write_file_def split: write_fault.splits)
    with registry_doc.printed_then_read [OF assms(1) w] File_Fault show ?thesis by (auto simp: read_registry_def)
  qed
qed

text \<open>The abstract operations.\<close>

datatype registry_op = Op_Insert provider_record | Op_Replace provider_record | Op_Remove jsstring

definition map_step :: "(jsstring \<Rightarrow> bool) \<Rightarrow> registry_op \<Rightarrow> (jsstring \<rightharpoonup> provider_record) \<Rightarrow>
    (bool \<times> (jsstring \<rightharpoonup> provider_record)) option" where
  "map_step ts op m = (case op of
     Op_Insert r \<Rightarrow> (case parse_record ts (record_json r) of
         Inr p \<Rightarrow> if m (pr_instance p) = None then Some (True, m(pr_instance p \<mapsto> p)) else None
       | Inl e \<Rightarrow> None)
   | Op_Replace r \<Rightarrow> (case parse_record ts (record_json r) of
         Inr p \<Rightarrow> if m (pr_instance p) \<noteq> None then Some (True, m(pr_instance p \<mapsto> p)) else None
       | Inl e \<Rightarrow> None)
   | Op_Remove i \<Rightarrow> Some (m i \<noteq> None, m(i := None)))"

definition registry_run :: "(jsstring \<Rightarrow> bool) \<Rightarrow> registry_fault \<Rightarrow> registry_op \<Rightarrow> registry_file \<Rightarrow>
    (provider_error + bool) \<times> registry_file" where
  "registry_run ts fault op f = (case op of
     Op_Insert r \<Rightarrow> (case registry_insert ts fault r f of (x, f') \<Rightarrow> (map_sum id (\<lambda>_. True) x, f'))
   | Op_Replace r \<Rightarrow> (case registry_replace ts fault r f of (x, f') \<Rightarrow> (map_sum id (\<lambda>_. True) x, f'))
   | Op_Remove i \<Rightarrow> registry_remove ts fault i f)"

text \<open>
  An operation that ran: either it did what the map does, or it threw; then the map is unchanged, or
  changed by a write that failed after the new file was in place.
\<close>

definition ran_as :: "(jsstring \<Rightarrow> bool) \<Rightarrow> registry_fault \<Rightarrow> registry_file \<Rightarrow> (bool \<times> (jsstring \<rightharpoonup> provider_record)) option \<Rightarrow>
    provider_error + bool \<Rightarrow> registry_file \<Rightarrow> bool" where
  "ran_as ts fault f step r f' \<longleftrightarrow> (case r of
     Inr b \<Rightarrow> \<exists>m. step = Some (b, m) \<and> registry_map ts f' = Inr m
   | Inl e \<Rightarrow> (step = None \<or> fault \<noteq> File_Fault No_Fault)
       \<and> (registry_map ts f' = registry_map ts f \<or> (\<exists>b m. step = Some (b, m) \<and> registry_map ts f' = Inr m)))"

lemma write_ran_as:
  assumes "registry_ok ts es" and "write_registry ts fault es f = (r, f')" and "entry_at es = m"
  shows "ran_as ts fault f (Some (True, m)) (map_sum id (\<lambda>_. True) r) f'"
  using write_registry_cases [OF assms(1,2)] assms(3) by (auto simp: ran_as_def registry_map_def)

lemma sort_write_ran_as:
  assumes "list_all (record_ok ts) es" and "distinct (map pr_instance es)"
    and "write_registry ts fault (sort_entries es) f = (r, f')" and "entry_at es = m"
  shows "ran_as ts fault f (Some (True, m)) (map_sum id (\<lambda>_. True) r) f'"
  using write_ran_as [OF sort_entries_ok [OF assms(1,2)] assms(3)] entry_at_sort [OF assms(2)] assms(4) by simp

lemma insert_ran_as:
  assumes "read_registry ts f = Inr es" and "registry_insert ts fault r f = (x, f')"
  shows "ran_as ts fault f (map_step ts (Op_Insert r) (entry_at es)) (map_sum id (\<lambda>_. True) x) f'"
proof (cases "parse_record ts (record_json r)")
  case (Inl e)
  then show ?thesis using assms by (auto simp: registry_insert_def map_step_def ran_as_def)
next
  case (Inr p)
  have ok: "list_all (record_ok ts) es" "distinct (map pr_instance es)"
    using read_registry_ok [OF assms(1)] by (simp_all add: registry_ok_def)
  show ?thesis
  proof (cases "entry_at es (pr_instance p) = None")
    case True
    then have n: "pr_instance p \<notin> pr_instance ` set es" by (simp add: entry_at_None)
    then have "\<not> list_ex (\<lambda>e. pr_instance e = pr_instance p) es"
      by (simp add: list_ex_iff) (metis imageI)
    then have "write_registry ts fault (sort_entries (es @ [p])) f = (x, f')" "pr_instance p \<notin> pr_instance ` set es"
      using assms Inr n by (simp_all add: registry_insert_def)
    then show ?thesis
      using ok parse_record_ok [OF Inr] entry_at_append [OF True] True Inr
      by (auto simp: map_step_def intro!: sort_write_ran_as [of _ "es @ [p]"])
  next
    case False
    then obtain e where "e \<in> set es" "pr_instance e = pr_instance p" by (auto simp: entry_at_None)
    then have "list_ex (\<lambda>e. pr_instance e = pr_instance p) es" unfolding list_ex_iff by metis
    then have "x = Inl State_Invalid \<and> f' = f" using assms Inr by (simp add: registry_insert_def)
    then show ?thesis using Inr False by (auto simp: ran_as_def map_step_def)
  qed
qed

lemma replace_ran_as:
  assumes "read_registry ts f = Inr es" and "registry_replace ts fault r f = (x, f')"
  shows "ran_as ts fault f (map_step ts (Op_Replace r) (entry_at es)) (map_sum id (\<lambda>_. True) x) f'"
proof (cases "parse_record ts (record_json r)")
  case (Inl e)
  then show ?thesis using assms by (auto simp: registry_replace_def map_step_def ran_as_def)
next
  case (Inr p)
  have ok: "list_all (record_ok ts) es" "distinct (map pr_instance es)"
    using read_registry_ok [OF assms(1)] by (simp_all add: registry_ok_def)
  show ?thesis
  proof (cases "find_index (\<lambda>e. pr_instance e = pr_instance p) es")
    case None
    then have "entry_at es (pr_instance p) = None" by (auto simp: find_index_None entry_at_None)
    then show ?thesis using assms Inr None by (auto simp: registry_replace_def map_step_def ran_as_def)
  next
    case (Some k)
    then have w: "write_registry ts fault (sort_entries (es[k := p])) f = (x, f')"
      using assms Inr by (simp add: registry_replace_def)
    have k: "k < length es" "pr_instance (es ! k) = pr_instance p" using find_index_Some [OF Some] by auto
    then have "map pr_instance (es[k := p]) = map pr_instance es" by (metis list_update_id map_update)
    then have d: "distinct (map pr_instance (es[k := p]))" using ok(2) by simp
    have "list_all (record_ok ts) (es[k := p])"
      using ok(1) parse_record_ok [OF Inr] set_update_subset_insert [of es k p] by (auto simp: list_all_iff)
    from sort_write_ran_as [OF this d w entry_at_update [OF Some ok(2)]]
    show ?thesis using Inr k entry_at_iff [OF ok(2), of "pr_instance p" "es ! k"] by (simp add: map_step_def)
  qed
qed

lemma remove_ran_as:
  assumes "read_registry ts f = Inr es" and "registry_remove ts fault i f = (x, f')"
  shows "ran_as ts fault f (map_step ts (Op_Remove i) (entry_at es)) x f'"
proof -
  let ?next = "filter (\<lambda>e. pr_instance e \<noteq> i) es"
  show ?thesis
  proof (cases "entry_at es i = None")
    case True
    then have "?next = es" by (auto simp: entry_at_None filter_id_conv)
    moreover have "(entry_at es)(i := None) = entry_at es" using True by auto
    ultimately show ?thesis using assms True by (auto simp: registry_remove_def map_step_def ran_as_def registry_map_def)
  next
    case False
    then obtain e where e: "e \<in> set es" "pr_instance e = i" by (auto simp: entry_at_None)
    have "length ?next < length es" by (rule length_filter_less [OF e(1)]) (simp add: e(2))
    then obtain y where w: "write_registry ts fault ?next f = (y, f')" and x: "x = map_sum id (\<lambda>_. True) y"
      using assms by (auto simp: registry_remove_def Let_def split: prod.splits sum.splits)
    have "registry_ok ts ?next"
      using read_registry_ok [OF assms(1)] by (auto simp: registry_ok_def list_all_iff distinct_map_filter sorted_wrt_filter)
    from write_ran_as [OF this w entry_at_filter] show ?thesis using False x by (simp add: map_step_def)
  qed
qed

lemma unreadable_run:
  "read_registry ts f = Inl e \<Longrightarrow> registry_run ts fault op f = (r, f') \<Longrightarrow> f' = f \<and> \<not> is_ok r"
  by (cases op) (auto simp: registry_run_def registry_insert_def registry_replace_def registry_remove_def
      bind_res_def split: sum.splits)

lemma registry_run_as:
  assumes "registry_map ts f = Inr m" and "registry_run ts fault op f = (r, f')"
  shows "ran_as ts fault f (map_step ts op m) r f'"
proof -
  obtain es where es: "read_registry ts f = Inr es" "m = entry_at es"
    using assms(1) by (auto simp: registry_map_def bind_res_eq_Inr)
  show ?thesis
    using assms(2) insert_ran_as [OF es(1)] replace_ran_as [OF es(1)] remove_ran_as [OF es(1)]
    by (auto simp: registry_run_def es(2) split: registry_op.splits prod.splits)
qed

section \<open>Property\<close>

text \<open>
  C27. The file of admitted providers implements a finite map from instance identifiers to valid
  records. An operation that returns has done to the map what the abstract operation does, whatever
  the file was; one that throws leaves the map as it was, or as the abstract operation leaves it when a
  write failed after the new file was in place. Without a failing write an operation throws only
  where the abstract operation is undefined, and a file that cannot be read is left alone.
\<close>

theorem registry_refines_map:
  "case registry_run ts fault op f of (r, f') \<Rightarrow>
     (case registry_map ts f of
        Inl e \<Rightarrow> f' = f \<and> \<not> is_ok r
      | Inr m \<Rightarrow> (case r of
          Inr b \<Rightarrow> (case map_step ts op m of None \<Rightarrow> False | Some (b', m') \<Rightarrow> b' = b \<and> registry_map ts f' = Inr m')
        | Inl e \<Rightarrow> (case map_step ts op m of
            None \<Rightarrow> registry_map ts f' = Inr m
          | Some (b', m') \<Rightarrow> fault \<noteq> File_Fault No_Fault \<and> (registry_map ts f' = Inr m \<or> registry_map ts f' = Inr m'))))"
proof -
  obtain r f' where run: "registry_run ts fault op f = (r, f')" by (rule prod.exhaust)
  show ?thesis
  proof (cases "registry_map ts f")
    case (Inl e)
    then have "read_registry ts f = Inl e" by (simp add: registry_map_def bind_res_eq_Inl)
    from unreadable_run [OF this run] show ?thesis by (simp add: run Inl)
  next
    case (Inr m)
    from registry_run_as [OF Inr run] show ?thesis
      by (cases r; cases "map_step ts op m") (auto simp: run Inr ran_as_def)
  qed
qed

end
