(* ===== verification/Provider_Operator.thy ===== *)
theory Provider_Operator
  imports Provider_Registry
begin

text \<open>
  \<open>packages/capabilities/src/provider-gateway/operator-service.ts\<close>: the commands with which the operator
  admits, enables, disables, reapproves and removes providers, on the registry file of
  \<open>Provider_Registry\<close>. The audit log, the inventory source, the helper processes, the clock and the
  generated identifiers are functions of the world; so is where a write of the registry fails.
\<close>

section \<open>Dependencies\<close>

datatype operator_operation = Oper_Add | Oper_Disable | Oper_Remove | Oper_Reapprove | Oper_Enable

record operator_audit =
  oa_operation_id :: jsstring
  oa_operation :: operator_operation
  oa_phase :: audit_phase_kind
  oa_provider :: jsstring
  oa_adapter :: jsstring
  oa_error :: "provider_error option"
  oa_inventory_changed :: bool

text \<open>An audit that was asked for, with whether it was accepted.\<close>

datatype operator_event = Op_Audit operator_operation audit_phase_kind "provider_error option" bool

record 'w operator =
  or_world :: 'w
  or_file :: registry_file
  or_log :: "operator_event list"

record 'w operator_host =
  oh_timestamp :: "jsstring \<Rightarrow> bool"
  oh_fault :: "'w \<Rightarrow> registry_fault \<times> 'w"
  oh_audit :: "operator_audit \<Rightarrow> 'w \<Rightarrow> (provider_error + unit) \<times> 'w"
  oh_files :: "'w \<Rightarrow> helper_files"
  oh_roots :: "'w \<Rightarrow> jsstring list"
  oh_spawn :: "'w \<Rightarrow> jsstring \<Rightarrow> jsstring list \<Rightarrow> (jsstring \<times> jsstring) list \<Rightarrow>
     (helper_event list \<times> int option \<times> bool) option"
  oh_elapse :: "'w \<Rightarrow> 'w"
  oh_fetch_inventory :: "provider_record \<Rightarrow> provider_credential option \<Rightarrow> 'w \<Rightarrow> (provider_error + json) \<times> 'w"
  oh_instance_id :: "'w \<Rightarrow> jsstring"
  oh_operation_id :: "'w \<Rightarrow> jsstring"
  oh_now_iso :: "'w \<Rightarrow> jsstring"
  oh_date_ok :: "jsstring \<Rightarrow> bool"
  oh_nfc :: "jsstring \<Rightarrow> jsstring"
  oh_sha_hex :: "bytes \<Rightarrow> jsstring"

type_synonym ('w, 'a) operator_act = "('w operator, provider_error, 'a) action"

definition outside :: "('w \<Rightarrow> 'a \<times> 'w) \<Rightarrow> ('w, 'a) operator_act" where
  "outside f s = (case f (or_world s) of (x, w) \<Rightarrow> (Inr x, s\<lparr>or_world := w\<rparr>))"

definition store_run :: "'w operator_host \<Rightarrow> registry_op \<Rightarrow> ('w, bool) operator_act" where
  "store_run h op s = (case oh_fault h (or_world s) of (fault, w) \<Rightarrow>
     (case registry_run (oh_timestamp h) fault op (or_file s) of (r, f) \<Rightarrow> (r, s\<lparr>or_world := w, or_file := f\<rparr>)))"

definition store_get :: "'w operator_host \<Rightarrow> jsstring \<Rightarrow> ('w, provider_record option) operator_act" where
  "store_get h i s = (registry_get (oh_timestamp h) i (or_file s), s)"

definition audit_operator :: "'w operator_host \<Rightarrow> operator_audit \<Rightarrow> ('w, unit) operator_act" where
  "audit_operator h x =
     bind_act (outside (oh_audit h x)) (\<lambda>r.
     bind_act (write_act (\<lambda>s. s\<lparr>or_log := or_log s @ [Op_Audit (oa_operation x) (oa_phase x) (oa_error x) (is_ok r)]\<rparr>)) (\<lambda>_.
     lift_act r))"

section \<open>Parts of the commands\<close>

record add_input =
  di_adapter :: jsstring
  di_name :: jsstring
  di_broker :: broker_descriptor
  di_config :: json

definition parse_add_input :: "json \<Rightarrow> provider_error + add_input" where
  "parse_add_input v = (case as_record (Some v) of
     None \<Rightarrow> Inl Input_Invalid
   | Some fs \<Rightarrow>
       if \<not> only_keys fs [''adapterId'', ''operatorName'', ''credentialBroker'', ''nonSecretAdapterConfig''] then Inl Input_Invalid
       else (case (checked_str bounded_authority_id (get fs ''adapterId''), checked_str (within_length 256) (get fs ''operatorName''),
              parse_broker_descriptor (get fs ''credentialBroker''), parse_config (get fs ''nonSecretAdapterConfig'')) of
          (Some a, Some n, Some b, Some c) \<Rightarrow> Inr \<lparr>di_adapter = a, di_name = n, di_broker = b, di_config = c\<rparr>
        | _ \<Rightarrow> Inl Input_Invalid))"

definition validate_operator_config :: "json \<Rightarrow> provider_error + json" where
  "validate_operator_config c = (case assert_provider_non_secret_config c of Inl e \<Rightarrow> Inl Input_Invalid | Inr u \<Rightarrow> Inr c)"

definition validate_credential_broker_selection :: "adapter_manifest \<Rightarrow> broker_descriptor \<Rightarrow> provider_error + unit" where
  "validate_credential_broker_selection m b = ensure ((am_broker m = Policy_None) = (b = Broker_None)) Input_Invalid"

definition canonical_credential_broker :: "broker_descriptor \<Rightarrow> implementation_identity \<Rightarrow> provider_error + broker_descriptor" where
  "canonical_credential_broker b d = (case b of
     Broker_None \<Rightarrow> Inr Broker_None
   | Broker_Helper p sha \<Rightarrow> (case ii_helper d of
       None \<Rightarrow> Inl Input_Invalid | Some i \<Rightarrow> Inr (Broker_Helper (hi_path i) (hi_sha256 i))))"

definition inspect :: "'w operator_host \<Rightarrow> jsstring \<Rightarrow> ('w, provider_record) operator_act" where
  "inspect h i =
     bind_act (guard_act (tagged_hex32 ''prv_'' i) Input_Invalid) (\<lambda>_.
     bind_act (store_get h i) (\<lambda>r. case r of None \<Rightarrow> throw_act Not_Admitted | Some p \<Rightarrow> ret_act p))"

definition resolve_implementation :: "'w operator_host \<Rightarrow> adapter_manifest \<Rightarrow> broker_descriptor \<Rightarrow> ('w, implementation_identity) operator_act" where
  "resolve_implementation h m b =
     bind_act (outside (\<lambda>w. (resolve_provider_implementation_identity (oh_files h w) m b (oh_roots h w), oh_elapse h w))) lift_act"

definition fetch_inventory_fingerprint :: "'w operator_host \<Rightarrow> provider_record \<Rightarrow> adapter_manifest \<Rightarrow> ('w, jsstring) operator_act" where
  "fetch_inventory_fingerprint h p m =
     bind_act (outside (\<lambda>w. (acquire_credential (oh_files h w) (oh_roots h w) False (am_broker m) (pr_broker p) (oh_spawn h w),
       oh_elapse h w))) (\<lambda>c.
     bind_act (lift_act c) (\<lambda>cred.
     bind_act (outside (oh_fetch_inventory h p cred)) (\<lambda>r.
     bind_act (lift_act r) (\<lambda>v.
     bind_act (lift_act (normalize_provider_inventory (oh_nfc h) v)) (\<lambda>n.
     bind_act (guard_act (si_adapter_version n = am_version m) Response_Invalid) (\<lambda>_.
     lift_act (fingerprint_provider_inventory (oh_nfc h) (oh_sha_hex h) n)))))))"

definition new_operation_id :: "'w operator_host \<Rightarrow> ('w, jsstring) operator_act" where
  "new_operation_id h =
     bind_act (read_act (\<lambda>s. oh_operation_id h (or_world s))) (\<lambda>i.
     bind_act (guard_act (operation_id_ok i) Input_Invalid) (\<lambda>_. ret_act i))"

definition now_iso :: "'w operator_host \<Rightarrow> ('w, jsstring) operator_act" where
  "now_iso h =
     bind_act (read_act (\<lambda>s. oh_now_iso h (or_world s))) (\<lambda>t.
     bind_act (guard_act (oh_date_ok h t) Input_Invalid) (\<lambda>_. ret_act t))"

definition operator_metadata :: "jsstring \<Rightarrow> operator_operation \<Rightarrow> audit_phase_kind \<Rightarrow> jsstring \<Rightarrow> jsstring \<Rightarrow>
    provider_error option \<Rightarrow> operator_audit" where
  "operator_metadata oid kind phase provider adapter err =
     \<lparr>oa_operation_id = oid, oa_operation = kind, oa_phase = phase, oa_provider = provider, oa_adapter = adapter,
      oa_error = err, oa_inventory_changed = (err = Some Inventory_Changed)\<rparr>"

definition audit_failure :: "'w operator_host \<Rightarrow> jsstring \<Rightarrow> operator_operation \<Rightarrow> jsstring \<Rightarrow> jsstring \<Rightarrow> provider_error \<Rightarrow>
    ('w, unit) operator_act" where
  "audit_failure h oid kind provider adapter e =
     catch_act (audit_operator h (operator_metadata oid kind Phase_Failed provider adapter (Some e)))
       (\<lambda>_. throw_act Audit_Unavailable)"

text \<open>The tail of every \<open>catch\<close>: the failure the rollback leaves is audited and thrown.\<close>

definition failed_with :: "'w operator_host \<Rightarrow> jsstring \<Rightarrow> operator_operation \<Rightarrow> jsstring \<Rightarrow> jsstring \<Rightarrow>
    ('w, provider_error) operator_act \<Rightarrow> ('w, 'b) operator_act" where
  "failed_with h oid kind provider adapter rollback =
     bind_act rollback (\<lambda>e. bind_act (audit_failure h oid kind provider adapter e) (\<lambda>_. throw_act e))"

definition rollback_replacement :: "'w operator_host \<Rightarrow> provider_record \<Rightarrow> provider_error \<Rightarrow> ('w, provider_error) operator_act" where
  "rollback_replacement h previous e =
     catch_act (bind_act (store_run h (Op_Replace previous)) (\<lambda>_. ret_act e)) (\<lambda>_. ret_act State_Invalid)"

definition rollback_admission :: "'w operator_host \<Rightarrow> jsstring \<Rightarrow> bool \<Rightarrow> provider_error \<Rightarrow> ('w, provider_error) operator_act" where
  "rollback_admission h i inserted e =
     catch_act
       (bind_act (if inserted then ret_act True else bind_act (store_get h i) (\<lambda>r. ret_act (r \<noteq> None))) (\<lambda>admitted.
        if admitted then bind_act (store_run h (Op_Remove i)) (\<lambda>ok. ret_act (if ok then e else State_Invalid)) else ret_act e))
       (\<lambda>_. ret_act State_Invalid)"

definition rollback_removal :: "'w operator_host \<Rightarrow> provider_record \<Rightarrow> provider_error \<Rightarrow> ('w, provider_error) operator_act" where
  "rollback_removal h previous e =
     catch_act
       (bind_act (store_get h (pr_instance previous)) (\<lambda>r.
        if r = None then bind_act (store_run h (Op_Insert previous)) (\<lambda>_. ret_act e) else ret_act e))
       (\<lambda>_. ret_act State_Invalid)"

section \<open>The commands\<close>

definition decision :: "'w operator_host \<Rightarrow> jsstring \<Rightarrow> operator_operation \<Rightarrow> jsstring \<Rightarrow> jsstring \<Rightarrow> ('w, unit) operator_act" where
  "decision h oid kind provider adapter =
     audit_operator h (operator_metadata oid kind Phase_Decision provider adapter None)"

definition success :: "'w operator_host \<Rightarrow> jsstring \<Rightarrow> operator_operation \<Rightarrow> jsstring \<Rightarrow> jsstring \<Rightarrow> ('w, unit) operator_act" where
  "success h oid kind provider adapter =
     audit_operator h (operator_metadata oid kind Phase_Success provider adapter None)"

definition inventory_approval :: "'w operator_host \<Rightarrow> provider_record \<Rightarrow> adapter_manifest \<Rightarrow> ('w, jsstring option) operator_act" where
  "inventory_approval h p m =
     (if am_inventory m = Inventory_Dynamic then bind_act (fetch_inventory_fingerprint h p m) (\<lambda>fp. ret_act (Some fp)) else ret_act None)"

definition admission_record :: "add_input \<Rightarrow> adapter_manifest \<Rightarrow> implementation_identity \<Rightarrow> jsstring \<Rightarrow> jsstring \<Rightarrow>
    provider_error + provider_record" where
  "admission_record d m ident i now =
     bind_res (canonical_credential_broker (di_broker d) ident) (\<lambda>b.
     Inr \<lparr>pr_instance = i, pr_operator = di_name d, pr_adapter = am_adapter m, pr_version = am_version m, pr_enabled = True,
       pr_fingerprint = ii_fingerprint ident, pr_inventory = am_inventory m, pr_approved = None, pr_broker = b,
       pr_config = di_config d, pr_created = now, pr_updated = now\<rparr>)"

text \<open>The guarded block of \<open>add\<close>, whose \<open>catch\<close> asks whether the record was inserted.\<close>

definition admission_failed :: "'w operator_host \<Rightarrow> jsstring \<Rightarrow> adapter_manifest \<Rightarrow> jsstring \<Rightarrow> bool \<Rightarrow> provider_error \<Rightarrow> ('w, 'b) operator_act" where
  "admission_failed h oid m i inserted e =
     failed_with h oid Oper_Add i (am_adapter m) (rollback_admission h i inserted (as_provider_failure e))"

definition admit_provider :: "'w operator_host \<Rightarrow> jsstring \<Rightarrow> adapter_manifest \<Rightarrow> provider_record \<Rightarrow> ('w, provider_record) operator_act" where
  "admit_provider h oid m base =
     bind_act (catch_act
       (bind_act (inventory_approval h base m) (\<lambda>a.
        bind_act (store_run h (Op_Insert (base\<lparr>pr_approved := a\<rparr>))) (\<lambda>_. ret_act (base\<lparr>pr_approved := a\<rparr>))))
       (admission_failed h oid m (pr_instance base) False)) (\<lambda>r.
     bind_act (catch_act (success h oid Oper_Add (pr_instance base) (am_adapter m))
       (admission_failed h oid m (pr_instance base) True)) (\<lambda>_.
     ret_act r))"

definition add :: "'w operator_host \<Rightarrow> adapter_registry \<Rightarrow> json \<Rightarrow> ('w, provider_record) operator_act" where
  "add h reg v =
     bind_act (lift_act (parse_add_input v)) (\<lambda>d.
     bind_act (lift_act (validate_operator_config (di_config d))) (\<lambda>_.
     bind_act (lift_act (require_manifest reg (di_adapter d))) (\<lambda>m.
     bind_act (lift_act (validate_credential_broker_selection m (di_broker d))) (\<lambda>_.
     bind_act (resolve_implementation h m (di_broker d)) (\<lambda>ident.
     bind_act (read_act (\<lambda>s. oh_instance_id h (or_world s))) (\<lambda>i.
     bind_act (guard_act (tagged_hex32 ''prv_'' i) Input_Invalid) (\<lambda>_.
     bind_act (store_get h i) (\<lambda>present.
     bind_act (guard_act (present = None) State_Invalid) (\<lambda>_.
     bind_act (new_operation_id h) (\<lambda>oid.
     bind_act (now_iso h) (\<lambda>now.
     bind_act (lift_act (admission_record d m ident i now)) (\<lambda>base.
     bind_act (decision h oid Oper_Add i (am_adapter m)) (\<lambda>_.
     admit_provider h oid m base)))))))))))))"

text \<open>The guarded block of a command that replaces the record of a provider.\<close>

definition replacing :: "'w operator_host \<Rightarrow> jsstring \<Rightarrow> operator_operation \<Rightarrow> adapter_manifest \<Rightarrow> provider_record \<Rightarrow>
    ('w, provider_record) operator_act \<Rightarrow> ('w, provider_record) operator_act" where
  "replacing h oid kind m current next =
     catch_act
       (bind_act next (\<lambda>r.
        bind_act (store_run h (Op_Replace r)) (\<lambda>_.
        bind_act (success h oid kind (pr_instance current) (am_adapter m)) (\<lambda>_. ret_act r))))
       (\<lambda>e. failed_with h oid kind (pr_instance current) (am_adapter m) (rollback_replacement h current (as_provider_failure e)))"

definition disable :: "'w operator_host \<Rightarrow> adapter_registry \<Rightarrow> jsstring \<Rightarrow> ('w, provider_record) operator_act" where
  "disable h reg i =
     bind_act (inspect h i) (\<lambda>current.
     bind_act (lift_act (require_manifest reg (pr_adapter current))) (\<lambda>m.
     bind_act (new_operation_id h) (\<lambda>oid.
     bind_act (decision h oid Oper_Disable (pr_instance current) (am_adapter m)) (\<lambda>_.
     bind_act (now_iso h) (\<lambda>now.
     replacing h oid Oper_Disable m current (ret_act (current\<lparr>pr_enabled := False, pr_updated := now\<rparr>)))))))"

definition remove :: "'w operator_host \<Rightarrow> adapter_registry \<Rightarrow> jsstring \<Rightarrow> ('w, bool) operator_act" where
  "remove h reg i =
     bind_act (inspect h i) (\<lambda>current.
     bind_act (lift_act (require_manifest reg (pr_adapter current))) (\<lambda>m.
     bind_act (new_operation_id h) (\<lambda>oid.
     bind_act (decision h oid Oper_Remove (pr_instance current) (am_adapter m)) (\<lambda>_.
     catch_act
       (bind_act (store_run h (Op_Remove (pr_instance current))) (\<lambda>ok.
        bind_act (guard_act ok State_Invalid) (\<lambda>_.
        bind_act (success h oid Oper_Remove (pr_instance current) (am_adapter m)) (\<lambda>_. ret_act True))))
       (\<lambda>e. failed_with h oid Oper_Remove (pr_instance current) (am_adapter m)
          (rollback_removal h current (as_provider_failure e)))))))"

definition reapproved_record :: "'w operator_host \<Rightarrow> adapter_manifest \<Rightarrow> implementation_identity \<Rightarrow> provider_record \<Rightarrow>
    ('w, provider_record) operator_act" where
  "reapproved_record h m ident current =
     bind_act (lift_act (canonical_credential_broker (pr_broker current) ident)) (\<lambda>b.
     bind_act (now_iso h) (\<lambda>now.
     let provisional = current\<lparr>pr_version := am_version m, pr_fingerprint := ii_fingerprint ident, pr_inventory := am_inventory m,
           pr_approved := None, pr_broker := b, pr_updated := now\<rparr> in
     bind_act (inventory_approval h provisional m) (\<lambda>a. ret_act (provisional\<lparr>pr_approved := a\<rparr>))))"

definition reapprove :: "'w operator_host \<Rightarrow> adapter_registry \<Rightarrow> jsstring \<Rightarrow> ('w, provider_record) operator_act" where
  "reapprove h reg i =
     bind_act (inspect h i) (\<lambda>current.
     bind_act (lift_act (require_manifest reg (pr_adapter current))) (\<lambda>m.
     bind_act (lift_act (validate_credential_broker_selection m (pr_broker current))) (\<lambda>_.
     bind_act (resolve_implementation h m (pr_broker current)) (\<lambda>ident.
     bind_act (new_operation_id h) (\<lambda>oid.
     bind_act (decision h oid Oper_Reapprove (pr_instance current) (am_adapter m)) (\<lambda>_.
     replacing h oid Oper_Reapprove m current (reapproved_record h m ident current)))))))"

definition enabled_record :: "'w operator_host \<Rightarrow> adapter_manifest \<Rightarrow> provider_record \<Rightarrow> ('w, provider_record) operator_act" where
  "enabled_record h m current =
     bind_act (if am_inventory m = Inventory_Dynamic
       then bind_act (fetch_inventory_fingerprint h current m) (\<lambda>fp. guard_act (pr_approved current = Some fp) Inventory_Changed)
       else ret_act ()) (\<lambda>_.
     bind_act (now_iso h) (\<lambda>now. ret_act (current\<lparr>pr_enabled := True, pr_updated := now\<rparr>)))"

definition enable :: "'w operator_host \<Rightarrow> adapter_registry \<Rightarrow> jsstring \<Rightarrow> ('w, provider_record) operator_act" where
  "enable h reg i =
     bind_act (inspect h i) (\<lambda>current.
     bind_act (lift_act (require_manifest reg (pr_adapter current))) (\<lambda>m.
     bind_act (lift_act (validate_credential_broker_selection m (pr_broker current))) (\<lambda>_.
     bind_act (resolve_implementation h m (pr_broker current)) (\<lambda>ident.
     bind_act (guard_act (ii_fingerprint ident = pr_fingerprint current \<and> am_version m = pr_version current
       \<and> am_inventory m = pr_inventory current) Identity_Changed) (\<lambda>_.
     bind_act (new_operation_id h) (\<lambda>oid.
     bind_act (decision h oid Oper_Enable (pr_instance current) (am_adapter m)) (\<lambda>_.
     replacing h oid Oper_Enable m current (enabled_record h m current))))))))"

section \<open>What a reader of the registry sees\<close>

definition view :: "'w operator_host \<Rightarrow> 'w operator \<Rightarrow> provider_error + (jsstring \<rightharpoonup> provider_record)" where
  "view h s = registry_map (oh_timestamp h) (or_file s)"

text \<open>Steps that leave the file and the log alone.\<close>

definition kept :: "'w operator \<Rightarrow> 'w operator \<Rightarrow> bool" where
  "kept s s' \<longleftrightarrow> or_file s' = or_file s \<and> or_log s' = or_log s"

interpretation keeping: run_relation kept
  by unfold_locales (auto simp: kept_def)

lemma keeping_steps: "obeys kept (outside f)" "obeys kept (store_get h i)"
  by (auto simp: obeys_def outside_def store_get_def kept_def split: prod.splits)

lemma keeping_calls:
  "obeys kept (inspect h i)" "obeys kept (resolve_implementation h m b)" "obeys kept (inventory_approval h p m)"
  "obeys kept (new_operation_id h)" "obeys kept (now_iso h)" "obeys kept (reapproved_record h m d c)"
  "obeys kept (enabled_record h m c)"
  unfolding inspect_def resolve_implementation_def inventory_approval_def fetch_inventory_fingerprint_def new_operation_id_def
    now_iso_def reapproved_record_def enabled_record_def Let_def
  by (intro keeping.obeys_intros keeping_steps)+

lemma wp_kept:
  assumes "obeys kept m" and "\<And>x s'. m s = (Inr x, s') \<Longrightarrow> kept s s' \<Longrightarrow> Q x s'" and "\<And>e s'. kept s s' \<Longrightarrow> E e s'"
  shows "wp m Q E s"
proof (rule wpI)
  fix x s'
  assume m: "m s = (Inr x, s')"
  then have "kept s s'" using assms(1) unfolding obeys_def by (metis snd_conv)
  with m show "Q x s'" by (rule assms(2))
next
  fix e s'
  assume "m s = (Inl e, s')"
  then have "kept s s'" using assms(1) unfolding obeys_def by (metis snd_conv)
  then show "E e s'" by (rule assms(3))
qed

lemma kept_view: "kept s s' \<Longrightarrow> view h s' = view h s"
  by (simp add: kept_def view_def)

lemma store_run_wp:
  assumes "view h s = Inr m"
    and "\<And>b m' s'. map_step (oh_timestamp h) op m = Some (b, m') \<Longrightarrow> view h s' = Inr m' \<Longrightarrow> or_log s' = or_log s \<Longrightarrow> Q b s'"
    and "\<And>e s'. or_log s' = or_log s \<Longrightarrow>
      view h s' = Inr m \<or> (\<exists>b m'. map_step (oh_timestamp h) op m = Some (b, m') \<and> view h s' = Inr m') \<Longrightarrow> E e s'"
  shows "wp (store_run h op) Q E s"
proof -
  obtain fault w r f where run: "oh_fault h (or_world s) = (fault, w)" "registry_run (oh_timestamp h) fault op (or_file s) = (r, f)"
    by (metis prod.exhaust)
  have "ran_as (oh_timestamp h) fault (or_file s) (map_step (oh_timestamp h) op m) r f"
    using registry_run_as run(2) assms(1) by (simp add: view_def)
  then show ?thesis
    using assms by (cases r) (auto simp: wp_def store_run_def run view_def ran_as_def)
qed

lemma store_get_wp:
  assumes "view h s = Inr m" and "Q (m i) s"
  shows "wp (store_get h i) Q E s"
  using assms by (auto simp: wp_def store_get_def registry_get_def view_def registry_map_def bind_res_eq_Inr entry_at_def)

lemma outside_wp: "(\<And>x w. Q x (s\<lparr>or_world := w\<rparr>)) \<Longrightarrow> wp (outside f) Q E s"
  by (simp add: wp_def outside_def split: prod.splits)

lemma audit_operator_wp:
  "wp (audit_operator h x)
     (\<lambda>_ s'. or_file s' = or_file s \<and> or_log s' = or_log s @ [Op_Audit (oa_operation x) (oa_phase x) (oa_error x) True])
     (\<lambda>_ s'. or_file s' = or_file s \<and> or_log s' = or_log s @ [Op_Audit (oa_operation x) (oa_phase x) (oa_error x) False]) s"
  unfolding audit_operator_def
  by (intro wp_bind outside_wp wp_write wp_lift) simp_all

lemma view_record:
  assumes "view h s = Inr m" and "m i = Some p"
  shows "parse_record (oh_timestamp h) (record_json p) = Inr p \<and> pr_instance p = i"
proof -
  obtain es where es: "read_registry (oh_timestamp h) (or_file s) = Inr es" "m = entry_at es"
    using assms(1) by (auto simp: view_def registry_map_def bind_res_eq_Inr)
  then have "p \<in> set es" "pr_instance p = i" using entry_at_Some assms(2) by blast+
  then show ?thesis using read_registry_ok [OF es(1)] by (auto simp: registry_ok_def list_all_iff intro: parse_record_json)
qed

section \<open>Rollbacks\<close>

text \<open>A failed command: its failure was audited, and the registry is as before unless that failure says otherwise.\<close>

definition undone :: "'w operator_host \<Rightarrow> operator_operation \<Rightarrow> (jsstring \<rightharpoonup> provider_record) \<Rightarrow> operator_event list \<Rightarrow>
    provider_error \<Rightarrow> 'w operator \<Rightarrow> bool" where
  "undone h kind m evs e s' \<longleftrightarrow> (\<exists>e0 ok. or_log s' = evs @ [Op_Audit kind Phase_Failed (Some e0) ok]
     \<and> e = (if ok then e0 else Audit_Unavailable) \<and> (view h s' = Inr m \<or> e0 = State_Invalid))"

definition rolled_back :: "'w operator_host \<Rightarrow> (jsstring \<rightharpoonup> provider_record) \<Rightarrow> 'w operator \<Rightarrow> provider_error \<Rightarrow> 'w operator \<Rightarrow> bool" where
  "rolled_back h m t e s' \<longleftrightarrow> or_log s' = or_log t \<and> (view h s' = Inr m \<or> e = State_Invalid)"

lemma failed_with_wp:
  assumes "wp rollback (rolled_back h m t) (\<lambda>_ _. False) t"
  shows "wp (failed_with h oid kind p a rollback) Q (undone h kind m (or_log t)) t"
  unfolding failed_with_def audit_failure_def
proof (rule wp_bind, rule wp_mono [OF assms])
  fix e u
  assume u: "rolled_back h m t e u"
  show "wp (bind_act (catch_act (audit_operator h (operator_metadata oid kind Phase_Failed p a (Some e))) (\<lambda>_. throw_act Audit_Unavailable))
      (\<lambda>_. throw_act e)) Q (undone h kind m (or_log t)) u"
    by (rule wp_bind, rule wp_catch, rule wp_mono [OF audit_operator_wp]; intro wp_throw)
      (use u in \<open>auto simp: undone_def rolled_back_def operator_metadata_def view_def\<close>)
qed simp

lemma rollback_replacement_wp:
  assumes "m (pr_instance cur) = Some cur" and "parse_record (oh_timestamp h) (record_json cur) = Inr cur"
    and "view h t = Inr m \<or> (\<exists>p. view h t = Inr (m(pr_instance cur \<mapsto> p)))"
  shows "wp (rollback_replacement h cur e) (rolled_back h m t) (\<lambda>_ _. False) t"
proof -
  obtain n where n: "view h t = Inr n" "n(pr_instance cur \<mapsto> cur) = m" "n (pr_instance cur) \<noteq> None"
    using assms(1,3) by (auto simp: fun_upd_idem)
  have "map_step (oh_timestamp h) (Op_Replace cur) n = Some (True, m)"
    using n assms(2) by (simp add: map_step_def)
  then show ?thesis
    unfolding rollback_replacement_def
    by (intro wp_catch wp_bind store_run_wp [OF n(1)] wp_ret) (auto simp: rolled_back_def)
qed

lemma rollback_admission_wp:
  assumes "m i = None" and "if inserted then \<exists>p. view h t = Inr (m(i \<mapsto> p)) else view h t = Inr m \<or> (\<exists>p. view h t = Inr (m(i \<mapsto> p)))"
  shows "wp (rollback_admission h i inserted e) (rolled_back h m t) (\<lambda>_ _. False) t"
proof -
  obtain n where n: "view h t = Inr n" "n(i := None) = m" "inserted \<Longrightarrow> n i \<noteq> None"
    using assms by (cases inserted) (auto simp: fun_upd_idem)
  have absent: "n = m" if "n i = None" using that n(2) by auto
  have "map_step (oh_timestamp h) (Op_Remove i) n = Some (n i \<noteq> None, m)" using n(2) by (simp add: map_step_def)
  then have remove: "wp (bind_act (store_run h (Op_Remove i)) (\<lambda>ok. ret_act (if ok then e else State_Invalid))) (rolled_back h m t)
      (\<lambda>_. wp (ret_act State_Invalid) (rolled_back h m t) (\<lambda>_ _. False)) t"
    by (intro wp_bind store_run_wp [OF n(1)] wp_ret) (auto simp: rolled_back_def)
  have after: "wp (if b then bind_act (store_run h (Op_Remove i)) (\<lambda>ok. ret_act (if ok then e else State_Invalid)) else ret_act e)
      (rolled_back h m t) (\<lambda>_. wp (ret_act State_Invalid) (rolled_back h m t) (\<lambda>_ _. False)) t"
    if "b = (n i \<noteq> None)" for b
    using remove absent n(1) that by (cases b) (simp_all add: wp_ret rolled_back_def)
  have asked: "wp (if inserted then ret_act True else bind_act (store_get h i) (\<lambda>r. ret_act (r \<noteq> None)))
      (\<lambda>b s. s = t \<and> b = (n i \<noteq> None)) E t" for E
    using n(3) by (cases inserted) (simp_all add: wp_ret wp_bind store_get_wp [OF n(1)])
  show ?thesis
    unfolding rollback_admission_def
  proof (rule wp_catch, rule wp_bind, rule wp_mono [OF asked])
    fix b s'
    assume "s' = t \<and> b = (n i \<noteq> None)"
    then show "wp (if b then bind_act (store_run h (Op_Remove i)) (\<lambda>ok. ret_act (if ok then e else State_Invalid)) else ret_act e)
        (rolled_back h m t) (\<lambda>_. wp (ret_act State_Invalid) (rolled_back h m t) (\<lambda>_ _. False)) s'"
      using after by blast
  qed
qed

lemma rollback_removal_wp:
  assumes "m (pr_instance cur) = Some cur" and "parse_record (oh_timestamp h) (record_json cur) = Inr cur"
    and "view h t = Inr m \<or> view h t = Inr (m(pr_instance cur := None))"
  shows "wp (rollback_removal h cur e) (rolled_back h m t) (\<lambda>_ _. False) t"
proof -
  obtain n where n: "view h t = Inr n" "n(pr_instance cur \<mapsto> cur) = m" "n (pr_instance cur) \<noteq> None \<Longrightarrow> n = m"
    using assms(1,3) by (auto simp: fun_upd_idem)
  have step: "map_step (oh_timestamp h) (Op_Insert cur) n = Some (True, m)" if "n (pr_instance cur) = None"
    using n that assms(2) by (simp add: map_step_def)
  show ?thesis
    unfolding rollback_removal_def
  proof (intro wp_catch wp_bind store_get_wp [OF n(1)])
    show "wp (if n (pr_instance cur) = None then bind_act (store_run h (Op_Insert cur)) (\<lambda>_. ret_act e) else ret_act e)
        (rolled_back h m t) (\<lambda>e. wp (ret_act State_Invalid) (rolled_back h m t) (\<lambda>_ _. False)) t"
      using n step by (auto simp: rolled_back_def intro!: wp_bind wp_ret store_run_wp [OF n(1)])
  qed
qed

section \<open>The outcome of a command\<close>

definition decided :: "operator_operation \<Rightarrow> bool \<Rightarrow> operator_event" where
  "decided kind ok = Op_Audit kind Phase_Decision None ok"

definition succeeded_event :: "operator_operation \<Rightarrow> bool \<Rightarrow> operator_event" where
  "succeeded_event kind ok = Op_Audit kind Phase_Success None ok"

definition stopped_early :: "'w operator_host \<Rightarrow> operator_operation \<Rightarrow> 'w operator \<Rightarrow> 'w operator \<Rightarrow> bool" where
  "stopped_early h kind s s' \<longleftrightarrow> view h s' = view h s
     \<and> (or_log s' = or_log s \<or> or_log s' = or_log s @ [decided kind False]
        \<or> kind = Oper_Disable \<and> or_log s' = or_log s @ [decided kind True])"

definition failed_late :: "'w operator_host \<Rightarrow> operator_operation \<Rightarrow> 'w operator \<Rightarrow> provider_error \<Rightarrow> 'w operator \<Rightarrow> bool" where
  "failed_late h kind s e s' \<longleftrightarrow> (\<exists>m evs. view h s = Inr m \<and> undone h kind m (or_log s @ decided kind True # evs) e s')"

definition settled_error :: "'w operator_host \<Rightarrow> operator_operation \<Rightarrow> 'w operator \<Rightarrow> provider_error \<Rightarrow> 'w operator \<Rightarrow> bool" where
  "settled_error h kind s e s' \<longleftrightarrow> stopped_early h kind s s' \<or> failed_late h kind s e s'"

lemma settled_kept: "kept s t \<Longrightarrow> settled_error h kind t e s' \<Longrightarrow> settled_error h kind s e s'"
  by (auto simp: settled_error_def stopped_early_def failed_late_def kept_def view_def)

lemma settled_refl: "settled_error h kind s e s"
  by (simp add: settled_error_def stopped_early_def)

text \<open>After the decision, from the state \<open>t\<close> it was recorded in.\<close>

definition after_decision :: "'w operator_host \<Rightarrow> operator_operation \<Rightarrow> 'w operator \<Rightarrow> 'w operator \<Rightarrow> (jsstring \<rightharpoonup> provider_record) \<Rightarrow> bool" where
  "after_decision h kind s t m \<longleftrightarrow> view h s = Inr m \<and> view h t = Inr m \<and> or_log t = or_log s @ [decided kind True]"

lemma decision_wp:
  assumes "view h s = Inr m" and "\<And>t. after_decision h kind s t m \<Longrightarrow> Q () t" and "\<And>e t. settled_error h kind s e t \<Longrightarrow> E e t"
  shows "wp (decision h oid kind p a) Q E s"
  unfolding decision_def
  by (rule wp_mono [OF audit_operator_wp])
    (use assms(1) in \<open>auto intro!: assms(2,3) simp: after_decision_def operator_metadata_def decided_def view_def settled_error_def stopped_early_def\<close>)

lemma undone_settled:
  assumes "after_decision h kind s t m" and "or_log u = or_log t @ evs" and "undone h kind m (or_log u) e s'"
  shows "settled_error h kind s e s'"
  using assms by (auto simp: after_decision_def settled_error_def failed_late_def)

lemma failed_settled:
  assumes "after_decision h kind s t m" and "or_log u = or_log t @ evs" and "wp rollback (rolled_back h m u) (\<lambda>_ _. False) u"
  shows "wp (failed_with h oid kind p a rollback) Q (settled_error h kind s) u"
  by (rule wp_mono [OF failed_with_wp [OF assms(3)]]) (auto intro: undone_settled [OF assms(1,2)])

lemma success_wp:
  "wp (success h oid kind p a) (\<lambda>_ s'. or_file s' = or_file s \<and> or_log s' = or_log s @ [succeeded_event kind True])
     (\<lambda>_ s'. or_file s' = or_file s \<and> (\<exists>ev. or_log s' = or_log s @ [ev])) s"
  unfolding success_def
  by (rule wp_mono [OF audit_operator_wp]) (auto simp: operator_metadata_def succeeded_event_def)

lemma success_view_wp:
  assumes "or_log s = evs" and "view h s = V"
    and "\<And>s'. view h s' = V \<Longrightarrow> or_log s' = evs @ [succeeded_event kind True] \<Longrightarrow> Q () s'"
    and "\<And>e s' ev. view h s' = V \<Longrightarrow> or_log s' = evs @ [ev] \<Longrightarrow> E e s'"
  shows "wp (success h oid kind p a) Q E s"
proof (rule wp_mono [OF success_wp])
  show "Q x s'" if "or_file s' = or_file s \<and> or_log s' = or_log s @ [succeeded_event kind True]" for x s'
    using that assms(1,2) by (cases x) (auto simp: view_def intro: assms(3))
  show "E e s'" if "or_file s' = or_file s \<and> (\<exists>ev. or_log s' = or_log s @ [ev])" for e s'
    using that assms(1,2) by (auto simp: view_def intro: assms(4))
qed

definition replaced :: "'w operator_host \<Rightarrow> operator_operation \<Rightarrow> (provider_record \<Rightarrow> bool) \<Rightarrow> jsstring \<Rightarrow> 'w operator \<Rightarrow>
    (jsstring \<rightharpoonup> provider_record) \<Rightarrow> provider_record \<Rightarrow> 'w operator \<Rightarrow> bool" where
  "replaced h kind P i s m r s' \<longleftrightarrow> P r \<and> pr_instance r = i \<and> or_log s' = or_log s @ [decided kind True, succeeded_event kind True]
     \<and> (\<exists>p. parse_record (oh_timestamp h) (record_json r) = Inr p \<and> view h s' = Inr (m(i \<mapsto> p)))"

lemma parse_record_instance: "parse_record ts (record_json r) = Inr p \<Longrightarrow> pr_instance p = pr_instance r"
  by (auto simp: parse_record_def record_schema_def record_json_def bind_eq_Some_conv checked_str_eq bind_res_eq_Inr
      split: option.splits if_splits)

lemma replacing_wp:
  assumes d: "after_decision h kind s t m" and cur: "m (pr_instance cur) = Some cur"
    and nxt: "obeys kept new" "\<And>u r u'. new u = (Inr r, u') \<Longrightarrow> P r \<and> pr_instance r = pr_instance cur"
    and start: "kept t t'"
  shows "wp (replacing h oid kind man cur new) (replaced h kind P (pr_instance cur) s m) (settled_error h kind s) t'"
proof -
  have v: "view h t' = Inr m" "or_log t' = or_log t" using d start by (auto simp: after_decision_def kept_def view_def)
  have rec: "parse_record (oh_timestamp h) (record_json cur) = Inr cur" using view_record [OF v(1) cur] by simp
  have undo: "wp (failed_with h oid kind (pr_instance cur) (am_adapter man) (rollback_replacement h cur e)) Q (settled_error h kind s) u"
    if "view h u = Inr m \<or> (\<exists>p. view h u = Inr (m(pr_instance cur \<mapsto> p)))" "or_log u = or_log t @ evs"
    for u e evs and Q :: "provider_record \<Rightarrow> 'a operator \<Rightarrow> bool"
    by (rule failed_settled [OF d that(2) rollback_replacement_wp [OF cur rec that(1)]])
  have fin: "wp (success h oid kind (pr_instance cur) (am_adapter man)) (\<lambda>_. replaced h kind P (pr_instance cur) s m r)
      (\<lambda>e u. (\<exists>p. view h u = Inr (m(pr_instance cur \<mapsto> p))) \<and> (\<exists>evs. or_log u = or_log t @ evs)) u"
    if "P r" "pr_instance r = pr_instance cur" "parse_record (oh_timestamp h) (record_json r) = Inr p"
      "view h u = Inr (m(pr_instance cur \<mapsto> p))" "or_log u = or_log t" for r p u
    by (rule wp_mono [OF success_wp]) (use that d in \<open>auto simp: replaced_def after_decision_def view_def\<close>)
  show ?thesis
    unfolding replacing_def
  proof (rule wp_catch, rule wp_bind, rule wp_kept [OF nxt(1)])
    show "wp (failed_with h oid kind (pr_instance cur) (am_adapter man) (rollback_replacement h cur (as_provider_failure e)))
        (replaced h kind P (pr_instance cur) s m) (settled_error h kind s) u" if "kept t' u" for e u
      using that v by (intro undo [of _ "[]"]) (auto simp: kept_def view_def)
    fix r u
    assume r: "new t' = (Inr r, u)" and u: "kept t' u"
    have vu: "view h u = Inr m" "or_log u = or_log t" using v u by (auto simp: kept_def view_def)
    note P = nxt(2) [OF r]
    let ?tail = "\<lambda>e. failed_with h oid kind (pr_instance cur) (am_adapter man) (rollback_replacement h cur (as_provider_failure e))"
    have step: "\<exists>p. parse_record (oh_timestamp h) (record_json r) = Inr p \<and> m' = m(pr_instance cur \<mapsto> p)"
      if "map_step (oh_timestamp h) (Op_Replace r) m = Some (b, m')" for b m'
      using that P parse_record_instance by (auto simp: map_step_def split: sum.splits if_splits)
    show "wp (bind_act (store_run h (Op_Replace r)) (\<lambda>_. bind_act (success h oid kind (pr_instance cur) (am_adapter man)) (\<lambda>_. ret_act r)))
        (replaced h kind P (pr_instance cur) s m) (\<lambda>e. wp (?tail e) (replaced h kind P (pr_instance cur) s m) (settled_error h kind s)) u"
    proof (rule wp_bind, rule store_run_wp [OF vu(1)])
      fix b m' w
      assume "map_step (oh_timestamp h) (Op_Replace r) m = Some (b, m')" "view h w = Inr m'" "or_log w = or_log u"
      then obtain p where p: "parse_record (oh_timestamp h) (record_json r) = Inr p" "view h w = Inr (m(pr_instance cur \<mapsto> p))"
          "or_log w = or_log t" using step vu by auto
      show "wp (bind_act (success h oid kind (pr_instance cur) (am_adapter man)) (\<lambda>_. ret_act r))
          (replaced h kind P (pr_instance cur) s m) (\<lambda>e. wp (?tail e) (replaced h kind P (pr_instance cur) s m) (settled_error h kind s)) w"
        by (rule wp_bind, rule wp_mono [OF fin]) (use P p in \<open>auto intro: wp_ret undo\<close>)
    next
      fix e w
      assume "or_log w = or_log u" "view h w = Inr m \<or> (\<exists>b m'. map_step (oh_timestamp h) (Op_Replace r) m = Some (b, m') \<and> view h w = Inr m')"
      then show "wp (?tail e) (replaced h kind P (pr_instance cur) s m) (settled_error h kind s) w"
        using step vu by (intro undo [of _ "[]"]) auto
    qed
  qed
qed

lemma settled_early: "kept s t \<Longrightarrow> settled_error h kind s e t"
  by (simp add: settled_error_def stopped_early_def kept_def view_def)

lemma settled_decided:
  "after_decision h Oper_Disable s u m \<Longrightarrow> kept u v \<Longrightarrow> settled_error h Oper_Disable s e v"
  by (auto simp: settled_error_def stopped_early_def kept_def view_def after_decision_def)

lemma inspect_wp:
  "wp (inspect h i) (\<lambda>cur s'. s' = s \<and> (\<exists>m. view h s = Inr m \<and> m i = Some cur \<and> pr_instance cur = i)) (\<lambda>_ s'. s' = s) s"
proof -
  have get: "pr_instance p = i \<and> (\<exists>m. view h s = Inr m \<and> m i = Some p)"
    if "registry_get (oh_timestamp h) i (or_file s) = Inr (Some p)" for p
    using that by (auto simp: registry_get_def bind_res_eq_Inr view_def registry_map_def entry_at_def find_Some_iff)
  show ?thesis
    unfolding inspect_def
  proof (intro wp_bind wp_guard)
    show "wp (store_get h i) (\<lambda>x. wp (case x of None \<Rightarrow> throw_act Not_Admitted | Some p \<Rightarrow> ret_act p)
        (\<lambda>cur s'. s' = s \<and> (\<exists>m. view h s = Inr m \<and> m i = Some cur \<and> pr_instance cur = i)) (\<lambda>_ s'. s' = s)) (\<lambda>_ s'. s' = s) s"
      by (auto simp: wp_def [of "store_get h i"] store_get_def intro!: wp_option wp_throw wp_ret dest: get split: sum.splits)
  qed simp
qed

lemma decision_kept_wp:
  assumes "kept s t" and "view h s = Inr m" and "\<And>u. after_decision h kind s u m \<Longrightarrow> Q () u"
    and "\<And>e u. settled_error h kind s e u \<Longrightarrow> E e u"
  shows "wp (decision h oid kind p a) Q E t"
proof (rule decision_wp)
  show "view h t = Inr m" using assms(1,2) kept_view by metis
  show "Q () u" if "after_decision h kind t u m" for u
    using that assms(1,2) by (intro assms(3)) (auto simp: after_decision_def kept_def)
  show "E e u" if "settled_error h kind t e u" for e u
    using settled_kept [OF assms(1) that] by (rule assms(4))
qed

text \<open>
  What an approval rests on: the implementation resolved in the world \<open>w\<close> the command starts in, for the broker
  \<open>b\<close> it is asked for, and, for a dynamic adapter, the inventory fetched for the record with the credential of its broker.
\<close>

definition clock_read :: "'w operator_host \<Rightarrow> jsstring \<Rightarrow> bool" where
  "clock_read h t \<longleftrightarrow> (\<exists>w. t = oh_now_iso h w) \<and> oh_date_ok h t"

definition implementation_seen :: "'w operator_host \<Rightarrow> 'w \<Rightarrow> adapter_manifest \<Rightarrow> broker_descriptor \<Rightarrow> implementation_identity \<Rightarrow> bool" where
  "implementation_seen h w m b d \<longleftrightarrow> resolve_provider_implementation_identity (oh_files h w) m b (oh_roots h w) = Inr d"

definition broker_resolved :: "broker_descriptor \<Rightarrow> implementation_identity \<Rightarrow> broker_descriptor \<Rightarrow> bool" where
  "broker_resolved b d b' \<longleftrightarrow> (case b of
     Broker_None \<Rightarrow> b' = Broker_None
   | Broker_Helper p sha \<Rightarrow> (\<exists>i. ii_helper d = Some i \<and> b' = Broker_Helper (hi_path i) (hi_sha256 i)))"

definition inventory_seen :: "'w operator_host \<Rightarrow> adapter_manifest \<Rightarrow> provider_record \<Rightarrow> jsstring option \<Rightarrow> bool" where
  "inventory_seen h m p a \<longleftrightarrow> (\<exists>w c w' v n fp.
     acquire_credential (oh_files h w) (oh_roots h w) False (am_broker m) (pr_broker p) (oh_spawn h w) = Inr c
     \<and> oh_fetch_inventory h p c (oh_elapse h w) = (Inr v, w')
     \<and> normalize_provider_inventory (oh_nfc h) v = Inr n \<and> si_adapter_version n = am_version m
     \<and> fingerprint_provider_inventory (oh_nfc h) (oh_sha_hex h) n = Inr fp \<and> a = Some fp)"

definition approval :: "'w operator_host \<Rightarrow> 'w \<Rightarrow> adapter_manifest \<Rightarrow> broker_descriptor \<Rightarrow> provider_record \<Rightarrow> bool" where
  "approval h w m b r \<longleftrightarrow> pr_version r = am_version m \<and> pr_inventory r = am_inventory m
     \<and> (\<exists>d. implementation_seen h w m b d \<and> pr_fingerprint r = ii_fingerprint d \<and> broker_resolved b d (pr_broker r))
     \<and> (if am_inventory m = Inventory_Dynamic then inventory_seen h m (r\<lparr>pr_approved := None\<rparr>) (pr_approved r)
        else pr_approved r = None)"

definition still_approved :: "'w operator_host \<Rightarrow> 'w \<Rightarrow> adapter_manifest \<Rightarrow> provider_record \<Rightarrow> bool" where
  "still_approved h w m cur \<longleftrightarrow> pr_version cur = am_version m \<and> pr_inventory cur = am_inventory m
     \<and> (\<exists>d. implementation_seen h w m (pr_broker cur) d \<and> pr_fingerprint cur = ii_fingerprint d)
     \<and> (am_inventory m = Inventory_Dynamic \<longrightarrow> inventory_seen h m cur (pr_approved cur))"

text \<open>\<open>reapprove\<close> renews the approval of the record and its time, and nothing else of it.\<close>

definition reapproved :: "'w operator_host \<Rightarrow> 'w \<Rightarrow> adapter_manifest \<Rightarrow> provider_record \<Rightarrow> provider_record \<Rightarrow> bool" where
  "reapproved h w m cur r \<longleftrightarrow> approval h w m (pr_broker cur) r \<and> clock_read h (pr_updated r)
     \<and> r = cur\<lparr>pr_version := pr_version r, pr_fingerprint := pr_fingerprint r, pr_inventory := pr_inventory r,
        pr_approved := pr_approved r, pr_broker := pr_broker r, pr_updated := pr_updated r\<rparr>"

definition disabled :: "'w operator_host \<Rightarrow> provider_record \<Rightarrow> provider_record \<Rightarrow> bool" where
  "disabled h cur r \<longleftrightarrow> clock_read h (pr_updated r) \<and> r = cur\<lparr>pr_enabled := False, pr_updated := pr_updated r\<rparr>"

definition reenabled :: "'w operator_host \<Rightarrow> 'w \<Rightarrow> adapter_manifest \<Rightarrow> provider_record \<Rightarrow> provider_record \<Rightarrow> bool" where
  "reenabled h w m cur r \<longleftrightarrow> still_approved h w m cur \<and> clock_read h (pr_updated r)
     \<and> r = cur\<lparr>pr_enabled := True, pr_updated := pr_updated r\<rparr>"

lemma outside_eq: "outside f s = (Inr x, s') \<longleftrightarrow> (\<exists>w. f (or_world s) = (x, w) \<and> s' = s\<lparr>or_world := w\<rparr>)"
  by (auto simp: outside_def split: prod.splits)

lemma resolve_seen: "resolve_implementation h m b s = (Inr d, s') \<Longrightarrow> implementation_seen h (or_world s) m b d"
  by (auto simp: resolve_implementation_def bind_act_eq_Inr act_simps outside_def implementation_seen_def split: prod.splits)

lemma now_seen: "now_iso h s = (Inr t, s') \<Longrightarrow> clock_read h t"
  by (auto simp: now_iso_def bind_act_eq_Inr act_simps clock_read_def split: if_splits)

lemma broker_canonical: "canonical_credential_broker b d = Inr b' \<Longrightarrow> broker_resolved b d b'"
  by (auto simp: canonical_credential_broker_def broker_resolved_def split: broker_descriptor.splits option.splits)

lemma fetched_seen:
  assumes "fetch_inventory_fingerprint h p m s = (Inr fp, s')"
  shows "inventory_seen h m p (Some fp)"
proof -
  obtain c v w' n where
    "acquire_credential (oh_files h (or_world s)) (oh_roots h (or_world s)) False (am_broker m) (pr_broker p) (oh_spawn h (or_world s)) = Inr c"
    "oh_fetch_inventory h p c (oh_elapse h (or_world s)) = (Inr v, w')" "normalize_provider_inventory (oh_nfc h) v = Inr n"
    "si_adapter_version n = am_version m" "fingerprint_provider_inventory (oh_nfc h) (oh_sha_hex h) n = Inr fp"
    using assms
    by (auto simp: fetch_inventory_fingerprint_def bind_act_eq_Inr act_simps outside_eq split: if_splits)
  then show ?thesis unfolding inventory_seen_def by blast
qed

lemma approval_some:
  "inventory_approval h p m s = (Inr a, s') \<Longrightarrow> if am_inventory m = Inventory_Dynamic then inventory_seen h m p a else a = None"
  by (auto simp: inventory_approval_def bind_act_eq_Inr act_simps intro: fetched_seen)

lemma reapproved_ok:
  assumes "reapproved_record h m d cur s = (Inr r, s')" and "implementation_seen h w m (pr_broker cur) d"
  shows "reapproved h w m cur r"
proof -
  obtain b now a t u v where steps: "canonical_credential_broker (pr_broker cur) d = Inr b" "now_iso h t = (Inr now, u)"
    and a: "inventory_approval h (cur\<lparr>pr_version := am_version m, pr_fingerprint := ii_fingerprint d, pr_inventory := am_inventory m,
        pr_approved := None, pr_broker := b, pr_updated := now\<rparr>) m u = (Inr a, v)"
    and r: "r = cur\<lparr>pr_version := am_version m, pr_fingerprint := ii_fingerprint d, pr_inventory := am_inventory m,
        pr_approved := a, pr_broker := b, pr_updated := now\<rparr>"
    using assms(1) by (auto simp: reapproved_record_def Let_def bind_act_eq_Inr act_simps)
  show ?thesis
    unfolding reapproved_def approval_def r
    using assms(2) broker_canonical [OF steps(1)] now_seen [OF steps(2)] approval_some [OF a] by (cases cur) auto
qed

lemma enabled_ok:
  assumes "enabled_record h m cur s = (Inr r, s')" and "pr_version cur = am_version m" and "pr_inventory cur = am_inventory m"
    and "implementation_seen h w m (pr_broker cur) d" and "ii_fingerprint d = pr_fingerprint cur"
  shows "reenabled h w m cur r"
proof -
  obtain now t u where now: "now_iso h t = (Inr now, u)" and r: "r = cur\<lparr>pr_enabled := True, pr_updated := now\<rparr>"
    and a: "am_inventory m = Inventory_Dynamic \<longrightarrow> inventory_seen h m cur (pr_approved cur)"
    using assms(1) by (auto simp: enabled_record_def bind_act_eq_Inr act_simps dest: fetched_seen split: if_splits)
  have "still_approved h w m cur" unfolding still_approved_def using assms(2-5) a by metis
  then show ?thesis unfolding reenabled_def r using now_seen [OF now] by simp
qed

lemma reapproved_instance: "reapproved h w m cur r \<Longrightarrow> pr_instance r = pr_instance cur"
  unfolding reapproved_def by (cases cur; cases r) simp

lemma reenabled_instance: "reenabled h w m cur r \<Longrightarrow> pr_instance r = pr_instance cur"
  unfolding reenabled_def by (cases cur; cases r) simp

lemma disable_wp:
  "wp (disable h reg i) (\<lambda>r s'. \<exists>m cur. view h s = Inr m \<and> m i = Some cur
       \<and> replaced h Oper_Disable (disabled h cur) i s m r s')
     (settled_error h Oper_Disable s) s"
  (is "wp _ ?Q ?E s")
  unfolding disable_def
proof (rule wp_bind, rule wp_mono [OF inspect_wp])
  fix cur t
  assume "t = s \<and> (\<exists>m. view h s = Inr m \<and> m i = Some cur \<and> pr_instance cur = i)"
  then obtain m where t: "t = s" "view h s = Inr m" "m i = Some cur" "pr_instance cur = i" by blast
  have "wp (replacing h oid Oper_Disable man cur (ret_act (cur\<lparr>pr_enabled := False, pr_updated := now\<rparr>))) ?Q ?E u'"
    if "after_decision h Oper_Disable s u m" "kept u u'" "now_iso h u = (Inr now, u')" for oid man now u u'
    by (rule wp_mono [OF replacing_wp [OF that(1) _ keeping.obeys_pure(1) _ that(2),
            where P = "disabled h cur"]])
      (use t now_seen [OF that(3)] in \<open>auto simp: act_simps disabled_def\<close>)
  then show "wp (bind_act (lift_act (require_manifest reg (pr_adapter cur))) (\<lambda>man. bind_act (new_operation_id h) (\<lambda>oid.
      bind_act (decision h oid Oper_Disable (pr_instance cur) (am_adapter man)) (\<lambda>_. bind_act (now_iso h) (\<lambda>now.
      replacing h oid Oper_Disable man cur (ret_act (cur\<lparr>pr_enabled := False, pr_updated := now\<rparr>))))))) ?Q ?E t"
    unfolding t(1)
    by (intro wp_bind wp_lift wp_kept [OF keeping_calls(4)] decision_kept_wp [OF _ t(2)] wp_kept [OF keeping_calls(5)])
      (auto intro: settled_refl settled_early settled_decided)
qed (simp add: settled_refl)

lemma reapprove_wp:
  "wp (reapprove h reg i) (\<lambda>r s'. \<exists>m cur man. view h s = Inr m \<and> m i = Some cur \<and> require_manifest reg (pr_adapter cur) = Inr man
       \<and> replaced h Oper_Reapprove (reapproved h (or_world s) man cur) i s m r s')
     (settled_error h Oper_Reapprove s) s"
  (is "wp _ ?Q ?E s")
  unfolding reapprove_def
proof (rule wp_bind, rule wp_mono [OF inspect_wp])
  fix cur t
  assume "t = s \<and> (\<exists>m. view h s = Inr m \<and> m i = Some cur \<and> pr_instance cur = i)"
  then obtain m where t: "t = s" "view h s = Inr m" "m i = Some cur" "pr_instance cur = i" by blast
  have run: "wp (replacing h oid Oper_Reapprove man cur (reapproved_record h man ident cur)) ?Q ?E u"
    if "require_manifest reg (pr_adapter cur) = Inr man" "implementation_seen h (or_world s) man (pr_broker cur) ident"
      "after_decision h Oper_Reapprove s u m" for oid man ident u
  proof -
    note seen = that(2)
    have E: "reapproved h (or_world s) man cur r \<and> pr_instance r = pr_instance cur"
      if "reapproved_record h man ident cur v = (Inr r, v')" for v r v'
    proof -
      have "reapproved h (or_world s) man cur r" by (rule reapproved_ok [OF that seen])
      then show ?thesis by (simp add: reapproved_instance)
    qed
    show ?thesis
      by (rule wp_mono [OF replacing_wp [OF that(3) _ keeping_calls(6) _ keeping.R_refl, where P = "reapproved h (or_world s) man cur"]])
        (use t that(1) E in blast)+
  qed
  show "wp (bind_act (lift_act (require_manifest reg (pr_adapter cur))) (\<lambda>man.
      bind_act (lift_act (validate_credential_broker_selection man (pr_broker cur))) (\<lambda>_.
      bind_act (resolve_implementation h man (pr_broker cur)) (\<lambda>ident. bind_act (new_operation_id h) (\<lambda>oid.
      bind_act (decision h oid Oper_Reapprove (pr_instance cur) (am_adapter man)) (\<lambda>_.
      replacing h oid Oper_Reapprove man cur (reapproved_record h man ident cur))))))) ?Q ?E t"
    unfolding t(1)
    by (intro wp_bind wp_lift wp_kept [OF keeping_calls(2)] wp_kept [OF keeping_calls(4)] decision_kept_wp [OF _ t(2)])
      (blast intro: run resolve_seen settled_refl settled_early keeping.R_trans)+
qed (simp add: settled_refl)

lemma enable_wp:
  "wp (enable h reg i) (\<lambda>r s'. \<exists>m cur man. view h s = Inr m \<and> m i = Some cur \<and> require_manifest reg (pr_adapter cur) = Inr man
       \<and> replaced h Oper_Enable (reenabled h (or_world s) man cur) i s m r s')
     (settled_error h Oper_Enable s) s"
  (is "wp _ ?Q ?E s")
  unfolding enable_def
proof (rule wp_bind, rule wp_mono [OF inspect_wp])
  fix cur t
  assume "t = s \<and> (\<exists>m. view h s = Inr m \<and> m i = Some cur \<and> pr_instance cur = i)"
  then obtain m where t: "t = s" "view h s = Inr m" "m i = Some cur" "pr_instance cur = i" by blast
  have run: "wp (replacing h oid Oper_Enable man cur (enabled_record h man cur)) ?Q ?E u"
    if "require_manifest reg (pr_adapter cur) = Inr man" "implementation_seen h (or_world s) man (pr_broker cur) ident"
      "ii_fingerprint ident = pr_fingerprint cur \<and> am_version man = pr_version cur \<and> am_inventory man = pr_inventory cur"
      "after_decision h Oper_Enable s u m" for oid man ident u
  proof -
    have E: "reenabled h (or_world s) man cur r \<and> pr_instance r = pr_instance cur"
      if "enabled_record h man cur v = (Inr r, v')" for v r v'
      using enabled_ok [OF that, of "or_world s" ident] reenabled_instance
        \<open>implementation_seen h (or_world s) man (pr_broker cur) ident\<close>
        \<open>ii_fingerprint ident = pr_fingerprint cur \<and> am_version man = pr_version cur \<and> am_inventory man = pr_inventory cur\<close> by auto
    show ?thesis
      by (rule wp_mono [OF replacing_wp [OF that(4) _ keeping_calls(7) _ keeping.R_refl, where P = "reenabled h (or_world s) man cur"]])
        (use t that(1) E in blast)+
  qed
  show "wp (bind_act (lift_act (require_manifest reg (pr_adapter cur))) (\<lambda>man.
      bind_act (lift_act (validate_credential_broker_selection man (pr_broker cur))) (\<lambda>_.
      bind_act (resolve_implementation h man (pr_broker cur)) (\<lambda>ident.
      bind_act (guard_act (ii_fingerprint ident = pr_fingerprint cur \<and> am_version man = pr_version cur
       \<and> am_inventory man = pr_inventory cur) Identity_Changed) (\<lambda>_.
      bind_act (new_operation_id h) (\<lambda>oid.
      bind_act (decision h oid Oper_Enable (pr_instance cur) (am_adapter man)) (\<lambda>_.
      replacing h oid Oper_Enable man cur (enabled_record h man cur)))))))) ?Q ?E t"
    unfolding t(1)
    by (intro wp_bind wp_lift wp_guard wp_kept [OF keeping_calls(2)] wp_kept [OF keeping_calls(4)] decision_kept_wp [OF _ t(2)])
      (blast intro: run resolve_seen settled_refl settled_early keeping.R_trans)+
qed (simp add: settled_refl)

lemma remove_wp:
  "wp (remove h reg i) (\<lambda>_ s'. \<exists>m. view h s = Inr m \<and> m i \<noteq> None \<and> view h s' = Inr (m(i := None))
       \<and> or_log s' = or_log s @ [decided Oper_Remove True, succeeded_event Oper_Remove True])
     (settled_error h Oper_Remove s) s"
  (is "wp _ ?Q ?E s")
  unfolding remove_def
proof (rule wp_bind, rule wp_mono [OF inspect_wp])
  fix cur t
  assume "t = s \<and> (\<exists>m. view h s = Inr m \<and> m i = Some cur \<and> pr_instance cur = i)"
  then obtain m where t: "t = s" "view h s = Inr m" "m (pr_instance cur) = Some cur" "pr_instance cur = i" by blast
  have rec: "parse_record (oh_timestamp h) (record_json cur) = Inr cur" using view_record [OF t(2,3)] by simp
  have undo: "wp (failed_with h oid Oper_Remove (pr_instance cur) (am_adapter man) (rollback_removal h cur e)) ?Q ?E u"
    if "after_decision h Oper_Remove s v m" "or_log u = or_log v @ evs" "view h u = Inr m \<or> view h u = Inr (m(pr_instance cur := None))"
    for oid man e u v evs
    by (rule failed_settled [OF that(1,2) rollback_removal_wp [OF t(3) rec that(3)]])
  have run: "wp (catch_act
       (bind_act (store_run h (Op_Remove (pr_instance cur))) (\<lambda>ok. bind_act (guard_act ok State_Invalid) (\<lambda>_.
        bind_act (success h oid Oper_Remove (pr_instance cur) (am_adapter man)) (\<lambda>_. ret_act True))))
       (\<lambda>e. failed_with h oid Oper_Remove (pr_instance cur) (am_adapter man) (rollback_removal h cur (as_provider_failure e)))) ?Q ?E u"
    if u: "after_decision h Oper_Remove s u m" for oid man u
  proof (rule wp_catch, rule wp_bind, rule store_run_wp [of h u m])
    show "view h u = Inr m" using u by (simp add: after_decision_def)
    let ?tail = "\<lambda>e. failed_with h oid Oper_Remove (pr_instance cur) (am_adapter man) (rollback_removal h cur (as_provider_failure e))"
    fix b m' w
    assume "map_step (oh_timestamp h) (Op_Remove (pr_instance cur)) m = Some (b, m')" "view h w = Inr m'" "or_log w = or_log u"
    then have w: "b" "view h w = Inr (m(pr_instance cur := None))" "or_log w = or_log u @ []" using t(3) by (simp_all add: map_step_def)
    show "wp (bind_act (guard_act b State_Invalid) (\<lambda>_. bind_act (success h oid Oper_Remove (pr_instance cur) (am_adapter man))
        (\<lambda>_. ret_act True))) ?Q (\<lambda>e. wp (?tail e) ?Q ?E) w"
    proof (rule wp_bind, rule wp_guard, rule wp_bind, rule success_view_wp [OF w(3,2)])
      show "wp (ret_act True) ?Q E v" if "view h v = Inr (m(pr_instance cur := None))"
        "or_log v = (or_log u @ []) @ [succeeded_event Oper_Remove True]" for v E
        using that u t by (auto simp: after_decision_def intro!: wp_ret)
      show "wp (?tail e) ?Q ?E v" if "view h v = Inr (m(pr_instance cur := None))" "or_log v = (or_log u @ []) @ [ev]" for e v ev
        using that by (intro undo [OF u, of _ "[ev]"]) simp_all
    qed (use w in simp)
  next
    fix e w
    assume "or_log w = or_log u" "view h w = Inr m \<or> (\<exists>b m'. map_step (oh_timestamp h) (Op_Remove (pr_instance cur)) m = Some (b, m')
      \<and> view h w = Inr m')"
    then show "wp (failed_with h oid Oper_Remove (pr_instance cur) (am_adapter man) (rollback_removal h cur (as_provider_failure e))) ?Q ?E w"
      by (intro undo [OF u, of _ "[]"]) (auto simp: map_step_def)
  qed
  show "wp (bind_act (lift_act (require_manifest reg (pr_adapter cur))) (\<lambda>man. bind_act (new_operation_id h) (\<lambda>oid.
      bind_act (decision h oid Oper_Remove (pr_instance cur) (am_adapter man)) (\<lambda>_.
      catch_act
       (bind_act (store_run h (Op_Remove (pr_instance cur))) (\<lambda>ok. bind_act (guard_act ok State_Invalid) (\<lambda>_.
        bind_act (success h oid Oper_Remove (pr_instance cur) (am_adapter man)) (\<lambda>_. ret_act True))))
       (\<lambda>e. failed_with h oid Oper_Remove (pr_instance cur) (am_adapter man) (rollback_removal h cur (as_provider_failure e))))))) ?Q ?E t"
    unfolding t(1)
    by (rule wp_bind, rule wp_lift, rule wp_bind, rule wp_kept [OF keeping_calls(4)], rule wp_bind, rule decision_kept_wp [OF _ t(2)])
      (blast intro: run settled_refl settled_early keeping.R_trans)+
qed (simp add: settled_refl)

text \<open>
  What \<open>add\<close> puts into the registry for the input \<open>v\<close>: its name, its adapter, the broker it asks for in its resolved
  form and its configuration as it is (but for a field \<open>__proto__\<close>, which the schema drops), approved and enabled now.
\<close>

definition broker_asked :: "json option \<Rightarrow> broker_descriptor \<Rightarrow> bool" where
  "broker_asked v b \<longleftrightarrow> (\<exists>bs. v = Some (JObj bs) \<and> (case b of
     Broker_None \<Rightarrow> get bs ''kind'' = Some (JStr (js ''none''))
   | Broker_Helper p sha \<Rightarrow> get bs ''kind'' = Some (JStr (js ''external-helper''))
       \<and> get bs ''helperPath'' = Some (JStr p) \<and> get bs ''helperSha256'' = Some (JStr sha)))"

definition admitted_record :: "'w operator_host \<Rightarrow> adapter_registry \<Rightarrow> 'w \<Rightarrow> json \<Rightarrow> provider_record \<Rightarrow> bool" where
  "admitted_record h reg w v r \<longleftrightarrow> (\<exists>fs a b cs man. v = JObj fs
     \<and> get fs ''operatorName'' = Some (JStr (pr_operator r))
     \<and> get fs ''adapterId'' = Some (JStr a) \<and> require_manifest reg a = Inr man \<and> pr_adapter r = am_adapter man
     \<and> broker_asked (get fs ''credentialBroker'') b
     \<and> get fs ''nonSecretAdapterConfig'' = Some (JObj cs) \<and> pr_config r = JObj (filter (\<lambda>f. fst f \<noteq> js ''__proto__'') cs)
     \<and> approval h w man b r \<and> pr_enabled r
     \<and> (\<exists>w'. pr_instance r = oh_instance_id h w') \<and> clock_read h (pr_created r) \<and> pr_updated r = pr_created r)"

lemma broker_parsed: "parse_broker_descriptor v = Some b \<Longrightarrow> broker_asked v b"
  by (auto simp: parse_broker_descriptor_def broker_asked_def as_eq_Some split: option.splits if_splits)

lemma config_parsed:
  "parse_config v = Some c \<Longrightarrow> \<exists>cs. v = Some (JObj cs) \<and> c = JObj (filter (\<lambda>f. fst f \<noteq> js ''__proto__'') cs)"
  by (auto simp: parse_config_def proto_free_def proto_key_def as_eq_Some split: option.splits if_splits)

lemma input_parsed:
  assumes "parse_add_input v = Inr d"
  shows "\<exists>fs cs. v = JObj fs \<and> get fs ''operatorName'' = Some (JStr (di_name d)) \<and> get fs ''adapterId'' = Some (JStr (di_adapter d))
     \<and> broker_asked (get fs ''credentialBroker'') (di_broker d)
     \<and> get fs ''nonSecretAdapterConfig'' = Some (JObj cs) \<and> di_config d = JObj (filter (\<lambda>f. fst f \<noteq> js ''__proto__'') cs)"
proof -
  obtain fs where fs: "v = JObj fs" "checked_str (within_length 256) (get fs ''operatorName'') = Some (di_name d)"
    "checked_str bounded_authority_id (get fs ''adapterId'') = Some (di_adapter d)"
    "parse_broker_descriptor (get fs ''credentialBroker'') = Some (di_broker d)"
    "parse_config (get fs ''nonSecretAdapterConfig'') = Some (di_config d)"
    using assms by (auto simp: parse_add_input_def as_eq_Some split: option.splits if_splits)
  then show ?thesis using config_parsed [OF fs(5)] broker_parsed [OF fs(4)] by (auto simp: checked_str_eq)
qed

lemma admit_provider_wp:
  assumes d: "after_decision h Oper_Add s t m" and i: "m (pr_instance base) = None"
    and P: "\<And>a. (if am_inventory man = Inventory_Dynamic then inventory_seen h man base a else a = None) \<Longrightarrow> P (base\<lparr>pr_approved := a\<rparr>)"
  shows "wp (admit_provider h oid man base) (replaced h Oper_Add P (pr_instance base) s m) (settled_error h Oper_Add s) t"
  (is "wp _ ?Q ?E t")
proof -
  have v: "view h t = Inr m" using d by (simp add: after_decision_def)
  have undo: "wp (admission_failed h oid man (pr_instance base) inserted e) Q ?E u"
    if "if inserted then \<exists>p. view h u = Inr (m(pr_instance base \<mapsto> p)) else view h u = Inr m \<or> (\<exists>p. view h u = Inr (m(pr_instance base \<mapsto> p)))"
      "or_log u = or_log t @ evs" for inserted e u evs and Q :: "'z \<Rightarrow> 'a operator \<Rightarrow> bool"
    unfolding admission_failed_def by (rule failed_settled [OF d that(2) rollback_admission_wp [OF i that(1)]])
  have step: "\<exists>p. parse_record (oh_timestamp h) (record_json (base\<lparr>pr_approved := a\<rparr>)) = Inr p \<and> m' = m(pr_instance base \<mapsto> p)"
    if "map_step (oh_timestamp h) (Op_Insert (base\<lparr>pr_approved := a\<rparr>)) m = Some (b, m')" for a b m'
    using that by (auto simp: map_step_def dest: parse_record_instance split: sum.splits if_splits)
  let ?inserted = "\<lambda>r u. \<exists>a p. r = base\<lparr>pr_approved := a\<rparr> \<and> (if am_inventory man = Inventory_Dynamic then inventory_seen h man base a else a = None)
    \<and> parse_record (oh_timestamp h) (record_json r) = Inr p \<and> view h u = Inr (m(pr_instance base \<mapsto> p)) \<and> or_log u = or_log t"
  have inserting: "wp (catch_act
       (bind_act (inventory_approval h base man) (\<lambda>a.
        bind_act (store_run h (Op_Insert (base\<lparr>pr_approved := a\<rparr>))) (\<lambda>_. ret_act (base\<lparr>pr_approved := a\<rparr>))))
       (admission_failed h oid man (pr_instance base) False)) ?inserted ?E t"
  proof (rule wp_catch, rule wp_bind, rule wp_kept [OF keeping_calls(3)])
    fix a u
    assume a: "inventory_approval h base man t = (Inr a, u)" and "kept t u"
    then have u: "view h u = Inr m" "or_log u = or_log t" using v by (auto simp: kept_def view_def)
    show "wp (bind_act (store_run h (Op_Insert (base\<lparr>pr_approved := a\<rparr>))) (\<lambda>_. ret_act (base\<lparr>pr_approved := a\<rparr>))) ?inserted
        (\<lambda>e. wp (admission_failed h oid man (pr_instance base) False e) ?inserted ?E) u"
    proof (rule wp_bind, rule store_run_wp [OF u(1)])
      fix b m' w
      assume "map_step (oh_timestamp h) (Op_Insert (base\<lparr>pr_approved := a\<rparr>)) m = Some (b, m')" "view h w = Inr m'" "or_log w = or_log u"
      then show "wp (ret_act (base\<lparr>pr_approved := a\<rparr>)) ?inserted
          (\<lambda>e. wp (admission_failed h oid man (pr_instance base) False e) ?inserted ?E) w"
        using step u approval_some [OF a] by (intro wp_ret exI [of _ a]) auto
    next
      fix e w
      assume "or_log w = or_log u" "view h w = Inr m
        \<or> (\<exists>b m'. map_step (oh_timestamp h) (Op_Insert (base\<lparr>pr_approved := a\<rparr>)) m = Some (b, m') \<and> view h w = Inr m')"
      then show "wp (admission_failed h oid man (pr_instance base) False e) ?inserted ?E w"
        using step u by (intro undo [of False _ "[]"]) auto
    qed
  qed (use v in \<open>auto simp: kept_def view_def intro!: undo [of False _ "[]"]\<close>)
  show ?thesis
    unfolding admit_provider_def
  proof (rule wp_bind, rule wp_mono [OF inserting])
    fix r u
    assume r: "?inserted r u"
    then have q: "P r" "pr_instance r = pr_instance base" "\<exists>p. view h u = Inr (m(pr_instance base \<mapsto> p))" using P by auto
    obtain p where p: "parse_record (oh_timestamp h) (record_json r) = Inr p" "view h u = Inr (m(pr_instance base \<mapsto> p))"
      using r by blast
    show "wp (bind_act (catch_act (success h oid Oper_Add (pr_instance base) (am_adapter man)) (admission_failed h oid man (pr_instance base) True))
        (\<lambda>_. ret_act r)) ?Q ?E u"
    proof (rule wp_bind, rule wp_catch, rule success_view_wp [where evs = "or_log t"])
      show "view h u = Inr (m(pr_instance base \<mapsto> p))" by (fact p(2))
      show "wp (ret_act r) ?Q ?E v" if "view h v = Inr (m(pr_instance base \<mapsto> p))" "or_log v = or_log t @ [succeeded_event Oper_Add True]" for v
        using that q p d by (auto simp: replaced_def after_decision_def intro!: wp_ret)
      show "wp (admission_failed h oid man (pr_instance base) True e) (\<lambda>_. wp (ret_act r) ?Q ?E) ?E v"
        if "view h v = Inr (m(pr_instance base \<mapsto> p))" "or_log v = or_log t @ [ev]" for e v ev
        using that by (intro undo [of True]) auto
    qed (use r in blast)
  qed simp
qed

lemma admission_ok:
  assumes "admission_record d man ident i now = Inr base" and "implementation_seen h w man (di_broker d) ident"
    and "require_manifest reg (di_adapter d) = Inr man" and "parse_add_input v = Inr d" and "i = oh_instance_id h w'" and "clock_read h now"
    and "if am_inventory man = Inventory_Dynamic then inventory_seen h man base a else a = None"
  shows "admitted_record h reg w v (base\<lparr>pr_approved := a\<rparr>)"
proof -
  obtain b where b: "canonical_credential_broker (di_broker d) ident = Inr b"
    and base: "base = \<lparr>pr_instance = i, pr_operator = di_name d, pr_adapter = am_adapter man, pr_version = am_version man, pr_enabled = True,
       pr_fingerprint = ii_fingerprint ident, pr_inventory = am_inventory man, pr_approved = None, pr_broker = b,
       pr_config = di_config d, pr_created = now, pr_updated = now\<rparr>"
    using assms(1) by (auto simp: admission_record_def bind_res_eq_Inr)
  have "approval h w man (di_broker d) (base\<lparr>pr_approved := a\<rparr>)"
    unfolding approval_def using assms(2,7) broker_canonical [OF b] by (auto simp: base)
  then show ?thesis
    unfolding admitted_record_def using input_parsed [OF assms(4)] assms(3,5,6) base
    by (elim exE, intro exI) auto
qed

lemma add_wp:
  "wp (add h reg v) (\<lambda>r s'. \<exists>m. view h s = Inr m \<and> m (pr_instance r) = None
       \<and> replaced h Oper_Add (admitted_record h reg (or_world s) v) (pr_instance r) s m r s')
     (settled_error h Oper_Add s) s"
  (is "wp _ ?Q ?E s")
proof -
  have run: "wp (admit_provider h oid man base) ?Q ?E u"
    if "admission_record d man ident i now = Inr base" "implementation_seen h (or_world s) man (di_broker d) ident"
      "require_manifest reg (di_adapter d) = Inr man" "parse_add_input v = Inr d" "i = oh_instance_id h w" "clock_read h now"
      "after_decision h Oper_Add s u m" "m i = None"
    for d man ident i now base oid u m w
  proof -
    have i: "pr_instance base = i" using that(1) by (auto simp: admission_record_def bind_res_eq_Inr)
    show ?thesis
      by (rule wp_mono [OF admit_provider_wp [OF that(7) _, where P = "admitted_record h reg (or_world s) v"]])
        (use that(7,8) i admission_ok [OF that(1-6)] in \<open>auto simp: replaced_def after_decision_def\<close>)
  qed
  have got: "wp (store_get h i) (\<lambda>x t'. kept s t' \<and> (\<exists>m. view h s = Inr m \<and> x = m i)) ?E t" if "kept s t" for i t
  proof -
    have "registry_get (oh_timestamp h) i (or_file t) = Inr x \<Longrightarrow> \<exists>m. view h s = Inr m \<and> x = m i" for x
      using that by (auto simp: registry_get_def bind_res_eq_Inr view_def registry_map_def entry_at_def kept_def)
    then show ?thesis using that settled_early by (auto simp: wp_def store_get_def split: sum.splits)
  qed
  have early: "?E e u" if "kept s t" "kept t u" for e t u using that by (blast intro: settled_early keeping.R_trans)
  have tail: "wp (bind_act (new_operation_id h) (\<lambda>oid. bind_act (now_iso h) (\<lambda>now.
      bind_act (lift_act (admission_record d man ident i now)) (\<lambda>base.
      bind_act (decision h oid Oper_Add i (am_adapter man)) (\<lambda>_. admit_provider h oid man base))))) ?Q ?E t"
    if "kept s t" "view h s = Inr m" "m i = None" "require_manifest reg (di_adapter d) = Inr man"
      "implementation_seen h (or_world s) man (di_broker d) ident" "parse_add_input v = Inr d" "i = oh_instance_id h w" for d man ident i m t w
    by (rule wp_bind, rule wp_kept [OF keeping_calls(4)], rule wp_bind, rule wp_kept [OF keeping_calls(5)], rule wp_bind, rule wp_lift,
        rule wp_bind, rule decision_kept_wp [OF _ that(2)])
      (use that in \<open>blast intro: run early keeping.R_trans now_seen\<close>)+
  show ?thesis
    unfolding add_def
  proof (intro wp_bind wp_lift wp_kept [OF keeping_calls(2)] wp_read wp_guard)
    fix d :: add_input and u man ident t
    assume d: "parse_add_input v = Inr d" and m: "require_manifest reg (di_adapter d) = Inr man"
      and r: "resolve_implementation h man (di_broker d) s = (Inr ident, t)" "kept s t"
    let ?i = "oh_instance_id h (or_world t)"
    show "wp (store_get h ?i) (\<lambda>x. wp (bind_act (guard_act (x = None) State_Invalid) (\<lambda>_. bind_act (new_operation_id h) (\<lambda>oid.
        bind_act (now_iso h) (\<lambda>now. bind_act (lift_act (admission_record d man ident ?i now)) (\<lambda>base.
        bind_act (decision h oid Oper_Add ?i (am_adapter man)) (\<lambda>_. admit_provider h oid man base)))))) ?Q ?E) ?E t"
      by (rule wp_mono [OF got [OF r(2)]], rule wp_bind, rule wp_guard)
        (use d m resolve_seen [OF r(1)] in \<open>auto intro: tail settled_early\<close>)
  qed (auto intro: settled_refl settled_early)
qed

section \<open>A command and its outcome\<close>

datatype operator_command =
    Command_Add json
  | Command_Disable jsstring
  | Command_Remove jsstring
  | Command_Reapprove jsstring
  | Command_Enable jsstring

text \<open>Every command yields the record it wrote, and \<open>remove\<close> none.\<close>

definition run_operator :: "'w operator_host \<Rightarrow> adapter_registry \<Rightarrow> operator_command \<Rightarrow> ('w, provider_record option) operator_act" where
  "run_operator h reg c = (case c of
     Command_Add v \<Rightarrow> bind_act (add h reg v) (\<lambda>r. ret_act (Some r))
   | Command_Disable i \<Rightarrow> bind_act (disable h reg i) (\<lambda>r. ret_act (Some r))
   | Command_Remove i \<Rightarrow> bind_act (remove h reg i) (\<lambda>_. ret_act None)
   | Command_Reapprove i \<Rightarrow> bind_act (reapprove h reg i) (\<lambda>r. ret_act (Some r))
   | Command_Enable i \<Rightarrow> bind_act (enable h reg i) (\<lambda>r. ret_act (Some r)))"

definition kind_of :: "operator_command \<Rightarrow> operator_operation" where
  "kind_of c = (case c of Command_Add v \<Rightarrow> Oper_Add | Command_Disable i \<Rightarrow> Oper_Disable | Command_Remove i \<Rightarrow> Oper_Remove
     | Command_Reapprove i \<Rightarrow> Oper_Reapprove | Command_Enable i \<Rightarrow> Oper_Enable)"

text \<open>What a command means to do to the records \<open>m\<close>: the entry it changes, and what it writes there.\<close>

definition intended :: "'w operator_host \<Rightarrow> adapter_registry \<Rightarrow> operator_command \<Rightarrow> 'w \<Rightarrow> (jsstring \<rightharpoonup> provider_record) \<Rightarrow>
    provider_record \<Rightarrow> bool" where
  "intended h reg c w m r = (case c of
     Command_Add v \<Rightarrow> m (pr_instance r) = None \<and> admitted_record h reg w v r
   | Command_Disable i \<Rightarrow> pr_instance r = i \<and> (\<exists>cur. m i = Some cur \<and> disabled h cur r)
   | Command_Remove i \<Rightarrow> False
   | Command_Reapprove i \<Rightarrow> pr_instance r = i \<and> (\<exists>cur man. m i = Some cur \<and> require_manifest reg (pr_adapter cur) = Inr man
        \<and> reapproved h w man cur r)
   | Command_Enable i \<Rightarrow> pr_instance r = i \<and> (\<exists>cur man. m i = Some cur \<and> require_manifest reg (pr_adapter cur) = Inr man
        \<and> reenabled h w man cur r))"

text \<open>The record a command returns is the one a reader finds: what is written of it parses back to it.\<close>

lemma parse_record_same:
  assumes "parse_record ts (record_json r) = Inr q" and "pr_config r = JObj fs" and "list_all (\<lambda>f. fst f \<noteq> proto_key) fs"
  shows "q = r"
proof -
  have config: "parse_config (Some (JObj fs)) = Some c \<Longrightarrow> c = JObj fs" for c
    using assms(3) by (auto simp: parse_config_def proto_free_def list_all_iff filter_id_conv split: if_splits)
  have broker: "parse_broker_descriptor (Some (broker_json b)) = Some b' \<Longrightarrow> b' = b" for b b'
    by (cases b) (auto simp: parse_broker_descriptor_def broker_json_def split: if_splits)
  have approved: "(case a of None \<Rightarrow> JNull | Some h \<Rightarrow> JStr h) = (case b of None \<Rightarrow> JNull | Some h \<Rightarrow> JStr h) \<Longrightarrow> a = b" for a b :: "jsstring option"
    by (cases a; cases b) auto
  show ?thesis
    using assms(1,2)
    by (cases r) (auto simp: parse_record_def record_schema_def record_json_def bind_eq_Some_conv checked_str_eq parse_mode_json
        parse_approved_eq bind_res_eq_Inr dest!: config broker approved split: option.splits if_splits)
qed

lemma intended_clean:
  assumes "view h s = Inr m" and "intended h reg c w m r"
  shows "\<exists>fs. pr_config r = JObj fs \<and> list_all (\<lambda>f. fst f \<noteq> proto_key) fs"
proof -
  have stored: "\<exists>fs. pr_config cur = JObj fs \<and> list_all (\<lambda>f. fst f \<noteq> proto_key) fs" if "m i = Some cur" for i cur
    using view_record [OF assms(1) that] parse_record_ok [of "oh_timestamp h" "record_json cur" cur]
    by (auto simp: record_ok_def list_all_iff)
  have kept_config: "disabled h cur r \<or> reapproved h w man cur r \<or> reenabled h w man cur r \<Longrightarrow> pr_config r = pr_config cur" for cur man
    unfolding disabled_def reapproved_def reenabled_def by (cases cur; cases r) auto
  show ?thesis
  proof (cases c)
    case (Command_Add v)
    then show ?thesis using assms(2) by (auto simp: intended_def admitted_record_def proto_key_def list_all_iff)
  qed (use assms(2) in \<open>auto simp: intended_def dest!: stored kept_config [OF disjI1] kept_config [OF disjI2, OF disjI1] kept_config [OF disjI2, OF disjI2]\<close>)
qed

definition took_effect :: "'w operator_host \<Rightarrow> adapter_registry \<Rightarrow> operator_command \<Rightarrow> 'w operator \<Rightarrow> provider_record option \<Rightarrow>
    'w operator \<Rightarrow> bool" where
  "took_effect h reg c s r s' \<longleftrightarrow> or_log s' = or_log s @ [decided (kind_of c) True, succeeded_event (kind_of c) True]
     \<and> (\<exists>m. view h s = Inr m \<and> (case r of
          Some p \<Rightarrow> intended h reg c (or_world s) m p \<and> view h s' = Inr (m(pr_instance p \<mapsto> p))
        | None \<Rightarrow> (\<exists>i. c = Command_Remove i \<and> m i \<noteq> None \<and> view h s' = Inr (m(i := None)))))"

lemma run_record:
  assumes "wp act (\<lambda>r s'. \<exists>m P i. view h s = Inr m \<and> replaced h (kind_of c) P i s m r s' \<and> (P r \<and> pr_instance r = i \<longrightarrow> intended h reg c (or_world s) m r)) E s"
  shows "wp (bind_act act (\<lambda>r. ret_act (Some r))) (took_effect h reg c s) E s"
proof (rule wp_bind, rule wp_mono [OF assms])
  fix r s'
  assume "\<exists>m P i. view h s = Inr m \<and> replaced h (kind_of c) P i s m r s' \<and> (P r \<and> pr_instance r = i \<longrightarrow> intended h reg c (or_world s) m r)"
  then obtain m p where "view h s = Inr m" "intended h reg c (or_world s) m r" "view h s' = Inr (m(pr_instance r \<mapsto> p))"
      "parse_record (oh_timestamp h) (record_json r) = Inr p"
      "or_log s' = or_log s @ [decided (kind_of c) True, succeeded_event (kind_of c) True]"
    unfolding replaced_def by blast
  moreover from this have "p = r" using intended_clean parse_record_same by metis
  ultimately show "wp (ret_act (Some r)) (took_effect h reg c s) E s'"
    by (auto intro!: wp_ret simp: took_effect_def)
qed

lemma run_operator_wp:
  "wp (run_operator h reg c) (took_effect h reg c s) (settled_error h (kind_of c) s) s"
proof (cases c)
  case (Command_Add v)
  show ?thesis
    unfolding Command_Add run_operator_def operator_command.case
    by (rule run_record, rule wp_mono [OF add_wp]) (auto simp: kind_of_def intended_def)
next
  case (Command_Disable i)
  show ?thesis
    unfolding Command_Disable run_operator_def operator_command.case
    by (rule run_record, rule wp_mono [OF disable_wp]) (fastforce simp: kind_of_def intended_def replaced_def)+
next
  case (Command_Remove i)
  show ?thesis
    unfolding Command_Remove run_operator_def operator_command.case
    by (rule wp_bind, rule wp_mono [OF remove_wp]) (auto intro!: wp_ret simp: kind_of_def took_effect_def)
next
  case (Command_Reapprove i)
  show ?thesis
    unfolding Command_Reapprove run_operator_def operator_command.case
    by (rule run_record, rule wp_mono [OF reapprove_wp]) (fastforce simp: kind_of_def intended_def replaced_def)+
next
  case (Command_Enable i)
  show ?thesis
    unfolding Command_Enable run_operator_def operator_command.case
    by (rule run_record, rule wp_mono [OF enable_wp]) (fastforce simp: kind_of_def intended_def replaced_def)+
qed

definition settled :: "'w operator_host \<Rightarrow> adapter_registry \<Rightarrow> operator_command \<Rightarrow> 'w operator \<Rightarrow>
    (provider_error + provider_record option) \<times> 'w operator \<Rightarrow> bool" where
  "settled h reg c s out = (case out of
     (Inr r, s') \<Rightarrow> took_effect h reg c s r s'
   | (Inl e, s') \<Rightarrow> settled_error h (kind_of c) s e s')"

text \<open>
  C25. Every command of the operator service is settled. A command that returns recorded its decision before and its
  success after it changed the registry, and changed in it exactly the entry it is about, which a reader then finds
  holding the record the command returned. \<open>remove\<close> takes the entry of the provider out. \<open>disable\<close> and \<open>enable\<close> change
  only the flag and the time. \<open>add\<close> fills an entry that was absent: with the name the input gives, the adapter it names,
  the configuration it gives (without a field \<open>__proto__\<close>, which the schema drops) and the broker it asks for, in the
  form it was resolved to, enabled, under a generated identifier and with one time for creation and change. \<open>reapprove\<close>
  changes only the version, the fingerprints, the inventory mode, the broker (to its resolved form) and the time. What
  \<open>add\<close>, \<open>reapprove\<close> and \<open>enable\<close> leave carries the manifest's version and inventory mode, the fingerprint of the
  implementation resolved for its broker when the command started and, for a dynamic inventory, the fingerprint of an
  inventory of that version that was fetched for the record with a credential of its broker. A command that
  fails changed nothing and recorded nothing but, at most, a decision that was refused, or (only \<open>disable\<close>, whose clock
  is read outside its guarded block) the decision alone; or it failed after the decision, wherever it was: in the adapter, the
  clock, a write that stopped at any point, or the success audit. Then the failure was audited, the caller sees that
  failure or that it could not be audited, and the registry a reader sees is the one before the command, unless the
  audited error is the one of an invalid state.
\<close>

theorem operator_commands_settle: "settled h reg c s (run_operator h reg c s)"
  using run_operator_wp [of h reg c s] by (simp add: wp_def settled_def split: prod.splits sum.splits)

end
