(* ===== verification/Verification_Config.thy ===== *)
theory Verification_Config
  imports Effects Utf8 Profiles
begin

text \<open>
  The recipe file a project may carry, \<open>packages/capabilities/src/verification-config.ts\<close>, and the
  directories discovery skips, \<open>semantic-scope.ts\<close>. The workspace adapter is asked through functions of
  the world; what the verification capability asks and sends is kept in a log.
\<close>

section \<open>Order of texts and records\<close>

text \<open>\<open>left < right\<close> on strings: by units.\<close>

fun text_le :: "jsstring \<Rightarrow> jsstring \<Rightarrow> bool" where
  "text_le [] t = True"
| "text_le (u # s) [] = False"
| "text_le (u # s) (v # t) = (u < v \<or> u = v \<and> text_le s t)"

text \<open>\<open>Object.entries\<close>, up to its order.\<close>

definition object_entries :: "fields \<Rightarrow> fields" where
  "object_entries fs = map (\<lambda>k. (k, the (map_of fs k))) (remdups (map fst fs))"

lemma object_entries_keys: "distinct (map fst (object_entries fs))"
  by (simp add: object_entries_def comp_def)

section \<open>The adapters\<close>

datatype path_kind = Path_File | Path_Directory | Path_Symlink | Path_Other

record file_identity =
  pi_exists :: bool
  pi_kind :: "path_kind option"
  pi_size :: "int option"

record file_read =
  fr_contents :: jsstring
  fr_bytes :: int
  fr_eof :: bool

record listed_path =
  lp_path :: jsstring
  lp_kind :: path_kind

datatype category = Category_Test | Category_Lint | Category_Typecheck | Category_Build | Category_Format | Category_Custom

datatype recipe_source = Package_Script | Cargo_Source | Config_Source

record recipe_launch =
  rl_id :: jsstring
  rl_label :: jsstring
  rl_category :: category
  rl_executable :: jsstring
  rl_argv :: "jsstring list"
  rl_cwd :: jsstring
  rl_source :: recipe_source

record run_request =
  rq_workspace :: jsstring
  rq_recipe :: jsstring
  rq_executable :: jsstring
  rq_argv :: "jsstring list"
  rq_cwd :: jsstring
  rq_background :: "bool option"

datatype 'x verification_error =
    Verify_Input_Invalid
  | Verify_Discovery_Invalid
  | Verify_Not_Found
  | Verify_Not_Allowed
  | Adapter_Error 'x

text \<open>
  What was asked of the adapters, with the answers the theorems speak about: for the workspace named,
  its tree, the parsed contents of its recipe file, its policy, and whether an executable and its
  sandbox are there.
\<close>

datatype verification_event =
    Saw_Tree jsstring "listed_path list"
  | Saw_Recipe_File jsstring "json option"
  | Saw_Policy jsstring policy
  | Saw_Executable jsstring jsstring bool bool
  | Ran run_request

record 'w verifier =
  vf_world :: 'w
  vf_log :: "verification_event list"

record ('w, 'x, 'src, 'op) verifier_host =
  vh_identity :: "jsstring \<Rightarrow> jsstring \<Rightarrow> 'w \<Rightarrow> ('x + file_identity) \<times> 'w"
  vh_read :: "jsstring \<Rightarrow> jsstring \<Rightarrow> 'w \<Rightarrow> ('x + file_read) \<times> 'w"
  vh_tree :: "jsstring \<Rightarrow> 'w \<Rightarrow> ('x + (listed_path list \<times> bool)) \<times> 'w"
  vh_policy :: "jsstring \<Rightarrow> 'w \<Rightarrow> ('x + policy) \<times> 'w"
  vh_executable :: "jsstring \<Rightarrow> jsstring \<Rightarrow> 'w \<Rightarrow> ('x + (bool \<times> bool)) \<times> 'w"
  vh_source :: "jsstring \<Rightarrow> 'w \<Rightarrow> ('x + 'src) \<times> 'w"
  vh_run :: "run_request \<Rightarrow> 'w \<Rightarrow> ('x + 'op) \<times> 'w"
  vh_parse :: "jsstring \<Rightarrow> json option"

type_synonym ('w, 'x, 'a) verifier_act = "('w verifier, 'x verification_error, 'a) action"

definition adapter :: "('w \<Rightarrow> ('x + 'a) \<times> 'w) \<Rightarrow> ('w, 'x, 'a) verifier_act" where
  "adapter f s = (case f (vf_world s) of
     (Inl e, w) \<Rightarrow> (Inl (Adapter_Error e), s\<lparr>vf_world := w\<rparr>)
   | (Inr x, w) \<Rightarrow> (Inr x, s\<lparr>vf_world := w\<rparr>))"

definition note_event :: "verification_event \<Rightarrow> ('w, 'x, unit) verifier_act" where
  "note_event ev = write_act (\<lambda>s. s\<lparr>vf_log := vf_log s @ [ev]\<rparr>)"

text \<open>A guarded block whose handler throws the discovery error.\<close>

definition discovery :: "('w, 'x, 'a) verifier_act \<Rightarrow> ('w, 'x, 'a) verifier_act" where
  "discovery m = catch_act m (\<lambda>_. throw_act Verify_Discovery_Invalid)"

definition require :: "bool \<Rightarrow> ('w, 'x, unit) verifier_act" where
  "require b = guard_act b Verify_Discovery_Invalid"

definition required :: "'a option \<Rightarrow> ('w, 'x, 'a) verifier_act" where
  "required v = (case v of None \<Rightarrow> throw_act Verify_Discovery_Invalid | Some x \<Rightarrow> ret_act x)"

section \<open>Discovery paths\<close>

definition excluded_directories :: "jsstring list" where
  "excluded_directories = map js [''.git'', ''.worktrees'', ''node_modules'', ''vendor'', ''target'', ''dist'', ''build'',
     ''coverage'', ''out'', ''__pycache__'', ''.cache'', ''.vite'', ''.turbo'', ''.next'', ''.nuxt'', ''.svelte-kit'',
     ''.pytest_cache'', ''.mypy_cache'', ''.ruff_cache'', ''.tox'', ''.venv'', ''venv'', ''.VSCodeCounter'',
     ''.code-review-graph'']"

definition is_semantic_discovery_path :: "jsstring \<Rightarrow> bool" where
  "is_semantic_discovery_path p = (\<not> list_ex (\<lambda>seg. seg \<in> set excluded_directories) (split_on 47 p))"

section \<open>The recipe file\<close>

definition config_path :: jsstring where "config_path = js ''.kodegpt/verify.json''"

definition config_max_bytes :: int where "config_max_bytes = 64 * 1024"

definition max_config_recipes :: nat where "max_config_recipes = 32"

definition max_argv_items :: nat where "max_argv_items = 64"

definition max_arg_bytes :: nat where "max_arg_bytes = 4096"

text \<open>\<open>[A-Za-z0-9._-]\<close>.\<close>

definition name_unit :: "nat \<Rightarrow> bool" where
  "name_unit u = (is_alnum u \<or> u = 46 \<or> u = 95 \<or> u = 45)"

definition recipe_key :: "jsstring \<Rightarrow> bool" where
  "recipe_key k = (case k of [] \<Rightarrow> False | u # s \<Rightarrow> is_alnum u \<and> length s \<le> 63 \<and> list_all name_unit s)"

definition logical_executable :: "jsstring \<Rightarrow> bool" where
  "logical_executable s = (case s of [] \<Rightarrow> False | u # t \<Rightarrow> is_alnum u \<and> list_all name_unit t)"

definition is_safe_logical_executable :: "jsstring \<Rightarrow> bool" where
  "is_safe_logical_executable s = (s \<noteq> js ''bash'' \<and> s \<noteq> js ''sh'' \<and> s \<noteq> js ''.'' \<and> s \<noteq> js ''..'' \<and> 0 \<notin> set s
     \<and> logical_executable s)"

definition proper_component :: "jsstring \<Rightarrow> bool" where
  "proper_component c = (c \<noteq> [] \<and> c \<noteq> js ''.'' \<and> c \<noteq> js ''..'')"

definition is_safe_recipe_cwd :: "jsstring \<Rightarrow> bool" where
  "is_safe_recipe_cwd s = (1 \<le> byte_length s \<and> byte_length s \<le> 4096
     \<and> (s = js ''.'' \<or> \<not> starts_with s (js ''/'') \<and> 0 \<notin> set s \<and> list_all proper_component (split_on 47 s)))"

definition parse_category :: "jsstring \<Rightarrow> category option" where
  "parse_category s = (if s = js ''test'' then Some Category_Test else if s = js ''lint'' then Some Category_Lint
     else if s = js ''typecheck'' then Some Category_Typecheck else if s = js ''build'' then Some Category_Build
     else if s = js ''format-check'' then Some Category_Format else if s = js ''custom'' then Some Category_Custom else None)"

text \<open>The arguments of a recipe: texts without NUL of at most \<open>MAX_ARG_BYTES\<close>.\<close>

definition parse_argument :: "json \<Rightarrow> jsstring option" where
  "parse_argument v = (case as_str (Some v) of
     None \<Rightarrow> None | Some s \<Rightarrow> if 0 \<in> set s \<or> max_arg_bytes < byte_length s then None else Some s)"

fun all_some :: "'a option list \<Rightarrow> 'a list option" where
  "all_some [] = Some []"
| "all_some (None # xs) = None"
| "all_some (Some x # xs) = (case all_some xs of None \<Rightarrow> None | Some ys \<Rightarrow> Some (x # ys))"

definition parse_argv :: "json option \<Rightarrow> jsstring list option" where
  "parse_argv v = (case as_arr v of
     None \<Rightarrow> None | Some xs \<Rightarrow> if max_argv_items < length xs then None else all_some (map parse_argument xs))"

definition parse_recipe :: "jsstring \<Rightarrow> json \<Rightarrow> recipe_launch option" where
  "parse_recipe key v = (case as_record (Some v) of
     None \<Rightarrow> None
   | Some fs \<Rightarrow>
       if 64 < length key \<or> \<not> recipe_key key \<or> \<not> same_keys fs [''label'', ''category'', ''logicalExecutable'', ''argv'', ''cwd'']
       then None
       else (case (as_str (get fs ''label''), as_str (get fs ''category''), as_str (get fs ''logicalExecutable''),
              parse_argv (get fs ''argv''), as_str (get fs ''cwd'')) of
          (Some label, Some c, Some exe, Some argv, Some cwd) \<Rightarrow>
            if byte_length label < 1 \<or> 120 < byte_length label then None
            else (case parse_category c of
               None \<Rightarrow> None
             | Some cat \<Rightarrow>
                 if is_safe_logical_executable exe \<and> is_safe_recipe_cwd cwd
                 then Some \<lparr>rl_id = js ''config:'' @ key, rl_label = label, rl_category = cat, rl_executable = exe, rl_argv = argv,
                   rl_cwd = cwd, rl_source = Config_Source\<rparr>
                 else None)
        | _ \<Rightarrow> None))"

definition parse_config_document :: "json option \<Rightarrow> recipe_launch list option" where
  "parse_config_document v = (case as_record v of
     None \<Rightarrow> None
   | Some fs \<Rightarrow>
       if \<not> same_keys fs [''schemaVersion'', ''recipes''] \<or> \<not> schema_one fs then None
       else (case as_record (get fs ''recipes'') of
          None \<Rightarrow> None
        | Some rs \<Rightarrow>
            let entries = object_entries rs in
            if max_config_recipes < length entries then None
            else all_some (map (\<lambda>(k, r). parse_recipe k r) (sort_by (\<lambda>a b. text_le (fst a) (fst b)) entries))))"

text \<open>What a read of at most \<open>limit\<close> bytes has to answer.\<close>

definition whole_file :: "int \<Rightarrow> file_read \<Rightarrow> bool" where
  "whole_file limit r = (fr_eof r \<and> fr_bytes r = int (byte_length (fr_contents r)) \<and> int (byte_length (fr_contents r)) \<le> limit)"

definition config_size_ok :: "file_identity \<Rightarrow> file_read \<Rightarrow> bool" where
  "config_size_ok ident r = (case pi_size ident of None \<Rightarrow> True | Some n \<Rightarrow> n = int (byte_length (fr_contents r)))"

definition read_verification_config :: "('w, 'x, 'src, 'op) verifier_host \<Rightarrow> jsstring \<Rightarrow> ('w, 'x, recipe_launch list) verifier_act" where
  "read_verification_config h wid =
     bind_act (discovery (adapter (vh_identity h wid config_path))) (\<lambda>ident.
     if \<not> pi_exists ident then ret_act []
     else
       bind_act (require (pi_kind ident = Some Path_File
         \<and> (case pi_size ident of None \<Rightarrow> True | Some n \<Rightarrow> n \<le> config_max_bytes))) (\<lambda>_.
       bind_act (discovery (adapter (vh_read h wid config_path))) (\<lambda>r.
       bind_act (require (whole_file config_max_bytes r \<and> config_size_ok ident r)) (\<lambda>_.
       bind_act (note_event (Saw_Recipe_File wid (vh_parse h (fr_contents r)))) (\<lambda>_.
       required (parse_config_document (vh_parse h (fr_contents r))))))))"

section \<open>What the file can hold\<close>

lemma all_some_map: "all_some (map Some xs) = Some xs"
  by (induction xs) simp_all

lemma all_some_eq: "all_some xs = Some ys \<longleftrightarrow> xs = map Some ys"
proof (induction xs arbitrary: ys)
  case (Cons x xs)
  then show ?case by (cases x; cases ys) (auto simp: all_some_map split: option.splits)
qed auto

text \<open>
  The command of a configured recipe, under its identifier: the parsed file has it, word for word,
  under the key of the identifier. The executable is no path and neither of the two shells, there
  are at most 64 arguments of at most 4096 bytes without NUL, and the working directory is the root
  or below it.
\<close>

definition configured :: "json option \<Rightarrow> jsstring \<Rightarrow> jsstring \<Rightarrow> jsstring list \<Rightarrow> jsstring \<Rightarrow> bool" where
  "configured doc i exe argv cwd \<longleftrightarrow> (\<exists>fs rs key cs. doc = Some (JObj fs) \<and> get fs ''recipes'' = Some (JObj rs)
       \<and> map_of rs key = Some (JObj cs) \<and> i = js ''config:'' @ key
       \<and> get cs ''logicalExecutable'' = Some (JStr exe) \<and> get cs ''argv'' = Some (JArr (map JStr argv))
       \<and> get cs ''cwd'' = Some (JStr cwd))
     \<and> exe \<noteq> [] \<and> 47 \<notin> set exe \<and> 0 \<notin> set exe \<and> exe \<notin> js ` {''bash'', ''sh'', ''.'', ''..''}
     \<and> length argv \<le> 64 \<and> (\<forall>a \<in> set argv. 0 \<notin> set a \<and> byte_length a \<le> 4096)
     \<and> (cwd = js ''.'' \<or> safe_path cwd)"

lemma parse_argument_eq: "parse_argument v = Some a \<Longrightarrow> v = JStr a \<and> 0 \<notin> set a \<and> byte_length a \<le> 4096"
  by (auto simp: parse_argument_def max_arg_bytes_def as_eq_Some split: option.splits if_splits)

lemma arguments_eq: "map parse_argument xs = map Some argv \<Longrightarrow>
    xs = map JStr argv \<and> (\<forall>a \<in> set argv. 0 \<notin> set a \<and> byte_length a \<le> 4096)"
proof (induction xs arbitrary: argv)
  case (Cons x xs)
  then obtain a as where argv: "argv = a # as" "parse_argument x = Some a" "map parse_argument xs = map Some as"
    by (cases argv) auto
  from Cons.IH [OF argv(3)] parse_argument_eq [OF argv(2)] show ?case by (simp add: argv(1))
qed simp

lemma parse_argv_ok:
  assumes "parse_argv v = Some argv"
  shows "v = Some (JArr (map JStr argv)) \<and> length argv \<le> 64 \<and> (\<forall>a \<in> set argv. 0 \<notin> set a \<and> byte_length a \<le> 4096)"
proof -
  obtain xs where xs: "v = Some (JArr xs)" "length xs \<le> 64" "map parse_argument xs = map Some argv"
    using assms by (auto simp: parse_argv_def all_some_eq not_less max_argv_items_def as_eq_Some split: option.splits if_splits)
  then show ?thesis using arguments_eq [OF xs(3)] map_eq_imp_length_eq [OF xs(3)] by auto
qed

lemma executable_ok: "is_safe_logical_executable exe \<Longrightarrow>
    exe \<noteq> [] \<and> 47 \<notin> set exe \<and> 0 \<notin> set exe \<and> exe \<notin> js ` {''bash'', ''sh'', ''.'', ''..''}"
  by (cases exe) (auto simp: is_safe_logical_executable_def logical_executable_def list_all_iff name_unit_def
      is_alnum_def is_digit_def is_lower_def is_upper_def)

lemma cwd_ok: "is_safe_recipe_cwd cwd \<Longrightarrow> cwd = js ''.'' \<or> safe_path cwd"
  by (auto simp: is_safe_recipe_cwd_def list_all_iff proper_component_def js_def intro!: split_safe)

lemma parse_recipe_ok:
  assumes "parse_recipe key v = Some r" and "doc = Some (JObj fs)" and "get fs ''recipes'' = Some (JObj rs)"
    and "map_of rs key = Some v"
  shows "rl_id r = js ''config:'' @ key \<and> configured doc (rl_id r) (rl_executable r) (rl_argv r) (rl_cwd r)"
proof -
  obtain cs where v: "v = JObj cs" and id: "rl_id r = js ''config:'' @ key"
    and exe: "get cs ''logicalExecutable'' = Some (JStr (rl_executable r))" "is_safe_logical_executable (rl_executable r)"
    and argv: "parse_argv (get cs ''argv'') = Some (rl_argv r)"
    and cwd: "get cs ''cwd'' = Some (JStr (rl_cwd r))" "is_safe_recipe_cwd (rl_cwd r)"
    using assms(1) by (auto simp: parse_recipe_def as_eq_Some split: option.splits if_splits)
  show ?thesis
    using assms(2-4) id exe(1) cwd(1) parse_argv_ok [OF argv] executable_ok [OF exe(2)] cwd_ok [OF cwd(2)]
    by (simp add: configured_def v)
qed

lemma object_entries_value: "(k, v) \<in> set (object_entries fs) \<Longrightarrow> map_of fs k = Some v"
proof -
  assume "(k, v) \<in> set (object_entries fs)"
  then have "k \<in> fst ` set fs" and v: "v = the (map_of fs k)" by (auto simp: object_entries_def)
  then have "map_of fs k \<noteq> None" by (auto simp: map_of_eq_None_iff)
  with v show ?thesis by auto
qed

lemma recipe_file_ok:
  assumes "parse_config_document doc = Some rs"
  shows "distinct (map rl_id rs) \<and> list_all (\<lambda>r. (\<exists>key. rl_id r = js ''config:'' @ key)
     \<and> configured doc (rl_id r) (rl_executable r) (rl_argv r) (rl_cwd r)) rs"
proof -
  obtain fs es where doc: "doc = Some (JObj fs)" "get fs ''recipes'' = Some (JObj es)"
    and es: "map (\<lambda>(k, r). parse_recipe k r) (sort_by (\<lambda>a b. text_le (fst a) (fst b)) (object_entries es)) = map Some rs"
    using assms by (auto simp: parse_config_document_def all_some_eq Let_def as_eq_Some split: option.splits if_splits)
  let ?es = "sort_by (\<lambda>a b. text_le (fst a) (fst b)) (object_entries es)"
  have each: "rl_id r = js ''config:'' @ k \<and> configured doc (rl_id r) (rl_executable r) (rl_argv r) (rl_cwd r)"
    if kr: "(k, r) \<in> set (zip (map fst ?es) rs)" for k r
  proof -
    obtain n where "n < length (zip (map fst ?es) rs)" "zip (map fst ?es) rs ! n = (k, r)"
      using kr by (auto simp: in_set_conv_nth)
    then have n: "n < length ?es" "k = fst (?es ! n)" "r = rs ! n" "n < length rs" by simp_all
    obtain v where v: "?es ! n = (k, v)" using n(2) by (cases "?es ! n") simp
    have "(case ?es ! n of (k, r) \<Rightarrow> parse_recipe k r) = Some (rs ! n)"
      using arg_cong [OF es, where f = "\<lambda>l. l ! n"] n by simp
    then have "parse_recipe k v = Some r" using v n(3) by simp
    moreover have "(k, v) \<in> set (object_entries es)" using nth_mem [OF n(1)] v by (simp add: set_sort_by)
    ultimately show ?thesis using doc object_entries_value by (intro parse_recipe_ok)
  qed
  have len: "length (map fst ?es) = length rs" using map_eq_imp_length_eq [OF es] by simp
  have "map rl_id rs = map (\<lambda>k. js ''config:'' @ k) (map fst ?es)"
  proof (rule nth_equalityI)
    fix n
    assume "n < length (map rl_id rs)"
    then have "(map fst ?es ! n, rs ! n) \<in> set (zip (map fst ?es) rs)" using len by (auto simp only: set_zip length_map)
    then show "map rl_id rs ! n = map (\<lambda>k. js ''config:'' @ k) (map fst ?es) ! n"
      using each len \<open>n < length (map rl_id rs)\<close> by simp
  qed (use len in simp)
  moreover have "distinct (map fst ?es)" by (simp add: distinct_map_sort_by object_entries_keys)
  ultimately have "distinct (map rl_id rs)" by (simp add: distinct_map inj_on_def)
  moreover have "(\<exists>key. rl_id r = js ''config:'' @ key) \<and> configured doc (rl_id r) (rl_executable r) (rl_argv r) (rl_cwd r)"
    if "r \<in> set rs" for r
    using that each len by (metis in_set_impl_in_set_zip2)
  ultimately show ?thesis by (simp add: list_all_iff)
qed

end
