(* ===== verification/Verification.thy ===== *)
theory Verification
  imports Verification_Config "HOL-Library.Multiset"
begin

text \<open>
  The verification capability, \<open>packages/capabilities/src/verification.ts\<close>: which checks a workspace
  offers (package scripts, cargo commands, the recipes of the project's own file), whether its policy
  allows them, and the run of one of them. \<open>Promise.all\<close> over the availability requests is taken in the
  order they are sent.
\<close>

section \<open>Tables\<close>

datatype package_manager = Pnpm | Npm | Yarn | Bun

datatype manager_resolution = Manager_Resolved package_manager | Manager_Unknown | Manager_Conflict

datatype project_kind = Package_Project | Cargo_Project

datatype blocked_reason =
    Process_Not_Allowed
  | Executable_Not_Allowed
  | Executable_Unavailable
  | Sandbox_Unavailable
  | Package_Manager_Conflict
  | Package_Manager_Unknown

record recipe =
  vr_id :: jsstring
  vr_label :: jsstring
  vr_category :: category
  vr_launch :: "(jsstring \<times> jsstring list \<times> jsstring) option"
  vr_source :: recipe_source
  vr_allowed :: bool
  vr_blocked :: "blocked_reason option"

record project_manifests =
  pm_package_paths :: "jsstring list"
  pm_cargo_paths :: "jsstring list"

definition package_json :: jsstring where "package_json = js ''package.json''"

definition cargo_toml :: jsstring where "cargo_toml = js ''Cargo.toml''"

definition max_verification_manifests :: nat where "max_verification_manifests = 128"

definition root_evidence_paths :: "jsstring list" where
  "root_evidence_paths = map js [''package.json'', ''Cargo.toml'', ''pnpm-lock.yaml'', ''package-lock.json'',
     ''npm-shrinkwrap.json'', ''yarn.lock'', ''bun.lock'', ''bun.lockb'']"

text \<open>Script, label and category of the package recipes.\<close>

definition package_recipe_table :: "(string \<times> jsstring \<times> category) list" where
  "package_recipe_table =
     [(''test'', js ''Package test'', Category_Test), (''lint'', js ''Package lint'', Category_Lint),
      (''typecheck'', js ''Package typecheck'', Category_Typecheck), (''build'', js ''Package build'', Category_Build)]"

definition cargo_recipes :: "recipe_launch list" where
  "cargo_recipes = map (\<lambda>(i, label, cat, argv).
       \<lparr>rl_id = js i, rl_label = js label, rl_category = cat, rl_executable = js ''cargo'', rl_argv = map js argv,
        rl_cwd = js ''.'', rl_source = Cargo_Source\<rparr>)
     [(''cargo:test'', ''Cargo test'', Category_Test, [''test'', ''--workspace'']),
      (''cargo:check'', ''Cargo check'', Category_Typecheck, [''check'', ''--workspace'']),
      (''cargo:fmt-check'', ''Cargo fmt check'', Category_Format, [''fmt'', ''--all'', ''--'', ''--check''])]"

text \<open>Suffix, label, category and arguments of the recipes of a nested crate.\<close>

definition cargo_project_table :: "(jsstring \<times> jsstring \<times> category \<times> jsstring list) list" where
  "cargo_project_table =
     [(js ''test'', js ''Cargo test'', Category_Test, map js [''test'', ''--manifest-path'', ''Cargo.toml'']),
      (js ''check'', js ''Cargo check'', Category_Typecheck, map js [''check'', ''--manifest-path'', ''Cargo.toml''])]"

section \<open>Paths\<close>

definition manifest_directory :: "jsstring \<Rightarrow> jsstring" where
  "manifest_directory p = (let ws = split_on 47 p in if length ws = 1 then js ''.'' else join_with 47 (butlast ws))"

definition basename :: "jsstring \<Rightarrow> jsstring" where
  "basename p = last (split_on 47 p)"

definition project_contains_target :: "jsstring \<Rightarrow> jsstring \<Rightarrow> bool" where
  "project_contains_target dir t = (dir = js ''.'' \<or> t = dir \<or> starts_with t (dir @ js ''/''))"

definition project_depth :: "jsstring \<Rightarrow> nat" where
  "project_depth dir = (if dir = js ''.'' then 0 else length (split_on 47 dir))"

definition move_root_first :: "jsstring \<Rightarrow> jsstring list \<Rightarrow> jsstring list" where
  "move_root_first root ps = (case find_index (\<lambda>p. p = root) ps of
     Some (Suc k) \<Rightarrow> root # take (Suc k) ps @ drop (Suc (Suc k)) ps
   | _ \<Rightarrow> ps)"

definition is_safe_relative_target :: "jsstring \<Rightarrow> bool" where
  "is_safe_relative_target t = (t \<noteq> [] \<and> \<not> starts_with t (js ''/'') \<and> list_all proper_component (split_on 47 t))"

section \<open>Discovery\<close>

text \<open>The part of \<open>discoverProjectManifests\<close> after the answer of \<open>tree\<close>.\<close>

definition project_manifests_of :: "listed_path list \<Rightarrow> project_manifests option" where
  "project_manifests_of entries =
     (let paths = sort_by text_le (remdups (filter is_semantic_discovery_path (map lp_path
            (filter (\<lambda>e. lp_kind e = Path_File \<and> (basename (lp_path e) = package_json \<or> basename (lp_path e) = cargo_toml)) entries))))
      in if max_verification_manifests < length paths then None
         else Some \<lparr>pm_package_paths = move_root_first package_json (filter (\<lambda>p. basename p = package_json) paths),
           pm_cargo_paths = move_root_first cargo_toml (filter (\<lambda>p. basename p = cargo_toml) paths)\<rparr>)"

definition discover_project_manifests :: "('w, 'x, 'src, 'op) verifier_host \<Rightarrow> jsstring \<Rightarrow> ('w, 'x, project_manifests) verifier_act" where
  "discover_project_manifests h wid =
     bind_act (discovery (adapter (vh_tree h wid))) (\<lambda>(entries, truncated).
     bind_act (note_event (Saw_Tree wid entries)) (\<lambda>_.
     bind_act (require (\<not> truncated)) (\<lambda>_.
     required (project_manifests_of entries))))"

text \<open>The projects a target lies in, and the kinds of the innermost of them.\<close>

definition containing_projects :: "jsstring \<Rightarrow> project_manifests \<Rightarrow> (project_kind \<times> jsstring) list" where
  "containing_projects t m = filter (\<lambda>(k, dir). project_contains_target dir t)
     (map (\<lambda>p. (Package_Project, manifest_directory p)) (pm_package_paths m)
      @ map (\<lambda>p. (Cargo_Project, manifest_directory p)) (pm_cargo_paths m))"

definition active_project_kinds :: "jsstring option \<Rightarrow> project_manifests \<Rightarrow> project_kind list option" where
  "active_project_kinds target m = (case target of
     None \<Rightarrow> None
   | Some t \<Rightarrow>
       let cs = containing_projects t m; deepest = foldr max (map (\<lambda>(k, dir). project_depth dir) cs) 0
       in Some (map fst (filter (\<lambda>(k, dir). project_depth dir = deepest) cs)))"

definition deeper_first :: "jsstring \<Rightarrow> jsstring \<Rightarrow> bool" where
  "deeper_first l r = (let dl = project_depth (manifest_directory l); dr = project_depth (manifest_directory r)
     in if dl = dr then text_le l r else dr < dl)"

definition scoped_manifest_paths :: "project_kind \<Rightarrow> jsstring list \<Rightarrow> jsstring option \<Rightarrow> project_kind list option \<Rightarrow> jsstring list" where
  "scoped_manifest_paths kind paths target active = (case target of
     None \<Rightarrow> paths
   | Some t \<Rightarrow> (case active of
       None \<Rightarrow> []
     | Some kinds \<Rightarrow>
         if kind \<notin> set kinds then []
         else sort_by deeper_first (filter (\<lambda>p. project_contains_target (manifest_directory p) t) paths)))"

definition read_package_manifest :: "('w, 'x, 'src, 'op) verifier_host \<Rightarrow> jsstring \<Rightarrow> jsstring \<Rightarrow> ('w, 'x, fields) verifier_act" where
  "read_package_manifest h wid p =
     bind_act (discovery (adapter (vh_read h wid p))) (\<lambda>r.
     bind_act (require (whole_file config_max_bytes r)) (\<lambda>_.
     required (as_record (vh_parse h (fr_contents r)))))"

definition package_scripts :: "fields \<Rightarrow> fields" where
  "package_scripts fs = (case as_record (get fs ''scripts'') of None \<Rightarrow> [] | Some ss \<Rightarrow> ss)"

section \<open>Package managers\<close>

definition parse_package_manager :: "jsstring \<Rightarrow> package_manager option" where
  "parse_package_manager s = (if s = js ''pnpm'' then Some Pnpm else if s = js ''npm'' then Some Npm
     else if s = js ''yarn'' then Some Yarn else if s = js ''bun'' then Some Bun else None)"

definition parse_explicit_manager :: "json option \<Rightarrow> package_manager option" where
  "parse_explicit_manager v = (case as_str v of
     None \<Rightarrow> None
   | Some s \<Rightarrow> parse_package_manager (case index_of 64 0 s of None \<Rightarrow> s | Some k \<Rightarrow> take k s))"

definition seen :: "(jsstring \<times> bool) list \<Rightarrow> string \<Rightarrow> bool" where
  "seen evidence p = (map_of evidence (js p) = Some True)"

definition lock_managers :: "(jsstring \<times> bool) list \<Rightarrow> package_manager list" where
  "lock_managers evidence =
     (if seen evidence ''pnpm-lock.yaml'' then [Pnpm] else [])
     @ (if seen evidence ''package-lock.json'' \<or> seen evidence ''npm-shrinkwrap.json'' then [Npm] else [])
     @ (if seen evidence ''yarn.lock'' then [Yarn] else [])
     @ (if seen evidence ''bun.lock'' \<or> seen evidence ''bun.lockb'' then [Bun] else [])"

definition resolve_package_manager :: "fields \<Rightarrow> (jsstring \<times> bool) list \<Rightarrow> manager_resolution" where
  "resolve_package_manager fs evidence =
     (let locks = lock_managers evidence in
      case parse_explicit_manager (get fs ''packageManager'') of
        Some m \<Rightarrow> if 1 < length locks \<or> length locks = 1 \<and> m \<notin> set locks then Manager_Conflict else Manager_Resolved m
      | None \<Rightarrow> if 1 < length locks then Manager_Conflict
          else (case locks of [] \<Rightarrow> Manager_Unknown | m # _ \<Rightarrow> Manager_Resolved m))"

definition resolve_nested_package_manager :: "fields \<Rightarrow> (jsstring \<times> bool) list \<Rightarrow> manager_resolution \<Rightarrow> manager_resolution" where
  "resolve_nested_package_manager fs evidence root =
     (let local = resolve_package_manager fs evidence in
      if local \<noteq> Manager_Unknown then local
      else (case root of Manager_Resolved m \<Rightarrow> root | _ \<Rightarrow> local))"

definition manager_name :: "package_manager \<Rightarrow> jsstring" where
  "manager_name m = (case m of Pnpm \<Rightarrow> js ''pnpm'' | Npm \<Rightarrow> js ''npm'' | Yarn \<Rightarrow> js ''yarn'' | Bun \<Rightarrow> js ''bun'')"

section \<open>Recipes\<close>

definition decided_recipe :: "recipe_launch \<Rightarrow> blocked_reason option \<Rightarrow> recipe" where
  "decided_recipe r blocked = \<lparr>vr_id = rl_id r, vr_label = rl_label r, vr_category = rl_category r,
     vr_launch = Some (rl_executable r, rl_argv r, rl_cwd r), vr_source = rl_source r,
     vr_allowed = (blocked = None), vr_blocked = blocked\<rparr>"

definition with_static_availability :: "('w, 'x, 'src, 'op) verifier_host \<Rightarrow> jsstring \<Rightarrow> policy \<Rightarrow> recipe_launch \<Rightarrow>
    ('w, 'x, recipe) verifier_act" where
  "with_static_availability h wid p r =
     (if \<not> allow_process p then ret_act (decided_recipe r (Some Process_Not_Allowed))
      else if rl_executable r \<notin> set (allowed_executable_names p) \<and> \<not> allow_dynamic_executables p
      then ret_act (decided_recipe r (Some Executable_Not_Allowed))
      else catch_act
        (bind_act (adapter (vh_executable h wid (rl_executable r))) (\<lambda>(executable, sandbox).
         bind_act (note_event (Saw_Executable wid (rl_executable r) executable sandbox)) (\<lambda>_.
         ret_act (decided_recipe r
           (if \<not> executable then Some Executable_Unavailable else if \<not> sandbox then Some Sandbox_Unavailable else None)))))
        (\<lambda>_. ret_act (decided_recipe r (Some Executable_Unavailable))))"

definition package_recipe_id :: "jsstring \<Rightarrow> jsstring \<Rightarrow> jsstring" where
  "package_recipe_id dir script = (if dir = js ''.'' then js ''package:'' @ script else js ''package:'' @ dir @ js '':'' @ script)"

definition unresolved_recipe :: "blocked_reason \<Rightarrow> jsstring \<Rightarrow> string \<times> jsstring \<times> category \<Rightarrow> recipe" where
  "unresolved_recipe why dir d = (case d of (script, label, cat) \<Rightarrow>
     \<lparr>vr_id = package_recipe_id dir (js script), vr_label = label, vr_category = cat, vr_launch = None,
      vr_source = Package_Script, vr_allowed = False, vr_blocked = Some why\<rparr>)"

definition package_launch :: "package_manager \<Rightarrow> jsstring \<Rightarrow> string \<times> jsstring \<times> category \<Rightarrow> recipe_launch" where
  "package_launch m dir d = (case d of (script, label, cat) \<Rightarrow>
     \<lparr>rl_id = package_recipe_id dir (js script), rl_label = label, rl_category = cat, rl_executable = manager_name m,
      rl_argv = [js ''run'', js script], rl_cwd = dir, rl_source = Package_Script\<rparr>)"

definition package_recipes :: "('w, 'x, 'src, 'op) verifier_host \<Rightarrow> jsstring \<Rightarrow> policy \<Rightarrow> fields \<Rightarrow> manager_resolution \<Rightarrow> jsstring \<Rightarrow>
    ('w, 'x, recipe list) verifier_act" where
  "package_recipes h wid p scripts manager dir =
     (let definitions = filter (\<lambda>(script, label, cat). as_str (get scripts script) \<noteq> None) package_recipe_table in
      case manager of
        Manager_Resolved m \<Rightarrow> map_act (\<lambda>d. with_static_availability h wid p (package_launch m dir d)) definitions
      | Manager_Conflict \<Rightarrow> ret_act (map (unresolved_recipe Package_Manager_Conflict dir) definitions)
      | Manager_Unknown \<Rightarrow> ret_act (map (unresolved_recipe Package_Manager_Unknown dir) definitions))"

definition cargo_launch :: "jsstring \<Rightarrow> jsstring \<times> jsstring \<times> category \<times> jsstring list \<Rightarrow> recipe_launch" where
  "cargo_launch dir d = (case d of (suffix, label, cat, argv) \<Rightarrow>
     \<lparr>rl_id = js ''cargo:'' @ dir @ js '':'' @ suffix, rl_label = label @ js '' ('' @ dir @ js '')'', rl_category = cat,
      rl_executable = js ''cargo'', rl_argv = argv, rl_cwd = dir, rl_source = Cargo_Source\<rparr>)"

definition cargo_project_recipes :: "('w, 'x, 'src, 'op) verifier_host \<Rightarrow> jsstring \<Rightarrow> policy \<Rightarrow> jsstring \<Rightarrow> ('w, 'x, recipe list) verifier_act" where
  "cargo_project_recipes h wid p dir = map_act (\<lambda>d. with_static_availability h wid p (cargo_launch dir d)) cargo_project_table"

section \<open>The two operations\<close>

record list_input =
  li_workspace :: jsstring
  li_target :: "jsstring option"

definition validate_list_input :: "list_input \<Rightarrow> bool" where
  "validate_list_input i = (li_workspace i \<noteq> [] \<and> (case li_target i of None \<Rightarrow> True | Some t \<Rightarrow> is_safe_relative_target t))"

text \<open>The evidence of the root, one \<open>pathIdentity\<close> after the other.\<close>

definition root_evidence :: "('w, 'x, 'src, 'op) verifier_host \<Rightarrow> jsstring \<Rightarrow> ('w, 'x, (jsstring \<times> bool) list) verifier_act" where
  "root_evidence h wid = discovery (map_act (\<lambda>p.
     bind_act (adapter (vh_identity h wid p)) (\<lambda>ident.
     ret_act (p, pi_exists ident \<and> pi_kind ident = Some Path_File))) root_evidence_paths)"

definition policy_snapshot :: "('w, 'x, 'src, 'op) verifier_host \<Rightarrow> jsstring \<Rightarrow> ('w, 'x, policy) verifier_act" where
  "policy_snapshot h wid =
     bind_act (adapter (vh_policy h wid)) (\<lambda>p. bind_act (note_event (Saw_Policy wid p)) (\<lambda>_. ret_act p))"

text \<open>The bodies of the two loops over manifests.\<close>

definition package_manifest_recipes :: "('w, 'x, 'src, 'op) verifier_host \<Rightarrow> jsstring \<Rightarrow> policy \<Rightarrow> (jsstring \<times> bool) list \<Rightarrow>
    fields option \<Rightarrow> manager_resolution \<Rightarrow> jsstring \<Rightarrow> ('w, 'x, recipe list) verifier_act" where
  "package_manifest_recipes h wid p evidence root root_manager path =
     bind_act (case root of
         Some fs \<Rightarrow> if path = package_json then ret_act fs else read_package_manifest h wid path
       | None \<Rightarrow> read_package_manifest h wid path) (\<lambda>fs.
     package_recipes h wid p (package_scripts fs)
       (if path = package_json then root_manager else resolve_nested_package_manager fs evidence root_manager)
       (manifest_directory path))"

definition cargo_manifest_recipes :: "('w, 'x, 'src, 'op) verifier_host \<Rightarrow> jsstring \<Rightarrow> policy \<Rightarrow> jsstring \<Rightarrow> ('w, 'x, recipe list) verifier_act" where
  "cargo_manifest_recipes h wid p path =
     (if path = cargo_toml then map_act (with_static_availability h wid p) cargo_recipes
      else cargo_project_recipes h wid p (manifest_directory path))"

definition list_verifications :: "('w, 'x, 'src, 'op) verifier_host \<Rightarrow> list_input \<Rightarrow> ('w, 'x, recipe list) verifier_act" where
  "list_verifications h i =
     bind_act (guard_act (validate_list_input i) Verify_Input_Invalid) (\<lambda>_.
     let wid = li_workspace i in
     bind_act (root_evidence h wid) (\<lambda>evidence.
     bind_act (discover_project_manifests h wid) (\<lambda>m.
     bind_act (require (seen evidence ''package.json'' = (package_json \<in> set (pm_package_paths m))
       \<and> seen evidence ''Cargo.toml'' = (cargo_toml \<in> set (pm_cargo_paths m)))) (\<lambda>_.
     let active = active_project_kinds (li_target i) m in
     bind_act (policy_snapshot h wid) (\<lambda>p.
     bind_act (read_verification_config h wid) (\<lambda>configured.
     let packages = scoped_manifest_paths Package_Project (pm_package_paths m) (li_target i) active;
         crates = scoped_manifest_paths Cargo_Project (pm_cargo_paths m) (li_target i) active in
     bind_act (if package_json \<in> set packages
         then bind_act (read_package_manifest h wid package_json) (\<lambda>fs. ret_act (Some fs)) else ret_act None) (\<lambda>root.
     let root_manager = resolve_package_manager (case root of None \<Rightarrow> [] | Some fs \<Rightarrow> fs) evidence in
     bind_act (map_act (package_manifest_recipes h wid p evidence root root_manager) packages) (\<lambda>rs.
     bind_act (map_act (cargo_manifest_recipes h wid p) crates) (\<lambda>cs.
     bind_act (map_act (with_static_availability h wid p) configured) (\<lambda>ds.
     ret_act (concat rs @ concat cs @ ds)))))))))))"

record run_input =
  ri_workspace :: jsstring
  ri_recipe :: jsstring
  ri_background :: "bool option"

definition request_of :: "run_input \<Rightarrow> recipe \<Rightarrow> jsstring \<times> jsstring list \<times> jsstring \<Rightarrow> run_request" where
  "request_of i r l = (case l of (exe, argv, cwd) \<Rightarrow>
     \<lparr>rq_workspace = ri_workspace i, rq_recipe = vr_id r, rq_executable = exe, rq_argv = argv, rq_cwd = cwd,
      rq_background = ri_background i\<rparr>)"

definition run_verification :: "('w, 'x, 'src, 'op) verifier_host \<Rightarrow> run_input \<Rightarrow> ('w, 'x, recipe \<times> 'op \<times> 'src) verifier_act" where
  "run_verification h i =
     bind_act (guard_act (validate_list_input \<lparr>li_workspace = ri_workspace i, li_target = None\<rparr> \<and> ri_recipe i \<noteq> [])
       Verify_Input_Invalid) (\<lambda>_.
     bind_act (list_verifications h \<lparr>li_workspace = ri_workspace i, li_target = None\<rparr>) (\<lambda>rs.
     case find (\<lambda>r. vr_id r = ri_recipe i) rs of
       None \<Rightarrow> throw_act Verify_Not_Found
     | Some r \<Rightarrow> (case (vr_allowed r, vr_launch r) of
         (True, Some l) \<Rightarrow>
           bind_act (adapter (vh_source h (ri_workspace i))) (\<lambda>src.
           bind_act (note_event (Ran (request_of i r l))) (\<lambda>_.
           bind_act (adapter (vh_run h (request_of i r l))) (\<lambda>operation.
           ret_act (r, operation, src))))
       | _ \<Rightarrow> throw_act Verify_Not_Allowed)))"

section \<open>What listing asks for\<close>

definition is_run :: "verification_event \<Rightarrow> bool" where
  "is_run ev = (case ev of Ran q \<Rightarrow> True | _ \<Rightarrow> False)"

text \<open>Steps that add to the log and run nothing, and the part of the log added since \<open>s\<close>.\<close>

definition asking :: "'w verifier \<Rightarrow> 'w verifier \<Rightarrow> bool" where
  "asking s t \<longleftrightarrow> (\<exists>evs. vf_log t = vf_log s @ evs \<and> list_all (\<lambda>ev. \<not> is_run ev) evs)"

definition since :: "'w verifier \<Rightarrow> 'w verifier \<Rightarrow> verification_event set" where
  "since s t = set (drop (length (vf_log s)) (vf_log t))"

interpretation asking: run_relation asking
proof unfold_locales
  show "asking s s" for s :: "'w verifier" by (simp add: asking_def)
  show "asking s u" if "asking s t" "asking t u" for s t u :: "'w verifier" using that by (auto simp: asking_def)
qed

lemma since_grows: "asking t u \<Longrightarrow> since s t \<subseteq> since s u"
  by (auto simp: asking_def since_def)

lemma asking_steps: "obeys asking (adapter f)" "\<not> is_run ev \<Longrightarrow> obeys asking (note_event ev)"
  by (auto simp: obeys_def adapter_def note_event_def act_simps asking_def split: prod.splits sum.splits)

lemma asking_checks: "obeys asking (require b)" "obeys asking (required v)" "obeys asking m \<Longrightarrow> obeys asking (discovery m)"
  unfolding require_def required_def discovery_def by (intro asking.obeys_intros | assumption)+

lemma asking_config: "obeys asking (read_verification_config h wid)"
  unfolding read_verification_config_def
  by (intro asking.obeys_intros asking_steps asking_checks) (simp add: is_run_def)

lemma asking_calls:
  "obeys asking (discover_project_manifests h wid)" "obeys asking (read_package_manifest h wid path)"
  "obeys asking (root_evidence h wid)" "obeys asking (policy_snapshot h wid)"
  unfolding discover_project_manifests_def read_package_manifest_def root_evidence_def policy_snapshot_def
  by (intro asking.obeys_intros asking_steps asking_checks; simp add: is_run_def)+

section \<open>What a recipe stands on\<close>

text \<open>
  A manifest of this name in this directory, in the tree, outside the directories that belong to
  tools and dependencies.
\<close>

definition skipped_directories :: "jsstring set" where
  "skipped_directories = js ` {''.git'', ''.worktrees'', ''node_modules'', ''vendor'', ''target'', ''dist'', ''build'',
     ''coverage'', ''out'', ''__pycache__'', ''.cache'', ''.vite'', ''.turbo'', ''.next'', ''.nuxt'', ''.svelte-kit'',
     ''.pytest_cache'', ''.mypy_cache'', ''.ruff_cache'', ''.tox'', ''.venv'', ''venv'', ''.VSCodeCounter'',
     ''.code-review-graph''}"

definition manifest_in :: "listed_path list \<Rightarrow> string \<Rightarrow> jsstring \<Rightarrow> bool" where
  "manifest_in entries name dir \<longleftrightarrow> (\<exists>e \<in> set entries. lp_kind e = Path_File
     \<and> (lp_path e = dir @ 47 # js name \<or> dir = js ''.'' \<and> lp_path e = js name)
     \<and> set (split_on 47 (lp_path e)) \<inter> skipped_directories = {})"

text \<open>
  The three forms of a command, each with the identifier it is listed under: a script of a package, a
  cargo command of a crate, and a recipe of the file the workspace was seen to have.
\<close>

definition script_names :: "string set" where
  "script_names = {''test'', ''lint'', ''typecheck'', ''build''}"

definition package_command :: "listed_path list \<Rightarrow> jsstring \<Rightarrow> jsstring \<Rightarrow> jsstring list \<Rightarrow> jsstring \<Rightarrow> bool" where
  "package_command entries i exe argv dir \<longleftrightarrow> manifest_in entries ''package.json'' dir
     \<and> exe \<in> js ` {''pnpm'', ''npm'', ''yarn'', ''bun''}
     \<and> (\<exists>script \<in> script_names. argv = [js ''run'', js script]
          \<and> i = (if dir = js ''.'' then js ''package:'' @ js script else js ''package:'' @ dir @ 58 # js script))"

definition cargo_command :: "listed_path list \<Rightarrow> jsstring \<Rightarrow> jsstring \<Rightarrow> jsstring list \<Rightarrow> jsstring \<Rightarrow> bool" where
  "cargo_command entries i exe argv dir \<longleftrightarrow> manifest_in entries ''Cargo.toml'' dir \<and> exe = js ''cargo''
     \<and> (dir = js ''.'' \<and> (i = js ''cargo:test'' \<and> argv = [js ''test'', js ''--workspace'']
            \<or> i = js ''cargo:check'' \<and> argv = [js ''check'', js ''--workspace'']
            \<or> i = js ''cargo:fmt-check'' \<and> argv = [js ''fmt'', js ''--all'', js ''--'', js ''--check''])
        \<or> i = js ''cargo:'' @ dir @ 58 # js ''test'' \<and> argv = [js ''test'', js ''--manifest-path'', js ''Cargo.toml'']
        \<or> i = js ''cargo:'' @ dir @ 58 # js ''check'' \<and> argv = [js ''check'', js ''--manifest-path'', js ''Cargo.toml''])"

definition command_ok :: "jsstring \<Rightarrow> verification_event set \<Rightarrow> jsstring \<Rightarrow> jsstring \<times> jsstring list \<times> jsstring \<Rightarrow> bool" where
  "command_ok wid L i l \<longleftrightarrow> (case l of (exe, argv, cwd) \<Rightarrow>
     (\<exists>entries. Saw_Tree wid entries \<in> L
        \<and> (package_command entries i exe argv cwd \<or> cargo_command entries i exe argv cwd))
     \<or> (\<exists>doc. Saw_Recipe_File wid doc \<in> L \<and> configured doc i exe argv cwd))"

lemma command_mono: "command_ok wid L i l \<Longrightarrow> L \<subseteq> M \<Longrightarrow> command_ok wid M i l"
  unfolding command_ok_def by (cases l) blast

definition backed :: "jsstring \<Rightarrow> verification_event set \<Rightarrow> recipe \<Rightarrow> bool" where
  "backed wid L r \<longleftrightarrow> (case vr_launch r of
     None \<Rightarrow> \<not> vr_allowed r
   | Some (exe, argv, cwd) \<Rightarrow> command_ok wid L (vr_id r) (exe, argv, cwd)
       \<and> (vr_allowed r \<longrightarrow> Saw_Executable wid exe True True \<in> L
            \<and> (\<exists>p. Saw_Policy wid p \<in> L \<and> allow_process p
                 \<and> (exe \<in> set (allowed_executable_names p) \<or> allow_dynamic_executables p))))"

lemma backed_mono: "backed wid L r \<Longrightarrow> L \<subseteq> M \<Longrightarrow> backed wid M r"
  by (auto simp: backed_def intro: command_mono split: option.splits)

lemma adapter_wp:
  assumes "\<And>x u. vf_log u = vf_log s \<Longrightarrow> Q x u" and "\<And>e u. vf_log u = vf_log s \<Longrightarrow> E (Adapter_Error e) u"
  shows "wp (adapter f) Q E s"
  using assms by (auto simp: wp_def adapter_def split: prod.splits sum.splits)

lemma note_wp: "(\<And>u. vf_log u = vf_log s @ [ev] \<Longrightarrow> Q () u) \<Longrightarrow> wp (note_event ev) Q E s"
  by (simp add: note_event_def wp_write)

lemma asking_log: "vf_log u = vf_log s @ evs \<Longrightarrow> list_all (\<lambda>ev. \<not> is_run ev) evs \<Longrightarrow> asking s u"
  by (auto simp: asking_def)

lemma since_last: "vf_log u = vf_log t @ [ev] \<Longrightarrow> asking s t \<Longrightarrow> ev \<in> since s u"
  by (auto simp: since_def asking_def)

lemma availability_wp:
  assumes "Saw_Policy wid p \<in> since s t"
    and "command_ok wid (since s t) (rl_id r) (rl_executable r, rl_argv r, rl_cwd r)" and "asking s t"
  shows "wp (with_static_availability h wid p r)
     (\<lambda>v u. asking t u \<and> backed wid (since s u) v \<and> vr_id v = rl_id r) E t"
proof -
  have blocked: "wp (ret_act (decided_recipe r (Some why))) (\<lambda>v u. asking t u \<and> backed wid (since s u) v \<and> vr_id v = rl_id r) E u"
    if "asking t u" for u why and E
    using command_mono [OF assms(2) since_grows [OF that]] that
    by (intro wp_ret) (auto simp: backed_def decided_recipe_def)
  have asked: "backed wid (since s v) (decided_recipe r
      (if \<not> executable then Some Executable_Unavailable else if \<not> sandbox then Some Sandbox_Unavailable else None))"
    if "allow_process p" "rl_executable r \<in> set (allowed_executable_names p) \<or> allow_dynamic_executables p"
      "asking t v" "Saw_Executable wid (rl_executable r) executable sandbox \<in> since s v" for v executable sandbox
    using assms(1) command_mono [OF assms(2) since_grows [OF that(3)]] that since_grows [OF that(3), of s]
    by (auto simp: backed_def decided_recipe_def)
  show ?thesis
  proof (cases "allow_process p \<and> (rl_executable r \<in> set (allowed_executable_names p) \<or> allow_dynamic_executables p)")
    case False
    then show ?thesis
      unfolding with_static_availability_def using blocked [OF asking.R_refl] by auto
  next
    case True
    have "wp (catch_act (bind_act (adapter (vh_executable h wid (rl_executable r))) (\<lambda>(executable, sandbox).
         bind_act (note_event (Saw_Executable wid (rl_executable r) executable sandbox)) (\<lambda>_.
         ret_act (decided_recipe r
           (if \<not> executable then Some Executable_Unavailable else if \<not> sandbox then Some Sandbox_Unavailable else None)))))
        (\<lambda>_. ret_act (decided_recipe r (Some Executable_Unavailable))))
      (\<lambda>v u. asking t u \<and> backed wid (since s u) v \<and> vr_id v = rl_id r) E t" (is "wp (catch_act ?ask ?no) ?Q E t")
    proof (intro wp_catch wp_bind adapter_wp wp_prod note_wp)
      fix x executable sandbox and u v :: "'a verifier"
      assume u: "vf_log u = vf_log t" "vf_log v = vf_log u @ [Saw_Executable wid (rl_executable r) executable sandbox]"
      then have "asking t v" "Saw_Executable wid (rl_executable r) executable sandbox \<in> since s v"
        using assms(3) since_last [of v t] by (auto simp: asking_def is_run_def)
      then show "wp (ret_act (decided_recipe r
          (if \<not> executable then Some Executable_Unavailable else if \<not> sandbox then Some Sandbox_Unavailable else None)))
          ?Q (\<lambda>e. wp (?no e) ?Q E) v"
        using True asked by (intro wp_ret) (simp add: decided_recipe_def)
    qed (rule blocked, simp add: asking_def)
    then show ?thesis using True by (auto simp: with_static_availability_def)
  qed
qed

section \<open>Manifests\<close>

lemma move_root_first_perm: "mset (move_root_first root ps) = mset ps"
proof -
  have "mset (root # take (Suc k) ps @ drop (Suc (Suc k)) ps) = mset ps"
    if "find_index (\<lambda>p. p = root) ps = Some (Suc k)" for k
  proof -
    have "Suc k < length ps" "ps ! Suc k = root" using find_index_Some [OF that] by auto
    then have "ps = take (Suc k) ps @ root # drop (Suc (Suc k)) ps" by (metis id_take_nth_drop)
    then have "mset ps = mset (take (Suc k) ps @ root # drop (Suc (Suc k)) ps)" by (rule arg_cong)
    moreover have "mset (root # a @ b) = mset (a @ root # b)" for a b :: "jsstring list" by simp
    ultimately show ?thesis by metis
  qed
  then show ?thesis by (auto simp: move_root_first_def split: option.splits nat.splits)
qed

lemma move_root_first_set [simp]: "set (move_root_first root ps) = set ps"
  by (metis move_root_first_perm set_mset_mset)

lemma excluded_set: "set excluded_directories = skipped_directories"
  by (simp add: excluded_directories_def skipped_directories_def)

lemma join_last: "ws \<noteq> [] \<Longrightarrow> butlast ws \<noteq> [] \<Longrightarrow> join_with c ws = join_with c (butlast ws) @ c # last ws"
  by (induction c ws rule: join_with.induct) (auto split: if_splits)

lemma manifest_path: "p = manifest_directory p @ 47 # basename p \<or> manifest_directory p = js ''.'' \<and> p = basename p"
proof (cases "length (split_on 47 p) = 1")
  case True
  then have "split_on 47 p = [basename p]" by (cases "split_on 47 p") (auto simp: basename_def)
  then have "p = basename p" using join_split [of 47 p] by (metis join_with.simps(2))
  then show ?thesis using True by (simp add: manifest_directory_def)
next
  case False
  then have "butlast (split_on 47 p) \<noteq> []" by (cases "split_on 47 p") (auto split: if_splits)
  then have "p = join_with 47 (butlast (split_on 47 p)) @ 47 # basename p"
    using join_last [of "split_on 47 p" 47] by (simp add: join_split basename_def)
  then show ?thesis using False by (simp add: manifest_directory_def Let_def)
qed

lemma manifests_ok:
  assumes "project_manifests_of entries = Some m"
  shows "(p \<in> set (pm_package_paths m) \<longrightarrow> manifest_in entries ''package.json'' (manifest_directory p))
    \<and> (p \<in> set (pm_cargo_paths m) \<longrightarrow> manifest_in entries ''Cargo.toml'' (manifest_directory p))
    \<and> (p \<in> set (pm_package_paths m) \<union> set (pm_cargo_paths m) \<longrightarrow> p \<in> lp_path ` set entries)"
proof -
  have found: "manifest_in entries name (manifest_directory p)"
    if "e \<in> set entries" "lp_path e = p" "lp_kind e = Path_File" "is_semantic_discovery_path p" "basename p = js name"
    for e name
  proof -
    have "p = manifest_directory p @ 47 # js name \<or> manifest_directory p = js ''.'' \<and> p = js name"
      using manifest_path [of p] that(5) by auto
    moreover have "set (split_on 47 p) \<inter> skipped_directories = {}"
      using that(4) by (auto simp: is_semantic_discovery_path_def list_ex_iff excluded_set)
    ultimately show ?thesis using that(1-3) unfolding manifest_in_def by (intro bexI [of _ e]) auto
  qed
  have "p \<in> set (pm_package_paths m) \<longrightarrow> (\<exists>e \<in> set entries. lp_path e = p \<and> lp_kind e = Path_File
      \<and> is_semantic_discovery_path p \<and> basename p = js ''package.json'')"
    "p \<in> set (pm_cargo_paths m) \<longrightarrow> (\<exists>e \<in> set entries. lp_path e = p \<and> lp_kind e = Path_File
      \<and> is_semantic_discovery_path p \<and> basename p = js ''Cargo.toml'')"
    using assms by (auto simp: project_manifests_of_def Let_def package_json_def cargo_toml_def split: if_splits)
  then show ?thesis using found by blast
qed

lemma scoped_subset: "set (scoped_manifest_paths kind paths target active) \<subseteq> set paths"
  by (auto simp: scoped_manifest_paths_def split: option.splits)

section \<open>Listing\<close>

definition ready :: "jsstring \<Rightarrow> policy \<Rightarrow> listed_path list \<Rightarrow> 'w verifier \<Rightarrow> 'w verifier \<Rightarrow> bool" where
  "ready wid p entries s t \<longleftrightarrow> asking s t \<and> Saw_Policy wid p \<in> since s t \<and> Saw_Tree wid entries \<in> since s t"

lemma ready_mono: "ready wid p entries s t \<Longrightarrow> asking t u \<Longrightarrow> ready wid p entries s u"
  using since_grows [of t u s] by (auto simp: ready_def intro: asking.R_trans)

lemma map_act_map: "map_act (\<lambda>x. f (g x)) xs = map_act f (map g xs)"
  by (induction xs) simp_all

lemma launches_wp:
  assumes "ready wid p entries s t"
    and "\<And>r. r \<in> set rs \<Longrightarrow> command_ok wid (since s t) (rl_id r) (rl_executable r, rl_argv r, rl_cwd r)"
  shows "wp (map_act (with_static_availability h wid p) rs)
     (\<lambda>vs u. asking t u \<and> list_all (backed wid (since s u)) vs \<and> map vr_id vs = map rl_id rs) E t"
proof (rule asking.wp_map [where I = "\<lambda>u. ready wid p entries s u \<and> asking t u"
      and P = "\<lambda>r v u. backed wid (since s u) v \<and> vr_id v = rl_id r"])
  show "ready wid p entries s t \<and> asking t t" by (simp add: assms(1) asking.R_refl)
  show "wp (with_static_availability h wid p r)
      (\<lambda>v w. (ready wid p entries s w \<and> asking t w) \<and> asking u w \<and> backed wid (since s w) v \<and> vr_id v = rl_id r) E u"
    if r: "r \<in> set rs" and u: "ready wid p entries s u \<and> asking t u" for r u
  proof (rule wp_mono [OF availability_wp [of wid p s u]])
    show "command_ok wid (since s u) (rl_id r) (rl_executable r, rl_argv r, rl_cwd r)"
      using command_mono [OF assms(2) [OF r] since_grows] u by blast
  qed (use u ready_mono [of wid p entries s u] asking.R_trans in \<open>auto simp: ready_def\<close>)
  show "backed wid (since s w) v \<and> vr_id v = rl_id r" if "backed wid (since s u) v \<and> vr_id v = rl_id r" "asking u w" for r v u w
    using that backed_mono since_grows by blast
qed (auto simp: list_all2_conv_all_nth list_all_length intro: nth_equalityI)

text \<open>The identifiers of the recipes of one manifest.\<close>

definition cargo_suffixes :: "string set" where
  "cargo_suffixes = {''test'', ''check''}"

definition cargo_root_ids :: "jsstring set" where
  "cargo_root_ids = js ` {''cargo:test'', ''cargo:check'', ''cargo:fmt-check''}"

definition package_ids :: "jsstring \<Rightarrow> recipe list \<Rightarrow> bool" where
  "package_ids path vs \<longleftrightarrow> distinct (map vr_id vs)
     \<and> vr_id ` set vs \<subseteq> (\<lambda>script. package_recipe_id (manifest_directory path) (js script)) ` script_names"

definition cargo_ids :: "jsstring \<Rightarrow> recipe list \<Rightarrow> bool" where
  "cargo_ids path vs \<longleftrightarrow> distinct (map vr_id vs)
     \<and> vr_id ` set vs \<subseteq> (if path = cargo_toml then cargo_root_ids
          else (\<lambda>suffix. js ''cargo:'' @ manifest_directory path @ 58 # js suffix) ` cargo_suffixes)"

text \<open>The text after the last colon.\<close>

lemma last_colon:
  fixes a b x y :: "nat list"
  assumes "x @ 58 # a = y @ 58 # b" and "58 \<notin> set a" and "58 \<notin> set b"
  shows "x = y \<and> a = b"
proof -
  have "rev a @ 58 # rev x = rev b @ 58 # rev y" using arg_cong [OF assms(1), where f = rev] by simp
  moreover have "takeWhile (\<lambda>u. u \<noteq> 58) (rev c @ 58 # z) = rev c" if "58 \<notin> set c" for c z :: "nat list"
    using that by (auto simp: takeWhile_append)
  ultimately have "rev a = rev b" using assms(2,3) by metis
  then show ?thesis using assms(1) by simp
qed

lemma package_recipe_id_eq:
  assumes "58 \<notin> set a" and "58 \<notin> set b"
  shows "package_recipe_id d a = package_recipe_id e b \<longleftrightarrow> d = e \<and> a = b"
proof -
  have mixed: "b \<noteq> x @ 58 # a" "a \<noteq> x @ 58 # b" for x using assms by auto
  have colon: "js '':'' = [58]" by (simp add: js_def)
  have both: "x @ 58 # a = y @ 58 # b \<longleftrightarrow> x = y \<and> a = b" for x y using last_colon [OF _ assms] by blast
  show ?thesis
    unfolding package_recipe_id_def colon by (cases "d = js ''.''"; cases "e = js ''.''") (simp_all add: mixed mixed [symmetric] both)
qed

lemma script_colon: "script \<in> script_names \<Longrightarrow> 58 \<notin> set (js script)"
  by (auto simp: js_def script_names_def)

lemma package_recipe_id_inj: "(\<And>s. s \<in> S \<Longrightarrow> 58 \<notin> set (js s)) \<Longrightarrow> inj_on (package_recipe_id d) (js ` S)"
  by (rule inj_onI) (auto simp: package_recipe_id_eq)

lemma package_table:
  "distinct (map (\<lambda>(script, _). js script) package_recipe_table)"
  "(script, x) \<in> set package_recipe_table \<Longrightarrow> script \<in> script_names"
  by (auto simp: package_recipe_table_def script_names_def)

lemma package_idsI:
  assumes "map vr_id vs = map (\<lambda>(script, _). package_recipe_id (manifest_directory path) (js script)) (filter q package_recipe_table)"
  shows "package_ids path vs"
proof -
  let ?scripts = "map (\<lambda>(script, _). js script) (filter q package_recipe_table)"
  let ?id = "package_recipe_id (manifest_directory path)"
  have "distinct ?scripts" by (rule distinct_map_filter) (rule package_table)
  moreover have sub: "set ?scripts \<subseteq> js ` script_names"
    using package_table(2) by fastforce
  moreover have "inj_on ?id (js ` script_names)"
    by (rule package_recipe_id_inj [OF script_colon])
  ultimately have d: "distinct (map ?id ?scripts)" unfolding distinct_map by (blast intro: inj_on_subset)
  have m: "map vr_id vs = map ?id ?scripts" using assms by (simp add: comp_def case_prod_unfold)
  then have "vr_id ` set vs = ?id ` set ?scripts" by (metis list.set_map)
  also have "\<dots> \<subseteq> ?id ` js ` script_names" by (rule image_mono [OF sub])
  finally have "vr_id ` set vs \<subseteq> (\<lambda>script. ?id (js script)) ` script_names"
    unfolding image_image .
  then show ?thesis using d unfolding package_ids_def m by blast
qed

lemma package_recipes_wp:
  assumes "ready wid p entries s t" and "manifest_in entries ''package.json'' (manifest_directory path)"
  shows "wp (package_recipes h wid p scripts manager (manifest_directory path))
     (\<lambda>vs u. asking t u \<and> list_all (backed wid (since s u)) vs \<and> package_ids path vs) E t"
proof -
  let ?ds = "filter (\<lambda>(script, label, cat). as_str (get scripts script) \<noteq> None) package_recipe_table"
  have none: "wp (ret_act (map (unresolved_recipe why (manifest_directory path)) ?ds))
      (\<lambda>vs u. asking t u \<and> list_all (backed wid (since s u)) vs \<and> package_ids path vs) E t" for why
    by (intro wp_ret conjI package_idsI [of _ _ "\<lambda>(script, label, cat). as_str (get scripts script) \<noteq> None"] asking.R_refl)
      (simp_all add: list_all_iff backed_def unresolved_recipe_def case_prod_unfold comp_def)
  have ids: "map rl_id (map (package_launch m (manifest_directory path)) ?ds)
      = map (\<lambda>(script, _). package_recipe_id (manifest_directory path) (js script)) ?ds" for m
    by (auto simp: package_launch_def split: prod.splits)
  have ok: "command_ok wid (since s t) (rl_id r) (rl_executable r, rl_argv r, rl_cwd r)"
    if r: "r \<in> set (map (package_launch m (manifest_directory path)) ?ds)" for r m
  proof -
    obtain script label cat where d: "(script, label, cat) \<in> set package_recipe_table"
      "r = package_launch m (manifest_directory path) (script, label, cat)" using r by auto
    have "package_command entries (rl_id r) (rl_executable r) (rl_argv r) (rl_cwd r)"
      using assms(2) package_table(2) [OF d(1)] d(2)
      by (auto simp: package_command_def package_launch_def package_recipe_id_def manager_name_def js_append [symmetric]
          js_def split: package_manager.splits)
    then show ?thesis using assms(1) unfolding command_ok_def ready_def by blast
  qed
  have "wp (map_act (with_static_availability h wid p) (map (package_launch m (manifest_directory path)) ?ds))
      (\<lambda>vs u. asking t u \<and> list_all (backed wid (since s u)) vs \<and> package_ids path vs) E t" for m
    by (rule wp_mono [OF launches_wp [OF assms(1) ok]]) (use package_idsI [OF trans [OF _ ids]] in blast)+
  then show ?thesis
    using none unfolding package_recipes_def Let_def map_act_map by (cases manager) simp_all
qed

lemma cargo_manifest_recipes_wp:
  assumes "ready wid p entries s t" and "manifest_in entries ''Cargo.toml'' (manifest_directory path)"
  shows "wp (cargo_manifest_recipes h wid p path)
     (\<lambda>vs u. asking t u \<and> list_all (backed wid (since s u)) vs \<and> cargo_ids path vs) E t"
proof (cases "path = cargo_toml")
  case True
  then have dir: "manifest_directory path = js ''.''" by (simp add: manifest_directory_def cargo_toml_def js_def)
  have ok: "command_ok wid (since s t) (rl_id r) (rl_executable r, rl_argv r, rl_cwd r)" if "r \<in> set cargo_recipes" for r
  proof -
    have "cargo_command entries (rl_id r) (rl_executable r) (rl_argv r) (rl_cwd r)"
      using that assms(2) dir by (auto simp: cargo_recipes_def cargo_command_def)
    then show ?thesis using assms(1) unfolding command_ok_def ready_def by blast
  qed
  show ?thesis
    unfolding cargo_manifest_recipes_def if_P [OF True]
    by (rule wp_mono [OF launches_wp [OF assms(1) ok]]) (auto simp: cargo_ids_def True cargo_recipes_def cargo_root_ids_def)
next
  case False
  have ok: "command_ok wid (since s t) (rl_id r) (rl_executable r, rl_argv r, rl_cwd r)"
    if "r \<in> set (map (cargo_launch (manifest_directory path)) cargo_project_table)" for r
  proof -
    have "cargo_command entries (rl_id r) (rl_executable r) (rl_argv r) (rl_cwd r)"
      using that assms(2) by (auto simp: cargo_launch_def cargo_project_table_def cargo_command_def js_def)
    then show ?thesis using assms(1) unfolding command_ok_def ready_def by blast
  qed
  show ?thesis
    unfolding cargo_manifest_recipes_def if_not_P [OF False] cargo_project_recipes_def map_act_map
    by (rule wp_mono [OF launches_wp [OF assms(1) ok]])
      (auto simp: cargo_ids_def False cargo_launch_def cargo_project_table_def js_def cargo_suffixes_def)
qed

section \<open>Identifiers are not shared\<close>

text \<open>A path of the tree: no empty, \<open>.\<close> or \<open>..\<close> component.\<close>

definition canonical_path :: "jsstring \<Rightarrow> bool" where
  "canonical_path p \<longleftrightarrow> list_all proper_component (split_on 47 p)"

lemma directory_parts:
  assumes "canonical_path p"
  shows "if butlast (split_on 47 p) = [] then manifest_directory p = js ''.''
    else split_on 47 (manifest_directory p) = butlast (split_on 47 p) \<and> manifest_directory p \<noteq> js ''.''"
proof (cases "butlast (split_on 47 p) = []")
  case True
  then have "length (split_on 47 p) = 1" by (cases "split_on 47 p") (auto split: if_splits)
  then show ?thesis using True by (simp add: manifest_directory_def)
next
  case False
  then have dir: "manifest_directory p = join_with 47 (butlast (split_on 47 p))"
    by (cases "split_on 47 p") (auto simp: manifest_directory_def split: if_splits)
  have parts: "split_on 47 (manifest_directory p) = butlast (split_on 47 p)"
    unfolding dir by (rule split_join [OF False]) (meson in_set_butlastD split_on_parts)
  have "manifest_directory p \<noteq> js ''.''"
  proof
    assume "manifest_directory p = js ''.''"
    then have "js ''.'' \<in> set (butlast (split_on 47 p))" 
      using parts [symmetric] by (simp add: js_def)
    then show False using assms by (auto simp: canonical_path_def list_all_iff proper_component_def dest: in_set_butlastD)
  qed
  then show ?thesis using False parts by simp
qed

lemma manifest_directory_inj:
  assumes "canonical_path p" and "canonical_path q" and "basename p = basename q" and "manifest_directory p = manifest_directory q"
  shows "p = q"
proof -
  have "butlast (split_on 47 p) = butlast (split_on 47 q)"
    using directory_parts [OF assms(1)] directory_parts [OF assms(2)] assms(4) by (metis (no_types))
  then have "split_on 47 p = split_on 47 q"
    using assms(3) unfolding basename_def by (metis append_butlast_last_id split_on_not_Nil)
  then show ?thesis by (metis join_split)
qed

lemma disjoint_parts: "A \<subseteq> X \<Longrightarrow> B \<subseteq> Y \<Longrightarrow> X \<inter> Y = {} \<Longrightarrow> A \<inter> B = {}"
  by blast

lemma package_ids_disjoint:
  assumes "package_ids p vs" and "package_ids q ws" and "manifest_directory p \<noteq> manifest_directory q"
  shows "vr_id ` set vs \<inter> vr_id ` set ws = {}"
proof (rule disjoint_parts)
  have "package_recipe_id (manifest_directory p) (js a) \<noteq> package_recipe_id (manifest_directory q) (js b)"
    if "a \<in> script_names" "b \<in> script_names" for a b
    using assms(3) package_recipe_id_eq [OF script_colon [OF that(1)] script_colon [OF that(2)]] by simp
  then show "(\<lambda>script. package_recipe_id (manifest_directory p) (js script)) ` script_names
      \<inter> (\<lambda>script. package_recipe_id (manifest_directory q) (js script)) ` script_names = {}" by auto
qed (use assms(1,2) in \<open>simp_all add: package_ids_def\<close>)

lemma cargo_ids_disjoint:
  assumes "cargo_ids p vs" and "cargo_ids q ws" and "p \<noteq> q" and "manifest_directory p \<noteq> manifest_directory q"
  shows "vr_id ` set vs \<inter> vr_id ` set ws = {}"
proof -
  have nested: "js ''cargo:'' @ d @ 58 # js a \<noteq> js ''cargo:'' @ e @ 58 # js b"
    if "a \<in> cargo_suffixes" "b \<in> cargo_suffixes" "d \<noteq> e" for a b d e
  proof -
    have "58 \<notin> set (js a)" "58 \<notin> set (js b)" using that(1,2) by (auto simp: js_def cargo_suffixes_def)
    then show ?thesis using last_colon that(3) by (metis append_same_eq same_append_eq)
  qed
  have root: "js ''cargo:'' @ d @ 58 # js b \<notin> cargo_root_ids" for d b
  proof
    assume "js ''cargo:'' @ d @ 58 # js b \<in> cargo_root_ids"
    then have "d @ 58 # js b \<in> {js ''test'', js ''check'', js ''fmt-check''}" by (auto simp: js_def cargo_root_ids_def)
    moreover have "58 \<notin> set t" if "t \<in> {js ''test'', js ''check'', js ''fmt-check''}" for t using that by (auto simp: js_def)
    moreover have "58 \<in> set (d @ 58 # js b)" by simp
    ultimately show False by blast
  qed
  have sub: "vr_id ` set us \<subseteq> (if r = cargo_toml then cargo_root_ids
      else (\<lambda>suffix. js ''cargo:'' @ manifest_directory r @ 58 # js suffix) ` cargo_suffixes)"
    if "cargo_ids r us" for r us using that by (simp only: cargo_ids_def)
  have disjoint: "cargo_root_ids \<inter> (\<lambda>suffix. js ''cargo:'' @ d @ 58 # js suffix) ` cargo_suffixes = {}" for d
    using root by auto
  have "(\<lambda>suffix. js ''cargo:'' @ manifest_directory p @ 58 # js suffix) ` cargo_suffixes
      \<inter> (\<lambda>suffix. js ''cargo:'' @ manifest_directory q @ 58 # js suffix) ` cargo_suffixes = {}"
    using nested assms(4) by auto
  then show ?thesis
    by (intro disjoint_parts [OF sub [OF assms(1)] sub [OF assms(2)]])
      (use assms(3) disjoint in \<open>simp add: Int_commute; blast\<close>)
qed

lemma list_all2_partner: "list_all2 P xs ys \<Longrightarrow> y \<in> set ys \<Longrightarrow> \<exists>x \<in> set xs. P x y"
  by (induction rule: list_all2_induct) auto

lemma distinct_concat_parts:
  assumes "list_all2 (\<lambda>p vs. ids p vs) ps vss" and "distinct ps"
    and "\<And>p vs. ids p vs \<Longrightarrow> distinct (map vr_id vs)"
    and "\<And>p q vs ws. p \<in> set ps \<Longrightarrow> q \<in> set ps \<Longrightarrow> p \<noteq> q \<Longrightarrow> ids p vs \<Longrightarrow> ids q ws \<Longrightarrow> vr_id ` set vs \<inter> vr_id ` set ws = {}"
  shows "distinct (map vr_id (concat vss))"
  using assms
proof (induction ps vss rule: list_all2_induct)
  case (Cons p ps vs vss)
  have "vr_id ` set vs \<inter> vr_id ` set ws = {}" if ws: "ws \<in> set vss" for ws
  proof -
    obtain q where q: "q \<in> set ps" "ids q ws" using list_all2_partner [OF Cons.hyps(2) ws] by blast
    then show ?thesis using Cons.prems(1) Cons.hyps(1) by (intro Cons.prems(3) [of p q]) auto
  qed
  then have "vr_id ` set vs \<inter> vr_id ` set (concat vss) = {}" by (simp add: image_UN Int_UN_distrib)
  moreover have "distinct (map vr_id (concat vss))" 
  proof (rule Cons.IH)
    show "distinct ps" using Cons.prems(1) by simp
  qed (use Cons.prems(2) in blast, rule Cons.prems(3), simp_all)
  moreover have "distinct (map vr_id vs)" using Cons.hyps(1) by (rule Cons.prems(2))
  ultimately show ?case by (simp only: concat.simps map_append distinct_append set_map)
qed simp

text \<open>The list of one listing, and the part of its log that backs it.\<close>

definition listing :: "jsstring \<Rightarrow> verification_event set \<Rightarrow> recipe list \<Rightarrow> bool" where
  "listing wid L rs \<longleftrightarrow> list_all (backed wid L) rs
     \<and> (\<exists>entries. Saw_Tree wid entries \<in> L \<and> (list_all (\<lambda>e. canonical_path (lp_path e)) entries \<longrightarrow> distinct (map vr_id rs)))"

lemma distinct_sort_by: "distinct (sort_by le xs) \<longleftrightarrow> distinct xs"
  using distinct_map_sort_by [of id] by simp

lemma manifests_distinct:
  assumes "project_manifests_of entries = Some m"
  shows "distinct (pm_package_paths m) \<and> distinct (pm_cargo_paths m)"
proof -
  have "distinct (move_root_first root (filter q (sort_by text_le (remdups xs))))" for root q xs
    using mset_eq_imp_distinct_iff [OF move_root_first_perm] by (simp add: distinct_sort_by)
  then show ?thesis using assms by (auto simp: project_manifests_of_def Let_def split: if_splits)
qed

lemma scoped_distinct: "distinct paths \<Longrightarrow> distinct (scoped_manifest_paths kind paths target active)"
  by (simp add: scoped_manifest_paths_def distinct_sort_by split: option.splits)

lemma listing_ids:
  assumes m: "project_manifests_of entries = Some m" and can: "list_all (\<lambda>e. canonical_path (lp_path e)) entries"
    and ps: "list_all2 package_ids ps vss" "distinct ps" "set ps \<subseteq> set (pm_package_paths m)"
    and cs: "list_all2 cargo_ids cs wss" "distinct cs" "set cs \<subseteq> set (pm_cargo_paths m)"
    and ds: "distinct (map vr_id ds)" "\<And>d. d \<in> set ds \<Longrightarrow> \<exists>key. vr_id d = js ''config:'' @ key"
  shows "distinct (map vr_id (concat vss @ concat wss @ ds))"
proof -
  have canonical: "canonical_path p" if "p \<in> set (pm_package_paths m) \<union> set (pm_cargo_paths m)" for p
    using manifests_ok [OF m, of p] that can by (auto simp: list_all_iff)
  have base: "p \<in> set (pm_package_paths m) \<Longrightarrow> basename p = package_json" "p \<in> set (pm_cargo_paths m) \<Longrightarrow> basename p = cargo_toml" for p
    using m by (auto simp: project_manifests_of_def Let_def split: if_splits)
  have "distinct (map vr_id (concat vss))"
  proof (rule distinct_concat_parts [OF ps(1,2)])
    show "distinct (map vr_id vs)" if "package_ids p vs" for p vs using that by (simp add: package_ids_def)
    show "vr_id ` set vs \<inter> vr_id ` set ws = {}" if "p \<in> set ps" "q \<in> set ps" "p \<noteq> q" "package_ids p vs" "package_ids q ws" for p q vs ws
    proof -
      have "p \<in> set (pm_package_paths m)" "q \<in> set (pm_package_paths m)" using that(1,2) ps(3) by auto
      then have "manifest_directory p \<noteq> manifest_directory q" using base(1) canonical manifest_directory_inj that(3) by (metis UnCI)
      then show ?thesis using that by (intro package_ids_disjoint)
    qed
  qed
  moreover have "distinct (map vr_id (concat wss))"
  proof (rule distinct_concat_parts [OF cs(1,2)])
    show "distinct (map vr_id vs)" if "cargo_ids p vs" for p vs using that by (simp add: cargo_ids_def)
    show "vr_id ` set vs \<inter> vr_id ` set ws = {}" if "p \<in> set cs" "q \<in> set cs" "p \<noteq> q" "cargo_ids p vs" "cargo_ids q ws" for p q vs ws
    proof -
      have "p \<in> set (pm_cargo_paths m)" "q \<in> set (pm_cargo_paths m)" using that(1,2) cs(3) by auto
      then have "manifest_directory p \<noteq> manifest_directory q" using base(2) canonical manifest_directory_inj that(3) by (metis UnCI)
      then show ?thesis using that by (intro cargo_ids_disjoint)
    qed
  qed
  moreover have "take 2 (vr_id v) = js ''pa''" if v: "v \<in> set (concat vss)" for v
  proof -
    obtain ws where ws: "ws \<in> set vss" "v \<in> set ws" using v by auto
    obtain p where "package_ids p ws" using list_all2_partner [OF ps(1) ws(1)] by blast
    then show ?thesis using ws(2) by (auto simp: package_ids_def package_recipe_id_def js_def)
  qed
  moreover have "take 2 (vr_id v) = js ''ca''" if v: "v \<in> set (concat wss)" for v
  proof -
    obtain ws where ws: "ws \<in> set wss" "v \<in> set ws" using v by auto
    obtain p where "cargo_ids p ws" using list_all2_partner [OF cs(1) ws(1)] by blast
    then show ?thesis using ws(2) by (auto simp: cargo_ids_def cargo_root_ids_def js_def split: if_splits)
  qed
  moreover have "take 2 (vr_id v) = js ''co''" if "v \<in> set ds" for v using ds(2) [OF that] by (auto simp: js_def)
  ultimately show ?thesis using ds(1) by (fastforce simp: js_def)
qed

lemma discover_wp:
  assumes "asking s t"
  shows "wp (discover_project_manifests h wid)
     (\<lambda>m u. asking s u \<and> (\<exists>entries. Saw_Tree wid entries \<in> since s u \<and> project_manifests_of entries = Some m)) (\<lambda>_. asking s) t"
  unfolding discover_project_manifests_def discovery_def require_def required_def
proof (intro wp_bind wp_catch adapter_wp wp_throw wp_prod note_wp wp_guard wp_option wp_ret)
  show "asking s v \<and> (\<exists>entries. Saw_Tree wid entries \<in> since s v \<and> project_manifests_of entries = Some m)"
    if "vf_log u = vf_log t" "vf_log v = vf_log u @ [Saw_Tree wid entries]" "project_manifests_of entries = Some m"
    for u v :: "'a verifier" and entries m
    using that assms since_last [of v t, OF _ assms] by (auto simp: asking_def is_run_def)
qed (use assms in \<open>auto simp: asking_def is_run_def\<close>)

lemma policy_wp:
  assumes "asking s t"
  shows "wp (policy_snapshot h wid) (\<lambda>p u. asking t u \<and> Saw_Policy wid p \<in> since s u) (\<lambda>_. asking s) t"
  unfolding policy_snapshot_def
proof (intro wp_bind adapter_wp note_wp wp_ret)
  show "asking t v \<and> Saw_Policy wid p \<in> since s v"
    if "vf_log u = vf_log t" "vf_log v = vf_log u @ [Saw_Policy wid p]" for u v :: "'a verifier" and p
    using that assms since_last [of v t, OF _ assms] by (auto simp: asking_def is_run_def)
qed (use assms in \<open>auto simp: asking_def\<close>)

text \<open>The recipes of the file, once it was seen.\<close>

definition recipes_of_file :: "jsstring \<Rightarrow> verification_event set \<Rightarrow> recipe_launch list \<Rightarrow> bool" where
  "recipes_of_file wid L rs \<longleftrightarrow> distinct (map rl_id rs) \<and> list_all (\<lambda>r. (\<exists>key. rl_id r = js ''config:'' @ key)
     \<and> command_ok wid L (rl_id r) (rl_executable r, rl_argv r, rl_cwd r)) rs"

lemma recipes_of_file_mono: "recipes_of_file wid L rs \<Longrightarrow> L \<subseteq> M \<Longrightarrow> recipes_of_file wid M rs"
  by (auto simp: recipes_of_file_def list_all_iff intro: command_mono)

lemma wp_if: "(b \<Longrightarrow> wp m Q E s) \<Longrightarrow> (\<not> b \<Longrightarrow> wp n Q E s) \<Longrightarrow> wp (if b then m else n) Q E s"
  by simp

lemma config_wp:
  assumes "asking s t"
  shows "wp (read_verification_config h wid)
     (\<lambda>rs u. asking t u \<and> recipes_of_file wid (since s u) rs) (\<lambda>_. asking t) t"
proof -
  have keep: "asking t u" if "read_verification_config h wid t = (r, u)" for r u
    using asking_config [of h wid] that unfolding obeys_def by (metis snd_conv)
  have "wp (read_verification_config h wid)
     (\<lambda>rs u. rs = [] \<or> (\<exists>doc. Saw_Recipe_File wid doc \<in> since s u \<and> parse_config_document doc = Some rs)) (\<lambda>_ _. True) t"
    unfolding read_verification_config_def discovery_def require_def required_def
    by (intro wp_bind wp_catch wp_throw adapter_wp wp_guard wp_if wp_ret wp_option note_wp)
      (use assms since_last [OF _ assms] in \<open>auto simp: since_def asking_def\<close>)
  then have seen: "rs = [] \<or> (\<exists>doc. Saw_Recipe_File wid doc \<in> since s u \<and> parse_config_document doc = Some rs)"
    if "read_verification_config h wid t = (Inr rs, u)" for rs u
    using that by (simp add: wp_def)
  have "recipes_of_file wid (since s u) rs" if run: "read_verification_config h wid t = (Inr rs, u)" for rs u
    using seen [OF run]
  proof (elim disjE exE conjE)
    fix doc
    assume doc: "Saw_Recipe_File wid doc \<in> since s u" "parse_config_document doc = Some rs"
    have "command_ok wid (since s u) i (exe, argv, cwd)" if "configured doc i exe argv cwd" for i exe argv cwd
      using that doc(1) unfolding command_ok_def by blast
    then show ?thesis using recipe_file_ok [OF doc(2)] by (auto simp: recipes_of_file_def list_all_iff)
  qed (simp add: recipes_of_file_def)
  then show ?thesis using keep by (intro wpI) auto
qed

lemma asking_wp: "obeys asking m \<Longrightarrow> asking s t \<Longrightarrow> (\<And>x u. asking s u \<Longrightarrow> asking t u \<Longrightarrow> Q x u) \<Longrightarrow> wp m Q (\<lambda>_. asking s) t"
  by (rule wp_mono [OF asking.wp_obeys]) (auto intro: asking.R_trans)

lemma manifest_loop_wp:
  assumes "ready wid p entries s t"
    and "\<And>path u. path \<in> set paths \<Longrightarrow> ready wid p entries s u \<Longrightarrow>
      wp (f path) (\<lambda>vs w. asking u w \<and> list_all (backed wid (since s w)) vs \<and> ids path vs) (\<lambda>_. asking s) u"
    and "\<And>vss u. asking t u \<Longrightarrow> list_all (backed wid (since s u)) (concat vss) \<Longrightarrow> list_all2 ids paths vss \<Longrightarrow> Q vss u"
  shows "wp (map_act f paths) Q (\<lambda>_. asking s) t"
proof (rule asking.wp_map [where I = "ready wid p entries s" and P = "\<lambda>path vs u. list_all (backed wid (since s u)) vs \<and> ids path vs"])
  show "wp (f path) (\<lambda>vs w. ready wid p entries s w \<and> asking u w \<and> list_all (backed wid (since s w)) vs \<and> ids path vs) (\<lambda>_. asking s) u"
    if "path \<in> set paths" "ready wid p entries s u" for path u
    by (rule wp_mono [OF assms(2) [OF that]]) (auto intro: ready_mono [OF that(2)])
  show "list_all (backed wid (since s w)) vs \<and> ids path vs"
    if "list_all (backed wid (since s u)) vs \<and> ids path vs" "asking u w" for path vs u w
    using that backed_mono [OF _ since_grows [OF that(2)]] by (auto simp: list_all_iff)
  show "Q vss u" if "list_all2 (\<lambda>path vs. list_all (backed wid (since s u)) vs \<and> ids path vs) paths vss" "asking t u" for vss u
  proof (rule assms(3) [OF that(2)])
    show "list_all (backed wid (since s u)) (concat vss)" using list_all2_partner [OF that(1)] by (auto simp: list_all_iff)
    show "list_all2 ids paths vss" using that(1) by (rule list_all2_mono) simp
  qed
qed (rule assms(1))

lemma package_loop_wp:
  assumes "ready wid p entries s t" and "\<And>path. path \<in> set paths \<Longrightarrow> manifest_in entries ''package.json'' (manifest_directory path)"
    and "\<And>vss u. asking t u \<Longrightarrow> list_all (backed wid (since s u)) (concat vss) \<Longrightarrow> list_all2 package_ids paths vss \<Longrightarrow> Q vss u"
  shows "wp (map_act (package_manifest_recipes h wid p evidence root manager) paths) Q (\<lambda>_. asking s) t"
proof (rule manifest_loop_wp [OF assms(1) _ assms(3)])
  fix path u
  assume path: "path \<in> set paths" "ready wid p entries s u"
  have fields: "obeys asking (case root of Some fs \<Rightarrow> if path = package_json then ret_act fs else read_package_manifest h wid path
      | None \<Rightarrow> read_package_manifest h wid path)"
    by (intro asking.obeys_intros asking_calls(2))
  show "wp (package_manifest_recipes h wid p evidence root manager path)
      (\<lambda>vs w. asking u w \<and> list_all (backed wid (since s w)) vs \<and> package_ids path vs) (\<lambda>_. asking s) u"
    unfolding package_manifest_recipes_def
  proof (rule wp_bind, rule asking_wp [OF fields])
    show "asking s u" using path(2) by (simp add: ready_def)
    fix fs v
    assume v: "asking u v"
    show "wp (package_recipes h wid p (package_scripts fs) (if path = package_json then manager else resolve_nested_package_manager fs evidence manager)
        (manifest_directory path)) (\<lambda>vs w. asking u w \<and> list_all (backed wid (since s w)) vs \<and> package_ids path vs) (\<lambda>_. asking s) v"
      by (rule wp_mono [OF package_recipes_wp [OF ready_mono [OF path(2) v] assms(2) [OF path(1)]]]) (auto intro: asking.R_trans [OF v])
  qed
qed

lemma list_wp:
  "wp (list_verifications h i) (\<lambda>rs u. asking s u \<and> listing (li_workspace i) (since s u) rs) (\<lambda>_. asking s) s"
  (is "wp _ ?Q ?E s")
proof -
  let ?wid = "li_workspace i"
  have tail: "wp (map_act (cargo_manifest_recipes h ?wid p) cs) (\<lambda>wss. wp (map_act (with_static_availability h ?wid p) configured)
      (\<lambda>ds. ?Q (concat vss @ concat wss @ ds)) ?E) ?E u"
    if r: "ready ?wid p entries s u" and m: "project_manifests_of entries = Some m"
      and ps: "list_all2 package_ids ps vss" "distinct ps" "set ps \<subseteq> set (pm_package_paths m)"
      and cs: "distinct cs" "set cs \<subseteq> set (pm_cargo_paths m)"
      and vss: "list_all (backed ?wid (since s u)) (concat vss)"
      and conf: "recipes_of_file ?wid (since s u) configured"
    for p entries m ps vss cs configured u
  proof (rule manifest_loop_wp [OF r])
    show "wp (cargo_manifest_recipes h ?wid p path)
        (\<lambda>vs w. asking v w \<and> list_all (backed ?wid (since s w)) vs \<and> cargo_ids path vs) ?E v"
      if "path \<in> set cs" "ready ?wid p entries s v" for path v
      using that cs(2) manifests_ok [OF m, of path] by (intro cargo_manifest_recipes_wp) auto
    fix wss v
    assume wss: "asking u v" "list_all (backed ?wid (since s v)) (concat wss)" "list_all2 cargo_ids cs wss"
    have ok: "command_ok ?wid (since s v) (rl_id r) (rl_executable r, rl_argv r, rl_cwd r)" if "r \<in> set configured" for r
      using that recipes_of_file_mono [OF conf since_grows [OF wss(1)]] by (simp add: recipes_of_file_def list_all_iff)
    show "wp (map_act (with_static_availability h ?wid p) configured) (\<lambda>ds. ?Q (concat vss @ concat wss @ ds)) ?E v"
    proof (rule wp_mono [OF launches_wp [OF ready_mono [OF r wss(1)] ok, where E = ?E]])
      fix ds w
      assume w: "asking v w \<and> list_all (backed ?wid (since s w)) ds \<and> map vr_id ds = map rl_id configured"
      have uw: "asking u w" using wss(1) w asking.R_trans by blast
      have ids: "distinct (map vr_id ds)" using w conf by (simp add: recipes_of_file_def)
      have keys: "\<exists>key. vr_id d = js ''config:'' @ key" if "d \<in> set ds" for d
      proof -
        have "vr_id d \<in> set (map rl_id configured)" using that w by (metis image_eqI set_map)
        then show ?thesis using conf by (auto simp: recipes_of_file_def list_all_iff)
      qed
      have "list_all (backed ?wid (since s w)) (concat vss @ concat wss @ ds)"
        using vss wss(2) w backed_mono [OF _ since_grows [OF uw]] backed_mono [OF _ since_grows [of v w s]]
        by (auto simp: list_all_iff)
      moreover have "Saw_Tree ?wid entries \<in> since s w" using ready_mono [OF r uw] by (simp add: ready_def)
      moreover have "distinct (map vr_id (concat vss @ concat wss @ ds))" if "list_all (\<lambda>e. canonical_path (lp_path e)) entries"
        using listing_ids [OF m that ps wss(3) cs ids keys] .
      ultimately show "?Q (concat vss @ concat wss @ ds) w"
        using ready_mono [OF r uw] unfolding listing_def ready_def by blast
    qed (use wss r in \<open>auto simp: ready_def intro: asking.R_trans\<close>)
  qed
  have rest: "wp (bind_act (if package_json \<in> set ps
        then bind_act (read_package_manifest h ?wid package_json) (\<lambda>fs. ret_act (Some fs)) else ret_act None) (\<lambda>root.
      bind_act (map_act (package_manifest_recipes h ?wid p evidence root (resolve_package_manager (case root of None \<Rightarrow> [] | Some fs \<Rightarrow> fs) evidence)) ps) (\<lambda>rs.
      bind_act (map_act (cargo_manifest_recipes h ?wid p) cs) (\<lambda>cs.
      bind_act (map_act (with_static_availability h ?wid p) configured) (\<lambda>ds. ret_act (concat rs @ concat cs @ ds)))))) ?Q ?E t"
    if r: "ready ?wid p entries s t" and m: "project_manifests_of entries = Some m"
      and ps: "distinct ps" "set ps \<subseteq> set (pm_package_paths m)" and cs: "distinct cs" "set cs \<subseteq> set (pm_cargo_paths m)"
      and conf: "recipes_of_file ?wid (since s t) configured"
    for p entries m ps cs configured evidence t
  proof (rule wp_bind, rule asking_wp)
    show "obeys asking (if package_json \<in> set ps
        then bind_act (read_package_manifest h ?wid package_json) (\<lambda>fs. ret_act (Some fs)) else ret_act None)"
      by (intro asking.obeys_intros asking_calls(2))
    show "asking s t" using r by (simp add: ready_def)
    fix root u
    assume u: "asking t u"
    show "wp (bind_act (map_act (package_manifest_recipes h ?wid p evidence root
          (resolve_package_manager (case root of None \<Rightarrow> [] | Some fs \<Rightarrow> fs) evidence)) ps) (\<lambda>rs.
        bind_act (map_act (cargo_manifest_recipes h ?wid p) cs) (\<lambda>cs.
        bind_act (map_act (with_static_availability h ?wid p) configured) (\<lambda>ds. ret_act (concat rs @ concat cs @ ds))))) ?Q ?E u"
    proof (rule wp_bind, rule package_loop_wp [OF ready_mono [OF r u]])
      show "manifest_in entries ''package.json'' (manifest_directory path)" if "path \<in> set ps" for path
        using that ps(2) manifests_ok [OF m, of path] by auto
      fix vss v
      assume vss: "asking u v" "list_all (backed ?wid (since s v)) (concat vss)" "list_all2 package_ids ps vss"
      have conf': "recipes_of_file ?wid (since s v) configured"
        using recipes_of_file_mono [OF conf] since_grows [OF asking.R_trans [OF u vss(1)]] by blast
      show "wp (bind_act (map_act (cargo_manifest_recipes h ?wid p) cs) (\<lambda>cs.
          bind_act (map_act (with_static_availability h ?wid p) configured) (\<lambda>ds. ret_act (concat vss @ concat cs @ ds)))) ?Q ?E v"
        by (rule wp_bind, rule wp_mono [OF tail [OF ready_mono [OF ready_mono [OF r u] vss(1)] m vss(3) ps cs vss(2) conf']], rule wp_bind)
          (auto elim!: wp_mono intro: wp_ret)
    qed
  qed
  show ?thesis
    unfolding list_verifications_def Let_def require_def
  proof (rule wp_bind, rule wp_guard, rule wp_bind, rule asking_wp [OF asking_calls(3) asking.R_refl], rule wp_bind,
      rule wp_mono [OF discover_wp], assumption, rule wp_bind, rule wp_guard, rule wp_bind, rule wp_mono [OF policy_wp])
    fix evidence and t u :: "'a verifier" and m
    assume u: "asking s u \<and> (\<exists>entries. Saw_Tree ?wid entries \<in> since s u \<and> project_manifests_of entries = Some m)"
    then show "asking s u" by simp
    obtain entries where e: "Saw_Tree ?wid entries \<in> since s u" "project_manifests_of entries = Some m" using u by blast
    let ?ps = "scoped_manifest_paths Package_Project (pm_package_paths m) (li_target i) (active_project_kinds (li_target i) m)"
    let ?cs = "scoped_manifest_paths Cargo_Project (pm_cargo_paths m) (li_target i) (active_project_kinds (li_target i) m)"
    fix p v
    assume "asking u v \<and> Saw_Policy ?wid p \<in> since s v"
    then have r: "ready ?wid p entries s v" using u e(1) since_grows [of u v s] asking.R_trans unfolding ready_def by blast
    show "wp (bind_act (read_verification_config h ?wid) (\<lambda>configured.
        bind_act (if package_json \<in> set ?ps
          then bind_act (read_package_manifest h ?wid package_json) (\<lambda>fs. ret_act (Some fs)) else ret_act None) (\<lambda>root.
        bind_act (map_act (package_manifest_recipes h ?wid p evidence root
            (resolve_package_manager (case root of None \<Rightarrow> [] | Some fs \<Rightarrow> fs) evidence)) ?ps) (\<lambda>rs.
        bind_act (map_act (cargo_manifest_recipes h ?wid p) ?cs) (\<lambda>cs.
        bind_act (map_act (with_static_availability h ?wid p) configured) (\<lambda>ds. ret_act (concat rs @ concat cs @ ds))))))) ?Q ?E v"
    proof (rule wp_bind, rule wp_mono [OF config_wp [of s v]], use r in \<open>simp add: ready_def\<close>, rule rest)
      show "asking s w" if "asking v w" for w using r that by (auto simp: ready_def intro: asking.R_trans)
    qed (use r e manifests_distinct scoped_distinct scoped_subset ready_mono in blast)+
  qed (auto intro: asking.R_refl)
qed

section \<open>Which package manager\<close>

text \<open>Everything that names a manager: the manifest and the lock files. A manager is chosen exactly when they all agree.\<close>

definition named_managers :: "fields \<Rightarrow> (jsstring \<times> bool) list \<Rightarrow> package_manager set" where
  "named_managers fs evidence = set_option (parse_explicit_manager (get fs ''packageManager'')) \<union> set (lock_managers evidence)"

lemma package_manager_unanimous:
  "(resolve_package_manager fs evidence = Manager_Resolved m) = (named_managers fs evidence = {m})"
  "(resolve_package_manager fs evidence = Manager_Unknown) = (named_managers fs evidence = {})"
  by (cases "parse_explicit_manager (get fs ''packageManager'')";
      force simp: named_managers_def resolve_package_manager_def lock_managers_def Let_def)+

section \<open>Running\<close>

text \<open>
  What has to be in the log before a command is run for \<open>i\<close>: the tree with the manifest the command of this
  identifier comes from, or the recipe file that has it under this identifier, a policy that allows it, and an
  answer that the executable and its sandbox are there.
\<close>

definition run_confined :: "run_input \<Rightarrow> verification_event list \<Rightarrow> run_request \<Rightarrow> bool" where
  "run_confined i evs q \<longleftrightarrow> rq_workspace q = ri_workspace i \<and> rq_recipe q = ri_recipe i \<and> rq_background q = ri_background i
     \<and> command_ok (ri_workspace i) (set evs) (ri_recipe i) (rq_executable q, rq_argv q, rq_cwd q)
     \<and> Saw_Executable (ri_workspace i) (rq_executable q) True True \<in> set evs
     \<and> (\<exists>p. Saw_Policy (ri_workspace i) p \<in> set evs \<and> allow_process p
          \<and> (rq_executable q \<in> set (allowed_executable_names p) \<or> allow_dynamic_executables p))"

definition ran_confined :: "run_input \<Rightarrow> 'w verifier \<Rightarrow> 'w verifier \<Rightarrow> bool" where
  "ran_confined i s t \<longleftrightarrow> (\<exists>evs q. vf_log t = vf_log s @ evs @ [Ran q] \<and> list_all (\<lambda>ev. \<not> is_run ev) evs \<and> run_confined i evs q)"

definition run_outcome :: "run_input \<Rightarrow> 'w verifier \<Rightarrow> ('x verification_error + 'a) \<times> 'w verifier \<Rightarrow> bool" where
  "run_outcome i s out \<longleftrightarrow> (case out of
     (Inr x, t) \<Rightarrow> ran_confined i s t
   | (Inl e, t) \<Rightarrow> asking s t \<or> ran_confined i s t \<and> e \<in> range Adapter_Error)"

lemma run_wp:
  "wp (run_verification h i) (\<lambda>_. ran_confined i s) (\<lambda>e t. asking s t \<or> ran_confined i s t \<and> e \<in> range Adapter_Error) s"
  (is "wp _ ?Q ?E s")
  unfolding run_verification_def
proof (rule wp_bind, rule wp_guard, rule wp_bind, rule wp_mono [OF list_wp])
  fix rs t
  assume t: "asking s t \<and> listing (li_workspace \<lparr>li_workspace = ri_workspace i, li_target = None\<rparr>) (since s t) rs"
  have run: "wp (bind_act (adapter (vh_source h (ri_workspace i))) (\<lambda>src. bind_act (note_event (Ran (request_of i r l))) (\<lambda>_.
      bind_act (adapter (vh_run h (request_of i r l))) (\<lambda>operation. ret_act (r, operation, src))))) ?Q ?E t"
    if "backed (ri_workspace i) (since s t) r" "vr_allowed r" "vr_launch r = Some l" "vr_id r = ri_recipe i" for r l
  proof -
    obtain evs where evs: "vf_log t = vf_log s @ evs" "list_all (\<lambda>ev. \<not> is_run ev) evs" "since s t = set evs"
      using t by (auto simp: asking_def since_def)
    then have "run_confined i evs (request_of i r l)"
      using that by (cases l) (auto simp: backed_def run_confined_def request_of_def)
    then have ran: "ran_confined i s u" if "vf_log u = vf_log t @ [Ran (request_of i r l)]" for u :: "'a verifier"
      using that evs unfolding ran_confined_def by auto
    show ?thesis
      by (intro wp_bind adapter_wp note_wp wp_ret) (use t ran in \<open>auto simp: asking_def\<close>)
  qed
  show "wp (case find (\<lambda>r. vr_id r = ri_recipe i) rs of None \<Rightarrow> throw_act Verify_Not_Found
     | Some r \<Rightarrow> (case (vr_allowed r, vr_launch r) of
         (True, Some l) \<Rightarrow>
           bind_act (adapter (vh_source h (ri_workspace i))) (\<lambda>src.
           bind_act (note_event (Ran (request_of i r l))) (\<lambda>_.
           bind_act (adapter (vh_run h (request_of i r l))) (\<lambda>operation. ret_act (r, operation, src))))
       | _ \<Rightarrow> throw_act Verify_Not_Allowed)) ?Q ?E t"
    using t run by (auto intro!: wp_throw wp_option simp: find_Some_iff listing_def list_all_length split: bool.splits option.splits)
qed (auto intro: asking.R_refl)

section \<open>Properties\<close>

text \<open>
  C3. A verification runs at most one command, and only a confined one. Before anything is run the policy of that
  workspace was read and allows processes and this executable, and the executable and its sandbox were reported there.
  The command is the one of the identifier the call asked for: for \<open>package:...\<close> the script it names under one of four
  package managers, for \<open>cargo:...\<close> the fixed cargo command it names, both in the directory of a manifest that the tree
  of this workspace lists outside the excluded directories; for \<open>config:...\<close> the executable, arguments and working
  directory that the recipe file of this workspace has under that key, where the executable is no path and neither of
  two shells, there are at most 64 arguments of at most 4096 bytes without NUL, and the directory is the root or below
  it. A call that returns ran it; a call that fails ran nothing, or it ran the confined command and the error is the one
  the adapter gave.
\<close>

theorem verification_run_confined: "run_outcome i s (run_verification h i s)"
  using run_wp [of h i s] by (simp add: wp_def run_outcome_def split: prod.splits sum.splits)

text \<open>
  C26. Listing runs nothing, and what it lists can be trusted. Every recipe it returns either has no command and is
  blocked, or has the command of its identifier, in one of the three forms above, for the tree or the recipe file it saw; a recipe marked as allowed is backed by the
  policy it read and the availability it was told; and when the paths of the tree are canonical no two recipes share an
  identifier, so that the identifier given to a run names one recipe.
\<close>

theorem listed_verifications_backed:
  "case list_verifications h i s of
     (Inl e, t) \<Rightarrow> asking s t
   | (Inr rs, t) \<Rightarrow> asking s t \<and> listing (li_workspace i) (since s t) rs"
  using list_wp [of h i s] by (simp add: wp_def split: prod.splits sum.splits)

end
