(* ===== verification/Spec2Isabelle.thy ===== *)
theory Spec2Isabelle
  imports Frame_Codec Profiles Trust_Store Checkpoint_Store Patch Artifacts Audit_Reader
    Workspace_Isolation Kernel_Client Http_Gate Preview_Manager Visual_Png
    Dev_Env_Store Provider_Operator Verification
begin

text \<open>
  Verification library of kodeGPT, a local MCP server that gives a remote coding agent bounded
  access to workspaces of a user. The TypeScript host (\<open>packages/\<close>, \<open>apps/cli\<close>) keeps the trust
  decisions and the state of open workspaces and talks over a framed pipe to a kernel process
  (\<open>crates/\<close>), which owns every effect on files, processes and Git. The library models the host:
  what it decides, stores, accepts from the network and from the kernel, and sends.

  \<^bold>\<open>Foundations.\<close> \<open>Prelude\<close> has results (\<^typ>\<open>'e + 'a\<close>, \<open>Inl\<close> for a thrown error), the list
  functions of JavaScript and \<open>Map\<close> objects as association lists in insertion order, and the
  collections \<open>result_simps\<close>, \<open>inv_intros\<close> and \<open>throws_intros\<close>. \<open>Js_String\<close> and \<open>Utf8\<close> model
  strings as lists of UTF-16 units and their encoding; \<open>Json\<close> the values of \<open>JSON\<close>, the typed reads of
  an \<open>unknown\<close> and \<open>JSON.stringify\<close>; \<open>Timestamps\<close> the texts of \<open>toISOString\<close>; \<open>Base64\<close> the canonical
  base64 decoder. \<open>Effects\<close> has asynchronous functions run to their end as state-passing actions
  (\<open>act_simps\<close>), their postconditions \<open>wp\<close> (\<open>wp_intros\<close>) and the locale \<open>run_relation\<close> for a relation
  that every action of a program preserves. \<open>Document_Store\<close> has the write-and-rename state file and
  the locales \<open>document_printer\<close>, \<open>document_codec\<close> and \<open>document_store\<close>, which the trust store, the
  checkpoint store, the connector credential, the environment registry and the provider registry interpret.

  \<^bold>\<open>Kernel connection.\<close> \<open>Frame_Codec\<close> (\<open>packages/protocol/src/frame.ts\<close>): the encoder, and the decoder
  with its state between two chunks; its loop is a \<open>partial_function (option)\<close>, the lemma
  \<open>push_terminates\<close> shows that it returns in every state a call can leave behind. The theorems say that it
  behaves as a byte-at-a-time machine, inverts the encoder under any fragmentation and needs bounded
  memory. \<open>Kernel_Client\<close> (\<open>packages/core/src/kernel-client.ts\<close>): the multiplexer above it; each
  callback of the source is one event, events come in any order, and the client refines an abstract
  collection of promises (\<open>promise_step\<close>). \<open>Kernel_Rpc\<close> is the request interface the stores and
  managers see; the kernel is an argument, and logging it is how statements about requests are made.

  \<^bold>\<open>Authority.\<close> \<open>Profiles\<close> (\<open>packages/profiles/src\<close>): presets and restriction; the locale \<open>authority\<close>
  states what a narrowing operation promises and is interpreted on \<open>resolve_profile\<close>. \<open>Trust_Store\<close>
  (\<open>packages/trust/src/workspace-trust-store.ts\<close>): trusted roots bound to a filesystem identity, with
  the histories of the file as the inductive set \<open>trust_history\<close>. \<open>Connector_Auth\<close>
  (\<open>packages/auth/src/credential-store.ts\<close>, \<open>bearer-auth.ts\<close>): the token of the HTTP connector, from its
  rotation to the check of a header. \<open>Http_Gate\<close> (\<open>packages/auth/src/http-trust.ts\<close>,
  \<open>packages/mcp-server/src/http.ts\<close>): the checks of a request and the handler, whose theorem composes
  configuration, rotation, body limit and authentication.

  \<^bold>\<open>Workspaces\<close> (\<open>packages/core/src/workspace-manager.ts\<close>). \<open>Kernel_Payloads\<close>: the validators of what
  the kernel replies. \<open>Workspace_Manager\<close>: the state (\<open>workspaces\<close>, the \<open>Map\<close> of the class, beside the
  world of kernel and stores) and the methods that open, trust, untrust and close.
  \<open>Workspace_Calls\<close>: the 35 requests of a READY workspace. \<open>Workspace_Lifecycle\<close>: outcomes of the methods
  on every path, the invariant of the manager over the runs \<open>manager_run\<close>, and the order of audit
  records and effects. \<open>Workspace_Isolation\<close>: every request goes out under the capability of its own
  workspace, and calls that are not about the map leave it alone (\<open>same_map\<close>, an interpretation of
  \<open>run_relation\<close>). \<open>Checkpoint_Store\<close> (\<open>workspace-checkpoint-store.ts\<close>): the continuity documents with
  their limits, compare-and-set revisions and histories. \<open>Preview_Manager\<close>
  (\<open>preview-manager.ts\<close>): \<open>start\<close> and \<open>stop\<close> cut at their awaits and interleaved in any order, the
  slots they hold, and the loop that waits for a server. \<open>Dev_Env_Store\<close>
  (\<open>developer-environment-store.ts\<close>): the registry of toolchain directories the sandboxes may mount,
  with the checks of a directory and the 64-bit device numbers it is recognised by. A registry whose
  entries are not \<open>settled\<close> cannot be read again, so this store has a printer and no codec.

  \<^bold>\<open>Content.\<close> \<open>Patch\<close> (\<open>packages/capabilities/src/patch.ts\<close>): unified diffs, parsed, preflighted,
  applied and committed. \<open>Artifacts\<close> (\<open>packages/artifacts/src/artifact-store.ts\<close>): paged reads of stored
  output. \<open>Audit_Reader\<close> (\<open>packages/audit/src/audit-reader.ts\<close>): the recent events of the audit log.
  \<open>Visual_Png\<close> (\<open>packages/core/src/visual-png.ts\<close>): the screenshot decoder against the filters of the
  PNG specification, and the comparison of two images. \<open>Verification_Config\<close> and \<open>Verification\<close>
  (\<open>verification-config.ts\<close>, \<open>verification.ts\<close>): which checks a workspace offers and the run of one; the state
  \<open>verifier\<close> has a log of what was asked, and what is run is justified from that log.

  \<^bold>\<open>Provider gateway\<close> (\<open>packages/capabilities/src/provider-gateway\<close>). \<open>Provider_Address\<close>
  (\<open>network-policy.ts\<close>): which resolved addresses may be connected to, down to the text of an address.
  \<open>Provider_Adapter\<close> (\<open>adapter-registry.ts\<close>): the compilation of adapter manifests. \<open>Provider_Output\<close>
  and \<open>Provider_Inventory\<close> (\<open>output.ts\<close>, \<open>inventory.ts\<close>): the normal forms of answers and of tool
  inventories. \<open>Provider_Identity\<close> (\<open>identity.ts\<close>, \<open>credential-broker.ts\<close>): the pinned credential
  helper. \<open>Provider_Transport\<close> (\<open>lifecycle.ts\<close>, \<open>network-transport.ts\<close>): the budget of an operation and
  its HTTPS requests. \<open>Provider_Gateway\<close> (\<open>service.ts\<close>): \<open>execute\<close>. The state \<open>gateway\<close> is the world,
  the budget and a log of audits, requests and answers; the relation \<open>traced\<close> says what a part of a run
  added to the log, and the theorems that every request is authorised, that a mutation is sent once
  and never looks like a clean failure, and that every decision is settled, are read off the log.
  \<open>Provider_Registry\<close> (\<open>registry.ts\<close>): the file of admitted providers, which refines a partial map
  (\<open>map_step\<close>) also when a write fails. \<open>Provider_Operator\<close> (\<open>operator-service.ts\<close>): the commands that
  change it, over that map: each takes its effect between two audits or is rolled back.

  \<^bold>\<open>Arguments of the model.\<close> \<open>JSON.parse\<close> (a function to an optional value; round trips assume that it
  inverts \<open>JSON.stringify\<close> on the values at hand), SHA-256 (32 bytes, and no second preimage of the
  issued secret where authentication is stated), \<open>localeCompare\<close>, the URL parser, \<open>toLowerCase\<close> of
  hosts, \<open>inflateSync\<close>, \<open>String.normalize\<close>, DNS, the events of an HTTPS connection and of a helper
  process, random identifiers, clocks, and the kernel, the file system and the process
  adapters as functions on a state of any type. No theorem assumes more of them than its premises.

  \<^bold>\<open>Bounds.\<close> There is no fuel: loops are structural, or have a termination proof (\<open>wait_loop\<close> by the
  time left, \<open>read_chunks\<close> by the bytes left), or are the decoder's loop above. Numbers of the sources are
  integers, with the tests for safe integers kept where the sources make them; bytes are numbers below
  256 and the arithmetic modulo 256 of the PNG filters is written out.

  \<^bold>\<open>Not modelled.\<close> The kernel (\<open>crates/\<close>, Rust) and generated schemas; \<open>apps/cli\<close> and the scripts, which
  start processes and edit service files; the MCP tool registry, the discovery and the console of
  \<open>packages/mcp-server\<close> and \<open>packages/dev-console\<close>; the browser manager and the Playwright driver; the
  remaining capabilities (\<open>code-search\<close>, \<open>context-build\<close>, \<open>remote-ci\<close>, the
  GitHub manifests of the provider gateway, and others), \<open>packages/skills\<close>, which
  are open work. Of the
  modelled parts: spawning the kernel process, interleaving of \<open>WorkspaceManager\<close> calls at their awaits
  (each method runs to its end), error messages, and the floating-point ratio of an image comparison.
\<close>

end
